(* ===== verification/Prelude.thy ===== *)
theory Prelude
  imports Main "HOL-Library.Multiset" "HOL-Library.AList" "HOL-Library.Product_Lexorder"
begin

text \<open>
  What the components share: instants and durations, Python dictionaries as
  insertion-ordered association lists, and the two places where a Python list
  operation differs from its HOL counterpart (slicing with a negative bound).

  A Python \<open>dict\<close> keeps its keys in insertion order, and assigning to an existing key
  keeps that key's place. That is \<open>AList.update\<close>; \<open>d.pop(k, None)\<close> is
  \<open>AList.delete\<close>, \<open>d.get(k)\<close> is \<open>map_of\<close>. A dictionary built by these
  operations has distinct keys (\<open>dict_wf\<close>).

  An instant is a whole number of microseconds, the resolution of Python's
  \<open>datetime\<close>, and a duration likewise. The code keeps an instant as its ISO-8601
  text in UTC and compares the texts; all texts come from \<open>utc_now_iso\<close> and
  \<open>iso_plus_seconds\<close> (himmy/core/ids.py), which call \<open>isoformat\<close> on a UTC
  \<open>datetime\<close>: date and time have fixed width, the fraction has six digits or is
  left out when it is zero, and the offset is always "+00:00". As '+' sorts before '.', and
  the text without a fraction is the earliest of its second, comparing the texts compares
  the instants.
\<close>

named_theorems dict_simps "rewriting of dictionary lookups, keys and values"
named_theorems wf_intros "well-formedness of a dictionary after an operation"

type_synonym ('k, 'v) dict = "('k \<times> 'v) list"
type_synonym instant = int
type_synonym duration = int

abbreviation dict_wf :: "('k, 'v) dict \<Rightarrow> bool" where
  "dict_wf d \<equiv> distinct (map fst d)"

abbreviation dict_values :: "('k, 'v) dict \<Rightarrow> 'v list" where
  "dict_values d \<equiv> map snd d"

text \<open>\<open>d.setdefault(k, v)\<close>: the first writer wins.\<close>

definition dict_setdefault :: "'k \<Rightarrow> 'v \<Rightarrow> ('k, 'v) dict \<Rightarrow> ('k, 'v) dict" where
  "dict_setdefault k v d = (case map_of d k of None \<Rightarrow> AList.update k v d | Some _ \<Rightarrow> d)"

text \<open>\<open>for k in ks: d.pop(k, None)\<close>.\<close>

definition dict_pop_all :: "'k list \<Rightarrow> ('k, 'v) dict \<Rightarrow> ('k, 'v) dict" where
  "dict_pop_all ks d = fold AList.delete ks d"

text \<open>
  Python's \<open>xs[:n]\<close>: a negative bound counts from the end of the list.
\<close>

definition py_take :: "int \<Rightarrow> 'a list \<Rightarrow> 'a list" where
  "py_take n xs = (if 0 \<le> n then take (nat n) xs else take (nat (int (length xs) + n)) xs)"

text \<open>A sequence of operations, each on the state the previous one left.\<close>

fun thread_state :: "('a \<Rightarrow> 's \<Rightarrow> 'b \<times> 's) \<Rightarrow> 'a list \<Rightarrow> 's \<Rightarrow> 'b list \<times> 's" where
  "thread_state f [] s = ([], s)"
| "thread_state f (x # xs) s =
     (case f x s of (y, s') \<Rightarrow> (case thread_state f xs s' of (ys, s'') \<Rightarrow> (y # ys, s'')))"

lemma thread_state_Cons [simp]:
  "fst (thread_state f (x # xs) s) = fst (f x s) # fst (thread_state f xs (snd (f x s)))"
  "snd (thread_state f (x # xs) s) = snd (thread_state f xs (snd (f x s)))"
  by (simp_all add: case_prod_unfold)

declare thread_state.simps(2) [simp del]

section \<open>Dictionaries\<close>

lemma dict_get_update [dict_simps, simp]:
  "map_of (AList.update k v d) k' = (if k' = k then Some v else map_of d k')"
  by (simp add: update_conv')

lemma dict_wf_update [wf_intros, simp]: "dict_wf d \<Longrightarrow> dict_wf (AList.update k v d)"
  by (rule distinct_update)

lemma dict_wf_delete [wf_intros, simp]: "dict_wf d \<Longrightarrow> dict_wf (AList.delete k d)"
  by (rule distinct_delete)

lemma dict_get_delete [dict_simps]:
  "map_of (AList.delete k d) k' = (if k' = k then None else map_of d k')"
  by (simp add: delete_conv')

lemma dict_delete_filter: "AList.delete k d = filter (\<lambda>(k', _). k' \<noteq> k) d"
  by (induction d) auto

lemma dict_get_setdefault [dict_simps]:
  "map_of (dict_setdefault k v d) k' =
     (if k' = k \<and> map_of d k = None then Some v else map_of d k')"
  by (auto simp: dict_setdefault_def split: option.splits)

lemma dict_wf_setdefault [wf_intros, simp]: "dict_wf d \<Longrightarrow> dict_wf (dict_setdefault k v d)"
  by (simp add: dict_setdefault_def split: option.splits)

lemma dict_pop_all_simps [simp]:
  "dict_pop_all [] d = d"
  "dict_pop_all (k # ks) d = dict_pop_all ks (AList.delete k d)"
  by (simp_all add: dict_pop_all_def)

lemma dict_pop_all_filter: "dict_pop_all ks d = filter (\<lambda>(k, _). k \<notin> set ks) d"
  by (induction ks arbitrary: d) (auto simp: dict_delete_filter case_prod_unfold intro: filter_cong)

lemma dict_wf_pop_all [wf_intros, simp]: "dict_wf d \<Longrightarrow> dict_wf (dict_pop_all ks d)"
  by (induction ks arbitrary: d) simp_all

lemma dict_get_pop_all [dict_simps]:
  "map_of (dict_pop_all ks d) k = (if k \<in> set ks then None else map_of d k)"
  by (induction ks arbitrary: d) (auto simp: dict_get_delete)

lemma pop_all_filtered:
  assumes "dict_wf d"
  shows "dict_pop_all (map fst (filter P d)) d = filter (\<lambda>p. \<not> P p) d"
  unfolding dict_pop_all_filter
proof (rule filter_cong [OF refl])
  fix p
  assume "p \<in> set d"
  with assms have "fst p \<in> fst ` set (filter P d) \<longleftrightarrow> P p"
    by (cases p) (auto simp: image_iff dest: eq_key_imp_eq_value)
  then show "(case p of (k, _) \<Rightarrow> k \<notin> set (map fst (filter P d))) = (\<not> P p)"
    by (simp add: case_prod_unfold)
qed

lemma dict_wf_filter [wf_intros]: "dict_wf d \<Longrightarrow> dict_wf (filter P d)"
  by (simp add: distinct_map_filter)

lemma dict_get_filter:
  "dict_wf d \<Longrightarrow> map_of (filter P d) k =
     (case map_of d k of None \<Rightarrow> None | Some v \<Rightarrow> if P (k, v) then Some v else None)"
  by (induction d) (auto split: option.splits simp: map_of_eq_None_iff rev_image_eqI)

lemma dict_get_iff: "dict_wf d \<Longrightarrow> map_of d k = Some v \<longleftrightarrow> (k, v) \<in> set d"
  by (rule map_of_eq_Some_iff)

lemma update_fresh: "map_of d k = None \<Longrightarrow> AList.update k v d = d @ [(k, v)]"
  by (induction d) (auto split: if_splits)

lemma set_update_wf:
  "dict_wf d \<Longrightarrow> set (AList.update k v d) = insert (k, v) {p \<in> set d. fst p \<noteq> k}"
  by (induction d) (auto simp: rev_image_eqI)

lemma update_map_values:
  "dict_wf d \<Longrightarrow> map_of d k = Some v \<Longrightarrow>
   AList.update k w d = map (\<lambda>(k', v'). (k', if k' = k then w else v')) d"
proof (induction d)
  case Nil
  then show ?case by simp
next
  case (Cons p d)
  show ?case
  proof (cases "fst p = k")
    case True
    with Cons.prems have "map (\<lambda>(k', v'). (k', if k' = k then w else v')) d = d"
      by (intro map_idI) (auto simp: rev_image_eqI split: prod.splits)
    with True show ?thesis by (simp add: case_prod_unfold)
  next
    case False
    with Cons show ?thesis by (auto simp: case_prod_unfold)
  qed
qed

lemma dict_map_values_fst [simp]: "fst \<circ> (\<lambda>(k, v). (k, f k v)) = fst"
  by (simp add: fun_eq_iff)

lemma dict_get_map_values [dict_simps]:
  "map_of (map (\<lambda>(k, v). (k, f k v)) d) k = map_option (f k) (map_of d k)"
  by (induction d) auto

text \<open>A filter that rejects the new entry sees an update as a removal.\<close>

lemma filter_update_drop:
  assumes "dict_wf d" and "\<not> P (k, v)"
  shows "filter P (AList.update k v d) = filter (\<lambda>p. P p \<and> fst p \<noteq> k) d"
  using assms(1)
proof (induction d)
  case Nil
  with assms(2) show ?case by simp
next
  case (Cons p d)
  then have "filter (\<lambda>q. P q \<and> fst q \<noteq> k) d = filter P d" if "fst p = k"
    using that by (intro filter_cong) (auto simp: rev_image_eqI)
  with Cons assms(2) show ?case by auto
qed

section \<open>Slices, counting and stable sorting\<close>

lemma length_py_take:
  "length (py_take n xs) =
     (if 0 \<le> n then min (nat n) (length xs) else nat (int (length xs) + n))"
  by (auto simp: py_take_def)

lemma set_py_take: "set (py_take n xs) \<subseteq> set xs"
  by (auto simp: py_take_def dest: in_set_takeD)

lemma hd_sort_key_min:
  assumes "xs \<noteq> []" and "x \<in> set xs"
  shows "f (hd (sort_key f xs)) \<le> f x"
proof -
  have "sorted (map f (sort_key f xs))" by simp
  moreover from assms have "sort_key f xs \<noteq> []"
    by (metis length_0_conv length_sort)
  moreover have "x \<in> set (sort_key f xs)" using assms by simp
  ultimately show ?thesis
    by (cases "sort_key f xs") auto
qed

lemma hd_sort_key_mem: "xs \<noteq> [] \<Longrightarrow> hd (sort_key f xs) \<in> set xs"
  by (metis hd_in_set length_0_conv length_sort set_sort)

lemma map_insort_key: "map g (insort_key (\<lambda>x. f (g x)) x xs) = insort_key f (g x) (map g xs)"
  by (induction xs) auto

lemma map_sort_key: "map g (sort_key (\<lambda>x. f (g x)) xs) = sort_key f (map g xs)"
  by (induction xs) (simp_all add: map_insort_key)

lemma dict_wf_sort_key [wf_intros]: "dict_wf d \<Longrightarrow> dict_wf (sort_key f d)"
  by (metis mset_eq_imp_distinct_iff mset_map mset_sort)

lemma sort_key_take_drop_le:
  assumes "x \<in> set (take m (sort_key f xs))" and "y \<in> set (drop m (sort_key f xs))"
  shows "f x \<le> f y"
proof -
  have "sorted (map f (take m (sort_key f xs)) @ map f (drop m (sort_key f xs)))"
    by (simp flip: map_append)
  with assms show ?thesis by (auto simp: sorted_append)
qed

lemma length_filter_update_le:
  "dict_wf d \<Longrightarrow>
   length (filter P (AList.update k v d)) \<le> Suc (length (filter P d))"
  by (induction d) auto

end
