(* ===== verification/Json.thy ===== *)
theory Json
  imports Prelude
begin

text \<open>
  The values of the open \<open>dict[str, Any]\<close> fields (\<open>payload\<close>, \<open>metadata\<close>,
  \<open>output_structured\<close>): JSON documents. An object is an insertion-ordered dictionary.
  Strings are lists of code points up to 255 and numbers are integers; floating-point
  values are outside the model.
\<close>

datatype json =
    JNull
  | JBool bool
  | JInt int
  | JStr string
  | JList "json list"
  | JObj "(string \<times> json) list"

type_synonym json_dict = "(string \<times> json) list"

text \<open>
  Python's \<open>==\<close> on such values: dictionaries are compared as key/value sets, and a
  \<open>bool\<close> equals the integer 0 or 1.
\<close>

fun json_eq :: "json \<Rightarrow> json \<Rightarrow> bool"
  and json_list_eq :: "json list \<Rightarrow> json list \<Rightarrow> bool" where
  "json_eq JNull JNull = True"
| "json_eq (JBool a) (JBool b) = (a = b)"
| "json_eq (JBool a) (JInt n) = (n = (if a then 1 else 0))"
| "json_eq (JInt n) (JBool a) = (n = (if a then 1 else 0))"
| "json_eq (JInt m) (JInt n) = (m = n)"
| "json_eq (JStr s) (JStr t) = (s = t)"
| "json_eq (JList xs) (JList ys) = json_list_eq xs ys"
| "json_eq (JObj a) (JObj b) =
     (length a = length b \<and>
      list_all (\<lambda>(k, v). list_ex (\<lambda>(k', w). k = k' \<and> json_eq v w) b) a)"
| "json_eq _ _ = False"
| "json_list_eq [] [] = True"
| "json_list_eq (x # xs) (y # ys) = (json_eq x y \<and> json_list_eq xs ys)"
| "json_list_eq _ _ = False"

definition dict_eq :: "json_dict \<Rightarrow> json_dict \<Rightarrow> bool" where
  "dict_eq a b = json_eq (JObj a) (JObj b)"

lemma json_list_eq_iff: "json_list_eq xs ys \<longleftrightarrow> list_all2 json_eq xs ys"
  by (induction xs ys rule: list_induct2') auto

lemma json_eq_refl [simp]: "json_eq v v"
proof (induction v)
  case (JList xs)
  then show ?case by (auto simp: json_list_eq_iff list_all2_refl intro: list.rel_refl_strong)
next
  case (JObj d)
  then show ?case by (fastforce simp: list_all_iff list_ex_iff)
qed simp_all

lemma dict_eq_refl [simp]: "dict_eq d d"
  by (simp add: dict_eq_def del: json_eq.simps)

end
