(* ===== verification/StorageModels.thy ===== *)
theory StorageModels
  imports Json
begin

text \<open>
  The persisted record types of himmy/services/storage/models.py and the run events of
  himmy/core/events.py: one \<open>record\<close> per Pydantic model, with its fields in order,
  and one \<open>datatype\<close> per enum. Field names that several models share carry a prefix.
\<close>

datatype run_status =
    QUEUED | RUNNING | AWAITING_APPROVAL | RESOLVING | SUCCEEDED | FAILED | PARKED

definition ACTIVE_RUN_STATUSES :: "run_status list" where
  "ACTIVE_RUN_STATUSES = [QUEUED, RUNNING, AWAITING_APPROVAL, RESOLVING]"

definition LOCAL_WORKSPACE :: string where
  "LOCAL_WORKSPACE = ''__local__''"

datatype recommendation_status = PROPOSED | ACCEPTED | DISMISSED | SCHEDULED

record run_record =
  run_id :: string
  workspace_id :: string
  subject_id :: string
  task_id :: "string option"
  thread_id :: "string option"
  snapshot_id :: "string option"
  persona_name :: "string option"
  model_key :: "string option"
  idempotency_key :: "string option"
  status :: run_status
  output_text :: "string option"
  output_structured :: json
  error :: "string option"
  trace_id :: "string option"
  metadata :: json_dict
  created_at :: instant
  updated_at :: instant
  owner_id :: "string option"
  lease_expires_at :: "instant option"
  heartbeat_at :: "instant option"
  attempt :: int
  max_attempts :: int
  next_attempt_at :: "instant option"
  last_error :: "string option"
  lane_key :: "string option"
  input_blob :: "string option"

text \<open>A record with only the required fields given; the rest are the model's defaults.\<close>

definition new_run :: "string \<Rightarrow> string \<Rightarrow> string \<Rightarrow> instant \<Rightarrow> run_record" where
  "new_run rid ws sub now = \<lparr>
     run_id = rid, workspace_id = ws, subject_id = sub, task_id = None, thread_id = None,
     snapshot_id = None, persona_name = None, model_key = None, idempotency_key = None,
     status = QUEUED, output_text = None, output_structured = JNull, error = None,
     trace_id = None, metadata = [], created_at = now, updated_at = now, owner_id = None,
     lease_expires_at = None, heartbeat_at = None, attempt = 0, max_attempts = 1,
     next_attempt_at = None, last_error = None, lane_key = None, input_blob = None\<rparr>"

record recommendation_item =
  rec_id :: string
  rec_run_id :: string
  rec_workspace_id :: string
  rec_subject_id :: string
  rec_kind :: string
  rec_title :: string
  rec_summary :: string
  rec_rationale :: string
  rec_evidence_refs :: "string list"
  rec_status :: recommendation_status
  rec_notes :: "string option"
  rec_metadata :: json_dict
  rec_created_at :: instant

record memory_object =
  memory_id :: string
  mem_subject_id :: "string option"
  mem_agent_id :: "string option"
  mem_payload :: json_dict
  mem_metadata :: json_dict
  mem_created_at :: instant

record episodic_memory_object =
  episode_id :: string
  epi_subject_id :: "string option"
  epi_agent_id :: "string option"
  epi_payload :: json_dict
  epi_metadata :: json_dict
  epi_created_at :: instant

text \<open>
  \<open>AgentStateRecord\<close>, \<open>ActionRecord\<close> and \<open>EnvironmentStateRecord\<close> have the same
  shape: an id, an optional agent, an environment name, a round and open payloads. The
  environment record has no agent.
\<close>

record world_record =
  world_id :: string
  world_agent_id :: "string option"
  environment_name :: "string option"
  world_round :: "int option"
  world_payload :: json_dict
  world_metadata :: json_dict
  world_created_at :: instant

record agent_def_record =
  agent_id :: string
  def_workspace_id :: string
  def_name :: string
  def_description :: string
  def_spec :: json_dict
  def_idempotency_key :: "string option"
  def_metadata :: json_dict
  def_created_at :: instant
  def_updated_at :: instant

datatype event_type =
    AGENT_RUN_STARTED | AGENT_RUN_FINISHED | AGENT_TURN_STARTED | AGENT_TURN_COMPLETED
  | APPROVAL_REQUIRED | APPROVAL_GRANTED | APPROVAL_REJECTED
  | INFERENCE_REQUESTED | INFERENCE_SUCCEEDED | INFERENCE_FAILED
  | TOOL_CALLED | TOOL_COMPLETED | TOOL_FAILED
  | CONTEXT_SNAPSHOT_BUILT | CONTEXT_COMPACTED | GUARDRAIL_APPLIED
  | WORKFLOW_STARTED | WORKFLOW_STEP_COMPLETED | WORKFLOW_FINISHED
  | AGENT_HANDOFF | AGENT_DELEGATED
  | GROUP_CHAT_STARTED | GROUP_SPEAKER_SELECTED | GROUP_SPEAKER_SPOKE | GROUP_CHAT_FINISHED
  | FANOUT_STARTED | FANOUT_WORKER_COMPLETED | FANOUT_JOINED
  | MEMORY_REMEMBERED | MEMORY_RECALLED | MEMORY_CONSOLIDATED
  | GRAPH_STARTED | GRAPH_NODE_STARTED | GRAPH_NODE_COMPLETED | GRAPH_EDGE_TAKEN
  | GRAPH_CHECKPOINTED | GRAPH_FINISHED
  | TYPED_OUTPUT_VALIDATED | TYPED_OUTPUT_REPAIRED
  | LEARNING_APPLIED | OUTCOME_SCORED

record run_event =
  event_id :: string
  ev_type :: event_type
  ev_trace_id :: "string option"
  ev_thread_id :: "string option"
  ev_agent_id :: "string option"
  ev_workspace_id :: "string option"
  ev_request_id :: "string option"
  ev_tool_call_id :: "string option"
  ev_payload :: json_dict
  ev_error :: "string option"
  ev_timestamp :: instant

end
