(* ===== verification/RunStore.thy ===== *)
theory RunStore
  imports StorageModels
begin

text \<open>
  \<open>InMemoryRunStore\<close> (himmy/services/storage/inmemory.py): run records with an
  idempotency index and the leased work queue over them. The state holds the two
  dictionaries of \<open>__init__\<close>; each method is a function from the state to the result
  and the new state. \<open>utc_now_iso()\<close> is the argument \<open>now\<close>. A method that mutates
  the stored record in place stores the changed record under the same key.
\<close>

record run_store =
  rs_runs :: "(string, run_record) dict"
  rs_by_idempotency :: "(string \<times> string, string) dict"

definition empty_run_store :: run_store where
  "empty_run_store = \<lparr>rs_runs = [], rs_by_idempotency = []\<rparr>"

definition is_active :: "run_record \<Rightarrow> bool" where
  "is_active r \<longleftrightarrow> status r \<in> set ACTIVE_RUN_STATUSES"

definition index_idempotency :: "run_record \<Rightarrow> run_store \<Rightarrow> run_store" where
  "index_idempotency run st =
     (case idempotency_key run of
        None \<Rightarrow> st
      | Some k \<Rightarrow> st\<lparr>rs_by_idempotency :=
          dict_setdefault (workspace_id run, k) (run_id run) (rs_by_idempotency st)\<rparr>)"

text \<open>\<open>self._runs[run.run_id] = run\<close>.\<close>

definition put_run :: "run_record \<Rightarrow> run_store \<Rightarrow> run_store" where
  "put_run run st = st\<lparr>rs_runs := AList.update (run_id run) run (rs_runs st)\<rparr>"

definition save_run :: "instant \<Rightarrow> run_record \<Rightarrow> run_store \<Rightarrow> run_record \<times> run_store" where
  "save_run now run st =
     (let run' = run\<lparr>updated_at := now\<rparr>
      in (run', put_run run' (index_idempotency run' st)))"

text \<open>The lookup both conditional inserts start with.\<close>

definition existing_for_key :: "run_record \<Rightarrow> run_store \<Rightarrow> run_record option" where
  "existing_for_key run st =
     (case idempotency_key run of
        None \<Rightarrow> None
      | Some k \<Rightarrow>
          (case map_of (rs_by_idempotency st) (workspace_id run, k) of
             None \<Rightarrow> None
           | Some existing_id \<Rightarrow> map_of (rs_runs st) existing_id))"

definition save_run_if_absent_by_idempotency ::
  "instant \<Rightarrow> run_record \<Rightarrow> run_store \<Rightarrow> (run_record \<times> bool) \<times> run_store" where
  "save_run_if_absent_by_idempotency now run st =
     (case existing_for_key run st of
        Some existing \<Rightarrow> ((existing, False), st)
      | None \<Rightarrow> (let (run', st') = save_run now run st in ((run', True), st')))"

definition count_active_runs_for_workspace :: "string \<Rightarrow> run_store \<Rightarrow> nat" where
  "count_active_runs_for_workspace ws st =
     length (filter (\<lambda>r. workspace_id r = ws \<and> is_active r) (dict_values (rs_runs st)))"

definition save_run_if_under_quota ::
  "instant \<Rightarrow> int \<Rightarrow> run_record \<Rightarrow> run_store \<Rightarrow> (run_record \<times> bool) \<times> run_store" where
  "save_run_if_under_quota now cap run st =
     (case existing_for_key run st of
        Some existing \<Rightarrow> ((existing, True), st)
      | None \<Rightarrow>
          if 0 < cap \<and> cap \<le> int (count_active_runs_for_workspace (workspace_id run) st)
          then ((run, False), st)
          else (let (run', st') = save_run now run st in ((run', True), st')))"

definition claim_run_for_resume ::
  "instant \<Rightarrow> string \<Rightarrow> string \<Rightarrow> run_store \<Rightarrow> bool \<times> run_store" where
  "claim_run_for_resume now rid ws st =
     (case map_of (rs_runs st) rid of
        None \<Rightarrow> (False, st)
      | Some run \<Rightarrow>
          if workspace_id run \<noteq> ws \<or> status run \<noteq> AWAITING_APPROVAL then (False, st)
          else (True, st\<lparr>rs_runs :=
                  AList.update rid (run\<lparr>status := RESOLVING, updated_at := now\<rparr>) (rs_runs st)\<rparr>))"

text \<open>
  The claim. \<open>lanes\<close> is \<open>None\<close> for every lane; a run matches when its \<open>lane_key\<close>
  is one of them.
\<close>

definition lane_matches :: "string list option \<Rightarrow> run_record \<Rightarrow> bool" where
  "lane_matches lanes r =
     (case lanes of
        None \<Rightarrow> True
      | Some ls \<Rightarrow> (case lane_key r of None \<Rightarrow> False | Some l \<Rightarrow> l \<in> set ls))"

definition is_ready :: "instant \<Rightarrow> string list option \<Rightarrow> run_record \<Rightarrow> bool" where
  "is_ready now lanes r \<longleftrightarrow>
     status r = QUEUED
     \<and> (case next_attempt_at r of None \<Rightarrow> True | Some t \<Rightarrow> t \<le> now)
     \<and> lane_matches lanes r"

definition live_leased :: "instant \<Rightarrow> run_record \<Rightarrow> bool" where
  "live_leased now r \<longleftrightarrow>
     status r = RUNNING \<and> (case lease_expires_at r of None \<Rightarrow> True | Some t \<Rightarrow> now < t)"

definition workspace_load :: "instant \<Rightarrow> run_store \<Rightarrow> string \<Rightarrow> nat" where
  "workspace_load now st ws =
     length (filter (\<lambda>r. workspace_id r = ws \<and> live_leased now r) (dict_values (rs_runs st)))"

definition due_key :: "run_record \<Rightarrow> instant \<times> instant" where
  "due_key r = ((case next_attempt_at r of None \<Rightarrow> created_at r | Some t \<Rightarrow> t), created_at r)"

definition claim_stamp :: "instant \<Rightarrow> string \<Rightarrow> duration \<Rightarrow> run_record \<Rightarrow> run_record" where
  "claim_stamp now owner lease r =
     r\<lparr>status := RUNNING, owner_id := Some owner, lease_expires_at := Some (now + lease),
       heartbeat_at := Some now, attempt := attempt r + 1, updated_at := now\<rparr>"

text \<open>The candidates in the order the claim considers them; it takes the first.\<close>

definition claim_candidates ::
  "instant \<Rightarrow> string list option \<Rightarrow> bool \<Rightarrow> int \<Rightarrow> run_store \<Rightarrow> (string \<times> run_record) list" where
  "claim_candidates now lanes fairness wsconc st =
     (let ready = filter (\<lambda>(_, r). is_ready now lanes r) (rs_runs st);
          load = workspace_load now st
      in if fairness
         then sort_key (\<lambda>(_, r). (load (workspace_id r), due_key r))
                (if 0 < wsconc
                 then filter (\<lambda>(_, r). int (load (workspace_id r)) < wsconc) ready
                 else ready)
         else sort_key (\<lambda>(_, r). due_key r) ready)"

definition claim_next_queued_run ::
  "string \<Rightarrow> duration \<Rightarrow> string list option \<Rightarrow> instant \<Rightarrow> bool \<Rightarrow> int \<Rightarrow> run_store
     \<Rightarrow> run_record option \<times> run_store" where
  "claim_next_queued_run owner lease lanes now fairness wsconc st =
     (if lanes = Some [] then (None, st)
      else (case claim_candidates now lanes fairness wsconc st of
              [] \<Rightarrow> (None, st)
            | (rid, r) # _ \<Rightarrow>
                (let r' = claim_stamp now owner lease r
                 in (Some r', st\<lparr>rs_runs := AList.update rid r' (rs_runs st)\<rparr>))))"

definition renew_lease ::
  "string \<Rightarrow> string \<Rightarrow> duration \<Rightarrow> instant \<Rightarrow> run_store \<Rightarrow> bool \<times> run_store" where
  "renew_lease rid owner lease now st =
     (case map_of (rs_runs st) rid of
        None \<Rightarrow> (False, st)
      | Some run \<Rightarrow>
          if owner_id run \<noteq> Some owner \<or> status run \<noteq> RUNNING then (False, st)
          else (True, st\<lparr>rs_runs := AList.update rid
                  (run\<lparr>lease_expires_at := Some (now + lease), heartbeat_at := Some now,
                       updated_at := now\<rparr>) (rs_runs st)\<rparr>))"

definition lease_expired :: "instant \<Rightarrow> string list option \<Rightarrow> run_record \<Rightarrow> bool" where
  "lease_expired now lanes r \<longleftrightarrow>
     status r = RUNNING
     \<and> (case lease_expires_at r of None \<Rightarrow> False | Some t \<Rightarrow> t \<le> now)
     \<and> lane_matches lanes r"

definition requeue_stamp :: "instant \<Rightarrow> run_record \<Rightarrow> run_record" where
  "requeue_stamp now r =
     r\<lparr>status := QUEUED, owner_id := None, lease_expires_at := None,
       next_attempt_at := Some now, updated_at := now\<rparr>"

definition requeue_expired_leases ::
  "instant \<Rightarrow> string list option \<Rightarrow> run_store \<Rightarrow> string list \<times> run_store" where
  "requeue_expired_leases now lanes st =
     (if lanes = Some [] then ([], st)
      else (map run_id (filter (lease_expired now lanes) (dict_values (rs_runs st))),
            st\<lparr>rs_runs := map (\<lambda>(rid, r).
                 (rid, if lease_expired now lanes r then requeue_stamp now r else r)) (rs_runs st)\<rparr>))"

definition redrive_run ::
  "string \<Rightarrow> string option \<Rightarrow> instant \<Rightarrow> run_store \<Rightarrow> bool \<times> run_store" where
  "redrive_run rid ws now st =
     (case map_of (rs_runs st) rid of
        None \<Rightarrow> (False, st)
      | Some run \<Rightarrow>
          if (ws \<noteq> None \<and> ws \<noteq> Some (workspace_id run)) \<or> status run \<notin> {PARKED, FAILED}
          then (False, st)
          else (True, st\<lparr>rs_runs := AList.update rid
                  (run\<lparr>status := QUEUED, attempt := 0, owner_id := None,
                       lease_expires_at := None, last_error := None, error := None,
                       next_attempt_at := Some now, updated_at := now\<rparr>) (rs_runs st)\<rparr>))"

definition get_run :: "string \<Rightarrow> run_store \<Rightarrow> run_record option" where
  "get_run rid st = map_of (rs_runs st) rid"

definition run_filter ::
  "string option \<Rightarrow> string option \<Rightarrow> run_status option \<Rightarrow> run_record \<Rightarrow> bool" where
  "run_filter ws sub stat r \<longleftrightarrow>
     (ws = None \<or> ws = Some (workspace_id r))
     \<and> (sub = None \<or> sub = Some (subject_id r))
     \<and> (stat = None \<or> stat = Some (status r))"

definition list_runs ::
  "string option \<Rightarrow> string option \<Rightarrow> run_status option \<Rightarrow> run_store \<Rightarrow> run_record list" where
  "list_runs ws sub stat st = filter (run_filter ws sub stat) (dict_values (rs_runs st))"

definition count_runs ::
  "string option \<Rightarrow> string option \<Rightarrow> run_status option \<Rightarrow> bool \<Rightarrow> run_store \<Rightarrow> nat" where
  "count_runs ws sub stat exclude_local st =
     length (filter (\<lambda>r. run_filter ws sub stat r
               \<and> \<not> (exclude_local \<and> ws = None \<and> workspace_id r = LOCAL_WORKSPACE))
             (dict_values (rs_runs st)))"

definition load_run_by_idempotency :: "string \<Rightarrow> string \<Rightarrow> run_store \<Rightarrow> run_record option" where
  "load_run_by_idempotency ws key st =
     (case map_of (rs_by_idempotency st) (ws, key) of
        None \<Rightarrow> None
      | Some rid \<Rightarrow> map_of (rs_runs st) rid)"

text \<open>An id that is \<open>None\<close> or the empty string is falsy and skipped.\<close>

definition thread_and_trace_ids_for_subject :: "string \<Rightarrow> run_store \<Rightarrow> string set \<times> string set" where
  "thread_and_trace_ids_for_subject sub st =
     (let mine = filter (\<lambda>r. subject_id r = sub) (dict_values (rs_runs st))
      in ({t. t \<noteq> [] \<and> Some t \<in> thread_id ` set mine},
          {t. t \<noteq> [] \<and> Some t \<in> trace_id ` set mine}))"

definition save_run_if_owner ::
  "instant \<Rightarrow> run_record \<Rightarrow> string \<Rightarrow> run_store \<Rightarrow> bool \<times> run_store" where
  "save_run_if_owner now run owner st =
     (case map_of (rs_runs st) (run_id run) of
        None \<Rightarrow> (False, st)
      | Some existing \<Rightarrow>
          if owner_id existing \<noteq> Some owner then (False, st)
          else (True, snd (save_run now run st)))"

text \<open>\<open>_runs.pop(rid)\<close> together with the idempotency key of the popped run.\<close>

definition pop_run :: "string \<Rightarrow> run_store \<Rightarrow> run_store" where
  "pop_run rid st =
     (case map_of (rs_runs st) rid of
        None \<Rightarrow> st
      | Some run \<Rightarrow>
          \<lparr>rs_runs = AList.delete rid (rs_runs st),
           rs_by_idempotency =
             (case idempotency_key run of
                None \<Rightarrow> rs_by_idempotency st
              | Some k \<Rightarrow> AList.delete (workspace_id run, k) (rs_by_idempotency st))\<rparr>)"

definition delete_by_subject :: "string \<Rightarrow> run_store \<Rightarrow> nat \<times> run_store" where
  "delete_by_subject sub st =
     (let doomed = map fst (filter (\<lambda>(_, r). subject_id r = sub) (rs_runs st))
      in (length doomed, fold pop_run doomed st))"

text \<open>
  \<open>_prune_victims_by_created_at\<close>: the keys that fail either bound. A stored
  \<open>created_at\<close> is the empty string, a text \<open>fromisoformat\<close> rejects, or a date;
  \<open>_parse\<close> sends the first two to the least date.
\<close>

datatype created_text = Blank | Malformed | Dated instant

definition parse_created :: "created_text \<Rightarrow> int \<times> instant" where
  "parse_created raw = (case raw of Dated t \<Rightarrow> (1, t) | _ \<Rightarrow> (0, 0))"

definition prune_victims_by_created_at ::
  "instant \<Rightarrow> ('k \<times> created_text) list \<Rightarrow> duration option \<Rightarrow> int option \<Rightarrow> 'k set" where
  "prune_victims_by_created_at now items older_than keep_last =
     (case older_than of
        None \<Rightarrow> {}
      | Some age \<Rightarrow>
          fst ` set (filter (\<lambda>(_, raw). raw \<noteq> Blank \<and> parse_created raw < (1, now - age)) items))
     \<union> (case keep_last of
          None \<Rightarrow> {}
        | Some n \<Rightarrow>
            (let keep = max n 0;
                 ordered = sort_key (\<lambda>(_, raw). parse_created raw) items;
                 over = (if keep \<noteq> 0 then py_take (int (length ordered) - keep) ordered else ordered)
             in fst ` set over))"

datatype prune_error = ValueError

definition prune_runs ::
  "instant \<Rightarrow> duration option \<Rightarrow> int option \<Rightarrow> run_store \<Rightarrow> prune_error + (nat \<times> run_store)" where
  "prune_runs now older_than keep_last st =
     (if older_than = None \<and> keep_last = None then Inl ValueError
      else
        (let candidates = map (\<lambda>(rid, r). (rid, Dated (created_at r)))
                            (filter (\<lambda>(_, r). \<not> is_active r) (rs_runs st));
             victims = prune_victims_by_created_at now candidates older_than keep_last;
             doomed = filter (\<lambda>rid. rid \<in> victims) (map fst (rs_runs st))
         in Inr (length doomed, fold pop_run doomed st)))"

section \<open>Well-formedness and its preservation\<close>

text \<open>
  Keys are the records' own ids, and the idempotency index holds exactly the keys of the
  stored runs: in particular no two stored runs share a \<open>(workspace, key)\<close> pair.
\<close>

definition indexed :: "run_store \<Rightarrow> bool" where
  "indexed st \<longleftrightarrow>
     (\<forall>ws k rid. map_of (rs_by_idempotency st) (ws, k) = Some rid \<longleftrightarrow>
        (\<exists>r. map_of (rs_runs st) rid = Some r \<and> workspace_id r = ws \<and> idempotency_key r = Some k))"

definition run_store_wf :: "run_store \<Rightarrow> bool" where
  "run_store_wf st \<longleftrightarrow>
     dict_wf (rs_runs st) \<and> dict_wf (rs_by_idempotency st)
     \<and> (\<forall>rid r. map_of (rs_runs st) rid = Some r \<longrightarrow> run_id r = rid)
     \<and> indexed st"

text \<open>
  A caller saves either a new run, whose key no stored run has, or a changed copy of a
  stored one with its workspace and key kept.
\<close>

definition save_admissible :: "run_record \<Rightarrow> run_store \<Rightarrow> bool" where
  "save_admissible run st \<longleftrightarrow>
     (case get_run (run_id run) st of
        None \<Rightarrow> existing_for_key run st = None
      | Some old \<Rightarrow> workspace_id run = workspace_id old \<and> idempotency_key run = idempotency_key old)"

lemma run_store_wfI:
  assumes "dict_wf (rs_runs st)" "dict_wf (rs_by_idempotency st)"
    and "\<And>rid r. map_of (rs_runs st) rid = Some r \<Longrightarrow> run_id r = rid"
    and "indexed st"
  shows "run_store_wf st"
  using assms by (simp add: run_store_wf_def)

lemma run_store_wfD:
  assumes "run_store_wf st"
  shows "dict_wf (rs_runs st)" "dict_wf (rs_by_idempotency st)" "indexed st"
    and "map_of (rs_runs st) rid = Some r \<Longrightarrow> run_id r = rid"
  using assms by (simp_all add: run_store_wf_def)

lemma indexedD:
  assumes "indexed st"
  shows "map_of (rs_by_idempotency st) (ws, k) = Some rid \<longleftrightarrow>
    (\<exists>r. map_of (rs_runs st) rid = Some r \<and> workspace_id r = ws \<and> idempotency_key r = Some k)"
  using assms by (simp add: indexed_def)

lemma indexed_NoneD:
  assumes "indexed st" and "map_of (rs_by_idempotency st) (ws, k) = None"
    and "map_of (rs_runs st) rid = Some r" and "workspace_id r = ws"
  shows "idempotency_key r \<noteq> Some k"
  using assms unfolding indexed_def by (metis option.distinct(1))

lemma empty_run_store_wf [wf_intros]: "run_store_wf empty_run_store"
  by (simp add: run_store_wf_def indexed_def empty_run_store_def)

text \<open>Replacing a stored run by one with the same id, workspace and key.\<close>

lemma update_same_identity_wf [wf_intros]:
  assumes wf: "run_store_wf st" and r: "map_of (rs_runs st) rid = Some r"
    and same: "run_id r' = run_id r" "workspace_id r' = workspace_id r"
      "idempotency_key r' = idempotency_key r"
  shows "run_store_wf (st\<lparr>rs_runs := AList.update rid r' (rs_runs st)\<rparr>)"
proof (rule run_store_wfI)
  show "dict_wf (rs_runs (st\<lparr>rs_runs := AList.update rid r' (rs_runs st)\<rparr>))"
    "dict_wf (rs_by_idempotency (st\<lparr>rs_runs := AList.update rid r' (rs_runs st)\<rparr>))"
    using wf by (simp_all add: run_store_wfD)
  show "run_id ra = i"
    if "map_of (rs_runs (st\<lparr>rs_runs := AList.update rid r' (rs_runs st)\<rparr>)) i = Some ra" for i ra
    using that wf r same by (auto simp: run_store_wfD split: if_splits)
  show "indexed (st\<lparr>rs_runs := AList.update rid r' (rs_runs st)\<rparr>)"
    using run_store_wfD(3) [OF wf] r same by (auto simp: indexed_def)
qed

text \<open>Changing every stored run in place, identities kept.\<close>

lemma map_same_identity_wf [wf_intros]:
  assumes wf: "run_store_wf st"
    and same: "\<And>rid r. run_id (f rid r) = run_id r \<and> workspace_id (f rid r) = workspace_id r
      \<and> idempotency_key (f rid r) = idempotency_key r"
  shows "run_store_wf (st\<lparr>rs_runs := map (\<lambda>(rid, r). (rid, f rid r)) (rs_runs st)\<rparr>)"
proof (rule run_store_wfI)
  show "dict_wf (rs_runs (st\<lparr>rs_runs := map (\<lambda>(rid, r). (rid, f rid r)) (rs_runs st)\<rparr>))"
    "dict_wf (rs_by_idempotency (st\<lparr>rs_runs := map (\<lambda>(rid, r). (rid, f rid r)) (rs_runs st)\<rparr>))"
    using wf by (simp_all add: run_store_wfD)
  show "run_id ra = i"
    if "map_of (rs_runs (st\<lparr>rs_runs := map (\<lambda>(rid, r). (rid, f rid r)) (rs_runs st)\<rparr>)) i = Some ra"
    for i ra
    using that wf same by (auto simp: run_store_wfD dict_get_map_values)
  show "indexed (st\<lparr>rs_runs := map (\<lambda>(rid, r). (rid, f rid r)) (rs_runs st)\<rparr>)"
    using run_store_wfD(3) [OF wf] same by (auto simp: indexed_def dict_get_map_values)
qed

lemma existing_for_key_None:
  assumes "run_store_wf st" and "idempotency_key run = Some k"
  shows "existing_for_key run st = None \<longleftrightarrow>
    map_of (rs_by_idempotency st) (workspace_id run, k) = None"
  using assms run_store_wfD(3) [OF assms(1)]
  by (fastforce simp: existing_for_key_def indexed_def split: option.splits)

lemma index_idempotency_runs [simp]: "rs_runs (index_idempotency run st) = rs_runs st"
  by (simp add: index_idempotency_def split: option.splits)

lemma save_run_simps [simp]:
  "fst (save_run now run st) = run\<lparr>updated_at := now\<rparr>"
  "rs_runs (snd (save_run now run st)) =
     AList.update (run_id run) (run\<lparr>updated_at := now\<rparr>) (rs_runs st)"
  by (simp_all add: save_run_def Let_def put_run_def)

lemma save_run_index:
  "map_of (rs_by_idempotency (snd (save_run now run st))) (ws, k) =
     (if workspace_id run = ws \<and> idempotency_key run = Some k
         \<and> map_of (rs_by_idempotency st) (ws, k) = None
      then Some (run_id run) else map_of (rs_by_idempotency st) (ws, k))"
  by (auto simp: save_run_def Let_def put_run_def index_idempotency_def dict_get_setdefault
           split: option.splits)

lemma save_run_wf [wf_intros]:
  assumes wf: "run_store_wf st" and adm: "save_admissible run st"
  shows "run_store_wf (snd (save_run now run st))"
proof (rule run_store_wfI)
  show "dict_wf (rs_runs (snd (save_run now run st)))"
    using wf by (simp add: run_store_wfD)
  show "dict_wf (rs_by_idempotency (snd (save_run now run st)))"
    using wf by (simp add: save_run_def Let_def put_run_def index_idempotency_def run_store_wfD
                     split: option.splits)
  show "run_id r = rid" if "map_of (rs_runs (snd (save_run now run st))) rid = Some r" for rid r
    using that wf by (auto simp: run_store_wfD split: if_splits)
  show "indexed (snd (save_run now run st))"
    unfolding indexed_def
  proof (intro allI)
    fix ws k rid
    show "map_of (rs_by_idempotency (snd (save_run now run st))) (ws, k) = Some rid \<longleftrightarrow>
      (\<exists>r. map_of (rs_runs (snd (save_run now run st))) rid = Some r
         \<and> workspace_id r = ws \<and> idempotency_key r = Some k)"
    proof (cases "get_run (run_id run) st")
      case None
      with adm wf show ?thesis
        by (auto simp: save_admissible_def existing_for_key_None save_run_index get_run_def
            indexedD [OF run_store_wfD(3) [OF wf]] dest: indexed_NoneD [OF run_store_wfD(3) [OF wf]])
    next
      case (Some old)
      with adm have "workspace_id run = workspace_id old" "idempotency_key run = idempotency_key old"
        by (simp_all add: save_admissible_def)
      with Some show ?thesis
        using indexedD [OF run_store_wfD(3) [OF wf], of ws k "run_id run"]
        by (auto simp: save_run_index get_run_def indexedD [OF run_store_wfD(3) [OF wf]]
            dest: indexed_NoneD [OF run_store_wfD(3) [OF wf]])
    qed
  qed
qed

lemma pop_run_runs: "rs_runs (pop_run rid st) = AList.delete rid (rs_runs st)"
proof (cases "map_of (rs_runs st) rid")
  case None
  then have "rid \<notin> fst ` set (rs_runs st)" by (simp add: map_of_eq_None_iff)
  with None show ?thesis by (simp add: pop_run_def)
next
  case (Some r)
  then show ?thesis by (simp add: pop_run_def)
qed

lemma fold_pop_run_runs: "rs_runs (fold pop_run rids st) = dict_pop_all rids (rs_runs st)"
  by (induction rids arbitrary: st) (simp_all add: pop_run_runs)

lemma pop_run_wf [wf_intros]:
  assumes wf: "run_store_wf st"
  shows "run_store_wf (pop_run rid st)"
proof (cases "map_of (rs_runs st) rid")
  case None
  with wf show ?thesis by (simp add: pop_run_def)
next
  case (Some r)
  show ?thesis
  proof (rule run_store_wfI)
    show "dict_wf (rs_runs (pop_run rid st))" "dict_wf (rs_by_idempotency (pop_run rid st))"
      using wf by (auto simp: pop_run_def run_store_wfD split: option.splits)
    show "run_id ra = i" if "map_of (rs_runs (pop_run rid st)) i = Some ra" for i ra
      using that wf by (auto simp: pop_run_runs dict_get_delete run_store_wfD split: if_splits)
    show "indexed (pop_run rid st)"
      unfolding indexed_def
    proof (intro allI)
      fix ws k i
      note idx = indexedD [OF run_store_wfD(3) [OF wf]]
      show "map_of (rs_by_idempotency (pop_run rid st)) (ws, k) = Some i \<longleftrightarrow>
        (\<exists>ra. map_of (rs_runs (pop_run rid st)) i = Some ra
           \<and> workspace_id ra = ws \<and> idempotency_key ra = Some k)"
      proof (cases "workspace_id r = ws \<and> idempotency_key r = Some k")
        case True
        then have "map_of (rs_by_idempotency st) (ws, k) = Some rid" using idx Some by blast
        then have "i = rid" if "map_of (rs_runs st) i = Some ra" "workspace_id ra = ws"
            "idempotency_key ra = Some k" for ra
          using that idx [of ws k i] by fastforce
        with True Some show ?thesis
          by (auto simp: pop_run_def dict_get_delete)
      next
        case False
        with Some have "map_of (rs_by_idempotency (pop_run rid st)) (ws, k)
            = map_of (rs_by_idempotency st) (ws, k)"
          by (auto simp: pop_run_def dict_get_delete split: option.splits)
        with idx [of ws k i] Some False show ?thesis
          by (auto simp: pop_run_runs dict_get_delete)
      qed
    qed
  qed
qed

lemma fold_pop_run_wf [wf_intros]: "run_store_wf st \<Longrightarrow> run_store_wf (fold pop_run rids st)"
  by (induction rids arbitrary: st) (simp_all add: pop_run_wf)

lemma save_new_wf [wf_intros]:
  assumes "run_store_wf st" and "get_run (run_id run) st = None"
    and "existing_for_key run st = None"
  shows "run_store_wf (snd (save_run now run st))"
  using assms by (intro save_run_wf) (simp_all add: save_admissible_def)

lemma save_run_if_absent_eq:
  "save_run_if_absent_by_idempotency now run st =
     (case existing_for_key run st of
        Some existing \<Rightarrow> ((existing, False), st)
      | None \<Rightarrow> ((run\<lparr>updated_at := now\<rparr>, True), snd (save_run now run st)))"
  by (simp add: save_run_if_absent_by_idempotency_def save_run_def Let_def split: option.split)

lemma save_run_if_under_quota_eq:
  "save_run_if_under_quota now cap run st =
     (case existing_for_key run st of
        Some existing \<Rightarrow> ((existing, True), st)
      | None \<Rightarrow>
          if 0 < cap \<and> cap \<le> int (count_active_runs_for_workspace (workspace_id run) st)
          then ((run, False), st)
          else ((run\<lparr>updated_at := now\<rparr>, True), snd (save_run now run st)))"
  by (simp add: save_run_if_under_quota_def save_run_def Let_def split: option.split)

lemma save_if_absent_wf [wf_intros]:
  assumes "run_store_wf st" and "get_run (run_id run) st = None"
  shows "run_store_wf (snd (save_run_if_absent_by_idempotency now run st))"
  using assms save_new_wf [OF assms]
  by (auto simp: save_run_if_absent_eq split: option.split)

lemma save_under_quota_wf [wf_intros]:
  assumes "run_store_wf st" and "get_run (run_id run) st = None"
  shows "run_store_wf (snd (save_run_if_under_quota now cap run st))"
  using assms save_new_wf [OF assms]
  by (auto simp: save_run_if_under_quota_eq split: option.split)

lemma claim_for_resume_wf [wf_intros]:
  "run_store_wf st \<Longrightarrow> run_store_wf (snd (claim_run_for_resume now rid ws st))"
  by (auto simp: claim_run_for_resume_def split: option.split intro!: update_same_identity_wf)

lemma renew_lease_wf [wf_intros]:
  "run_store_wf st \<Longrightarrow> run_store_wf (snd (renew_lease rid owner lease now st))"
  by (auto simp: renew_lease_def split: option.split intro!: update_same_identity_wf)

lemma redrive_run_wf [wf_intros]:
  "run_store_wf st \<Longrightarrow> run_store_wf (snd (redrive_run rid ws now st))"
  by (auto simp: redrive_run_def split: option.split intro!: update_same_identity_wf)

lemma requeue_expired_leases_wf [wf_intros]:
  "run_store_wf st \<Longrightarrow> run_store_wf (snd (requeue_expired_leases now lanes st))"
  by (auto simp: requeue_expired_leases_def requeue_stamp_def intro!: map_same_identity_wf)

lemma set_claim_candidates:
  "set (claim_candidates now lanes fairness wsconc st) =
     {(rid, r) \<in> set (rs_runs st). is_ready now lanes r
        \<and> (fairness \<and> 0 < wsconc \<longrightarrow> int (workspace_load now st (workspace_id r)) < wsconc)}"
  by (auto simp: claim_candidates_def Let_def)

lemma claim_cases:
  assumes "run_store_wf st"
  obtains (empty) "claim_next_queued_run owner lease lanes now fairness wsconc st = (None, st)"
      "lanes = Some [] \<or> claim_candidates now lanes fairness wsconc st = []"
  | (won) r rest where
      "claim_candidates now lanes fairness wsconc st = (run_id r, r) # rest"
      "map_of (rs_runs st) (run_id r) = Some r" "is_ready now lanes r" "lanes \<noteq> Some []"
      "claim_next_queued_run owner lease lanes now fairness wsconc st =
         (Some (claim_stamp now owner lease r),
          st\<lparr>rs_runs := AList.update (run_id r) (claim_stamp now owner lease r) (rs_runs st)\<rparr>)"
proof (cases "lanes = Some [] \<or> claim_candidates now lanes fairness wsconc st = []")
  case True
  then show ?thesis by (intro empty) (auto simp: claim_next_queued_run_def)
next
  case False
  then obtain rid r rest where c: "claim_candidates now lanes fairness wsconc st = (rid, r) # rest"
    by (cases "claim_candidates now lanes fairness wsconc st") auto
  then have "(rid, r) \<in> set (claim_candidates now lanes fairness wsconc st)" by simp
  then have mem: "(rid, r) \<in> set (rs_runs st)" and ready: "is_ready now lanes r"
    by (auto simp: set_claim_candidates)
  then have get: "map_of (rs_runs st) rid = Some r"
    using assms by (simp add: dict_get_iff run_store_wfD)
  then have "run_id r = rid" using assms by (simp add: run_store_wfD)
  with c get ready False show ?thesis
    by (intro won) (auto simp: claim_next_queued_run_def Let_def)
qed

lemma claim_wf [wf_intros]:
  assumes "run_store_wf st"
  shows "run_store_wf (snd (claim_next_queued_run owner lease lanes now fairness wsconc st))"
  using assms
  by (cases rule: claim_cases [OF assms, of owner lease lanes now fairness wsconc])
    (auto simp: claim_stamp_def intro!: update_same_identity_wf)

lemma save_run_if_owner_wf [wf_intros]:
  assumes "run_store_wf st" and "save_admissible run st"
  shows "run_store_wf (snd (save_run_if_owner now run owner st))"
  using assms by (auto simp: save_run_if_owner_def split: option.split intro: save_run_wf)

lemma delete_by_subject_wf [wf_intros]:
  "run_store_wf st \<Longrightarrow> run_store_wf (snd (delete_by_subject sub st))"
  by (simp add: delete_by_subject_def Let_def fold_pop_run_wf)

lemma prune_runs_wf [wf_intros]:
  "run_store_wf st \<Longrightarrow> prune_runs now older keep st = Inr (n, st') \<Longrightarrow> run_store_wf st'"
  by (auto simp: prune_runs_def Let_def fold_pop_run_wf split: if_splits)

section \<open>Reachable stores\<close>

text \<open>
  One rule per method that writes. A create comes with a fresh id (\<open>new_uuid\<close>); a save
  of a stored run keeps its workspace and idempotency key, which no caller changes.
\<close>

inductive run_store_step :: "run_store \<Rightarrow> run_store \<Rightarrow> bool" where
  create: "get_run (run_id run) st = None \<Longrightarrow>
     run_store_step st (snd (save_run_if_absent_by_idempotency now run st))"
| create_quota: "get_run (run_id run) st = None \<Longrightarrow>
     run_store_step st (snd (save_run_if_under_quota now cap run st))"
| save: "get_run (run_id run) st = Some old \<Longrightarrow> workspace_id run = workspace_id old \<Longrightarrow>
     idempotency_key run = idempotency_key old \<Longrightarrow>
     run_store_step st (snd (save_run now run st))"
| save_owned: "get_run (run_id run) st = Some old \<Longrightarrow> workspace_id run = workspace_id old \<Longrightarrow>
     idempotency_key run = idempotency_key old \<Longrightarrow>
     run_store_step st (snd (save_run_if_owner now run owner st))"
| resume: "run_store_step st (snd (claim_run_for_resume now rid ws st))"
| claim: "run_store_step st (snd (claim_next_queued_run owner lease lanes now fairness wsconc st))"
| renew: "run_store_step st (snd (renew_lease rid owner lease now st))"
| requeue: "run_store_step st (snd (requeue_expired_leases now lanes st))"
| redrive: "run_store_step st (snd (redrive_run rid wso now st))"
| erase: "run_store_step st (snd (delete_by_subject sub st))"
| prune: "prune_runs now older keep st = Inr (n, st') \<Longrightarrow> run_store_step st st'"

inductive run_store_reachable :: "run_store \<Rightarrow> bool" where
  init: "run_store_reachable empty_run_store"
| step: "run_store_reachable st \<Longrightarrow> run_store_step st st' \<Longrightarrow> run_store_reachable st'"

lemma run_store_step_wf: "run_store_step st st' \<Longrightarrow> run_store_wf st \<Longrightarrow> run_store_wf st'"
  by (induction rule: run_store_step.induct)
    (auto simp: save_admissible_def intro: wf_intros)

lemma run_store_reachable_wf: "run_store_reachable st \<Longrightarrow> run_store_wf st"
  by (induction rule: run_store_reachable.induct)
    (auto intro: empty_run_store_wf run_store_step_wf)

section \<open>A small store for the examples\<close>

text \<open>Two queued runs, one leased to a worker, and two finished ones.\<close>

definition demo_store :: run_store where
  "demo_store = \<lparr>rs_runs =
     [(''a'', (new_run ''a'' ''w'' ''s'' 4)\<lparr>idempotency_key := Some ''k''\<rparr>),
      (''b'', (new_run ''b'' ''w'' ''s'' 2)\<lparr>next_attempt_at := Some 3\<rparr>),
      (''c'', (new_run ''c'' ''v'' ''s'' 1)\<lparr>status := RUNNING, owner_id := Some ''p'',
                lease_expires_at := Some 100, attempt := 1\<rparr>),
      (''d'', (new_run ''d'' ''w'' ''t'' 1)\<lparr>status := SUCCEEDED\<rparr>),
      (''e'', (new_run ''e'' ''w'' ''t'' 2)\<lparr>status := FAILED\<rparr>)],
     rs_by_idempotency = [((''w'', ''k''), ''a'')]\<rparr>"

lemma demo_store_wf: "run_store_wf demo_store"
proof (rule run_store_wfI)
  show "indexed demo_store"
    by (auto simp: indexed_def demo_store_def new_run_def)
qed (auto simp: demo_store_def new_run_def split: if_splits)

end
