(* ===== verification/RunAdmission.thy ===== *)
theory RunAdmission
  imports RunStore
begin

text \<open>
  Admission and removal in \<open>InMemoryRunStore\<close>: idempotent creation as a contract that
  the run store and the agent-definition store share, the outstanding-run quota, the
  right-to-erasure walk and the retention pruning.
\<close>

section \<open>Idempotent creation as an interface\<close>

text \<open>
  A store with \<open>create\<close> and \<open>lookup\<close> by an optional idempotency key: a create whose
  key is taken returns the record that took it and changes nothing, any other create stores
  its record.
\<close>

locale idempotent_store =
  fixes invar :: "'s \<Rightarrow> bool"
    and create :: "'r \<Rightarrow> 's \<Rightarrow> ('r \<times> bool) \<times> 's"
    and lookup :: "'k \<Rightarrow> 's \<Rightarrow> 'r option"
    and key_of :: "'r \<Rightarrow> 'k option"
    and id_of :: "'r \<Rightarrow> 'i"
    and stored :: "'i \<Rightarrow> 's \<Rightarrow> bool"
    and stamp :: "'r \<Rightarrow> 'r"
  assumes create_existing:
      "invar s \<Longrightarrow> key_of r = Some k \<Longrightarrow> lookup k s = Some e \<Longrightarrow> create r s = ((e, False), s)"
    and create_new:
      "invar s \<Longrightarrow> \<not> stored (id_of r) s \<Longrightarrow> (\<And>k. key_of r = Some k \<Longrightarrow> lookup k s = None) \<Longrightarrow>
       \<exists>s'. create r s = ((stamp r, True), s') \<and> invar s'
         \<and> (\<forall>k. lookup k s' = (if key_of r = Some k then Some (stamp r) else lookup k s))
         \<and> (\<forall>i. stored i s' \<longleftrightarrow> i = id_of r \<or> stored i s)"
begin

lemma create_keyed:
  assumes "invar s" and "\<not> stored (id_of r) s"
  obtains e c s' where "create r s = ((e, c), s')" "invar s'"
    "\<And>k e'. lookup k s = Some e' \<Longrightarrow> lookup k s' = Some e'"
    "\<And>k. key_of r = Some k \<Longrightarrow> lookup k s' = Some e \<and> (c \<longleftrightarrow> lookup k s = None)"
    "\<And>i. stored i s' \<Longrightarrow> i = id_of r \<or> stored i s"
proof (cases "\<exists>k e. key_of r = Some k \<and> lookup k s = Some e")
  case True
  with assms create_existing [of s r] show ?thesis by (auto intro!: that)
next
  case False
  with assms create_new [of s r] obtain s' where "create r s = ((stamp r, True), s')" "invar s'"
    "\<forall>k. lookup k s' = (if key_of r = Some k then Some (stamp r) else lookup k s)"
    "\<forall>i. stored i s' \<longleftrightarrow> i = id_of r \<or> stored i s"
    by (metis not_None_eq)
  with False show ?thesis by (intro that [of "stamp r" True s']) auto
qed

lemma fresh_after:
  assumes "distinct (map id_of (r # rs))" and "\<forall>r' \<in> set (r # rs). \<not> stored (id_of r') s"
    and "\<And>i. stored i s' \<Longrightarrow> i = id_of r \<or> stored i s"
  shows "\<forall>r' \<in> set rs. \<not> stored (id_of r') s'"
  using assms by (metis distinct.simps(2) imageI list.set_intros(2) list.set_map list.simps(9))

lemma submit_keeps_lookup:
  assumes "invar s" and "distinct (map id_of rs)" and "\<forall>r \<in> set rs. \<not> stored (id_of r) s"
    and "lookup k s = Some e"
  shows "lookup k (snd (thread_state create rs s)) = Some e
    \<and> (\<forall>(r, a) \<in> set (zip rs (fst (thread_state create rs s))). key_of r = Some k \<longrightarrow> a = (e, False))"
  using assms
proof (induction rs arbitrary: s)
  case Nil
  then show ?case by simp
next
  case (Cons r rs)
  then have "invar s" "\<not> stored (id_of r) s" by simp_all
  then obtain e' c s' where c: "create r s = ((e', c), s')" "invar s'"
    "\<And>k e. lookup k s = Some e \<Longrightarrow> lookup k s' = Some e"
    "\<And>k. key_of r = Some k \<Longrightarrow> lookup k s' = Some e' \<and> (c \<longleftrightarrow> lookup k s = None)"
    "\<And>i. stored i s' \<Longrightarrow> i = id_of r \<or> stored i s"
    by (rule create_keyed) blast
  have "lookup k s' = Some e" using Cons.prems(4) by (rule c(3))
  moreover have "key_of r = Some k \<Longrightarrow> e' = e \<and> \<not> c"
    using c(4) [of k] Cons.prems(4) \<open>lookup k s' = Some e\<close> by simp
  moreover have "\<forall>r' \<in> set rs. \<not> stored (id_of r') s'"
    using fresh_after [OF Cons.prems(2,3) c(5)] by blast
  ultimately show ?case
    using Cons.IH [of s'] Cons.prems(2) c(1,2) by simp
qed

text \<open>
  Every submission under a key is answered with the record the key leads to at the end, and
  at most one of them was created.
\<close>

lemma submit_once:
  assumes "invar s" and "distinct (map id_of rs)" and "\<forall>r \<in> set rs. \<not> stored (id_of r) s"
  shows "(\<forall>(r, (e, _)) \<in> set (zip rs (fst (thread_state create rs s))).
            key_of r = Some k \<longrightarrow> lookup k (snd (thread_state create rs s)) = Some e)
    \<and> length (filter (\<lambda>(r, (_, created)). key_of r = Some k \<and> created)
         (zip rs (fst (thread_state create rs s)))) \<le> 1"
  using assms
proof (induction rs arbitrary: s)
  case Nil
  then show ?case by simp
next
  case (Cons r rs)
  then have "invar s" "\<not> stored (id_of r) s" by simp_all
  then obtain e c s' where c: "create r s = ((e, c), s')" "invar s'"
    "\<And>k. key_of r = Some k \<Longrightarrow> lookup k s' = Some e \<and> (c \<longleftrightarrow> lookup k s = None)"
    "\<And>i. stored i s' \<Longrightarrow> i = id_of r \<or> stored i s"
    by (rule create_keyed) blast
  have fresh: "\<forall>r' \<in> set rs. \<not> stored (id_of r') s'"
    using fresh_after [OF Cons.prems(2,3) c(4)] by blast
  show ?case
  proof (cases "key_of r = Some k")
    case True
    with submit_keeps_lookup [of s' rs k e] c fresh Cons.prems
    have "lookup k (snd (thread_state create rs s')) = Some e"
      and old: "\<forall>(r, a) \<in> set (zip rs (fst (thread_state create rs s'))). key_of r = Some k \<longrightarrow> a = (e, False)"
      by simp_all
    moreover have "filter (\<lambda>(r, (_, created)). key_of r = Some k \<and> created)
        (zip rs (fst (thread_state create rs s'))) = []"
      using old by (auto simp: filter_empty_conv)
    ultimately show ?thesis using c(1) True by auto
  next
    case False
    with Cons.IH [of s'] fresh c Cons.prems show ?thesis by auto
  qed
qed

end

lemma load_run_existing:
  "idempotency_key run = Some k \<Longrightarrow>
   existing_for_key run st = load_run_by_idempotency (workspace_id run) k st"
  by (simp add: existing_for_key_def load_run_by_idempotency_def)

lemma load_run_saved:
  assumes wf: "run_store_wf st" and new: "get_run (run_id run) st = None"
    and free: "existing_for_key run st = None"
  shows "load_run_by_idempotency ws k (snd (save_run now run st)) =
    (if workspace_id run = ws \<and> idempotency_key run = Some k
     then Some (run\<lparr>updated_at := now\<rparr>) else load_run_by_idempotency ws k st)"
proof (cases "workspace_id run = ws \<and> idempotency_key run = Some k")
  case True
  with free wf have "map_of (rs_by_idempotency st) (ws, k) = None"
    by (auto simp: existing_for_key_None)
  with True show ?thesis
    by (simp add: load_run_by_idempotency_def save_run_index)
next
  case False
  have "map_of (rs_by_idempotency st) (ws, k) \<noteq> Some (run_id run)"
    using new indexedD [OF run_store_wfD(3) [OF wf], of ws k "run_id run"] by (simp add: get_run_def)
  with False show ?thesis
    by (auto simp: load_run_by_idempotency_def save_run_index split: option.split)
qed

interpretation run_creates: idempotent_store run_store_wf
  "save_run_if_absent_by_idempotency now"
  "\<lambda>(ws, k). load_run_by_idempotency ws k"
  "\<lambda>r :: run_record. map_option (Pair (workspace_id r)) (idempotency_key r)"
  run_id "\<lambda>i st. get_run i st \<noteq> None" "\<lambda>r. r\<lparr>updated_at := now\<rparr>"
proof unfold_locales
  fix s :: run_store and r :: run_record and k e
  assume "run_store_wf s" and "map_option (Pair (workspace_id r)) (idempotency_key r) = Some k"
    and "(case k of (ws, k) \<Rightarrow> load_run_by_idempotency ws k) s = Some e"
  then show "save_run_if_absent_by_idempotency now r s = ((e, False), s)"
    by (auto simp: save_run_if_absent_eq load_run_existing)
next
  fix s :: run_store and r :: run_record
  assume wf: "run_store_wf s" and new: "\<not> get_run (run_id r) s \<noteq> None"
    and free: "\<And>k. map_option (Pair (workspace_id r)) (idempotency_key r) = Some k \<Longrightarrow>
      (case k of (ws, k) \<Rightarrow> load_run_by_idempotency ws k) s = None"
  have none: "existing_for_key r s = None"
    using free by (cases "idempotency_key r") (auto simp: load_run_by_idempotency_def existing_for_key_def)
  let ?s' = "snd (save_run now r s)"
  have "save_run_if_absent_by_idempotency now r s = ((r\<lparr>updated_at := now\<rparr>, True), ?s')"
    using none by (simp add: save_run_if_absent_eq)
  moreover have "run_store_wf ?s'" using wf new none by (intro save_new_wf) auto
  moreover have "\<forall>k. (case k of (ws, k) \<Rightarrow> load_run_by_idempotency ws k) ?s' =
      (if map_option (Pair (workspace_id r)) (idempotency_key r) = Some k
       then Some (r\<lparr>updated_at := now\<rparr>)
       else (case k of (ws, k) \<Rightarrow> load_run_by_idempotency ws k) s)"
    using load_run_saved [OF wf _ none] new by (auto split: prod.split)
  moreover have "\<forall>i. get_run i ?s' \<noteq> None \<longleftrightarrow> i = run_id r \<or> get_run i s \<noteq> None"
    by (auto simp: get_run_def)
  ultimately show "\<exists>s'. save_run_if_absent_by_idempotency now r s = ((r\<lparr>updated_at := now\<rparr>, True), s')
      \<and> run_store_wf s'
      \<and> (\<forall>k. (case k of (ws, k) \<Rightarrow> load_run_by_idempotency ws k) s' =
          (if map_option (Pair (workspace_id r)) (idempotency_key r) = Some k
           then Some (r\<lparr>updated_at := now\<rparr>)
           else (case k of (ws, k) \<Rightarrow> load_run_by_idempotency ws k) s))
      \<and> (\<forall>i. get_run i s' \<noteq> None \<longleftrightarrow> i = run_id r \<or> get_run i s \<noteq> None)"
    by blast
qed

text \<open>
  Idempotent creation: in any sequence of submissions with fresh ids, every submission
  under a (workspace, key) pair is answered with the one run that pair leads to at the end,
  and at most one of the submissions creates it.
\<close>

theorem idempotent_run_creation:
  assumes "run_store_wf st" and "distinct (map run_id rs)"
    and "\<forall>r \<in> set rs. get_run (run_id r) st = None"
    and "thread_state (save_run_if_absent_by_idempotency now) rs st = (answers, st')"
  shows "(\<forall>(r, (e, _)) \<in> set (zip rs answers). workspace_id r = ws \<and> idempotency_key r = Some k \<longrightarrow>
            load_run_by_idempotency ws k st' = Some e)
    \<and> length (filter (\<lambda>(r, (_, created)). idempotency_key r = Some k \<and> workspace_id r = ws \<and> created)
         (zip rs answers)) \<le> 1"
  using run_creates.submit_once [where s = st and rs = rs and k = "(ws, k)" and now = now] assms
  by (auto simp: conj_assoc)

theorem idempotent_run_creation_witness:
  "length (filter snd (fst (thread_state (save_run_if_absent_by_idempotency 9)
     [(new_run ''x'' ''w'' ''s'' 9)\<lparr>idempotency_key := Some ''n''\<rparr>,
      (new_run ''y'' ''w'' ''s'' 9)\<lparr>idempotency_key := Some ''n''\<rparr>] demo_store))) \<le> 1"
proof -
  let ?rs = "[(new_run ''x'' ''w'' ''s'' 9)\<lparr>idempotency_key := Some ''n''\<rparr>,
      (new_run ''y'' ''w'' ''s'' 9)\<lparr>idempotency_key := Some ''n''\<rparr>]"
  let ?t = "thread_state (save_run_if_absent_by_idempotency 9) ?rs demo_store"
  have "distinct (map run_id ?rs)" "\<forall>r \<in> set ?rs. get_run (run_id r) demo_store = None"
    by (simp_all add: new_run_def demo_store_def get_run_def)
  from idempotent_run_creation [OF demo_store_wf this prod.collapse [symmetric], of 9 "''w''" "''n''"]
  have "length (filter (\<lambda>(r, (_, created)). idempotency_key r = Some ''n'' \<and> workspace_id r = ''w'' \<and> created)
      (zip ?rs (fst ?t))) \<le> 1" by (rule conjunct2)
  then show ?thesis by (simp add: new_run_def case_prod_unfold split: if_splits)
qed

section \<open>The outstanding-run quota\<close>

lemma count_active_save_new:
  assumes "get_run (run_id run) st = None"
  shows "count_active_runs_for_workspace ws (snd (save_run now run st)) =
    count_active_runs_for_workspace ws st + (if workspace_id run = ws \<and> is_active run then 1 else 0)"
  using assms
  by (simp add: count_active_runs_for_workspace_def get_run_def update_fresh is_active_def)

lemma count_active_under_quota:
  assumes "get_run (run_id run) st = None" and "0 < cap"
  shows "int (count_active_runs_for_workspace ws (snd (save_run_if_under_quota now cap run st)))
    \<le> max cap (int (count_active_runs_for_workspace ws st))"
  using assms
  by (auto simp: save_run_if_under_quota_eq count_active_save_new split: option.split)

lemma get_run_under_quota_other:
  "run_id run \<noteq> i \<Longrightarrow> get_run i (snd (save_run_if_under_quota now cap run st)) = get_run i st"
  by (auto simp: save_run_if_under_quota_eq get_run_def split: option.split)

lemma fresh_after_under_quota:
  assumes "distinct (map run_id (r # rs))" and "\<forall>r' \<in> set (r # rs). get_run (run_id r') st = None"
  shows "\<forall>r' \<in> set rs. get_run (run_id r') (snd (save_run_if_under_quota now cap r st)) = None"
proof
  fix r'
  assume "r' \<in> set rs"
  with assms(1) have "run_id r \<noteq> run_id r'" by auto
  with assms(2) \<open>r' \<in> set rs\<close> show "get_run (run_id r') (snd (save_run_if_under_quota now cap r st)) = None"
    by (simp add: get_run_under_quota_other)
qed

lemma quota_bound:
  assumes "0 < cap" and "distinct (map run_id rs)" and "\<forall>r \<in> set rs. get_run (run_id r) st = None"
  shows "int (count_active_runs_for_workspace ws (snd (thread_state (save_run_if_under_quota now cap) rs st)))
    \<le> max cap (int (count_active_runs_for_workspace ws st))"
  using assms(2,3)
proof (induction rs arbitrary: st)
  case Nil
  then show ?case by simp
next
  case (Cons r rs)
  have "int (count_active_runs_for_workspace ws (snd (save_run_if_under_quota now cap r st)))
    \<le> max cap (int (count_active_runs_for_workspace ws st))"
    using Cons.prems(2) assms(1) by (intro count_active_under_quota) simp_all
  moreover have "int (count_active_runs_for_workspace ws (snd (thread_state (save_run_if_under_quota now cap) rs
      (snd (save_run_if_under_quota now cap r st)))))
    \<le> max cap (int (count_active_runs_for_workspace ws (snd (save_run_if_under_quota now cap r st))))"
    using Cons.prems by (intro Cons.IH fresh_after_under_quota) simp_all
  ultimately show ?case by (auto simp: le_max_iff_disj)
qed

lemma quota_burst:
  assumes "0 < cap" and "distinct (map run_id rs)" and "\<forall>r \<in> set rs. get_run (run_id r) st = None"
    and "\<forall>r \<in> set rs. workspace_id r = ws \<and> is_active r \<and> idempotency_key r = None"
  shows "length (filter snd (fst (thread_state (save_run_if_under_quota now cap) rs st)))
    = min (length rs) (nat (cap - int (count_active_runs_for_workspace ws st)))"
  using assms(2-4)
proof (induction rs arbitrary: st)
  case Nil
  then show ?case by simp
next
  case (Cons r rs)
  have keyless: "existing_for_key r st = None"
    using Cons.prems(3) by (simp add: existing_for_key_def)
  note IH = Cons.IH [OF _ fresh_after_under_quota [OF Cons.prems(1,2)]]
  show ?case
  proof (cases "cap \<le> int (count_active_runs_for_workspace ws st)")
    case True
    with Cons.prems keyless assms(1)
    have "save_run_if_under_quota now cap r st = ((r, False), st)"
      by (simp add: save_run_if_under_quota_eq)
    with IH [of now cap] Cons.prems True show ?thesis by simp
  next
    case False
    with Cons.prems keyless
    have "save_run_if_under_quota now cap r st = ((r\<lparr>updated_at := now\<rparr>, True), snd (save_run now r st))"
      by (simp add: save_run_if_under_quota_eq)
    moreover have "count_active_runs_for_workspace ws (snd (save_run now r st))
        = Suc (count_active_runs_for_workspace ws st)"
      using Cons.prems by (simp add: count_active_save_new)
    ultimately show ?thesis
      using IH [of now cap] Cons.prems False by simp
  qed
qed

text \<open>
  C37: A cap of \<open>N\<close> admits exactly \<open>N\<close>: a burst of new keyless in-flight runs of one
  workspace is admitted up to the free part of its budget and no further, and no sequence of
  submissions takes any workspace's in-flight count above the cap or above where it was.
\<close>

theorem quota_admits_exactly_the_cap:
  assumes "0 < cap" and "distinct (map run_id rs)" and "\<forall>r \<in> set rs. get_run (run_id r) st = None"
  shows "int (count_active_runs_for_workspace ws (snd (thread_state (save_run_if_under_quota now cap) rs st)))
           \<le> max cap (int (count_active_runs_for_workspace ws st))
    \<and> ((\<forall>r \<in> set rs. workspace_id r = ws \<and> is_active r \<and> idempotency_key r = None) \<longrightarrow>
         length (filter snd (fst (thread_state (save_run_if_under_quota now cap) rs st)))
           = min (length rs) (nat (cap - int (count_active_runs_for_workspace ws st))))"
  using quota_bound [OF assms] quota_burst [OF assms] by blast

theorem quota_admits_exactly_the_cap_witness:
  "map snd (fst (thread_state (save_run_if_under_quota 9 3)
     [new_run ''x'' ''w'' ''s'' 9, new_run ''y'' ''w'' ''s'' 9] demo_store)) = [True, False]
   \<and> length (filter snd (fst (thread_state (save_run_if_under_quota 9 3)
     [new_run ''x'' ''w'' ''s'' 9, new_run ''y'' ''w'' ''s'' 9] demo_store))) = 1"
proof -
  let ?rs = "[new_run ''x'' ''w'' ''s'' 9, new_run ''y'' ''w'' ''s'' 9]"
  have "distinct (map run_id ?rs)" "\<forall>r \<in> set ?rs. get_run (run_id r) demo_store = None"
    by (simp_all add: new_run_def demo_store_def get_run_def)
  from quota_admits_exactly_the_cap [OF _ this, of 3 "''w''" 9]
  have "length (filter snd (fst (thread_state (save_run_if_under_quota 9 3) ?rs demo_store))) = 1"
    by (simp add: new_run_def demo_store_def is_active_def ACTIVE_RUN_STATUSES_def
        count_active_runs_for_workspace_def)
  moreover have "map snd (fst (thread_state (save_run_if_under_quota 9 3) ?rs demo_store)) = [True, False]"
    by (simp add: new_run_def demo_store_def is_active_def ACTIVE_RUN_STATUSES_def
        count_active_runs_for_workspace_def save_run_if_under_quota_eq existing_for_key_def)
  ultimately show ?thesis by simp
qed

section \<open>Erasure\<close>

lemma delete_by_subject_runs:
  assumes "run_store_wf st"
  shows "rs_runs (snd (delete_by_subject sub st)) = filter (\<lambda>(_, r). subject_id r \<noteq> sub) (rs_runs st)"
  by (simp add: delete_by_subject_def fold_pop_run_runs pop_all_filtered run_store_wfD(1) [OF assms]
      case_prod_unfold)

lemma stored_run_found_by_key:
  "run_store_wf st \<Longrightarrow> map_of (rs_runs st) rid = Some r \<Longrightarrow> idempotency_key r = Some k \<Longrightarrow>
   load_run_by_idempotency (workspace_id r) k st = Some r"
  using indexedD [OF run_store_wfD(3), of st "workspace_id r" k rid]
  by (auto simp: load_run_by_idempotency_def)

text \<open>
  Erasure is complete and precise: \<open>delete_by_subject\<close> removes every run of the
  subject and nothing else, in particular no other subject's run loses its idempotency
  entry; the count is the number removed, and a second call removes nothing.
\<close>

theorem erasure_complete:
  assumes wf: "run_store_wf st" and del: "delete_by_subject sub st = (n, st')"
  shows "list_runs None None None st' = filter (\<lambda>r. subject_id r \<noteq> sub) (list_runs None None None st)
    \<and> n = length (list_runs None (Some sub) None st)
    \<and> (\<forall>r \<in> set (list_runs None None None st'). \<forall>k. idempotency_key r = Some k \<longrightarrow>
          load_run_by_idempotency (workspace_id r) k st' = Some r)
    \<and> delete_by_subject sub st' = (0, st')"
proof (intro conjI)
  have runs: "rs_runs st' = filter (\<lambda>(_, r). subject_id r \<noteq> sub) (rs_runs st)"
    using delete_by_subject_runs [OF wf, of sub] del by simp
  have wf': "run_store_wf st'" using delete_by_subject_wf [OF wf, of sub] del by simp
  show "list_runs None None None st' = filter (\<lambda>r. subject_id r \<noteq> sub) (list_runs None None None st)"
    by (simp add: list_runs_def run_filter_def runs filter_map comp_def case_prod_unfold)
  show "n = length (list_runs None (Some sub) None st)"
    using del by (auto simp: delete_by_subject_def Let_def list_runs_def run_filter_def filter_map comp_def
        case_prod_unfold eq_commute)
  show "\<forall>r \<in> set (list_runs None None None st'). \<forall>k. idempotency_key r = Some k \<longrightarrow>
      load_run_by_idempotency (workspace_id r) k st' = Some r"
    by (auto simp: list_runs_def run_filter_def dict_get_iff [symmetric, OF run_store_wfD(1) [OF wf']]
        intro!: stored_run_found_by_key [OF wf'])
  show "delete_by_subject sub st' = (0, st')"
    by (simp add: delete_by_subject_def runs filter_empty_conv case_prod_unfold)
qed

theorem erasure_complete_witness:
  "\<exists>st'. delete_by_subject ''s'' demo_store = (3, st')
     \<and> map run_id (list_runs None None None st') = [''d'', ''e'']"
proof -
  obtain n st' where d: "delete_by_subject ''s'' demo_store = (n, st')" by fastforce
  note e = erasure_complete [OF demo_store_wf d]
  have "n = length (list_runs None (Some ''s'') None demo_store)"
    by (rule e [THEN conjunct2, THEN conjunct1])
  then have "n = 3" by (simp add: list_runs_def run_filter_def demo_store_def new_run_def)
  moreover have "list_runs None None None st'
      = filter (\<lambda>r. subject_id r \<noteq> ''s'') (list_runs None None None demo_store)"
    by (rule e [THEN conjunct1])
  then have "map run_id (list_runs None None None st') = [''d'', ''e'']"
    by (simp add: list_runs_def run_filter_def demo_store_def new_run_def)
  ultimately show ?thesis using d by (intro exI conjI) simp_all
qed

section \<open>Retention\<close>

abbreviation terminal_runs :: "run_store \<Rightarrow> (string \<times> run_record) list" where
  "terminal_runs st \<equiv> filter (\<lambda>(_, r). \<not> is_active r) (rs_runs st)"

abbreviation prune_candidates :: "run_store \<Rightarrow> (string \<times> created_text) list" where
  "prune_candidates st \<equiv> map (\<lambda>(rid, r). (rid, Dated (created_at r))) (terminal_runs st)"

lemma victims_subset: "prune_victims_by_created_at now items older keep \<subseteq> fst ` set items"
  using set_py_take
  by (fastforce simp: prune_victims_by_created_at_def Let_def split: option.splits if_splits)

lemma prune_runs_result:
  assumes wf: "run_store_wf st" and prune: "prune_runs now older keep st = Inr (n, st')"
  defines "V \<equiv> prune_victims_by_created_at now (prune_candidates st) older keep"
  shows "rs_runs st' = filter (\<lambda>(rid, _). rid \<notin> V) (rs_runs st)"
    and "n = card V" and "V \<subseteq> fst ` set (terminal_runs st)"
proof -
  let ?doomed = "filter (\<lambda>rid. rid \<in> V) (map fst (rs_runs st))"
  have n: "n = length ?doomed" and st': "st' = fold pop_run ?doomed st"
    using prune by (auto simp: prune_runs_def Let_def V_def split: if_splits)
  show sub: "V \<subseteq> fst ` set (terminal_runs st)"
    using victims_subset [of now "prune_candidates st" older keep]
    by (simp add: V_def image_image case_prod_unfold)
  then have "set ?doomed = V" by force
  moreover have "distinct ?doomed" using run_store_wfD(1) [OF wf] by simp
  ultimately show "n = card V" using n by (metis distinct_card)
  show "rs_runs st' = filter (\<lambda>(rid, _). rid \<notin> V) (rs_runs st)"
    unfolding st' fold_pop_run_runs dict_pop_all_filter
    by (intro filter_cong) (auto simp: rev_image_eqI)
qed

text \<open>
  Retention never touches live work: whatever the bounds, \<open>prune_runs\<close> keeps every
  QUEUED, RUNNING, AWAITING_APPROVAL and RESOLVING run, and reports the number of rows gone.
\<close>

theorem prune_keeps_active_runs:
  assumes wf: "run_store_wf st" and prune: "prune_runs now older keep st = Inr (n, st')"
  shows "(\<forall>rid r. get_run rid st = Some r \<and> is_active r \<longrightarrow> get_run rid st' = Some r)
    \<and> length (rs_runs st) = length (rs_runs st') + n"
proof
  let ?V = "prune_victims_by_created_at now (prune_candidates st) older keep"
  note res = prune_runs_result [OF wf prune]
  note wfs = run_store_wfD(1) [OF wf]
  show "\<forall>rid r. get_run rid st = Some r \<and> is_active r \<longrightarrow> get_run rid st' = Some r"
  proof (intro allI impI, elim conjE)
    fix rid r
    assume r: "get_run rid st = Some r" "is_active r"
    then have "(rid, r) \<in> set (rs_runs st)" by (simp add: get_run_def map_of_SomeD)
    then have "rid \<notin> fst ` set (terminal_runs st)"
      using r(2) wfs by (auto dest: eq_key_imp_eq_value)
    then have "rid \<notin> ?V" using res(3) by (rule contra_subsetD [rotated])
    with r(1) show "get_run rid st' = Some r"
      by (simp add: get_run_def res(1) dict_get_filter [OF wfs])
  qed
  have "set (filter (\<lambda>rid. rid \<in> ?V) (map fst (rs_runs st))) = ?V" using res(3) by force
  moreover have "distinct (filter (\<lambda>rid. rid \<in> ?V) (map fst (rs_runs st)))" using wfs by simp
  ultimately have "n = length (filter (\<lambda>rid. rid \<in> ?V) (map fst (rs_runs st)))"
    using res(2) by (metis distinct_card)
  then show "length (rs_runs st) = length (rs_runs st') + n"
    using sum_length_filter_compl [of "\<lambda>p. fst p \<in> ?V" "rs_runs st"]
    by (simp add: res(1) filter_map comp_def case_prod_unfold)
qed

theorem prune_keeps_active_runs_witness:
  "\<exists>n st'. prune_runs 50 (Some 10) None demo_store = Inr (n, st')
     \<and> get_run ''c'' st' = get_run ''c'' demo_store \<and> length (rs_runs st') + n = 5"
proof -
  obtain n st' where p: "prune_runs 50 (Some 10) None demo_store = Inr (n, st')"
    by (simp add: prune_runs_def Let_def)
  have c: "\<exists>r. get_run ''c'' demo_store = Some r \<and> is_active r" and "length (rs_runs demo_store) = 5"
    by (simp_all add: demo_store_def new_run_def get_run_def is_active_def ACTIVE_RUN_STATUSES_def)
  with prune_keeps_active_runs [OF demo_store_wf p] p show ?thesis by metis
qed

text \<open>Which part of the candidates, oldest first, \<open>keep_last = k\<close> removes.\<close>

definition keep_last_cut :: "int \<Rightarrow> int \<Rightarrow> nat" where
  "keep_last_cut k N = nat (if k \<le> N then N - k else 2 * N - k)"

lemma keep_last_victims:
  assumes "0 \<le> k"
  shows "prune_victims_by_created_at now items None (Some k) =
    fst ` set (take (keep_last_cut k (int (length items))) (sort_key (\<lambda>(_, raw). parse_created raw) items))"
  using assms by (auto simp: prune_victims_by_created_at_def Let_def py_take_def keep_last_cut_def max_def)

text \<open>
  What \<open>keep_last = k\<close> removes: with \<open>N\<close> terminal runs, the oldest
  \<open>N - k\<close> when \<open>k \<le> N\<close>; but for \<open>k > N\<close> the slice bound \<open>N - k\<close> is
  negative, counts from the end, and the oldest \<open>2 N - k\<close> runs are removed although
  all \<open>N\<close> were to be kept. No removed run is newer than a terminal run that stays.
\<close>

theorem keep_last_removes:
  assumes wf: "run_store_wf st" and k: "0 \<le> k"
    and prune: "prune_runs now None (Some k) st = Inr (n, st')"
  shows "int n = (if k \<le> int (length (terminal_runs st)) then int (length (terminal_runs st)) - k
                  else max 0 (2 * int (length (terminal_runs st)) - k))
    \<and> (\<forall>(i, r) \<in> set (terminal_runs st). \<forall>(j, q) \<in> set (terminal_runs st).
          get_run i st' = None \<and> get_run j st' \<noteq> None \<longrightarrow> created_at r \<le> created_at q)"
proof
  let ?items = "prune_candidates st"
  let ?ordered = "sort_key (\<lambda>(_, raw). parse_created raw) ?items"
  let ?m = "keep_last_cut k (int (length ?items))"
  note res = prune_runs_result [OF wf prune, unfolded keep_last_victims [OF k]]
  note wfs = run_store_wfD(1) [OF wf]
  have items: "dict_wf ?items" using wfs by (simp add: dict_wf_filter)
  then have keys: "distinct (map fst (take ?m ?ordered))"
    by (simp add: dict_wf_sort_key distinct_take flip: take_map)
  have "n = length (take ?m ?ordered)"
    using distinct_card [OF keys] by (simp only: res(2) list.set_map length_map)
  then show "int n = (if k \<le> int (length (terminal_runs st)) then int (length (terminal_runs st)) - k
      else max 0 (2 * int (length (terminal_runs st)) - k))"
    using k by (auto simp: keep_last_cut_def)
  show "\<forall>(i, r) \<in> set (terminal_runs st). \<forall>(j, q) \<in> set (terminal_runs st).
      get_run i st' = None \<and> get_run j st' \<noteq> None \<longrightarrow> created_at r \<le> created_at q"
  proof (intro ballI, clarify)
    fix i r j q qq
    assume i: "(i, r) \<in> set (terminal_runs st)" and j: "(j, q) \<in> set (terminal_runs st)"
      and gone: "get_run i st' = None" and kept: "get_run j st' = Some qq"
    define V where "V = fst ` set (take ?m ?ordered)"
    have lookup: "get_run i st' = (case get_run i st of None \<Rightarrow> None
        | Some r \<Rightarrow> if i \<notin> V then Some r else None)" for i
      unfolding get_run_def res(1) V_def [symmetric]
      by (simp add: dict_get_filter [OF wfs] split: option.split)
    have "i \<in> V"
    proof -
      have "get_run i st = Some r" using i wfs by (simp add: get_run_def)
      with gone show ?thesis by (simp add: lookup split: if_splits)
    qed
    then obtain x where x: "x \<in> set (take ?m ?ordered)" "fst x = i" by (auto simp: V_def)
    have in_items: "(j, Dated (created_at q)) \<in> set ?items" if "(j, q) \<in> set (terminal_runs st)" for j q
      using imageI [OF that, of "\<lambda>(rid, r). (rid, Dated (created_at r))"] by simp
    have "x \<in> set ?items" using in_set_takeD [OF x(1)] by simp
    with in_items [OF i] items x(2) have "x = (i, Dated (created_at r))"
      by (cases x) (auto dest: eq_key_imp_eq_value)
    moreover have "(j, Dated (created_at q)) \<in> set (drop ?m ?ordered)"
    proof -
      have "(j, Dated (created_at q)) \<in> set ?ordered" using in_items [OF j] by simp
      moreover have "(j, Dated (created_at q)) \<notin> set (take ?m ?ordered)"
      proof
        assume "(j, Dated (created_at q)) \<in> set (take ?m ?ordered)"
        then have "j \<in> V" unfolding V_def by (metis fst_conv imageI)
        with kept show False by (simp only: lookup) (simp split: option.splits)
      qed
      ultimately show ?thesis by (metis Un_iff append_take_drop_id set_append)
    qed
    ultimately have "(\<lambda>(_, raw). parse_created raw) (i, Dated (created_at r))
        \<le> (\<lambda>(_, raw). parse_created raw) (j, Dated (created_at q))"
      using x(1) by (intro sort_key_take_drop_le) simp_all
    then show "created_at r \<le> created_at q" by (simp add: parse_created_def)
  qed
qed

text \<open>Two terminal runs and \<open>keep_last = 3\<close>: one of the two is removed.\<close>

theorem keep_last_removes_witness:
  "\<exists>st'. prune_runs 50 None (Some 3) demo_store = Inr (1, st')
     \<and> length (terminal_runs demo_store) = 2"
proof -
  obtain n st' where p: "prune_runs 50 None (Some 3) demo_store = Inr (n, st')"
    by (simp add: prune_runs_def Let_def)
  have "length (terminal_runs demo_store) = 2"
    by (simp add: demo_store_def new_run_def is_active_def ACTIVE_RUN_STATUSES_def)
  with keep_last_removes [OF demo_store_wf _ p] p show ?thesis by simp
qed

end
