(* ===== verification/PyText.thy ===== *)
theory PyText
  imports Json
begin

text \<open>
  The operations of Python's \<open>str\<close> that the modelled code uses, and the text and truth
  value of an open JSON value. A string is a list of code points up to 255 (Latin-1).
\<close>

section \<open>Python string operations\<close>

text \<open>\<open>s.replace(p, "")\<close>, \<open>s.replace(c, t)\<close> for a single character \<open>c\<close>, \<open>s.strip(cs)\<close>.\<close>

fun py_remove :: "string \<Rightarrow> string \<Rightarrow> string" where
  "py_remove p [] = []"
| "py_remove p (c # cs) =
     (if p \<noteq> [] \<and> take (length p) (c # cs) = p then py_remove p (drop (length p - 1) cs)
      else c # py_remove p cs)"

definition py_replace_char :: "char \<Rightarrow> string \<Rightarrow> string \<Rightarrow> string" where
  "py_replace_char c t s = concat (map (\<lambda>x. if x = c then t else [x]) s)"

definition py_strip :: "(char \<Rightarrow> bool) \<Rightarrow> string \<Rightarrow> string" where
  "py_strip P s = rev (dropWhile P (rev (dropWhile P s)))"

definition py_is_space :: "char \<Rightarrow> bool" where
  "py_is_space c = (let n = of_char c :: nat in
     9 \<le> n \<and> n \<le> 13 \<or> 28 \<le> n \<and> n \<le> 32 \<or> n = 133 \<or> n = 160)"

definition is_hex_digit :: "char \<Rightarrow> bool" where
  "is_hex_digit c = (let n = of_char c :: nat in
     48 \<le> n \<and> n \<le> 57 \<or> 65 \<le> n \<and> n \<le> 70 \<or> 97 \<le> n \<and> n \<le> 102)"

text \<open>Hexadecimal digits with single underscores between them, as \<open>int(s, 16)\<close> accepts.\<close>

fun hex_digits :: "string \<Rightarrow> bool" where
  "hex_digits [] = False"
| "hex_digits [c] = is_hex_digit c"
| "hex_digits (c # d # cs) =
     (is_hex_digit c \<and> (if d = CHR ''_'' then hex_digits cs else hex_digits (d # cs)))"

definition py_int16_accepts :: "string \<Rightarrow> bool" where
  "py_int16_accepts s =
     (let s = py_strip py_is_space s;
          s = (case s of c # cs \<Rightarrow> if c = CHR ''+'' \<or> c = CHR ''-'' then cs else s | [] \<Rightarrow> s)
      in case s of
           c # x # cs \<Rightarrow>
             if c = CHR ''0'' \<and> (x = CHR ''x'' \<or> x = CHR ''X'') then
               (case cs of u # ds \<Rightarrow> if u = CHR ''_'' then hex_digits ds else hex_digits cs | [] \<Rightarrow> False)
             else hex_digits s
         | _ \<Rightarrow> hex_digits s)"

text \<open>\<open>str(n)\<close> of an integer.\<close>

fun nat_str :: "nat \<Rightarrow> string" where
  "nat_str n = (if n < 10 then [char_of (48 + n)] else nat_str (n div 10) @ [char_of (48 + n mod 10)])"

declare nat_str.simps [simp del]

definition int_str :: "int \<Rightarrow> string" where
  "int_str i = (if i < 0 then CHR ''-'' # nat_str (nat (- i)) else nat_str (nat i))"

definition py_lower :: "string \<Rightarrow> string" where
  "py_lower s = map (\<lambda>c. let n = of_char c :: nat in
     if 65 \<le> n \<and> n \<le> 90 \<or> 192 \<le> n \<and> n \<le> 222 \<and> n \<noteq> 215 then char_of (n + 32) else c) s"

text \<open>
  \<open>s.upper()\<close>: sharp s becomes two letters; the micro sign and y with diaeresis, whose
  capitals are not Latin-1, are kept.
\<close>

definition py_upper :: "string \<Rightarrow> string" where
  "py_upper s = concat (map (\<lambda>c. let n = of_char c :: nat in
     if 97 \<le> n \<and> n \<le> 122 \<or> 224 \<le> n \<and> n \<le> 254 \<and> n \<noteq> 247 then [char_of (n - 32)]
     else if n = 223 then ''SS'' else [c]) s)"

text \<open>\<open>p in s\<close>.\<close>

fun py_in :: "string \<Rightarrow> string \<Rightarrow> bool" where
  "py_in p [] = (p = [])"
| "py_in p (c # cs) = (take (length p) (c # cs) = p \<or> py_in p cs)"

text \<open>The truth value of an open JSON value.\<close>

fun json_truthy :: "json \<Rightarrow> bool" where
  "json_truthy JNull = False"
| "json_truthy (JBool b) = b"
| "json_truthy (JInt n) = (n \<noteq> 0)"
| "json_truthy (JStr s) = (s \<noteq> [])"
| "json_truthy (JList vs) = (vs \<noteq> [])"
| "json_truthy (JObj d) = (d \<noteq> [])"

text \<open>
  \<open>repr\<close> of a string: single quotes unless it holds one and no double quote; a
  non-printable Latin-1 character is written in hexadecimal.
\<close>

definition repr_char :: "char \<Rightarrow> char \<Rightarrow> string" where
  "repr_char quote c =
     (let n = of_char c :: nat;
          hex = (\<lambda>d. if d < 10 then char_of (48 + d) else char_of (87 + d))
      in if c = quote \<or> n = 92 then [CHR 0x5C, c]
         else if n = 10 then [CHR 0x5C, CHR ''n'']
         else if n = 13 then [CHR 0x5C, CHR ''r'']
         else if n = 9 then [CHR 0x5C, CHR ''t'']
         else if n < 32 \<or> 127 \<le> n \<and> n \<le> 160 \<or> n = 173
           then [CHR 0x5C, CHR ''x'', hex (n div 16), hex (n mod 16)]
         else [c])"

definition repr_str :: "string \<Rightarrow> string" where
  "repr_str s =
     (let q = (if CHR 0x27 \<in> set s \<and> CHR 0x22 \<notin> set s then CHR 0x22 else CHR 0x27)
      in q # concat (map (repr_char q) s) @ [q])"

fun join_text :: "string \<Rightarrow> string list \<Rightarrow> string" where
  "join_text sep [] = []"
| "join_text sep [s] = s"
| "join_text sep (s # t # ss) = s @ sep @ join_text sep (t # ss)"

fun py_repr :: "json \<Rightarrow> string" where
  "py_repr JNull = ''None''"
| "py_repr (JBool b) = (if b then ''True'' else ''False'')"
| "py_repr (JInt n) = int_str n"
| "py_repr (JStr s) = repr_str s"
| "py_repr (JList vs) = ''['' @ join_text '', '' (map py_repr vs) @ '']''"
| "py_repr (JObj d) =
     CHR 0x7B # join_text '', '' (map (\<lambda>(k, v). repr_str k @ '': '' @ py_repr v) d) @ [CHR 0x7D]"

text \<open>\<open>str(v)\<close>.\<close>

definition py_str :: "json \<Rightarrow> string" where
  "py_str v = (case v of JStr s \<Rightarrow> s | _ \<Rightarrow> py_repr v)"

text \<open>\<open>meta.get(k, dflt)\<close>.\<close>

definition json_get :: "string \<Rightarrow> json \<Rightarrow> json_dict \<Rightarrow> json" where
  "json_get k dflt d = (case map_of d k of None \<Rightarrow> dflt | Some v \<Rightarrow> v)"

end
