(* ===== verification/ToolModels.thy ===== *)
theory ToolModels
  imports PyText StorageModels Complex_Main
begin

text \<open>
  The data shapes of the tools kernel (himmy/services/tools/models.py) and its catalog
  (himmy/services/tools/registry.py). Seconds are rational numbers. A local handler is a
  function of the arguments and of the outside world ('w), which it may change; the
  projection of a registration to an entity record is left out.
\<close>

section \<open>Definitions and configuration\<close>

datatype tool_backend_kind = LOCAL | HTTP

datatype http_auth_mode = AuthNone | BEARER | HEADER | API_KEY_QUERY | BASIC | PREENCODED_BASIC

record http_auth_config =
  au_mode :: http_auth_mode
  au_env_var :: "string option"
  au_header_name :: "string option"
  au_query_param :: "string option"
  au_username :: "string option"

datatype http_pagination_mode = PagesNone | CURSOR | PAGE | LINK_HEADER

record http_pagination_config =
  pg_mode :: http_pagination_mode
  pg_items_path :: string
  pg_cursor_path :: string
  pg_cursor_param :: string
  pg_page_param :: string
  pg_max_pages :: int

record http_tool_config =
  hc_base_url_env_var :: string
  hc_base_url :: string
  hc_method :: string
  hc_path_template :: string
  hc_auth :: http_auth_config
  hc_query_arg_names :: "string list"
  hc_body_arg_names :: "string list"
  hc_header_arg_names :: "string list"
  hc_timeout_seconds :: rat
  hc_egress_allow_hosts :: "string list"
  hc_allow_private_hosts :: bool
  hc_static_query :: "(string, string) dict"
  hc_pagination :: http_pagination_config
  hc_idempotency_arg :: "string option"

record tool_definition =
  td_name :: string
  td_kind :: tool_backend_kind
  td_description :: string
  td_args_schema :: json_dict
  td_output_schema :: "json_dict option"
  td_requires_approval :: bool
  td_read_only :: "bool option"
  td_read_only_authoritative :: bool
  td_timeout_seconds :: "rat option"
  td_retry_hints :: json_dict
  td_sequential :: bool
  td_http_config :: "http_tool_config option"
  td_sensitive_arg_names :: "string list"
  td_metadata :: json_dict

record tool_invocation =
  ti_call_id :: string
  ti_name :: string
  ti_args :: json_dict
  ti_metadata :: json_dict

record tool_policy_decision =
  pd_allow :: bool
  pd_reason :: "string option"
  pd_transformed_args :: "json_dict option"

datatype tool_error_code =
    NOT_FOUND | POLICY_BLOCKED | CAPABILITY_DENIED | TIMEOUT | RATE_LIMITED
  | PROVIDER_UNAVAILABLE | INVALID_REQUEST | OUTPUT_VALIDATION | EXECUTION_ERROR | UNKNOWN

fun error_code_value :: "tool_error_code \<Rightarrow> string" where
  "error_code_value NOT_FOUND = ''NOT_FOUND''"
| "error_code_value POLICY_BLOCKED = ''POLICY_BLOCKED''"
| "error_code_value CAPABILITY_DENIED = ''CAPABILITY_DENIED''"
| "error_code_value TIMEOUT = ''TIMEOUT''"
| "error_code_value RATE_LIMITED = ''RATE_LIMITED''"
| "error_code_value PROVIDER_UNAVAILABLE = ''PROVIDER_UNAVAILABLE''"
| "error_code_value INVALID_REQUEST = ''INVALID_REQUEST''"
| "error_code_value OUTPUT_VALIDATION = ''OUTPUT_VALIDATION''"
| "error_code_value EXECUTION_ERROR = ''EXECUTION_ERROR''"
| "error_code_value UNKNOWN = ''UNKNOWN''"

record tool_result =
  tr_call_id :: string
  tr_name :: string
  tr_outcome :: string
  tr_result :: json
  tr_error_code :: "tool_error_code option"
  tr_error_message :: "string option"
  tr_metadata :: json_dict

text \<open>What one attempt at the backend ends in: a value, the timeout, a coded error, an exception.\<close>

datatype attempt = Returned json | Elapsed | Refused tool_error_code string | Raised string

type_synonym 'w handler = "json_dict \<Rightarrow> 'w \<Rightarrow> attempt \<times> 'w"

section \<open>The catalog\<close>

record 'w tool_registry =
  tg_definitions :: "(string, tool_definition) dict"
  tg_handlers :: "(string, 'w handler) dict"

definition empty_tool_registry :: "'w tool_registry" where
  "empty_tool_registry = \<lparr>tg_definitions = [], tg_handlers = []\<rparr>"

definition tool_register :: "tool_definition \<Rightarrow> 'w handler option \<Rightarrow> 'w tool_registry \<Rightarrow> 'w tool_registry" where
  "tool_register d h reg =
     \<lparr>tg_definitions = AList.update (td_name d) d (tg_definitions reg),
      tg_handlers = (case h of None \<Rightarrow> tg_handlers reg | Some f \<Rightarrow> AList.update (td_name d) f (tg_handlers reg))\<rparr>"

definition tool_get :: "string \<Rightarrow> 'w tool_registry \<Rightarrow> tool_definition option" where
  "tool_get name reg = map_of (tg_definitions reg) name"

definition tool_remove :: "string \<Rightarrow> 'w tool_registry \<Rightarrow> bool \<times> 'w tool_registry" where
  "tool_remove name reg =
     (map_of (tg_definitions reg) name \<noteq> None,
      \<lparr>tg_definitions = AList.delete name (tg_definitions reg),
       tg_handlers = AList.delete name (tg_handlers reg)\<rparr>)"

definition tool_list :: "'w tool_registry \<Rightarrow> tool_definition list" where
  "tool_list reg = dict_values (tg_definitions reg)"

definition handler_for :: "string \<Rightarrow> 'w tool_registry \<Rightarrow> 'w handler option" where
  "handler_for name reg = map_of (tg_handlers reg) name"

text \<open>\<open>x or {}\<close> and \<open>x or []\<close> of an optional argument.\<close>

definition or_empty :: "'a list option \<Rightarrow> 'a list" where
  "or_empty x = (case x of None \<Rightarrow> [] | Some xs \<Rightarrow> xs)"

definition register_local_tool ::
  "string \<Rightarrow> 'w handler \<Rightarrow> string \<Rightarrow> json_dict option \<Rightarrow> json_dict option \<Rightarrow> bool \<Rightarrow> bool \<Rightarrow> rat option
     \<Rightarrow> json_dict option \<Rightarrow> string list option \<Rightarrow> bool option \<Rightarrow> bool \<Rightarrow> json_dict option
     \<Rightarrow> 'w tool_registry \<Rightarrow> 'w tool_registry" where
  "register_local_tool name handler description args_schema output_schema approval seq timeout hints
     sensitive read_only authoritative meta reg =
     tool_register
       \<lparr>td_name = name, td_kind = LOCAL, td_description = description, td_args_schema = or_empty args_schema,
        td_output_schema = output_schema, td_requires_approval = approval, td_read_only = read_only,
        td_read_only_authoritative = (read_only = Some True \<and> authoritative), td_timeout_seconds = timeout,
        td_retry_hints = or_empty hints, td_sequential = seq, td_http_config = None,
        td_sensitive_arg_names = or_empty sensitive, td_metadata = or_empty meta\<rparr> (Some handler) reg"

definition read_only_from_method :: "string \<Rightarrow> bool" where
  "read_only_from_method m \<longleftrightarrow> py_upper m \<in> {''GET'', ''HEAD'', ''OPTIONS''}"

definition register_http_tool ::
  "string \<Rightarrow> http_tool_config \<Rightarrow> string \<Rightarrow> json_dict option \<Rightarrow> json_dict option \<Rightarrow> bool \<Rightarrow> bool \<Rightarrow> rat option
     \<Rightarrow> json_dict option \<Rightarrow> string list option \<Rightarrow> bool option \<Rightarrow> json_dict option
     \<Rightarrow> 'w tool_registry \<Rightarrow> 'w tool_registry" where
  "register_http_tool name cfg description args_schema output_schema approval seq timeout hints
     sensitive read_only meta reg =
     tool_register
       \<lparr>td_name = name, td_kind = HTTP, td_description = description, td_args_schema = or_empty args_schema,
        td_output_schema = output_schema, td_requires_approval = approval,
        td_read_only = Some (case read_only of None \<Rightarrow> read_only_from_method (hc_method cfg) | Some b \<Rightarrow> b),
        td_read_only_authoritative = (read_only = Some True), td_timeout_seconds = timeout,
        td_retry_hints = or_empty hints, td_sequential = seq, td_http_config = Some cfg,
        td_sensitive_arg_names = or_empty sensitive, td_metadata = or_empty meta\<rparr> None reg"

end
