(* ===== verification/ToolSecurity.thy ===== *)
theory ToolSecurity
  imports PyText
begin

text \<open>
  The guards of the tool layer (himmy/services/tools/security.py): percent-encoding of
  model-supplied path arguments, the path built from a template, and the recursive
  redaction of secrets. \<open>urllib.parse.quote(s, safe="")\<close> is written out over the UTF-8
  bytes. A path template is given parsed, as the literal pieces and placeholders that
  \<open>str.format\<close> sees; conversions and format specifications are outside the model.
\<close>

section \<open>Path arguments\<close>

datatype security_error = ControlCharacters | PathSeparator | RelativeSegment | MissingPathArg string

definition FORBIDDEN_PATH_CHARS :: "char list" where
  "FORBIDDEN_PATH_CHARS = [CHR ''/'', CHR 0x5C, CHR ''?'', CHR ''#'']"

definition has_control_chars :: "string \<Rightarrow> bool" where
  "has_control_chars text = list_ex (\<lambda>c. (of_char c :: nat) < 32 \<or> (of_char c :: nat) = 127) text"

definition utf8_char :: "char \<Rightarrow> nat list" where
  "utf8_char c = (let n = of_char c :: nat in if n < 128 then [n] else [192 + n div 64, 128 + n mod 64])"

definition unreserved :: "nat \<Rightarrow> bool" where
  "unreserved n \<longleftrightarrow> 48 \<le> n \<and> n \<le> 57 \<or> 65 \<le> n \<and> n \<le> 90 \<or> 97 \<le> n \<and> n \<le> 122
     \<or> n = 95 \<or> n = 46 \<or> n = 45 \<or> n = 126"

definition upper_hex :: "nat \<Rightarrow> char" where
  "upper_hex d = char_of (if d < 10 then 48 + d else 55 + d)"

definition quote_byte :: "nat \<Rightarrow> string" where
  "quote_byte n = (if unreserved n then [char_of n] else [CHR ''%'', upper_hex (n div 16), upper_hex (n mod 16)])"

definition quote :: "string \<Rightarrow> string" where
  "quote s = concat (map quote_byte (concat (map utf8_char s)))"

definition safe_path_arg :: "json \<Rightarrow> security_error + string" where
  "safe_path_arg v =
     (let text = py_str v
      in if has_control_chars text then Inl ControlCharacters
         else if list_ex (\<lambda>c. c \<in> set FORBIDDEN_PATH_CHARS) text then Inl PathSeparator
         else if text = ''..'' \<or> text = ''.'' then Inl RelativeSegment
         else Inr (quote text))"

datatype template_part = Lit string | Arg string

text \<open>All arguments are encoded before the template is filled.\<close>

fun encode_path_args :: "json_dict \<Rightarrow> security_error + (string \<times> string) list" where
  "encode_path_args [] = Inr []"
| "encode_path_args ((k, v) # args) =
     (case safe_path_arg v of
        Inl e \<Rightarrow> Inl e
      | Inr s \<Rightarrow> (case encode_path_args args of Inl e \<Rightarrow> Inl e | Inr rest \<Rightarrow> Inr ((k, s) # rest)))"

fun fill_template :: "(string \<times> string) list \<Rightarrow> template_part list \<Rightarrow> security_error + string" where
  "fill_template encoded [] = Inr []"
| "fill_template encoded (Lit s # parts) =
     (case fill_template encoded parts of Inl e \<Rightarrow> Inl e | Inr rest \<Rightarrow> Inr (s @ rest))"
| "fill_template encoded (Arg k # parts) =
     (case map_of encoded k of
        None \<Rightarrow> Inl (MissingPathArg k)
      | Some s \<Rightarrow> (case fill_template encoded parts of Inl e \<Rightarrow> Inl e | Inr rest \<Rightarrow> Inr (s @ rest)))"

definition build_safe_path :: "template_part list \<Rightarrow> json_dict \<Rightarrow> security_error + string" where
  "build_safe_path path_template path_args =
     (case encode_path_args path_args of Inl e \<Rightarrow> Inl e | Inr encoded \<Rightarrow> fill_template encoded path_template)"

section \<open>Redaction\<close>

definition SENSITIVE_KEY_HINTS :: "string list" where
  "SENSITIVE_KEY_HINTS =
     [''password'', ''passwd'', ''secret'', ''token'', ''api_key'', ''apikey'', ''api-key'',
      ''access_key'', ''authorization'', ''auth'', ''credential'', ''private_key'',
      ''client_secret'', ''session'', ''cookie'', ''bearer'']"

definition REDACTED :: string where "REDACTED = ''***REDACTED***''"

definition is_sensitive_key :: "string list \<Rightarrow> string \<Rightarrow> bool" where
  "is_sensitive_key extra key =
     (let lowered = py_lower key
      in list_ex (\<lambda>e. py_lower e = lowered) extra \<or> list_ex (\<lambda>hint. py_in hint lowered) SENSITIVE_KEY_HINTS)"

fun redact_value :: "string list \<Rightarrow> string \<Rightarrow> json \<Rightarrow> json" where
  "redact_value extra placeholder (JObj d) =
     JObj (map (\<lambda>(k, v). (k, if is_sensitive_key extra k then JStr placeholder
                              else redact_value extra placeholder v)) d)"
| "redact_value extra placeholder (JList vs) = JList (map (redact_value extra placeholder) vs)"
| "redact_value extra placeholder v = v"

definition redact_mapping :: "string list \<Rightarrow> string \<Rightarrow> json_dict \<Rightarrow> json_dict" where
  "redact_mapping extra placeholder d =
     map (\<lambda>(k, v). (k, if is_sensitive_key extra k then JStr placeholder
                      else redact_value extra placeholder v)) d"

section \<open>Encoding is safe and loses nothing\<close>

text \<open>The receiving side: percent-decoding to bytes, and UTF-8 of Latin-1 characters.\<close>

definition hex_value :: "char \<Rightarrow> nat" where
  "hex_value c = (let n = of_char c in if n \<le> 57 then n - 48 else n - 55)"

fun unquote_bytes :: "string \<Rightarrow> nat list" where
  "unquote_bytes [] = []"
| "unquote_bytes (c # cs) =
     (if c = CHR ''%'' then
        (case cs of a # b # rest \<Rightarrow> (16 * hex_value a + hex_value b) # unquote_bytes rest | _ \<Rightarrow> [])
      else of_char c # unquote_bytes cs)"

fun utf8_decode :: "nat list \<Rightarrow> string" where
  "utf8_decode [] = []"
| "utf8_decode (n # ns) =
     (if n < 128 then char_of n # utf8_decode ns
      else (case ns of m # rest \<Rightarrow> char_of (64 * (n - 192) + (m - 128)) # utf8_decode rest | [] \<Rightarrow> []))"

lemma hex_value_upper_hex: "d < 16 \<Longrightarrow> hex_value (upper_hex d) = d"
  by (simp add: hex_value_def upper_hex_def Let_def)

lemma unreserved_below: "unreserved n \<Longrightarrow> n < 128 \<and> n \<noteq> 37"
  by (auto simp: unreserved_def)

lemma unquote_quote_byte: "n < 256 \<Longrightarrow> unquote_bytes (quote_byte n @ cs) = n # unquote_bytes cs"
proof (cases "unreserved n")
  case True
  assume "n < 256"
  with unreserved_below [OF True] have "char_of n \<noteq> CHR ''%''"
    by (auto dest: arg_cong [where f = "of_char :: char \<Rightarrow> nat"])
  with True \<open>n < 256\<close> show ?thesis by (simp add: quote_byte_def)
next
  case False
  assume "n < 256"
  then have "n div 16 < 16" by (simp add: less_mult_imp_div_less)
  with False show ?thesis by (simp add: quote_byte_def hex_value_upper_hex)
qed

lemma utf8_char_bytes: "n \<in> set (utf8_char c) \<Longrightarrow> n < 256"
proof -
  have "(of_char c :: nat) div 64 < 4"
    using less_mult_imp_div_less [of "of_char c" 4 64] nat_of_char_less_256 [of c] by simp
  moreover have "(of_char c :: nat) mod 64 < 64" by simp
  moreover assume "n \<in> set (utf8_char c)"
  ultimately show ?thesis by (auto simp: utf8_char_def Let_def split: if_splits)
qed

lemma unquote_quote: "\<forall>n \<in> set ns. n < 256 \<Longrightarrow> unquote_bytes (concat (map quote_byte ns)) = ns"
  by (induction ns) (simp_all add: unquote_quote_byte)

lemma utf8_decode_char: "utf8_decode (utf8_char c @ ns) = c # utf8_decode ns"
proof (cases "(of_char c :: nat) < 128")
  case True
  then show ?thesis by (simp add: utf8_char_def)
next
  case False
  have "64 * (of_char c div 64) + of_char c mod 64 = (of_char c :: nat)" by simp
  with False show ?thesis by (simp add: utf8_char_def Let_def)
qed

lemma utf8_decode_encode: "utf8_decode (concat (map utf8_char s)) = s"
  by (induction s) (simp_all add: utf8_decode_char)

lemma quote_roundtrip: "utf8_decode (unquote_bytes (quote s)) = s"
proof -
  have "\<forall>n \<in> set (concat (map utf8_char s)). n < 256" using utf8_char_bytes by auto
  then show ?thesis by (simp add: quote_def unquote_quote utf8_decode_encode)
qed

lemma quote_byte_code:
  "c \<in> set (quote_byte n) \<Longrightarrow> n < 256 \<Longrightarrow> unreserved (of_char c) \<or> of_char c = (37 :: nat)"
proof -
  have hex: "unreserved (of_char (upper_hex d))" if "d < 16" for d
    using that by (auto simp: upper_hex_def unreserved_def)
  assume "c \<in> set (quote_byte n)" and n: "n < 256"
  moreover from n have "n div 16 < 16" "n mod 16 < 16" by (simp_all add: less_mult_imp_div_less)
  ultimately show ?thesis using hex by (auto simp: quote_byte_def split: if_splits)
qed

lemma quote_safe: "c \<in> set (quote s) \<Longrightarrow> c \<notin> set FORBIDDEN_PATH_CHARS"
proof -
  assume "c \<in> set (quote s)"
  then have "unreserved (of_char c) \<or> of_char c = (37 :: nat)"
    using quote_byte_code utf8_char_bytes by (fastforce simp: quote_def)
  then show ?thesis by (auto simp: FORBIDDEN_PATH_CHARS_def unreserved_def)
qed

lemma quote_dots: "quote s \<in> {''.'', ''..''} \<Longrightarrow> s \<in> {''.'', ''..''}"
proof -
  have dot: "char_of (46 :: nat) = CHR ''.''" by code_simp
  assume "quote s \<in> {''.'', ''..''}"
  then show ?thesis using quote_roundtrip [of s] by (auto simp: dot)
qed

lemma safe_path_arg_Inr: "safe_path_arg v = Inr p \<Longrightarrow> p = quote (py_str v) \<and> py_str v \<notin> {''.'', ''..''}"
  by (auto simp: safe_path_arg_def Let_def split: if_splits)

lemma encode_path_args_values:
  "encode_path_args args = Inr enc \<Longrightarrow> map_of enc k = Some s \<Longrightarrow> \<exists>v. safe_path_arg v = Inr s"
  by (induction args arbitrary: enc rule: encode_path_args.induct) (auto split: sum.splits if_splits)

definition path_structure :: "string \<Rightarrow> string" where
  "path_structure p = filter (\<lambda>c. c \<in> set FORBIDDEN_PATH_CHARS) p"

fun template_text :: "template_part list \<Rightarrow> string" where
  "template_text [] = []"
| "template_text (Lit s # parts) = s @ template_text parts"
| "template_text (Arg k # parts) = template_text parts"

lemma fill_template_structure:
  assumes "\<And>k s. map_of enc k = Some s \<Longrightarrow> path_structure s = []"
  shows "fill_template enc parts = Inr p \<Longrightarrow> path_structure p = path_structure (template_text parts)"
proof (induction parts arbitrary: p rule: template_text.induct)
  case (3 k parts)
  then show ?case using assms by (fastforce simp: path_structure_def split: option.splits sum.splits)
qed (auto simp: path_structure_def split: sum.splits)

text \<open>
  A path argument cannot change the path. What the guard lets through decodes to exactly
  the argument's text, is no relative segment, and in a path built from a template the
  separators and query markers are those of the template's own literal text, in order,
  whatever values the model supplied.
\<close>

theorem path_arguments_cannot_escape:
  assumes "build_safe_path parts args = Inr path"
  shows "path_structure path = path_structure (template_text parts)
    \<and> (\<forall>(k, v) \<in> set args. \<exists>p. safe_path_arg v = Inr p \<and> utf8_decode (unquote_bytes p) = py_str v
          \<and> p \<notin> {''.'', ''..''} \<and> path_structure p = [])"
proof -
  obtain enc where enc: "encode_path_args args = Inr enc" and fill: "fill_template enc parts = Inr path"
    using assms by (auto simp: build_safe_path_def split: sum.splits)
  have safe: "path_structure s = []" if "safe_path_arg v = Inr s" for v s
    using safe_path_arg_Inr [OF that] quote_safe by (auto simp: path_structure_def filter_empty_conv)
  have "path_structure path = path_structure (template_text parts)"
    using fill_template_structure [OF _ fill] encode_path_args_values [OF enc] safe by blast
  moreover have "\<exists>p. safe_path_arg v = Inr p" if "(k, v) \<in> set args" for k v
    using enc that by (induction args arbitrary: enc rule: encode_path_args.induct) (auto split: sum.splits)
  then have "\<forall>(k, v) \<in> set args. \<exists>p. safe_path_arg v = Inr p \<and> utf8_decode (unquote_bytes p) = py_str v
      \<and> p \<notin> {''.'', ''..''} \<and> path_structure p = []"
    using safe safe_path_arg_Inr quote_roundtrip quote_dots by fast
  ultimately show ?thesis by blast
qed

theorem path_arguments_cannot_escape_witness:
  "\<exists>path. build_safe_path [Lit ''/users/'', Arg ''id'', Lit ''/x''] [(''id'', JStr ''a..b%2f'')] = Inr path
    \<and> path_structure path = ''///''"
proof -
  have "\<exists>path. build_safe_path [Lit ''/users/'', Arg ''id'', Lit ''/x''] [(''id'', JStr ''a..b%2f'')] = Inr path"
    by (simp add: build_safe_path_def safe_path_arg_def py_str_def has_control_chars_def FORBIDDEN_PATH_CHARS_def)
  moreover have "path_structure (template_text [Lit ''/users/'', Arg ''id'', Lit ''/x'']) = ''///''"
    by (simp add: path_structure_def FORBIDDEN_PATH_CHARS_def)
  ultimately show ?thesis using path_arguments_cannot_escape by fastforce
qed

section \<open>Redaction hides exactly the secrets\<close>

text \<open>Two values that differ at most below sensitive keys.\<close>

inductive same_public :: "string list \<Rightarrow> json \<Rightarrow> json \<Rightarrow> bool" for extra where
  leaf: "\<forall>vs. v \<noteq> JList vs \<Longrightarrow> \<forall>d. v \<noteq> JObj d \<Longrightarrow> same_public extra v v"
| items: "list_all2 (same_public extra) vs ws \<Longrightarrow> same_public extra (JList vs) (JList ws)"
| entries: "list_all2 (\<lambda>p q. fst p = fst q
      \<and> (is_sensitive_key extra (fst p) \<or> same_public extra (snd p) (snd q))) d e \<Longrightarrow>
    same_public extra (JObj d) (JObj e)"

inductive_simps same_public_simps:
  "same_public extra (JList vs) w" "same_public extra (JObj d) w"
  "same_public extra JNull w" "same_public extra (JBool b) w" "same_public extra (JInt n) w"
  "same_public extra (JStr s) w"

lemma list_all2_map_eq:
  "(\<And>x y. x \<in> set xs \<Longrightarrow> f x = f y \<longleftrightarrow> P x y) \<Longrightarrow> map f xs = map f ys \<longleftrightarrow> list_all2 P xs ys"
  by (induction xs arbitrary: ys) (case_tac ys; auto simp: list_all2_Cons1)+

lemma redact_value_eq:
  "redact_value extra ph v = redact_value extra ph w \<longleftrightarrow> same_public extra v w"
proof (induction v arbitrary: w)
  case (JList vs)
  then show ?case
    by (cases w) (auto simp: same_public_simps intro: list_all2_map_eq [THEN iffD1] list_all2_map_eq [THEN iffD2])
next
  case (JObj d)
  let ?f = "\<lambda>(k, v). (k, if is_sensitive_key extra k then JStr ph else redact_value extra ph v)"
  have "?f p = ?f q \<longleftrightarrow> fst p = fst q \<and> (is_sensitive_key extra (fst p) \<or> same_public extra (snd p) (snd q))"
    if "p \<in> set d" for p q
    using JObj.IH [of p "snd p" "snd q"] that by (cases p; cases q) auto
  then have "map ?f d = map ?f e \<longleftrightarrow> list_all2 (\<lambda>p q. fst p = fst q
      \<and> (is_sensitive_key extra (fst p) \<or> same_public extra (snd p) (snd q))) d e" for e
    by (rule list_all2_map_eq)
  then show ?case by (cases w) (simp_all add: same_public_simps)
qed (case_tac w; auto simp: same_public_simps)+

text \<open>No value other than the placeholder is left under a sensitive key, at any depth.\<close>

fun masked :: "string list \<Rightarrow> string \<Rightarrow> json \<Rightarrow> bool" where
  "masked extra ph (JObj d) =
     list_all (\<lambda>(k, v). if is_sensitive_key extra k then v = JStr ph else masked extra ph v) d"
| "masked extra ph (JList vs) = list_all (masked extra ph) vs"
| "masked extra ph v = True"

lemma masked_redacted: "masked extra ph (redact_value extra ph v)"
  by (induction v) (auto simp: list_all_iff)

lemma redact_masked: "masked extra ph v \<Longrightarrow> redact_value extra ph v = v"
  by (induction v) (auto simp: list_all_iff intro!: map_idI split: if_splits)

lemma redact_mapping_value: "JObj (redact_mapping extra ph d) = redact_value extra ph (JObj d)"
  by (simp add: redact_mapping_def)

text \<open>
  Redaction hides the secrets and nothing else. Two argument dictionaries have the same
  redacted form exactly when they differ at most in values below sensitive keys, so an event
  tells nothing about a secret at any depth and everything about the rest; the result is
  fully masked, and redacting again changes nothing.
\<close>

theorem redaction_hides_exactly_secrets:
  "(redact_mapping extra ph d = redact_mapping extra ph e \<longleftrightarrow> same_public extra (JObj d) (JObj e))
   \<and> masked extra ph (JObj (redact_mapping extra ph d))
   \<and> redact_mapping extra ph (redact_mapping extra ph d) = redact_mapping extra ph d"
proof -
  have "redact_mapping extra ph d = redact_mapping extra ph e \<longleftrightarrow> same_public extra (JObj d) (JObj e)"
    using redact_value_eq [of extra ph "JObj d" "JObj e"] unfolding redact_mapping_value [symmetric] by simp
  moreover have m: "masked extra ph (JObj (redact_mapping extra ph d))"
    unfolding redact_mapping_value by (rule masked_redacted)
  moreover have "JObj (redact_mapping extra ph (redact_mapping extra ph d)) = JObj (redact_mapping extra ph d)"
    unfolding redact_mapping_value [of _ _ "redact_mapping extra ph d"] using m by (rule redact_masked)
  ultimately show ?thesis by blast
qed

lemma redaction_example:
  "redact_mapping [] REDACTED
     [(''url'', JStr ''u''), (''json_body'', JObj [(''Api_Key'', JStr ''s3cr3t''), (''n'', JInt 1)])]
   = [(''url'', JStr ''u''), (''json_body'', JObj [(''Api_Key'', JStr REDACTED), (''n'', JInt 1)])]"
  by code_simp

end
