(* ===== verification/Principals.thy ===== *)
theory Principals
  imports PyText "HOL-Library.Char_ord" "HOL-Library.List_Lexorder"
begin

text \<open>
  Who is calling: the verified identity of himmy/api/auth/principal.py, the tenant and
  data-subject gates of himmy/api/auth/context.py, and the namespace tokens of
  himmy/toolkit/config.py by which one shared store is partitioned. A \<open>frozenset\<close> is a HOL
  set, finite where the code sorts it. A request is the principal attached to it, and an
  HTTP error is a value.
\<close>

section \<open>Principals\<close>

record principal =
  pr_subject :: string
  pr_tenant_ids :: "string set"
  pr_roles :: "string set"
  pr_scopes :: "string set"
  pr_all_tenants :: bool
  pr_auth_method :: string
  pr_source_ip :: "string option"
  pr_claims :: json_dict
  pr_subject_scoped :: bool

definition TENANT_ADMIN_ROLE :: string where "TENANT_ADMIN_ROLE = ''tenant_admin''"

definition ANONYMOUS :: principal where
  "ANONYMOUS = \<lparr>pr_subject = ''anonymous'', pr_tenant_ids = {}, pr_roles = {}, pr_scopes = {},
     pr_all_tenants = True, pr_auth_method = ''anonymous'', pr_source_ip = None, pr_claims = [],
     pr_subject_scoped = False\<rparr>"

definition principal_build ::
  "string \<Rightarrow> string list \<Rightarrow> string list \<Rightarrow> string list \<Rightarrow> bool \<Rightarrow> string \<Rightarrow> string option \<Rightarrow> json_dict option
     \<Rightarrow> bool \<Rightarrow> principal" where
  "principal_build subject tenants roles scopes all_tenants auth_method ip claims scoped =
     \<lparr>pr_subject = subject, pr_tenant_ids = set tenants, pr_roles = set roles, pr_scopes = set scopes,
      pr_all_tenants = all_tenants, pr_auth_method = auth_method, pr_source_ip = ip,
      pr_claims = (case claims of None \<Rightarrow> [] | Some d \<Rightarrow> d), pr_subject_scoped = scoped\<rparr>"

definition may_access :: "principal \<Rightarrow> string \<Rightarrow> bool" where
  "may_access p ws \<longleftrightarrow> pr_all_tenants p \<or> ws \<in> pr_tenant_ids p"

definition may_access_subject :: "principal \<Rightarrow> string option \<Rightarrow> bool" where
  "may_access_subject p sid =
     (if pr_all_tenants p \<or> \<not> pr_subject_scoped p then True
      else if TENANT_ADMIN_ROLE \<in> pr_roles p then True
      else if sid = None then True
      else sid = Some (pr_subject p))"

definition default_tenant :: "principal \<Rightarrow> string option" where
  "default_tenant p =
     (if pr_all_tenants p \<or> card (pr_tenant_ids p) \<noteq> 1 then None else Some (the_elem (pr_tenant_ids p)))"

definition has_role :: "principal \<Rightarrow> string \<Rightarrow> bool" where
  "has_role p role \<longleftrightarrow> role \<in> pr_roles p"

text \<open>The serialized descriptor of an actor; each conditional key is a segment of the dictionary.\<close>

definition actor_metadata :: "principal \<Rightarrow> json_dict" where
  "actor_metadata p =
     [(''subject'', JStr (pr_subject p)), (''auth_method'', JStr (pr_auth_method p))]
     @ (if pr_roles p \<noteq> {} then [(''roles'', JList (map JStr (sorted_list_of_set (pr_roles p))))] else [])
     @ (if pr_scopes p \<noteq> {} then [(''scopes'', JList (map JStr (sorted_list_of_set (pr_scopes p))))] else [])
     @ (case pr_source_ip p of Some ip \<Rightarrow> if ip \<noteq> [] then [(''source_ip'', JStr ip)] else [] | None \<Rightarrow> [])
     @ (if \<not> pr_all_tenants p \<or> pr_scopes p \<noteq> {} then [(''tool_authz_enforce'', JBool True)] else [])
     @ (if pr_subject_scoped p \<and> TENANT_ADMIN_ROLE \<notin> pr_roles p
        then [(''subject_scoped'', JBool True)] else [])"

section \<open>The tenant and subject gates of a request\<close>

datatype http_error = Http nat string

definition resolve_workspace :: "principal \<Rightarrow> string option \<Rightarrow> http_error + string option" where
  "resolve_workspace p requested =
     (if pr_all_tenants p then Inr requested
      else case requested of
             None \<Rightarrow> (case default_tenant p of
                        Some ws \<Rightarrow> Inr (Some ws)
                      | None \<Rightarrow> Inl (Http 400 ''workspace_id is required for a multi-tenant principal''))
           | Some ws \<Rightarrow> if may_access p ws then Inr (Some ws)
                        else Inl (Http 403 ''workspace access denied''))"

definition authorize_object :: "principal \<Rightarrow> string option \<Rightarrow> bool" where
  "authorize_object p sid = may_access_subject p sid"

definition narrow_subject :: "principal \<Rightarrow> string option \<Rightarrow> string option" where
  "narrow_subject p requested =
     (if pr_all_tenants p \<or> \<not> pr_subject_scoped p then requested
      else if TENANT_ADMIN_ROLE \<in> pr_roles p then requested
      else Some (pr_subject p))"

definition enforce_subject_write :: "principal \<Rightarrow> string option \<Rightarrow> http_error + unit" where
  "enforce_subject_write p sid =
     (if may_access_subject p sid then Inr () else Inl (Http 403 ''subject access denied''))"

definition studio_tenant_filter :: "principal \<Rightarrow> string set option" where
  "studio_tenant_filter p = (if pr_all_tenants p then None else Some (pr_tenant_ids p))"

definition studio_subject_filter :: "principal \<Rightarrow> string option" where
  "studio_subject_filter p =
     (if pr_all_tenants p \<or> \<not> pr_subject_scoped p then None
      else if TENANT_ADMIN_ROLE \<in> pr_roles p then None
      else Some (pr_subject p))"

definition studio_write_workspace :: "principal \<Rightarrow> http_error + string option" where
  "studio_write_workspace p =
     (if pr_all_tenants p then Inr None
      else case default_tenant p of
             Some ws \<Rightarrow> Inr (Some ws)
           | None \<Rightarrow> Inl (Http 400 ''workspace_id is required for a multi-tenant principal''))"

definition authorize_studio_object :: "principal \<Rightarrow> string option \<Rightarrow> bool" where
  "authorize_studio_object p ws = (case ws of None \<Rightarrow> True | Some w \<Rightarrow> may_access p w)"

definition reveal_host_posture :: "principal \<Rightarrow> bool" where
  "reveal_host_posture p = pr_all_tenants p"

definition require_workspace :: "principal \<Rightarrow> string \<Rightarrow> http_error + string" where
  "require_workspace p requested =
     (case resolve_workspace p (Some requested) of
        Inl e \<Rightarrow> Inl e
      | Inr None \<Rightarrow> Inl (Http 400 ''workspace_id is required'')
      | Inr (Some ws) \<Rightarrow> Inr ws)"

section \<open>Namespaces of a shared store\<close>

text \<open>The tenant and subject scope of a run; an empty text counts as unset.\<close>

record toolkit_scope =
  tenant_scope :: "string option"
  subject_scope :: "string option"
  memory_subject :: string

definition tenant_namespace_segment :: "string \<Rightarrow> string" where
  "tenant_namespace_segment v =
     py_replace_char (CHR '':'') ''%3A'' (py_replace_char (CHR ''%'') ''%25'' v)"

definition set_segment :: "string option \<Rightarrow> string option" where
  "set_segment v =
     (case v of None \<Rightarrow> None | Some s \<Rightarrow> if s = [] then None else Some (tenant_namespace_segment s))"

definition scope_token :: "toolkit_scope \<Rightarrow> string option" where
  "scope_token c =
     (case (set_segment (tenant_scope c), set_segment (subject_scope c)) of
        (Some t, Some s) \<Rightarrow> Some (t @ '':s:'' @ s)
      | (Some t, None) \<Rightarrow> Some t
      | (None, Some s) \<Rightarrow> Some (''s:'' @ s)
      | (None, None) \<Rightarrow> None)"

definition scoped_memory_subject :: "toolkit_scope \<Rightarrow> string" where
  "scoped_memory_subject c =
     (case scope_token c of Some t \<Rightarrow> ''t:'' @ t @ '':'' @ memory_subject c | None \<Rightarrow> memory_subject c)"

definition scoped_kb_keys :: "toolkit_scope \<Rightarrow> string \<times> string" where
  "scoped_kb_keys c =
     (case scope_token c of Some t \<Rightarrow> (''t:'' @ t, ''t:'' @ t) | None \<Rightarrow> (''local'', ''local''))"

definition scoped_pack_workspace :: "toolkit_scope \<Rightarrow> string option" where
  "scoped_pack_workspace c =
     (case (set_segment (subject_scope c), scope_token c) of
        (Some _, Some t) \<Rightarrow> Some (''t:'' @ t)
      | _ \<Rightarrow> tenant_scope c)"

text \<open>The owner of a row in a singleton store, for a write and for a read.\<close>

definition singleton_owner_token :: "principal \<Rightarrow> http_error + string option" where
  "singleton_owner_token p =
     (case studio_subject_filter p of
        None \<Rightarrow> Inr None
      | Some subject \<Rightarrow>
          (case resolve_workspace p None of
             Inl e \<Rightarrow> Inl e
           | Inr None \<Rightarrow> Inr None
           | Inr (Some ws) \<Rightarrow>
               if ws = [] then Inr None
               else Inr (scoped_pack_workspace
                 \<lparr>tenant_scope = Some ws, subject_scope = Some subject, memory_subject = ''default''\<rparr>)))"

definition singleton_write_workspace :: "principal \<Rightarrow> http_error + string option" where
  "singleton_write_workspace p =
     (case singleton_owner_token p of
        Inl e \<Rightarrow> Inl e
      | Inr (Some t) \<Rightarrow> Inr (Some t)
      | Inr None \<Rightarrow> studio_write_workspace p)"

definition singleton_read_filter :: "principal \<Rightarrow> http_error + string set option" where
  "singleton_read_filter p =
     (case singleton_owner_token p of
        Inl e \<Rightarrow> Inl e
      | Inr (Some t) \<Rightarrow> Inr (Some {t})
      | Inr None \<Rightarrow> Inr (studio_tenant_filter p))"

section \<open>The gates are exact\<close>

lemma default_tenant_iff:
  "\<not> pr_all_tenants p \<Longrightarrow> default_tenant p = Some ws \<longleftrightarrow> pr_tenant_ids p = {ws}"
  by (cases "\<exists>w. pr_tenant_ids p = {w}") (use card_1_singleton_iff [of "pr_tenant_ids p"] in
    \<open>force simp: default_tenant_def\<close>)+

text \<open>
  A tenant-bound caller reaches exactly the workspaces it is entitled to: a named
  workspace is granted, unchanged, precisely when it is one of the caller's tenants, and an
  omitted one resolves only for a caller with a single tenant, to that tenant. It never
  resolves to "no workspace", which would mean every tenant.
\<close>

theorem tenant_gate_exact:
  assumes "\<not> pr_all_tenants p"
  shows "resolve_workspace p requested = Inr granted \<longleftrightarrow>
    (\<exists>ws. granted = Some ws \<and> ws \<in> pr_tenant_ids p \<and>
      (case requested of Some r \<Rightarrow> r = ws | None \<Rightarrow> pr_tenant_ids p = {ws}))"
proof (cases requested)
  case None
  have "resolve_workspace p None = Inr granted \<longleftrightarrow> granted = default_tenant p \<and> granted \<noteq> None"
    using assms by (auto simp: resolve_workspace_def split: option.splits)
  then have "resolve_workspace p None = Inr granted
      \<longleftrightarrow> (\<exists>ws. granted = Some ws \<and> default_tenant p = Some ws)"
    by (cases granted) (simp_all add: eq_commute)
  then show ?thesis using None by (auto simp: default_tenant_iff [OF assms])
next
  case (Some r)
  then show ?thesis using assms by (auto simp: resolve_workspace_def may_access_def)
qed

definition demo_member :: "string \<Rightarrow> principal" where
  "demo_member s = ANONYMOUS\<lparr>pr_subject := s, pr_all_tenants := False, pr_tenant_ids := {''acme''},
     pr_roles := {''viewer''}, pr_subject_scoped := True\<rparr>"

lemma demo_member_subject [simp]: "pr_subject (demo_member s) = s"
  by (simp add: demo_member_def)

theorem tenant_gate_exact_witness:
  "resolve_workspace (demo_member ''bob'') (Some ''acme'') = Inr (Some ''acme'')
   \<and> resolve_workspace (demo_member ''bob'') (Some ''globex'') \<noteq> Inr (Some ''globex'')"
proof -
  have t: "\<not> pr_all_tenants (demo_member ''bob'')" "pr_tenant_ids (demo_member ''bob'') = {''acme''}"
    by (simp_all add: demo_member_def)
  show ?thesis by (simp add: tenant_gate_exact [OF t(1)] t(2))
qed

text \<open>
  The three subject gates agree: every row a list query may return after the subject
  filter is imposed is one the by-id gate admits, the filter itself names a subject the
  caller may write under, and reading by id and writing admit the same subjects.
\<close>

theorem subject_gates_agree:
  "{sid. narrow_subject p requested = None \<or> narrow_subject p requested = sid} \<subseteq> {sid. authorize_object p sid}
   \<and> {sid. studio_subject_filter p = None \<or> studio_subject_filter p = sid} \<subseteq> {sid. authorize_object p sid}
   \<and> {sid. enforce_subject_write p sid = Inr ()} = {sid. authorize_object p sid}"
  by (auto simp: narrow_subject_def studio_subject_filter_def authorize_object_def
      may_access_subject_def enforce_subject_write_def)

section \<open>Namespaces do not overlap\<close>

lemma segment_simps [simp]:
  "tenant_namespace_segment [] = []"
  "tenant_namespace_segment (c # cs) =
     (if c = CHR ''%'' then ''%25'' else if c = CHR '':'' then ''%3A'' else [c]) @ tenant_namespace_segment cs"
  by (simp_all add: tenant_namespace_segment_def py_replace_char_def)

lemma segment_no_colon [simp]: "CHR '':'' \<notin> set (tenant_namespace_segment v)"
  by (induction v) auto

lemma segment_inj [simp]: "tenant_namespace_segment v = tenant_namespace_segment w \<longleftrightarrow> v = w"
proof (induction v arbitrary: w)
  case Nil
  then show ?case by (cases w) auto
next
  case (Cons c cs)
  then show ?case by (cases w) auto
qed

lemma segment_empty [simp]: "tenant_namespace_segment v = [] \<longleftrightarrow> v = []"
  by (cases v) auto

lemma segment_length: "length v \<le> length (tenant_namespace_segment v)"
  by (induction v) auto

lemma colon_free_prefix:
  assumes "CHR '':'' \<notin> set a" and "CHR '':'' \<notin> set b"
  shows "a @ CHR '':'' # x = b @ CHR '':'' # y \<longleftrightarrow> a = b \<and> x = y"
  using assms
proof (induction a arbitrary: b)
  case Nil
  then show ?case by (cases b) auto
next
  case (Cons c cs)
  then show ?case by (cases b) auto
qed

definition set_scope :: "toolkit_scope \<Rightarrow> string option \<times> string option" where
  "set_scope c = (let given = (\<lambda>v. if v = Some [] then None else v)
     in (given (tenant_scope c), given (subject_scope c)))"

lemma set_segment_simps [simp]:
  "set_segment None = None" "set_segment (Some []) = None"
  "set_segment (Some (c # cs)) = Some (tenant_namespace_segment (c # cs))"
  by (simp_all add: set_segment_def)

lemma scope_token_cases:
  "scope_token c =
     (case set_scope c of
        (Some t, Some s) \<Rightarrow> Some (tenant_namespace_segment t @ '':s:'' @ tenant_namespace_segment s)
      | (Some t, None) \<Rightarrow> Some (tenant_namespace_segment t)
      | (None, Some s) \<Rightarrow> Some (''s:'' @ tenant_namespace_segment s)
      | (None, None) \<Rightarrow> None)"
  by (auto simp: scope_token_def set_scope_def Let_def set_segment_def split: option.splits)

lemma segment_not_subject_token [simp]:
  "tenant_namespace_segment v \<noteq> CHR ''s'' # CHR '':'' # x"
  "CHR ''s'' # CHR '':'' # x \<noteq> tenant_namespace_segment v"
  by (metis segment_no_colon list.set_intros)+

lemma segment_not_combined_token [simp]:
  "tenant_namespace_segment v \<noteq> a @ CHR '':'' # x" "a @ CHR '':'' # x \<noteq> tenant_namespace_segment v"
  by (metis segment_no_colon in_set_conv_decomp)+

lemma subject_not_combined_token [simp]:
  "CHR ''s'' # CHR '':'' # tenant_namespace_segment s \<noteq> tenant_namespace_segment t @ CHR '':'' # CHR ''s'' # CHR '':'' # x"
  "tenant_namespace_segment t @ CHR '':'' # CHR ''s'' # CHR '':'' # x \<noteq> CHR ''s'' # CHR '':'' # tenant_namespace_segment s"
proof -
  have "''s'' @ CHR '':'' # tenant_namespace_segment s \<noteq> tenant_namespace_segment t @ CHR '':'' # ''s:'' @ x"
    by (subst colon_free_prefix) simp_all
  then show "CHR ''s'' # CHR '':'' # tenant_namespace_segment s \<noteq> tenant_namespace_segment t @ CHR '':'' # CHR ''s'' # CHR '':'' # x"
    by simp
  then show "tenant_namespace_segment t @ CHR '':'' # CHR ''s'' # CHR '':'' # x \<noteq> CHR ''s'' # CHR '':'' # tenant_namespace_segment s"
    by (rule not_sym)
qed

lemma scope_token_inj: "scope_token c = scope_token d \<longleftrightarrow> set_scope c = set_scope d"
  by (cases "set_scope c"; cases "set_scope d")
    (auto simp: scope_token_cases colon_free_prefix split: option.splits)

text \<open>
  A shared store is partitioned exactly by tenant and user: two scopes give the same
  knowledge-base keys, and for one memory subject the same memory key, only when they name
  the same tenant and the same user; ids that contain the delimiter do not break this.
\<close>

theorem shared_stores_are_partitioned:
  fixes c :: toolkit_scope
  defines "d \<equiv> \<lambda>tenant user. c\<lparr>tenant_scope := tenant, subject_scope := user\<rparr>"
  shows "(scoped_kb_keys c = scoped_kb_keys (d tenant user) \<longleftrightarrow> set_scope c = set_scope (d tenant user))
    \<and> (scoped_memory_subject c = scoped_memory_subject (d tenant user)
        \<longleftrightarrow> set_scope c = set_scope (d tenant user))"
  unfolding scope_token_inj [symmetric] d_def
  by (auto simp: scoped_kb_keys_def scoped_memory_subject_def split: option.splits)

section \<open>Rows of the singleton stores\<close>

text \<open>A user scoped to one tenant, and the owner text its rows carry.\<close>

definition tenant_user :: "string \<Rightarrow> principal \<Rightarrow> bool" where
  "tenant_user ws p \<longleftrightarrow> \<not> pr_all_tenants p \<and> pr_tenant_ids p = {ws} \<and> ws \<noteq> []
     \<and> pr_subject_scoped p \<and> TENANT_ADMIN_ROLE \<notin> pr_roles p \<and> pr_subject p \<noteq> []"

definition user_owner :: "string \<Rightarrow> string \<Rightarrow> string" where
  "user_owner ws user = ''t:'' @ tenant_namespace_segment ws @ '':s:'' @ tenant_namespace_segment user"

lemma tenant_user_token:
  assumes "tenant_user ws p"
  shows "singleton_owner_token p = Inr (Some (user_owner ws (pr_subject p)))"
proof -
  have "default_tenant p = Some ws"
    using assms default_tenant_iff [of p ws] by (simp add: tenant_user_def)
  moreover obtain c cs d ds where "ws = c # cs" "pr_subject p = d # ds"
    using assms by (metis tenant_user_def neq_Nil_conv)
  ultimately show ?thesis
    using assms by (simp add: singleton_owner_token_def studio_subject_filter_def tenant_user_def
        resolve_workspace_def scoped_pack_workspace_def scope_token_def user_owner_def del: segment_simps)
qed

lemma user_owner_inj: "user_owner ws u = user_owner ws' v \<longleftrightarrow> ws = ws' \<and> u = v"
  by (auto simp: user_owner_def colon_free_prefix)

lemma user_owner_not_tenant: "user_owner ws u \<noteq> ws"
  using segment_length [of ws] by (auto simp: user_owner_def dest: arg_cong [where f = length])

text \<open>
  Inside one tenant a user's notes, tasks and chats are private to the user: what a
  subject-scoped user writes it can read back, no other subject-scoped user of that or
  another tenant can, and neither can a member of the tenant who is not subject-scoped.
\<close>

theorem user_rows_are_private:
  assumes "tenant_user ws p" and "tenant_user ws' q" and "pr_subject p \<noteq> pr_subject q \<or> ws \<noteq> ws'"
    and "\<not> pr_all_tenants r" and "\<not> pr_subject_scoped r" and "pr_tenant_ids r = {ws}"
  shows "\<exists>owner. singleton_write_workspace p = Inr (Some owner)
    \<and> singleton_read_filter p = Inr (Some {owner})
    \<and> (\<exists>qs. singleton_read_filter q = Inr (Some qs) \<and> owner \<notin> qs)
    \<and> (\<exists>rs. singleton_read_filter r = Inr (Some rs) \<and> owner \<notin> rs)"
  using assms(3-6) user_owner_not_tenant [of ws "pr_subject p"]
  by (auto simp: singleton_write_workspace_def singleton_read_filter_def tenant_user_token [OF assms(1)]
      tenant_user_token [OF assms(2)] user_owner_inj singleton_owner_token_def [of r]
      studio_subject_filter_def studio_tenant_filter_def)

definition demo_plain_member :: principal where
  "demo_plain_member = (demo_member ''carol'')\<lparr>pr_subject_scoped := False\<rparr>"

lemma demo_users: "tenant_user ''acme'' (demo_member ''bob'')" "tenant_user ''acme'' (demo_member ''eve'')"
  by (simp_all add: tenant_user_def demo_member_def TENANT_ADMIN_ROLE_def)

theorem user_rows_are_private_witness:
  "\<exists>owner. singleton_write_workspace (demo_member ''bob'') = Inr (Some owner)
    \<and> (\<exists>qs. singleton_read_filter (demo_member ''eve'') = Inr (Some qs) \<and> owner \<notin> qs)
    \<and> (\<exists>rs. singleton_read_filter demo_plain_member = Inr (Some rs) \<and> owner \<notin> rs)"
proof -
  have d: "pr_subject (demo_member ''bob'') \<noteq> pr_subject (demo_member ''eve'') \<or> ''acme'' \<noteq> ''acme''"
    "\<not> pr_all_tenants demo_plain_member" "\<not> pr_subject_scoped demo_plain_member"
    "pr_tenant_ids demo_plain_member = {''acme''}"
    by (simp_all add: demo_member_def demo_plain_member_def)
  from user_rows_are_private [OF demo_users d] show ?thesis by blast
qed

text \<open>
  The owner text of a whole tenant is its raw id, not an escaped segment, so a tenant
  whose id is spelled like a user partition reads that user's rows.
\<close>

theorem tenant_id_can_name_a_user_partition:
  "scoped_pack_workspace \<lparr>tenant_scope = Some ''t:acme:s:bob'', subject_scope = None, memory_subject = m\<rparr>
     = scoped_pack_workspace \<lparr>tenant_scope = Some ''acme'', subject_scope = Some ''bob'', memory_subject = m\<rparr>
   \<and> singleton_write_workspace (demo_member ''bob'') = Inr (Some ''t:acme:s:bob'')
   \<and> singleton_read_filter (demo_plain_member\<lparr>pr_tenant_ids := {''t:acme:s:bob''}\<rparr>)
      = Inr (Some {''t:acme:s:bob''})"
proof (intro conjI)
  show "scoped_pack_workspace \<lparr>tenant_scope = Some ''t:acme:s:bob'', subject_scope = None, memory_subject = m\<rparr>
     = scoped_pack_workspace \<lparr>tenant_scope = Some ''acme'', subject_scope = Some ''bob'', memory_subject = m\<rparr>"
    by (simp add: scoped_pack_workspace_def scope_token_def)
  show "singleton_write_workspace (demo_member ''bob'') = Inr (Some ''t:acme:s:bob'')"
    by (simp add: singleton_write_workspace_def tenant_user_token [OF demo_users(1)] user_owner_def)
  show "singleton_read_filter (demo_plain_member\<lparr>pr_tenant_ids := {''t:acme:s:bob''}\<rparr>)
      = Inr (Some {''t:acme:s:bob''})"
    by (simp add: singleton_read_filter_def singleton_owner_token_def studio_subject_filter_def
        studio_tenant_filter_def demo_plain_member_def demo_member_def)
qed

end
