(* ===== verification/Checkpoints.thy ===== *)
theory Checkpoints
  imports ToolModels ToolSecurity Principals
begin

text \<open>
  Durable checkpoints of a paused run, himmy/runtime/checkpoint.py: the two persisted
  models, the stepwise upgrade of an older document, the in-memory and the SQLite stores,
  the compare-and-set claim of a resume and the retention calls.

  A SQLite row keeps the columns the code queries and the JSON document. A document is
  written field by field (\<open>model_dump_json\<close>) and read back after the upgrade
  (\<open>model_validate\<close>): a field of the wrong shape is refused; the coercions pydantic would
  try on it are left out, and so are the two cost figures, which are floats. Time stamps are
  kept as their texts, which the code compares.
\<close>

section \<open>Models\<close>

abbreviation "CP_AWAITING_APPROVAL \<equiv> ''awaiting_approval''"
abbreviation "CP_RESOLVING \<equiv> ''resolving''"
abbreviation "CP_APPROVED \<equiv> ''approved''"
abbreviation "CP_REJECTED \<equiv> ''rejected''"

definition CHECKPOINT_SCHEMA_VERSION :: int where "CHECKPOINT_SCHEMA_VERSION = 3"

record pending_tool_call =
  pc_call_id :: string
  pc_name :: string
  pc_args :: json_dict

record agent_checkpoint =
  cp_version :: int
  cp_id :: string
  cp_status :: string
  cp_persona :: json_dict
  cp_task :: json_dict
  cp_thread :: json_dict
  cp_ctx :: json_dict
  cp_llm_config :: "json_dict option"
  cp_max_turns :: int
  cp_turns_completed :: int
  cp_pending :: "pending_tool_call list"
  cp_executed :: "(string, json_dict) dict"
  cp_final_output :: "string option"
  cp_created_at :: string

abbreviation "GRAPH_RUNNING \<equiv> ''running''"
abbreviation "GRAPH_COMPLETED \<equiv> ''completed''"
abbreviation "GRAPH_INTERRUPTED \<equiv> ''interrupted''"
abbreviation "GRAPH_FAILED \<equiv> ''failed''"

definition GRAPH_CHECKPOINT_SCHEMA_VERSION :: int where "GRAPH_CHECKPOINT_SCHEMA_VERSION = 2"

record graph_checkpoint =
  gc_version :: int
  gc_id :: string
  gc_graph_name :: string
  gc_status :: string
  gc_state :: json_dict
  gc_frontier :: "string list"
  gc_superstep :: int
  gc_visit_counts :: "(string, int) dict"
  gc_completed_nodes :: "string list"
  gc_paused_node :: string
  gc_member_checkpoint_id :: string
  gc_error :: "string option"
  gc_created_at :: string
  gc_updated_at :: string

text \<open>The fields the constructor fills in when they are not given.\<close>

definition new_checkpoint :: "string \<Rightarrow> string \<Rightarrow> agent_checkpoint" where
  "new_checkpoint cid now =
     \<lparr>cp_version = CHECKPOINT_SCHEMA_VERSION, cp_id = cid, cp_status = CP_AWAITING_APPROVAL, cp_persona = [],
      cp_task = [], cp_thread = [], cp_ctx = [], cp_llm_config = None, cp_max_turns = 6,
      cp_turns_completed = 0, cp_pending = [], cp_executed = [], cp_final_output = None, cp_created_at = now\<rparr>"

definition new_graph_checkpoint :: "string \<Rightarrow> string \<Rightarrow> graph_checkpoint" where
  "new_graph_checkpoint cid now =
     \<lparr>gc_version = GRAPH_CHECKPOINT_SCHEMA_VERSION, gc_id = cid, gc_graph_name = [], gc_status = GRAPH_RUNNING,
      gc_state = [], gc_frontier = [], gc_superstep = 0, gc_visit_counts = [], gc_completed_nodes = [],
      gc_paused_node = [], gc_member_checkpoint_id = [], gc_error = None, gc_created_at = now, gc_updated_at = now\<rparr>"

text \<open>The arguments of a pending call as an approvals view shows them; the placeholder is four bullets.\<close>

definition redact_tool_args :: "string \<Rightarrow> json_dict \<Rightarrow> json_dict" where
  "redact_tool_args placeholder args = redact_mapping [] placeholder args"

section \<open>Upgrading a document\<close>

definition MIGRATIONS :: "int \<Rightarrow> (json_dict \<Rightarrow> json_dict) option" where
  "MIGRATIONS v =
     (if v = 0 then Some (\<lambda>raw. raw)
      else if v = 1 then Some (\<lambda>raw. dict_setdefault ''executed_tool_results'' (JObj []) raw)
      else if v = 2 then Some (\<lambda>raw. dict_setdefault ''final_output'' JNull raw)
      else None)"

definition GRAPH_MIGRATIONS :: "int \<Rightarrow> (json_dict \<Rightarrow> json_dict) option" where
  "GRAPH_MIGRATIONS v =
     (if v = 0 then Some (\<lambda>raw. raw)
      else if v = 1 then Some (\<lambda>raw. dict_setdefault ''member_checkpoint_id'' (JStr [])
                                  (dict_setdefault ''paused_node'' (JStr []) raw))
      else None)"

text \<open>The loop of both upgrades; a version without a step is a KeyError.\<close>

partial_function (option) migrate_loop ::
    "(int \<Rightarrow> (json_dict \<Rightarrow> json_dict) option) \<Rightarrow> int \<Rightarrow> int \<Rightarrow> json_dict \<Rightarrow> (string + json_dict) option" where
  "migrate_loop steps current version raw =
     (if version < current then
        (case steps version of
           None \<Rightarrow> Some (Inl ''KeyError'')
         | Some f \<Rightarrow>
             migrate_loop steps current (version + 1) (AList.update ''schema_version'' (JInt (version + 1)) (f raw)))
      else Some (Inr raw))"

declare migrate_loop.simps [code]

text \<open>\<open>isinstance(version, int)\<close>: a bool is one.\<close>

fun version_int :: "json \<Rightarrow> int option" where
  "version_int (JInt n) = Some n"
| "version_int (JBool b) = Some (if b then 1 else 0)"
| "version_int _ = None"

definition migrate_with :: "string \<Rightarrow> string \<Rightarrow> (int \<Rightarrow> (json_dict \<Rightarrow> json_dict) option) \<Rightarrow> int \<Rightarrow> json_dict
    \<Rightarrow> (string + json_dict) option" where
  "migrate_with what subj steps current raw =
     (let v = json_get ''schema_version'' (JInt 0) raw;
          invalid = Some (Inl (''Invalid '' @ what @ '' schema_version '' @ py_repr v @
            ''; expected a non-negative int <= '' @ int_str current @ ''.''))
      in case version_int v of
           None \<Rightarrow> invalid
         | Some n \<Rightarrow>
             if n < 0 then invalid
             else if current < n then
               Some (Inl (subj @ '' schema_version '' @ py_repr v @ '' is newer than this himmy build supports (max ''
                 @ int_str current @ ''); upgrade himmy to resume it.''))
             else migrate_loop steps current n raw)"

definition migrate_checkpoint :: "json_dict \<Rightarrow> (string + json_dict) option" where
  "migrate_checkpoint raw = migrate_with ''checkpoint'' ''Checkpoint'' MIGRATIONS CHECKPOINT_SCHEMA_VERSION raw"

definition migrate_graph_checkpoint :: "json_dict \<Rightarrow> (string + json_dict) option" where
  "migrate_graph_checkpoint raw =
     migrate_with ''graph checkpoint'' ''Graph checkpoint'' GRAPH_MIGRATIONS GRAPH_CHECKPOINT_SCHEMA_VERSION raw"

section \<open>Documents\<close>

definition dump_opt :: "('a \<Rightarrow> json) \<Rightarrow> 'a option \<Rightarrow> json" where
  "dump_opt f x = (case x of None \<Rightarrow> JNull | Some v \<Rightarrow> f v)"

definition dump_pending :: "pending_tool_call \<Rightarrow> json" where
  "dump_pending p = JObj [(''tool_call_id'', JStr (pc_call_id p)), (''tool_name'', JStr (pc_name p)), (''args'', JObj (pc_args p))]"

definition dump_checkpoint :: "agent_checkpoint \<Rightarrow> json_dict" where
  "dump_checkpoint c =
     [(''schema_version'', JInt (cp_version c)), (''checkpoint_id'', JStr (cp_id c)), (''status'', JStr (cp_status c)),
      (''persona'', JObj (cp_persona c)), (''task'', JObj (cp_task c)), (''thread'', JObj (cp_thread c)),
      (''ctx'', JObj (cp_ctx c)), (''llm_config'', dump_opt JObj (cp_llm_config c)),
      (''max_turns'', JInt (cp_max_turns c)), (''turns_completed'', JInt (cp_turns_completed c)),
      (''pending_tool_calls'', JList (map dump_pending (cp_pending c))),
      (''executed_tool_results'', JObj (map (\<lambda>(k, d). (k, JObj d)) (cp_executed c))),
      (''final_output'', dump_opt JStr (cp_final_output c)), (''created_at'', JStr (cp_created_at c))]"

definition dump_graph_checkpoint :: "graph_checkpoint \<Rightarrow> json_dict" where
  "dump_graph_checkpoint c =
     [(''schema_version'', JInt (gc_version c)), (''checkpoint_id'', JStr (gc_id c)), (''graph_name'', JStr (gc_graph_name c)),
      (''status'', JStr (gc_status c)), (''state'', JObj (gc_state c)), (''frontier'', JList (map JStr (gc_frontier c))),
      (''superstep'', JInt (gc_superstep c)), (''visit_counts'', JObj (map (\<lambda>(k, n). (k, JInt n)) (gc_visit_counts c))),
      (''completed_nodes'', JList (map JStr (gc_completed_nodes c))), (''paused_node'', JStr (gc_paused_node c)),
      (''member_checkpoint_id'', JStr (gc_member_checkpoint_id c)), (''error'', dump_opt JStr (gc_error c)),
      (''created_at'', JStr (gc_created_at c)), (''updated_at'', JStr (gc_updated_at c))]"

text \<open>Reading: a field that is missing has its default, one of the wrong shape is an error.\<close>

fun str_of :: "json \<Rightarrow> string option" where
  "str_of (JStr s) = Some s" | "str_of _ = None"

fun int_of :: "json \<Rightarrow> int option" where
  "int_of (JInt n) = Some n" | "int_of _ = None"

fun obj_of :: "json \<Rightarrow> json_dict option" where
  "obj_of (JObj d) = Some d" | "obj_of _ = None"

definition opt_of :: "(json \<Rightarrow> 'a option) \<Rightarrow> json \<Rightarrow> 'a option option" where
  "opt_of f v = (if v = JNull then Some None else map_option Some (f v))"

fun all_of :: "(json \<Rightarrow> 'a option) \<Rightarrow> json list \<Rightarrow> 'a list option" where
  "all_of f [] = Some []"
| "all_of f (v # vs) = (case (f v, all_of f vs) of (Some x, Some xs) \<Rightarrow> Some (x # xs) | _ \<Rightarrow> None)"

fun list_of :: "(json \<Rightarrow> 'a option) \<Rightarrow> json \<Rightarrow> 'a list option" where
  "list_of f (JList vs) = all_of f vs" | "list_of f _ = None"

fun dict_of :: "(json \<Rightarrow> 'a option) \<Rightarrow> json \<Rightarrow> (string, 'a) dict option" where
  "dict_of f (JObj d) = map_option (zip (map fst d)) (all_of f (map snd d))" | "dict_of f _ = None"

definition field :: "(json \<Rightarrow> 'a option) \<Rightarrow> string \<Rightarrow> 'a option \<Rightarrow> json_dict \<Rightarrow> 'a option" where
  "field f key dflt d = (case map_of d key of None \<Rightarrow> dflt | Some v \<Rightarrow> f v)"

definition pending_of :: "json \<Rightarrow> pending_tool_call option" where
  "pending_of v = Option.bind (obj_of v) (\<lambda>d.
     Option.bind (field str_of ''tool_call_id'' None d) (\<lambda>i.
     Option.bind (field str_of ''tool_name'' None d) (\<lambda>n.
     Option.bind (field obj_of ''args'' (Some []) d) (\<lambda>a.
     Some \<lparr>pc_call_id = i, pc_name = n, pc_args = a\<rparr>))))"

text \<open>The argument holds the defaults.\<close>

definition validate_checkpoint :: "agent_checkpoint \<Rightarrow> json_dict \<Rightarrow> agent_checkpoint option" where
  "validate_checkpoint z d =
     Option.bind (field int_of ''schema_version'' (Some (cp_version z)) d) (\<lambda>version.
     Option.bind (field str_of ''checkpoint_id'' (Some (cp_id z)) d) (\<lambda>cid.
     Option.bind (field str_of ''status'' (Some (cp_status z)) d) (\<lambda>st.
     Option.bind (field obj_of ''persona'' (Some (cp_persona z)) d) (\<lambda>persona.
     Option.bind (field obj_of ''task'' (Some (cp_task z)) d) (\<lambda>task.
     Option.bind (field obj_of ''thread'' (Some (cp_thread z)) d) (\<lambda>thread.
     Option.bind (field obj_of ''ctx'' (Some (cp_ctx z)) d) (\<lambda>ctx.
     Option.bind (field (opt_of obj_of) ''llm_config'' (Some (cp_llm_config z)) d) (\<lambda>llm.
     Option.bind (field int_of ''max_turns'' (Some (cp_max_turns z)) d) (\<lambda>turns.
     Option.bind (field int_of ''turns_completed'' (Some (cp_turns_completed z)) d) (\<lambda>n.
     Option.bind (field (list_of pending_of) ''pending_tool_calls'' (Some (cp_pending z)) d) (\<lambda>pending.
     Option.bind (field (dict_of obj_of) ''executed_tool_results'' (Some (cp_executed z)) d) (\<lambda>executed.
     Option.bind (field (opt_of str_of) ''final_output'' (Some (cp_final_output z)) d) (\<lambda>final.
     Option.bind (field str_of ''created_at'' (Some (cp_created_at z)) d) (\<lambda>created.
     Some \<lparr>cp_version = version, cp_id = cid, cp_status = st, cp_persona = persona, cp_task = task,
       cp_thread = thread, cp_ctx = ctx, cp_llm_config = llm, cp_max_turns = turns, cp_turns_completed = n,
       cp_pending = pending, cp_executed = executed, cp_final_output = final, cp_created_at = created\<rparr>))))))))))))))"

definition validate_graph_checkpoint :: "graph_checkpoint \<Rightarrow> json_dict \<Rightarrow> graph_checkpoint option" where
  "validate_graph_checkpoint z d =
     Option.bind (field int_of ''schema_version'' (Some (gc_version z)) d) (\<lambda>version.
     Option.bind (field str_of ''checkpoint_id'' (Some (gc_id z)) d) (\<lambda>cid.
     Option.bind (field str_of ''graph_name'' (Some (gc_graph_name z)) d) (\<lambda>name.
     Option.bind (field str_of ''status'' (Some (gc_status z)) d) (\<lambda>st.
     Option.bind (field obj_of ''state'' (Some (gc_state z)) d) (\<lambda>state.
     Option.bind (field (list_of str_of) ''frontier'' (Some (gc_frontier z)) d) (\<lambda>frontier.
     Option.bind (field int_of ''superstep'' (Some (gc_superstep z)) d) (\<lambda>n.
     Option.bind (field (dict_of int_of) ''visit_counts'' (Some (gc_visit_counts z)) d) (\<lambda>visits.
     Option.bind (field (list_of str_of) ''completed_nodes'' (Some (gc_completed_nodes z)) d) (\<lambda>completed.
     Option.bind (field str_of ''paused_node'' (Some (gc_paused_node z)) d) (\<lambda>paused.
     Option.bind (field str_of ''member_checkpoint_id'' (Some (gc_member_checkpoint_id z)) d) (\<lambda>member.
     Option.bind (field (opt_of str_of) ''error'' (Some (gc_error z)) d) (\<lambda>err.
     Option.bind (field str_of ''created_at'' (Some (gc_created_at z)) d) (\<lambda>created.
     Option.bind (field str_of ''updated_at'' (Some (gc_updated_at z)) d) (\<lambda>updated.
     Some \<lparr>gc_version = version, gc_id = cid, gc_graph_name = name, gc_status = st, gc_state = state,
       gc_frontier = frontier, gc_superstep = n, gc_visit_counts = visits, gc_completed_nodes = completed,
       gc_paused_node = paused, gc_member_checkpoint_id = member, gc_error = err, gc_created_at = created,
       gc_updated_at = updated\<rparr>))))))))))))))"

text \<open>
  What both stores do with a document they read: the upgrade, then the reading. An upgrade
  always returns (\<open>upgrade_returns\<close> below), so the last case never applies.
\<close>

definition read_checkpoint :: "agent_checkpoint \<Rightarrow> json_dict \<Rightarrow> string + agent_checkpoint" where
  "read_checkpoint z doc =
     (case migrate_checkpoint doc of
        Some (Inr d) \<Rightarrow> (case validate_checkpoint z d of Some c \<Rightarrow> Inr c | None \<Rightarrow> Inl ''ValidationError'')
      | Some (Inl e) \<Rightarrow> Inl e
      | None \<Rightarrow> Inl ''ValidationError'')"

definition read_graph_checkpoint :: "graph_checkpoint \<Rightarrow> json_dict \<Rightarrow> string + graph_checkpoint" where
  "read_graph_checkpoint z doc =
     (case migrate_graph_checkpoint doc of
        Some (Inr d) \<Rightarrow> (case validate_graph_checkpoint z d of Some c \<Rightarrow> Inr c | None \<Rightarrow> Inl ''ValidationError'')
      | Some (Inl e) \<Rightarrow> Inl e
      | None \<Rightarrow> Inl ''ValidationError'')"

section \<open>The in-memory stores\<close>

type_synonym checkpoint_dict = "(string, agent_checkpoint) dict"

definition claimable_status :: "string \<Rightarrow> bool" where
  "claimable_status st \<longleftrightarrow> st = CP_AWAITING_APPROVAL \<or> st = CP_RESOLVING"

definition mem_save :: "agent_checkpoint \<Rightarrow> checkpoint_dict \<Rightarrow> checkpoint_dict" where
  "mem_save c st = AList.update (cp_id c) c st"

definition mem_load :: "string \<Rightarrow> checkpoint_dict \<Rightarrow> string + agent_checkpoint option" where
  "mem_load k st = Inr (map_of st k)"

definition mem_claim :: "string \<Rightarrow> checkpoint_dict \<Rightarrow> bool \<times> checkpoint_dict" where
  "mem_claim k st =
     (case map_of st k of
        None \<Rightarrow> (False, st)
      | Some found \<Rightarrow>
          if \<not> claimable_status (cp_status found) then (False, st)
          else (True, AList.update k (found\<lparr>cp_status := CP_RESOLVING\<rparr>) st))"

definition mem_graph_save :: "graph_checkpoint \<Rightarrow> (string, graph_checkpoint) dict \<Rightarrow> (string, graph_checkpoint) dict" where
  "mem_graph_save c st = AList.update (gc_id c) c st"

definition mem_graph_load :: "string \<Rightarrow> (string, graph_checkpoint) dict \<Rightarrow> graph_checkpoint option" where
  "mem_graph_load k st = map_of st k"

section \<open>The SQLite stores\<close>

text \<open>
  A table is the list of its rows by primary key, in insertion order; INSERT OR REPLACE
  deletes the old row and adds the new one. Rows with equal time stamps come in table order,
  which SQL leaves open.
\<close>

record checkpoint_row =
  row_status :: string
  row_data :: json_dict
  row_created_at :: string

type_synonym checkpoint_table = "(string, checkpoint_row) dict"

definition insert_or_replace :: "string \<Rightarrow> 'r \<Rightarrow> (string, 'r) dict \<Rightarrow> (string, 'r) dict" where
  "insert_or_replace k r t = AList.delete k t @ [(k, r)]"

definition sqlite_save :: "agent_checkpoint \<Rightarrow> checkpoint_table \<Rightarrow> checkpoint_table" where
  "sqlite_save c t = insert_or_replace (cp_id c)
     \<lparr>row_status = cp_status c, row_data = dump_checkpoint c, row_created_at = cp_created_at c\<rparr> t"

definition sqlite_load :: "agent_checkpoint \<Rightarrow> string \<Rightarrow> checkpoint_table \<Rightarrow> string + agent_checkpoint option" where
  "sqlite_load z k t =
     (case map_of t k of
        None \<Rightarrow> Inr None
      | Some r \<Rightarrow> map_sum id Some (read_checkpoint z (row_data r)))"

text \<open>\<open>json_set(data, '$.status', s)\<close>, and the claim: one conditional UPDATE of both columns.\<close>

definition json_set_status :: "string \<Rightarrow> json_dict \<Rightarrow> json_dict" where
  "json_set_status s d = AList.update ''status'' (JStr s) d"

definition sqlite_claim :: "string \<Rightarrow> checkpoint_table \<Rightarrow> bool \<times> checkpoint_table" where
  "sqlite_claim k t =
     (case map_of t k of
        None \<Rightarrow> (False, t)
      | Some r \<Rightarrow>
          if \<not> claimable_status (row_status r) then (False, t)
          else (True, AList.update k (r\<lparr>row_status := CP_RESOLVING, row_data := json_set_status CP_RESOLVING (row_data r)\<rparr>) t))"

text \<open>\<open>ORDER BY c DESC\<close>, and reading every row of a result or raising at the first bad one.\<close>

definition order_desc :: "('r \<Rightarrow> string) \<Rightarrow> 'r list \<Rightarrow> 'r list" where
  "order_desc c rs = rev (sort_key c (rev rs))"

fun read_all :: "('r \<Rightarrow> string + 'a) \<Rightarrow> 'r list \<Rightarrow> string + 'a list" where
  "read_all f [] = Inr []"
| "read_all f (r # rs) =
     (case f r of Inl e \<Rightarrow> Inl e
      | Inr x \<Rightarrow> (case read_all f rs of Inl e \<Rightarrow> Inl e | Inr xs \<Rightarrow> Inr (x # xs)))"

definition sqlite_list_by_status :: "agent_checkpoint \<Rightarrow> string \<Rightarrow> checkpoint_table \<Rightarrow> string + agent_checkpoint list" where
  "sqlite_list_by_status z st t =
     read_all (\<lambda>r. read_checkpoint z (row_data r))
       (order_desc row_created_at (filter (\<lambda>r. row_status r = st) (dict_values t)))"

definition prune_resolved :: "string \<Rightarrow> checkpoint_table \<Rightarrow> nat \<times> checkpoint_table" where
  "prune_resolved cutoff t =
     (let doomed = (\<lambda>(k, r). row_status r \<in> {CP_APPROVED, CP_REJECTED} \<and> row_created_at r < cutoff)
      in (length (filter doomed t), filter (\<lambda>p. \<not> doomed p) t))"

record graph_row =
  grow_graph_name :: string
  grow_status :: string
  grow_data :: json_dict
  grow_created_at :: string
  grow_updated_at :: string

type_synonym graph_table = "(string, graph_row) dict"

definition sqlite_graph_save :: "graph_checkpoint \<Rightarrow> graph_table \<Rightarrow> graph_table" where
  "sqlite_graph_save c t = insert_or_replace (gc_id c)
     \<lparr>grow_graph_name = gc_graph_name c, grow_status = gc_status c, grow_data = dump_graph_checkpoint c,
      grow_created_at = gc_created_at c, grow_updated_at = gc_updated_at c\<rparr> t"

definition sqlite_graph_load :: "graph_checkpoint \<Rightarrow> string \<Rightarrow> graph_table \<Rightarrow> string + graph_checkpoint option" where
  "sqlite_graph_load z k t =
     (case map_of t k of
        None \<Rightarrow> Inr None
      | Some r \<Rightarrow> map_sum id Some (read_graph_checkpoint z (grow_data r)))"

definition sqlite_graph_list_by_status :: "graph_checkpoint \<Rightarrow> string \<Rightarrow> graph_table \<Rightarrow> string + graph_checkpoint list" where
  "sqlite_graph_list_by_status z st t =
     read_all (\<lambda>r. read_graph_checkpoint z (grow_data r))
       (order_desc grow_updated_at (filter (\<lambda>r. grow_status r = st) (dict_values t)))"

definition prune_terminal :: "string \<Rightarrow> graph_table \<Rightarrow> nat \<times> graph_table" where
  "prune_terminal cutoff t =
     (let doomed = (\<lambda>(k, r). grow_status r \<in> {GRAPH_COMPLETED, GRAPH_FAILED} \<and> grow_updated_at r < cutoff)
      in (length (filter doomed t), filter (\<lambda>p. \<not> doomed p) t))"

section \<open>The upgrade\<close>

lemma migrate_loop_stop [simp]: "current \<le> v \<Longrightarrow> migrate_loop steps current v raw = Some (Inr raw)"
  by (simp add: migrate_loop.simps)

lemma migrate_loop_step:
  "v < current \<Longrightarrow> steps v = Some f \<Longrightarrow>
   migrate_loop steps current v raw
     = migrate_loop steps current (v + 1) (AList.update ''schema_version'' (JInt (v + 1)) (f raw))"
  by (simp add: migrate_loop.simps [of steps current v raw])

text \<open>
  With an unbroken chain of steps that keep what is there, the loop returns a document at
  the current version.
\<close>

definition additive :: "(json_dict \<Rightarrow> json_dict) \<Rightarrow> bool" where
  "additive f \<longleftrightarrow> (\<forall>raw k v. map_of raw k = Some v \<longrightarrow> map_of (f raw) k = Some v)"

definition unbroken :: "(int \<Rightarrow> (json_dict \<Rightarrow> json_dict) option) \<Rightarrow> int \<Rightarrow> bool" where
  "unbroken steps current \<longleftrightarrow> (\<forall>v. 0 \<le> v \<longrightarrow> v < current \<longrightarrow> (\<exists>f. steps v = Some f \<and> additive f))"

definition upgraded :: "int \<Rightarrow> json_dict \<Rightarrow> json_dict \<Rightarrow> bool" where
  "upgraded current raw d \<longleftrightarrow> map_of d ''schema_version'' = Some (JInt current)
     \<and> (\<forall>k. k \<noteq> ''schema_version'' \<longrightarrow> map_of raw k \<noteq> None \<longrightarrow> map_of d k = map_of raw k)"

lemma migrate_loop_returns:
  assumes "unbroken steps current" and "0 \<le> v" and "v < current"
  shows "\<exists>d. migrate_loop steps current v raw = Some (Inr d) \<and> upgraded current raw d"
  using assms(2,3)
proof (induction "nat (current - v)" arbitrary: v raw)
  case 0
  then show ?case by simp
next
  case (Suc n)
  from assms(1) Suc.prems obtain f where f: "steps v = Some f" "additive f" by (auto simp: unbroken_def)
  let ?raw = "AList.update ''schema_version'' (JInt (v + 1)) (f raw)"
  have keep: "map_of ?raw k = map_of raw k" if "k \<noteq> ''schema_version''" "map_of raw k \<noteq> None" for k
    using that f(2) by (auto simp: additive_def)
  show ?case
  proof (cases "v + 1 < current")
    case True
    have n: "n = nat (current - (v + 1))" using Suc.hyps(2) by linarith
    from True obtain d where d: "migrate_loop steps current (v + 1) ?raw = Some (Inr d)" "upgraded current ?raw d"
      using Suc.hyps(1) [of "v + 1" ?raw, OF n] Suc.prems by auto
    then show ?thesis using keep migrate_loop_step [of v current steps f, OF Suc.prems(2) f(1)] by (auto simp: upgraded_def)
  next
    case False
    then have "current = v + 1" using Suc.prems by simp
    then show ?thesis using keep migrate_loop_step [of v current steps f, OF Suc.prems(2) f(1)] by (auto simp: upgraded_def)
  qed
qed

lemma migrations_unbroken:
  "unbroken MIGRATIONS CHECKPOINT_SCHEMA_VERSION" "unbroken GRAPH_MIGRATIONS GRAPH_CHECKPOINT_SCHEMA_VERSION"
proof -
  have two: "0 \<le> v \<Longrightarrow> v < 2 \<longleftrightarrow> v = 0 \<or> v = 1" "0 \<le> v \<Longrightarrow> v < 3 \<longleftrightarrow> v = 0 \<or> v = 1 \<or> v = 2" for v :: int by auto
  show "unbroken MIGRATIONS CHECKPOINT_SCHEMA_VERSION"
    by (auto simp: unbroken_def MIGRATIONS_def CHECKPOINT_SCHEMA_VERSION_def two additive_def dict_get_setdefault)
  show "unbroken GRAPH_MIGRATIONS GRAPH_CHECKPOINT_SCHEMA_VERSION"
    by (auto simp: unbroken_def GRAPH_MIGRATIONS_def GRAPH_CHECKPOINT_SCHEMA_VERSION_def two additive_def dict_get_setdefault)
qed

text \<open>The outcome of an upgrade: a document at the current version, or one of the two refusals.\<close>

definition upgrade_outcome :: "int \<Rightarrow> json_dict \<Rightarrow> string + json_dict \<Rightarrow> bool" where
  "upgrade_outcome current raw out \<longleftrightarrow>
     (case version_int (json_get ''schema_version'' (JInt 0) raw) of
        None \<Rightarrow> (\<exists>e. out = Inl e \<and> take 7 e = ''Invalid'')
      | Some n \<Rightarrow>
          if n < 0 then \<exists>e. out = Inl e \<and> take 7 e = ''Invalid''
          else if current < n then \<exists>e. out = Inl e \<and> py_in '' is newer than this himmy build'' e
          else \<exists>d. out = Inr d \<and> upgraded current raw d)"

lemma version_int_big: "version_int v = Some n \<Longrightarrow> 1 < n \<Longrightarrow> v = JInt n"
  by (cases v) (auto split: if_splits)

lemma py_in_append: "py_in p t \<Longrightarrow> py_in p (s @ t)"
  by (induction s) auto

lemma py_in_prefix: "py_in p (p @ t)"
proof (cases "p @ t")
  case (Cons c cs)
  then have "take (length p) (c # cs) = p" by (metis append_eq_conv_conj)
  then show ?thesis unfolding Cons by simp
qed simp

lemma migrate_with_outcome:
  assumes "unbroken steps current" and "1 < current"
  shows "\<exists>out. migrate_with what subj steps current raw = Some out \<and> upgrade_outcome current raw out"
proof (cases "version_int (json_get ''schema_version'' (JInt 0) raw)")
  case None
  then show ?thesis by (simp add: migrate_with_def upgrade_outcome_def)
next
  case (Some n)
  consider "n < 0" | "current < n" | "0 \<le> n" "n < current" | "n = current" by linarith
  then show ?thesis
  proof cases
    case 1
    then show ?thesis using Some by (simp add: migrate_with_def upgrade_outcome_def)
  next
    case 2
    have "py_in '' is newer than this himmy build'' (subj @ '' schema_version '' @ t @ '' is newer than this himmy build'' @ u)"
      for t u by (intro py_in_append py_in_prefix)
    from this [of "py_repr (json_get ''schema_version'' (JInt 0) raw)"
        "'' supports (max '' @ int_str current @ ''); upgrade himmy to resume it.''"]
    show ?thesis using 2 assms(2) Some by (simp add: migrate_with_def upgrade_outcome_def)
  next
    case 3
    then show ?thesis using Some migrate_loop_returns [OF assms(1) 3, of raw]
      by (auto simp: migrate_with_def upgrade_outcome_def)
  next
    case 4
    then have "map_of raw ''schema_version'' = Some (JInt current)"
      using Some assms(2) version_int_big [OF Some] by (auto simp: json_get_def split: option.splits)
    then show ?thesis using 4 Some assms(2) by (simp add: migrate_with_def upgrade_outcome_def upgraded_def)
  qed
qed

lemma upgrade_current:
  assumes "map_of raw ''schema_version'' = Some (JInt current)" and "0 \<le> current"
  shows "migrate_with what subj steps current raw = Some (Inr raw)"
  using assms by (simp add: migrate_with_def json_get_def)

text \<open>
  C30: Upgrading a stored document always returns: every historical version has its step, so
  the loop ends, and never in a KeyError. The outcome is a document at the current version
  that keeps every other field it had, or a refusal exactly when the version is no
  non-negative integer or is newer than the build. Upgrading again changes nothing. Both
  kinds of checkpoint behave so.
\<close>

theorem upgrade_returns:
  "\<exists>out gout. migrate_checkpoint raw = Some out \<and> upgrade_outcome CHECKPOINT_SCHEMA_VERSION raw out
     \<and> migrate_graph_checkpoint raw = Some gout \<and> upgrade_outcome GRAPH_CHECKPOINT_SCHEMA_VERSION raw gout
     \<and> (case out of Inr d \<Rightarrow> migrate_checkpoint d = Some (Inr d) | Inl e \<Rightarrow> True)
     \<and> (case gout of Inr d \<Rightarrow> migrate_graph_checkpoint d = Some (Inr d) | Inl e \<Rightarrow> True)"
proof -
  have versions: "1 < CHECKPOINT_SCHEMA_VERSION" "1 < GRAPH_CHECKPOINT_SCHEMA_VERSION"
    by (simp_all add: CHECKPOINT_SCHEMA_VERSION_def GRAPH_CHECKPOINT_SCHEMA_VERSION_def)
  from migrate_with_outcome [OF migrations_unbroken(1) versions(1)] obtain out where
    out: "migrate_checkpoint raw = Some out" "upgrade_outcome CHECKPOINT_SCHEMA_VERSION raw out"
    unfolding migrate_checkpoint_def by blast
  from migrate_with_outcome [OF migrations_unbroken(2) versions(2)] obtain gout where
    gout: "migrate_graph_checkpoint raw = Some gout" "upgrade_outcome GRAPH_CHECKPOINT_SCHEMA_VERSION raw gout"
    unfolding migrate_graph_checkpoint_def by blast
  have "map_of d ''schema_version'' = Some (JInt current)" if "upgrade_outcome current raw (Inr d)" for d current
    using that by (auto simp: upgrade_outcome_def upgraded_def split: option.splits if_splits)
  with out gout versions show ?thesis
    by (auto simp: migrate_checkpoint_def migrate_graph_checkpoint_def upgrade_current split: sum.splits)
qed

section \<open>Documents and rows read back\<close>

lemma all_of_map: "(\<And>x. f (g x) = Some x) \<Longrightarrow> all_of f (map g xs) = Some xs"
  by (induction xs) simp_all

lemma dict_of_dump: "(\<And>v. f (g v) = Some v) \<Longrightarrow> dict_of f (JObj (map (\<lambda>(k, v). (k, g v)) d)) = Some d"
proof -
  assume "\<And>v. f (g v) = Some v"
  from all_of_map [of f g "map snd d", OF this] show ?thesis
    by (simp add: case_prod_unfold comp_def zip_map_fst_snd)
qed

lemma pending_roundtrip [simp]: "pending_of (dump_pending p) = Some p"
  by (simp add: pending_of_def dump_pending_def field_def)

lemma opt_roundtrip [simp]:
  "opt_of obj_of (dump_opt JObj x) = Some x" "opt_of str_of (dump_opt JStr y) = Some y"
  by (simp_all add: opt_of_def dump_opt_def split: option.split)

lemma list_roundtrip [simp]:
  "list_of pending_of (JList (map dump_pending ps)) = Some ps" "list_of str_of (JList (map JStr ss)) = Some ss"
  by (simp_all add: all_of_map)

lemma dict_roundtrip [simp]:
  "dict_of obj_of (JObj (map (\<lambda>(k, v). (k, JObj v)) d)) = Some d"
  "dict_of int_of (JObj (map (\<lambda>(k, v). (k, JInt v)) n)) = Some n"
  by (simp_all add: dict_of_dump del: dict_of.simps)

lemma validate_dump:
  "validate_checkpoint z (dump_checkpoint c) = Some c"
  by (simp add: validate_checkpoint_def dump_checkpoint_def field_def del: dict_of.simps list_of.simps)

lemma json_set_status_dump: "json_set_status s (dump_checkpoint c) = dump_checkpoint (c\<lparr>cp_status := s\<rparr>)"
  by (simp add: json_set_status_def dump_checkpoint_def)

lemma validate_graph_dump: "validate_graph_checkpoint z (dump_graph_checkpoint c) = Some c"
  by (simp add: validate_graph_checkpoint_def dump_graph_checkpoint_def field_def del: dict_of.simps list_of.simps)

lemma migrate_dump:
  "cp_version c = CHECKPOINT_SCHEMA_VERSION \<Longrightarrow> migrate_checkpoint (dump_checkpoint c) = Some (Inr (dump_checkpoint c))"
  "gc_version g = GRAPH_CHECKPOINT_SCHEMA_VERSION \<Longrightarrow>
     migrate_graph_checkpoint (dump_graph_checkpoint g) = Some (Inr (dump_graph_checkpoint g))"
  unfolding migrate_checkpoint_def migrate_graph_checkpoint_def
  by (rule upgrade_current; simp add: dump_checkpoint_def dump_graph_checkpoint_def
      CHECKPOINT_SCHEMA_VERSION_def GRAPH_CHECKPOINT_SCHEMA_VERSION_def)+

lemma read_dump:
  "cp_version c = CHECKPOINT_SCHEMA_VERSION \<Longrightarrow> read_checkpoint z (dump_checkpoint c) = Inr c"
  "gc_version g = GRAPH_CHECKPOINT_SCHEMA_VERSION \<Longrightarrow> read_graph_checkpoint y (dump_graph_checkpoint g) = Inr g"
  by (simp_all add: read_checkpoint_def read_graph_checkpoint_def migrate_dump validate_dump validate_graph_dump)

lemma insert_or_replace_get [simp]:
  "map_of (insert_or_replace k r t) k' = (if k' = k then Some r else map_of t k')"
  by (auto simp: insert_or_replace_def map_add_def delete_conv' split: option.splits)

lemma insert_or_replace_wf [wf_intros]: "dict_wf t \<Longrightarrow> dict_wf (insert_or_replace k r t)"
  by (auto simp: insert_or_replace_def dict_delete_filter distinct_map_filter image_iff)

section \<open>What a resume asks of a store\<close>

definition claimable :: "agent_checkpoint option \<Rightarrow> bool" where
  "claimable c \<longleftrightarrow> (case c of None \<Rightarrow> False | Some c \<Rightarrow> claimable_status (cp_status c))"

definition claim_row :: "agent_checkpoint option \<Rightarrow> agent_checkpoint option" where
  "claim_row c = (if claimable c then map_option (cp_status_update (\<lambda>_. CP_RESOLVING)) c else c)"

lemma claimable_simps [simp]: "\<not> claimable None" "claimable (Some c) = claimable_status (cp_status c)"
  by (simp_all add: claimable_def)

locale checkpoint_store =
  fixes save :: "agent_checkpoint \<Rightarrow> 's \<Rightarrow> 's"
    and load :: "string \<Rightarrow> 's \<Rightarrow> string + agent_checkpoint option"
    and claim :: "string \<Rightarrow> 's \<Rightarrow> bool \<times> 's"
    and store_ok :: "'s \<Rightarrow> bool"
    and rows :: "'s \<Rightarrow> string \<Rightarrow> agent_checkpoint option"
  assumes load_row: "store_ok s \<Longrightarrow> load k s = Inr (rows s k)"
    and row_current: "store_ok s \<Longrightarrow> rows s k = Some c \<Longrightarrow> cp_version c = CHECKPOINT_SCHEMA_VERSION \<and> cp_id c = k"
    and save_row: "store_ok s \<Longrightarrow> cp_version c = CHECKPOINT_SCHEMA_VERSION \<Longrightarrow>
      store_ok (save c s) \<and> rows (save c s) = (rows s)(cp_id c \<mapsto> c)"
    and claim_decides: "store_ok s \<Longrightarrow> fst (claim k s) = claimable (rows s k)"
    and claim_marks: "store_ok s \<Longrightarrow> store_ok (snd (claim k s)) \<and> rows (snd (claim k s)) = (rows s)(k := claim_row (rows s k))"
begin

text \<open>A claimed row can be claimed again: only a resolved or missing one refuses.\<close>

lemma reclaim: "store_ok s \<Longrightarrow> fst (claim k s) \<Longrightarrow> fst (claim k (snd (claim k s)))"
  using claim_decides [of s k] claim_marks [of s k] claim_decides [of "snd (claim k s)" k]
  by (cases "rows s k") (auto simp: claim_row_def claimable_status_def)

end

definition mem_ok :: "checkpoint_dict \<Rightarrow> bool" where
  "mem_ok st \<longleftrightarrow> (\<forall>k c. map_of st k = Some c \<longrightarrow> cp_version c = CHECKPOINT_SCHEMA_VERSION \<and> cp_id c = k)"

interpretation mem_checkpoints: checkpoint_store mem_save mem_load mem_claim mem_ok map_of
proof
  fix s :: checkpoint_dict and k and c :: agent_checkpoint
  assume ok: "mem_ok s"
  show "mem_load k s = Inr (map_of s k)" by (simp add: mem_load_def)
  show "cp_version c = CHECKPOINT_SCHEMA_VERSION \<and> cp_id c = k" if "map_of s k = Some c"
    using ok that by (simp add: mem_ok_def)
  show "mem_ok (mem_save c s) \<and> map_of (mem_save c s) = (map_of s)(cp_id c \<mapsto> c)"
    if "cp_version c = CHECKPOINT_SCHEMA_VERSION"
    using ok that by (auto simp: mem_ok_def mem_save_def update_conv')
  show "fst (mem_claim k s) = claimable (map_of s k)" by (simp add: mem_claim_def split: option.split)
  show "mem_ok (snd (mem_claim k s)) \<and> map_of (snd (mem_claim k s)) = (map_of s)(k := claim_row (map_of s k))"
    using ok by (auto simp: mem_ok_def mem_claim_def claim_row_def update_conv' fun_upd_triv split: option.splits)
qed

text \<open>
  A healthy table: the columns repeat the document, and the document is one that was saved
  at the current version under its own id.
\<close>

definition row_of :: "agent_checkpoint \<Rightarrow> checkpoint_row" where
  "row_of c = \<lparr>row_status = cp_status c, row_data = dump_checkpoint c, row_created_at = cp_created_at c\<rparr>"

definition sqlite_ok :: "checkpoint_table \<Rightarrow> bool" where
  "sqlite_ok t \<longleftrightarrow> dict_wf t \<and> (\<forall>k r. map_of t k = Some r \<longrightarrow>
     (\<exists>c. r = row_of c \<and> cp_version c = CHECKPOINT_SCHEMA_VERSION \<and> cp_id c = k))"

definition sqlite_rows :: "agent_checkpoint \<Rightarrow> checkpoint_table \<Rightarrow> string \<Rightarrow> agent_checkpoint option" where
  "sqlite_rows z t k = (case sqlite_load z k t of Inr c \<Rightarrow> c | Inl _ \<Rightarrow> None)"

lemma sqlite_row:
  assumes "sqlite_ok t"
  obtains (absent) "map_of t k = None" "sqlite_load z k t = Inr None"
  | (present) c where "map_of t k = Some (row_of c)" "sqlite_load z k t = Inr (Some c)"
      "cp_version c = CHECKPOINT_SCHEMA_VERSION" "cp_id c = k"
proof (cases "map_of t k")
  case None
  then show ?thesis by (intro absent) (simp_all add: sqlite_load_def)
next
  case (Some r)
  with assms obtain c where "r = row_of c" "cp_version c = CHECKPOINT_SCHEMA_VERSION" "cp_id c = k"
    unfolding sqlite_ok_def by blast
  with Some show ?thesis by (intro present [of c]) (simp_all add: sqlite_load_def row_of_def read_dump)
qed

lemma sqlite_okI:
  assumes "sqlite_ok t" and "cp_version c = CHECKPOINT_SCHEMA_VERSION" and "dict_wf t'"
    and "\<And>k. map_of t' k = (if k = cp_id c then Some (row_of c) else map_of t k)"
  shows "sqlite_ok t' \<and> sqlite_rows z t' = (sqlite_rows z t)(cp_id c \<mapsto> c)"
proof
  show "sqlite_ok t'" using assms unfolding sqlite_ok_def by auto
  show "sqlite_rows z t' = (sqlite_rows z t)(cp_id c \<mapsto> c)"
    using assms by (auto simp: fun_eq_iff sqlite_rows_def sqlite_load_def row_of_def read_dump)
qed

interpretation sqlite_checkpoints: checkpoint_store sqlite_save "sqlite_load z" sqlite_claim sqlite_ok "sqlite_rows z"
proof
  fix s :: checkpoint_table and k and c :: agent_checkpoint
  assume ok: "sqlite_ok s"
  show "sqlite_load z k s = Inr (sqlite_rows z s k)"
    using ok by (cases rule: sqlite_row [of s k z]) (simp_all add: sqlite_rows_def)
  show "cp_version c = CHECKPOINT_SCHEMA_VERSION \<and> cp_id c = k" if "sqlite_rows z s k = Some c"
    using ok that by (cases rule: sqlite_row [of s k z]) (auto simp: sqlite_rows_def)
  show "sqlite_ok (sqlite_save c s) \<and> sqlite_rows z (sqlite_save c s) = (sqlite_rows z s)(cp_id c \<mapsto> c)"
    if "cp_version c = CHECKPOINT_SCHEMA_VERSION"
    using ok that unfolding sqlite_save_def
    by (intro sqlite_okI insert_or_replace_wf) (auto simp: sqlite_ok_def row_of_def)
  show "fst (sqlite_claim k s) = claimable (sqlite_rows z s k)"
    using ok by (cases rule: sqlite_row [of s k z]) (simp_all add: sqlite_rows_def sqlite_claim_def row_of_def)
  show "sqlite_ok (snd (sqlite_claim k s))
      \<and> sqlite_rows z (snd (sqlite_claim k s)) = (sqlite_rows z s)(k := claim_row (sqlite_rows z s k))"
    using ok
  proof (cases rule: sqlite_row [of s k z])
    case absent
    then show ?thesis using ok by (simp add: sqlite_claim_def sqlite_rows_def claim_row_def fun_upd_idem)
  next
    case (present c)
    show ?thesis
    proof (cases "claimable_status (cp_status c)")
      case False
      then show ?thesis using ok present
        by (simp add: sqlite_claim_def sqlite_rows_def claim_row_def row_of_def fun_upd_idem)
    next
      case True
      have "sqlite_ok (snd (sqlite_claim k s)) \<and> sqlite_rows z (snd (sqlite_claim k s))
          = (sqlite_rows z s)(cp_id (c\<lparr>cp_status := CP_RESOLVING\<rparr>) \<mapsto> c\<lparr>cp_status := CP_RESOLVING\<rparr>)"
        using ok present True
        by (intro sqlite_okI) (auto simp: sqlite_claim_def row_of_def json_set_status_dump sqlite_ok_def)
      then show ?thesis using present True by (simp add: sqlite_rows_def claim_row_def)
    qed
  qed
qed

section \<open>Both stores implement one map\<close>

datatype checkpoint_op = SaveOp agent_checkpoint | LoadOp string | ClaimOp string

datatype checkpoint_answer = Saved | Loaded "string + agent_checkpoint option" | Claimed bool

fun store_op :: "(agent_checkpoint \<Rightarrow> 's \<Rightarrow> 's) \<Rightarrow> (string \<Rightarrow> 's \<Rightarrow> string + agent_checkpoint option)
    \<Rightarrow> (string \<Rightarrow> 's \<Rightarrow> bool \<times> 's) \<Rightarrow> checkpoint_op \<Rightarrow> 's \<Rightarrow> checkpoint_answer \<times> 's" where
  "store_op save load claim (SaveOp c) s = (Saved, save c s)"
| "store_op save load claim (LoadOp k) s = (Loaded (load k s), s)"
| "store_op save load claim (ClaimOp k) s = (case claim k s of (won, s') \<Rightarrow> (Claimed won, s'))"

text \<open>The specification: a map from ids to checkpoints.\<close>

type_synonym checkpoint_map = "string \<Rightarrow> agent_checkpoint option"

definition spec_save :: "agent_checkpoint \<Rightarrow> checkpoint_map \<Rightarrow> checkpoint_map" where
  "spec_save c m = m(cp_id c \<mapsto> c)"

definition spec_load :: "string \<Rightarrow> checkpoint_map \<Rightarrow> string + agent_checkpoint option" where
  "spec_load k m = Inr (m k)"

definition spec_claim :: "string \<Rightarrow> checkpoint_map \<Rightarrow> bool \<times> checkpoint_map" where
  "spec_claim k m = (claimable (m k), m(k := claim_row (m k)))"

definition saves_current :: "checkpoint_op list \<Rightarrow> bool" where
  "saves_current ops \<longleftrightarrow> (\<forall>c. SaveOp c \<in> set ops \<longrightarrow> cp_version c = CHECKPOINT_SCHEMA_VERSION)"

context checkpoint_store
begin

lemma refines_map:
  assumes "store_ok s" and "saves_current ops"
  shows "fst (thread_state (store_op save load claim) ops s)
       = fst (thread_state (store_op spec_save spec_load spec_claim) ops (rows s))"
  using assms
proof (induction ops arbitrary: s)
  case (Cons op ops)
  from Cons.prems have ops: "saves_current ops" by (simp add: saves_current_def)
  have "store_ok (snd (store_op save load claim op s))
      \<and> fst (store_op save load claim op s) = fst (store_op spec_save spec_load spec_claim op (rows s))
      \<and> rows (snd (store_op save load claim op s)) = snd (store_op spec_save spec_load spec_claim op (rows s))"
  proof (cases op)
    case (SaveOp c)
    then show ?thesis using Cons.prems save_row [of s c] by (simp add: saves_current_def spec_save_def)
  next
    case (LoadOp k)
    then show ?thesis using Cons.prems load_row [of s k] by (simp add: spec_load_def)
  next
    case (ClaimOp k)
    then show ?thesis using Cons.prems claim_decides [of s k] claim_marks [of s k]
      by (simp add: spec_claim_def case_prod_unfold)
  qed
  with Cons.IH [OF _ ops] show ?case by simp
qed simp

end

text \<open>
  C31: Whatever a caller saves, loads and claims, both stores answer as one plain map from
  ids to checkpoints does: the JSON document, the upgrade on reading and the separate status
  column of the SQLite table are invisible.
\<close>

theorem checkpoint_stores_refine_map:
  assumes "saves_current ops"
  shows "fst (thread_state (store_op mem_save mem_load mem_claim) ops [])
       = fst (thread_state (store_op spec_save spec_load spec_claim) ops Map.empty)
    \<and> fst (thread_state (store_op sqlite_save (sqlite_load z) sqlite_claim) ops [])
       = fst (thread_state (store_op spec_save spec_load spec_claim) ops Map.empty)"
proof -
  have "mem_ok []" "sqlite_ok []" by (simp_all add: mem_ok_def sqlite_ok_def)
  moreover have "sqlite_rows z [] = Map.empty" by (rule ext) (simp add: sqlite_rows_def sqlite_load_def)
  ultimately show ?thesis
    using mem_checkpoints.refines_map [OF _ assms, of "[]"] sqlite_checkpoints.refines_map [OF _ assms, of "[]" z] by simp
qed

definition demo_checkpoint :: agent_checkpoint where
  "demo_checkpoint = (new_checkpoint ''cp1'' ''2026-01-01T00:00:00+00:00'')
     \<lparr>cp_pending := [\<lparr>pc_call_id = ''k1'', pc_name = ''pay'', pc_args = [(''to'', JStr ''bob'')]\<rparr>]\<rparr>"

theorem checkpoint_stores_refine_map_witness:
  "fst (thread_state (store_op sqlite_save (sqlite_load demo_checkpoint) sqlite_claim)
      [SaveOp demo_checkpoint, ClaimOp ''cp1'', LoadOp ''cp1''] [])
   = [Saved, Claimed True, Loaded (Inr (Some (demo_checkpoint\<lparr>cp_status := CP_RESOLVING\<rparr>)))]"
proof -
  have "saves_current [SaveOp demo_checkpoint, ClaimOp ''cp1'', LoadOp ''cp1'']"
    by (simp add: saves_current_def demo_checkpoint_def new_checkpoint_def)
  from checkpoint_stores_refine_map [OF this, of demo_checkpoint] show ?thesis
    by (simp add: spec_save_def spec_claim_def spec_load_def claim_row_def claimable_status_def
        demo_checkpoint_def new_checkpoint_def)
qed

section \<open>Older documents, retention, the approvals inbox\<close>

text \<open>The document an earlier format wrote for a checkpoint: without the fields added later.\<close>

definition document_at :: "int \<Rightarrow> agent_checkpoint \<Rightarrow> json_dict" where
  "document_at v c = (if v = 0 then [] else [(''schema_version'', JInt v)])
     @ filter (\<lambda>(k, _). k \<noteq> ''schema_version'' \<and> (k = ''executed_tool_results'' \<longrightarrow> 2 \<le> v)
         \<and> (k = ''final_output'' \<longrightarrow> 3 \<le> v)) (dump_checkpoint c)"

text \<open>
  A checkpoint written by any earlier format still loads, as the same checkpoint at the
  current version with nothing executed and no final output.
\<close>

theorem older_checkpoints_still_load:
  assumes "0 \<le> v" and "v \<le> 3" and "cp_version c = CHECKPOINT_SCHEMA_VERSION"
    and "v < 2 \<Longrightarrow> cp_executed c = []" and "v < 3 \<Longrightarrow> cp_final_output c = None"
  shows "read_checkpoint z (document_at v c) = Inr c"
proof -
  note migrate = read_checkpoint_def migrate_checkpoint_def migrate_with_def json_get_def migrate_loop.simps
    MIGRATIONS_def CHECKPOINT_SCHEMA_VERSION_def dict_setdefault_def
  note docs = document_at_def dump_checkpoint_def validate_checkpoint_def field_def
  have opt: "opt_of str_of JNull = Some None" by (simp add: opt_of_def)
  from assms(1,2) consider "v = 0" | "v = 1" | "v = 2" | "v = 3" by linarith
  then show ?thesis
  proof cases
    case 1
    then show ?thesis using assms(3-5)
      by (simp add: migrate docs opt del: list_of.simps)
  next
    case 2
    then show ?thesis using assms(3-5)
      by (simp add: migrate docs opt del: list_of.simps)
  next
    case 3
    then show ?thesis using assms(3-5)
      by (simp add: migrate docs opt del: list_of.simps dict_of.simps)
  next
    case 4
    then show ?thesis using assms(3-5)
      by (simp add: migrate docs del: list_of.simps dict_of.simps)
  qed
qed

theorem older_checkpoints_still_load_witness:
  "read_checkpoint demo_checkpoint (document_at 1 demo_checkpoint) = Inr demo_checkpoint"
  by (rule older_checkpoints_still_load) (simp_all add: demo_checkpoint_def new_checkpoint_def)

lemma order_desc_set [simp]: "set (order_desc f rs) = set rs"
  by (simp add: order_desc_def)

lemma order_desc_sorted: "sorted_wrt (\<lambda>a b. f b \<le> f a) (order_desc f rs)"
  unfolding order_desc_def sorted_wrt_rev
  using sorted_sort_key [of f "rev rs"] by (simp add: sorted_map)

lemma read_all_Inr: "(\<And>r. r \<in> set rs \<Longrightarrow> f r = Inr (g r)) \<Longrightarrow> read_all f rs = Inr (map g rs)"
  by (induction rs) simp_all

text \<open>The rows of a healthy table are the images of checkpoints.\<close>

lemma sqlite_ok_rows:
  assumes "sqlite_ok t" and "r \<in> set (dict_values t)"
  shows "\<exists>c. r = row_of c \<and> cp_version c = CHECKPOINT_SCHEMA_VERSION \<and> sqlite_rows z t (cp_id c) = Some c"
proof -
  from assms(2) obtain k where "(k, r) \<in> set t" by auto
  with assms(1) have kr: "map_of t k = Some r" by (simp add: sqlite_ok_def)
  from assms(1) show ?thesis
    by (cases rule: sqlite_row [of t k z]) (use kr in \<open>auto simp: sqlite_rows_def\<close>)
qed

text \<open>
  The approvals inbox shows exactly the checkpoints whose stored status is the one asked
  for, newest first.
\<close>

theorem inbox_lists_by_status:
  assumes "sqlite_ok t"
  shows "\<exists>cs. sqlite_list_by_status z st t = Inr cs
    \<and> set cs = {c. \<exists>k. sqlite_rows z t k = Some c \<and> cp_status c = st}
    \<and> sorted_wrt (\<lambda>a b. cp_created_at b \<le> cp_created_at a) cs"
proof -
  define rs where "rs = order_desc row_created_at (filter (\<lambda>r. row_status r = st) (dict_values t))"
  have mem: "r \<in> set rs \<longleftrightarrow> r \<in> set (dict_values t) \<and> row_status r = st" for r by (auto simp: rs_def)
  define g where "g = (\<lambda>r :: checkpoint_row. case read_checkpoint z (row_data r) of Inr c \<Rightarrow> c | Inl _ \<Rightarrow> z)"
  have g: "row_of c \<in> set rs \<Longrightarrow> read_checkpoint z (row_data (row_of c)) = Inr c" "row_of c \<in> set rs \<Longrightarrow> g (row_of c) = c" for c
  proof -
    assume "row_of c \<in> set rs"
    then obtain c' where "row_of c = row_of c'" "cp_version c' = CHECKPOINT_SCHEMA_VERSION"
      using sqlite_ok_rows [OF assms] mem by blast
    then have "validate_checkpoint z (row_data (row_of c)) = validate_checkpoint z (row_data (row_of c'))" by simp
    then have "c = c'" by (simp add: row_of_def validate_dump)
    with \<open>cp_version c' = _\<close> show "read_checkpoint z (row_data (row_of c)) = Inr c" "g (row_of c) = c"
      by (simp_all add: row_of_def read_dump g_def)
  qed
  have "sqlite_list_by_status z st t = read_all (\<lambda>r. read_checkpoint z (row_data r)) rs"
    by (simp add: sqlite_list_by_status_def rs_def)
  also have "\<dots> = Inr (map g rs)"
  proof (rule read_all_Inr)
    fix r
    assume r: "r \<in> set rs"
    then obtain c where "r = row_of c" using sqlite_ok_rows [OF assms] mem by blast
    with r g show "read_checkpoint z (row_data r) = Inr (g r)" by metis
  qed
  finally have *: "sqlite_list_by_status z st t = Inr (map g rs)" .
  have "set (map g rs) = {c. \<exists>k. sqlite_rows z t k = Some c \<and> cp_status c = st}"
  proof (intro set_eqI iffI)
    fix c
    assume "c \<in> set (map g rs)"
    then obtain r where r: "r \<in> set rs" "c = g r" by auto
    then obtain c' where c': "r = row_of c'" "sqlite_rows z t (cp_id c') = Some c'"
      using sqlite_ok_rows [OF assms] mem by blast
    with r g(2) [of c'] have "c = c'" by simp
    then show "c \<in> {c. \<exists>k. sqlite_rows z t k = Some c \<and> cp_status c = st}"
      using c' r(1) mem by (auto simp: row_of_def)
  next
    fix c
    assume "c \<in> {c. \<exists>k. sqlite_rows z t k = Some c \<and> cp_status c = st}"
    then obtain k where k: "sqlite_rows z t k = Some c" "cp_status c = st" by blast
    from assms have "map_of t k = Some (row_of c)"
      by (cases rule: sqlite_row [of t k z]) (use k in \<open>auto simp: sqlite_rows_def\<close>)
    then have "row_of c \<in> set rs" using k by (auto simp: mem row_of_def dest: map_of_SomeD intro: rev_image_eqI)
    with g(2) show "c \<in> set (map g rs)" by (metis image_eqI list.set_map)
  qed
  moreover have "sorted_wrt (\<lambda>a b. cp_created_at b \<le> cp_created_at a) (map g rs)"
    unfolding sorted_wrt_map
  proof (rule sorted_wrt_mono_rel [OF _ order_desc_sorted [of row_created_at "filter (\<lambda>r. row_status r = st) (dict_values t)", folded rs_def]])
    fix r r'
    assume r: "r \<in> set rs" "r' \<in> set rs" and le: "row_created_at r' \<le> row_created_at r"
    then obtain c c' where "r = row_of c" "r' = row_of c'" using sqlite_ok_rows [OF assms] mem by meson
    with r le g(2) show "cp_created_at (g r') \<le> cp_created_at (g r)" by (auto simp: row_of_def)
  qed
  ultimately show ?thesis using * by blast
qed

text \<open>
  Pruning removes exactly the approved and rejected checkpoints created before the
  cutoff, reports how many, and leaves every other row as it was: one that still awaits a
  decision or is being resolved survives at any age.
\<close>

theorem pruning_spares_live_checkpoints:
  assumes "prune_resolved cutoff t = (n, t')" and "sqlite_ok t"
  shows "sqlite_ok t' \<and> length t = n + length t'
    \<and> (\<forall>k. sqlite_rows z t' k =
         (case sqlite_rows z t k of
            None \<Rightarrow> None
          | Some c \<Rightarrow> if cp_status c \<in> {CP_APPROVED, CP_REJECTED} \<and> cp_created_at c < cutoff then None else Some c))
    \<and> (\<forall>k c. sqlite_rows z t k = Some c \<and> claimable (Some c) \<longrightarrow> sqlite_rows z t' k = Some c)"
proof -
  define doomed where "doomed = (\<lambda>r :: checkpoint_row. row_status r \<in> {CP_APPROVED, CP_REJECTED} \<and> row_created_at r < cutoff)"
  have t': "t' = filter (\<lambda>(k, r). \<not> doomed r) t" and n: "n = length (filter (\<lambda>(k, r). doomed r) t)"
    using assms(1) by (auto simp: prune_resolved_def Let_def doomed_def case_prod_unfold)
  have get: "map_of t' k = (case map_of t k of None \<Rightarrow> None | Some r \<Rightarrow> if doomed r then None else Some r)" for k
    using assms(2) unfolding t' sqlite_ok_def by (auto simp: dict_get_filter split: option.split)
  have ok: "sqlite_ok t'"
    using assms(2) get unfolding sqlite_ok_def
    by (auto simp: t' intro: wf_intros split: option.splits if_splits)
  have rows: "sqlite_rows z t' k =
         (case sqlite_rows z t k of
            None \<Rightarrow> None
          | Some c \<Rightarrow> if cp_status c \<in> {CP_APPROVED, CP_REJECTED} \<and> cp_created_at c < cutoff then None else Some c)" for k
    using assms(2) by (cases rule: sqlite_row [of t k z])
      (simp_all add: sqlite_rows_def sqlite_load_def get doomed_def row_of_def)
  have "length t = n + length t'"
    unfolding n t' using sum_length_filter_compl [of "\<lambda>(k, r). doomed r" t] by (simp add: case_prod_unfold)
  with ok rows show ?thesis by (auto simp: claimable_status_def)
qed

lemma demo_table:
  "sqlite_ok (sqlite_save demo_checkpoint [])"
  "sqlite_rows z (sqlite_save demo_checkpoint []) ''cp1'' = Some demo_checkpoint"
proof -
  have "sqlite_ok []" "cp_version demo_checkpoint = CHECKPOINT_SCHEMA_VERSION" "cp_id demo_checkpoint = ''cp1''"
    by (simp_all add: sqlite_ok_def demo_checkpoint_def new_checkpoint_def)
  with sqlite_checkpoints.save_row [of "[]" demo_checkpoint z] show
    "sqlite_ok (sqlite_save demo_checkpoint [])"
    "sqlite_rows z (sqlite_save demo_checkpoint []) ''cp1'' = Some demo_checkpoint" by simp_all
qed

theorem inbox_lists_by_status_witness:
  "\<exists>cs. sqlite_list_by_status demo_checkpoint CP_AWAITING_APPROVAL (sqlite_save demo_checkpoint []) = Inr cs \<and> demo_checkpoint \<in> set cs"
proof -
  have "cp_status demo_checkpoint = CP_AWAITING_APPROVAL" by (simp add: demo_checkpoint_def new_checkpoint_def)
  with inbox_lists_by_status [OF demo_table(1), of demo_checkpoint CP_AWAITING_APPROVAL]
    demo_table(2) [of demo_checkpoint] show ?thesis by blast
qed

theorem pruning_spares_live_checkpoints_witness:
  "sqlite_rows demo_checkpoint (snd (prune_resolved ''2027-01-01T00:00:00+00:00'' (sqlite_save demo_checkpoint []))) ''cp1''
     = Some demo_checkpoint"
proof -
  have "claimable (Some demo_checkpoint)" by (simp add: claimable_status_def demo_checkpoint_def new_checkpoint_def)
  with pruning_spares_live_checkpoints [OF prod.collapse [symmetric] demo_table(1), of "''2027-01-01T00:00:00+00:00''" demo_checkpoint]
    demo_table(2) [of demo_checkpoint] show ?thesis by blast
qed

end
