(* ===== verification/StateGraph.thy ===== *)
theory StateGraph
  imports Checkpoints
begin

text \<open>
  The state graph of himmy/orchestrators/state_graph.py: the builder and its validation, the
  superstep loop with its guards, the durable checkpoint after every superstep, the pause for
  an approval and the splice of a resumed member.

  Node bodies, routers and reducers are functions the caller registers. A body sees the state
  and an outside world 'w, which it may change. The bodies of a superstep run to their ends in
  the order of the frontier, as bodies that do not suspend do; each sees the state from before
  the superstep. A timeout strikes between supersteps. Event sinks never fail a run and are
  represented by the list of events.
\<close>

section \<open>Graphs\<close>

definition GRAPH_START :: string where "GRAPH_START = ''__start__''"
definition GRAPH_END :: string where "GRAPH_END = ''__end__''"

datatype graph_error = GraphError string | GraphRecursionError string | GraphStateSizeError string | OtherError string

text \<open>
  What a node body ends in: a mapping, nothing, a value of another type (its name), a pause of
  a member, an exception; and what a router decides.
\<close>

datatype node_outcome = NDelta json_dict | NNothing | NOther string | NPause string string | NRaise string

datatype router_decision = RNothing | RName string | RNames "string list" | ROther string | RRaise string

record 'w graph_node =
  gn_max_visits :: "int option"
  gn_fn :: "json_dict \<Rightarrow> 'w \<Rightarrow> node_outcome \<times> 'w"

record 'w state_graph =
  sg_name :: string
  sg_nodes :: "(string, 'w graph_node) dict"
  sg_edges :: "(string, string list) dict"
  sg_conditional :: "(string, json_dict \<Rightarrow> router_decision) dict"
  sg_reducers :: "(string, json \<Rightarrow> json \<Rightarrow> json) dict"
  sg_entry :: "string option"

definition new_state_graph :: "string \<Rightarrow> 'w state_graph" where
  "new_state_graph name = \<lparr>sg_name = name, sg_nodes = [], sg_edges = [], sg_conditional = [], sg_reducers = [], sg_entry = None\<rparr>"

text \<open>The reducer that appends to a list, adds numbers, and otherwise keeps the last value.\<close>

fun json_number :: "json \<Rightarrow> int option" where
  "json_number (JInt n) = Some n"
| "json_number (JBool b) = Some (if b then 1 else 0)"
| "json_number _ = None"

definition add_reducer :: "json \<Rightarrow> json \<Rightarrow> json" where
  "add_reducer existing incoming =
     (if existing = JNull then incoming
      else case existing of
             JList xs \<Rightarrow> JList (xs @ (case incoming of JList ys \<Rightarrow> ys | _ \<Rightarrow> [incoming]))
           | _ \<Rightarrow> (case (json_number existing, json_number incoming) of
                     (Some m, Some n) \<Rightarrow> JInt (m + n)
                   | _ \<Rightarrow> incoming))"

section \<open>Building\<close>

definition add_node :: "string \<Rightarrow> (json_dict \<Rightarrow> 'w \<Rightarrow> node_outcome \<times> 'w) \<Rightarrow> int option \<Rightarrow> 'w state_graph
    \<Rightarrow> graph_error + 'w state_graph" where
  "add_node name fn max_visits g =
     (if name = GRAPH_START \<or> name = GRAPH_END then Inl (GraphError (repr_str name @ '' is a reserved node name''))
      else if map_of (sg_nodes g) name \<noteq> None then Inl (GraphError (''duplicate node '' @ repr_str name))
      else if (case max_visits of Some n \<Rightarrow> n < 1 | None \<Rightarrow> False) then Inl (GraphError ''max_visits must be >= 1'')
      else Inr (g\<lparr>sg_nodes := AList.update name \<lparr>gn_max_visits = max_visits, gn_fn = fn\<rparr> (sg_nodes g)\<rparr>))"

definition add_edge :: "string \<Rightarrow> string \<Rightarrow> 'w state_graph \<Rightarrow> 'w state_graph" where
  "add_edge a b g = g\<lparr>sg_edges := AList.update a ((case map_of (sg_edges g) a of None \<Rightarrow> [] | Some bs \<Rightarrow> bs) @ [b]) (sg_edges g)\<rparr>"

definition add_conditional_edges :: "string \<Rightarrow> (json_dict \<Rightarrow> router_decision) \<Rightarrow> 'w state_graph \<Rightarrow> graph_error + 'w state_graph" where
  "add_conditional_edges a router g =
     (if map_of (sg_conditional g) a \<noteq> None then Inl (GraphError (''node '' @ repr_str a @ '' already has conditional edges''))
      else Inr (g\<lparr>sg_conditional := AList.update a router (sg_conditional g)\<rparr>))"

definition set_entry_point :: "string \<Rightarrow> 'w state_graph \<Rightarrow> 'w state_graph" where
  "set_entry_point name g = g\<lparr>sg_entry := Some name\<rparr>"

definition set_reducer :: "string \<Rightarrow> (json \<Rightarrow> json \<Rightarrow> json) \<Rightarrow> 'w state_graph \<Rightarrow> 'w state_graph" where
  "set_reducer k f g = g\<lparr>sg_reducers := AList.update k f (sg_reducers g)\<rparr>"

record 'w compiled_graph =
  cg_name :: string
  cg_nodes :: "(string, 'w graph_node) dict"
  cg_edges :: "(string, string list) dict"
  cg_conditional :: "(string, json_dict \<Rightarrow> router_decision) dict"
  cg_reducers :: "(string, json \<Rightarrow> json \<Rightarrow> json) dict"
  cg_entry :: string
  cg_recursion_limit :: int
  cg_max_state_bytes :: "int option"

text \<open>The first fault of the static edges, in insertion order.\<close>

fun first_bad_target :: "(string, 'w graph_node) dict \<Rightarrow> string list \<Rightarrow> string option" where
  "first_bad_target nodes [] = None"
| "first_bad_target nodes (b # bs) =
     (if b \<noteq> GRAPH_END \<and> map_of nodes b = None then Some b else first_bad_target nodes bs)"

fun edge_fault :: "(string, 'w graph_node) dict \<Rightarrow> (string, string list) dict \<Rightarrow> graph_error option" where
  "edge_fault nodes [] = None"
| "edge_fault nodes ((a, bs) # es) =
     (if map_of nodes a = None then Some (GraphError (''edge source '' @ repr_str a @ '' is not a registered node''))
      else case first_bad_target nodes bs of
             Some b \<Rightarrow> Some (GraphError (''edge target '' @ repr_str b @ '' is not a registered node''))
           | None \<Rightarrow> edge_fault nodes es)"

definition compile_graph :: "int \<Rightarrow> int option \<Rightarrow> 'w state_graph \<Rightarrow> graph_error + 'w compiled_graph" where
  "compile_graph recursion_limit max_state_bytes g =
     (if (case max_state_bytes of Some n \<Rightarrow> n < 1 | None \<Rightarrow> False) then Inl (GraphError ''max_state_bytes must be >= 1'')
      else case sg_entry g of
             None \<Rightarrow> Inl (GraphError ''graph has no entry point (call set_entry_point)'')
           | Some entry \<Rightarrow>
               if map_of (sg_nodes g) entry = None
               then Inl (GraphError (''entry point '' @ repr_str entry @ '' is not a registered node''))
               else case edge_fault (sg_nodes g) (sg_edges g) of
                      Some e \<Rightarrow> Inl e
                    | None \<Rightarrow> Inr \<lparr>cg_name = sg_name g, cg_nodes = sg_nodes g, cg_edges = sg_edges g,
                        cg_conditional = sg_conditional g, cg_reducers = sg_reducers g, cg_entry = entry,
                        cg_recursion_limit = max 1 recursion_limit, cg_max_state_bytes = max_state_bytes\<rparr>)"

section \<open>State, routing, events\<close>

definition merge_one :: "'w compiled_graph \<Rightarrow> string \<times> json \<Rightarrow> json_dict \<Rightarrow> json_dict" where
  "merge_one g = (\<lambda>(key, v) state.
     AList.update key (case map_of (cg_reducers g) key of
         Some reduce \<Rightarrow> reduce (case map_of state key of Some old \<Rightarrow> old | None \<Rightarrow> JNull) v
       | None \<Rightarrow> v) state)"

definition merge_delta :: "'w compiled_graph \<Rightarrow> json_dict \<Rightarrow> json_dict \<Rightarrow> json_dict" where
  "merge_delta g delta state = fold (merge_one g) delta state"

text \<open>The number of bytes of \<open>json.dumps(state, ensure_ascii=False)\<close> in UTF-8.\<close>

definition char_bytes :: "char \<Rightarrow> nat" where
  "char_bytes c = (let n = of_char c :: nat in
     if n \<in> {34, 92, 8, 9, 10, 12, 13} then 2 else if n < 32 then 6 else if n < 128 then 1 else 2)"

definition str_bytes :: "string \<Rightarrow> nat" where
  "str_bytes s = 2 + sum_list (map char_bytes s)"

fun json_bytes :: "json \<Rightarrow> nat" where
  "json_bytes JNull = 4"
| "json_bytes (JBool b) = (if b then 4 else 5)"
| "json_bytes (JInt n) = length (int_str n)"
| "json_bytes (JStr s) = str_bytes s"
| "json_bytes (JList vs) = 2 + sum_list (map json_bytes vs) + 2 * (length vs - 1)"
| "json_bytes (JObj d) = 2 + sum_list (map (\<lambda>(k, v). str_bytes k + 2 + json_bytes v) d) + 2 * (length d - 1)"

definition state_size_bytes :: "json_dict \<Rightarrow> nat" where
  "state_size_bytes state = json_bytes (JObj state)"

definition known_target :: "'w compiled_graph \<Rightarrow> string \<Rightarrow> bool" where
  "known_target g t \<longleftrightarrow> t = GRAPH_END \<or> map_of (cg_nodes g) t \<noteq> None"

definition checked_targets :: "'w compiled_graph \<Rightarrow> string \<Rightarrow> string list \<Rightarrow> graph_error + string list" where
  "checked_targets g name ts =
     (case filter (\<lambda>t. \<not> known_target g t) ts of
        [] \<Rightarrow> Inr ts
      | t # _ \<Rightarrow> Inl (GraphError (''router for '' @ repr_str name @ '' returned unknown target '' @ repr_str t)))"

definition normalize_targets :: "'w compiled_graph \<Rightarrow> string \<Rightarrow> router_decision \<Rightarrow> graph_error + string list" where
  "normalize_targets g name decision =
     (case decision of
        RNothing \<Rightarrow> Inr [GRAPH_END]
      | RName t \<Rightarrow> checked_targets g name [t]
      | RNames ts \<Rightarrow> checked_targets g name ts
      | ROther ty \<Rightarrow> Inl (GraphError (''router for '' @ repr_str name @ '' must return a node name or sequence, got '' @ ty))
      | RRaise msg \<Rightarrow> Inl (OtherError msg))"

definition route :: "'w compiled_graph \<Rightarrow> string \<Rightarrow> json_dict \<Rightarrow> graph_error + string list" where
  "route g name state =
     (case map_of (cg_conditional g) name of
        Some router \<Rightarrow> normalize_targets g name (router state)
      | None \<Rightarrow> (case map_of (cg_edges g) name of Some ts \<Rightarrow> Inr ts | None \<Rightarrow> Inr [GRAPH_END]))"

record graph_event =
  ge_type :: event_type
  ge_payload :: json_dict
  ge_error :: "string option"

text \<open>The surroundings of a run: the world, the events, the checkpoint store and a clock.\<close>

record 'w graph_env =
  env_world :: 'w
  env_events :: "graph_event list"
  env_store :: "(string, graph_checkpoint) dict"
  env_stamp :: "nat \<Rightarrow> string"

definition graph_emit :: "event_type \<Rightarrow> json_dict \<Rightarrow> string option \<Rightarrow> 'w graph_env \<Rightarrow> 'w graph_env" where
  "graph_emit kind payload err env = env\<lparr>env_events := env_events env @ [\<lparr>ge_type = kind, ge_payload = payload, ge_error = err\<rparr>]\<rparr>"

text \<open>Stamping a checkpoint and saving it.\<close>

definition stamped :: "'w graph_env \<Rightarrow> graph_checkpoint \<Rightarrow> graph_checkpoint" where
  "stamped env chk = chk\<lparr>gc_updated_at := env_stamp env (length (env_events env))\<rparr>"

definition graph_save :: "graph_checkpoint \<Rightarrow> 'w graph_env \<Rightarrow> 'w graph_env" where
  "graph_save chk env = env\<lparr>env_store := mem_graph_save chk (env_store env)\<rparr>"

definition opt_json :: "string option \<Rightarrow> json" where
  "opt_json s = (case s of None \<Rightarrow> JNull | Some t \<Rightarrow> JStr t)"

definition emit_finished :: "'w compiled_graph \<Rightarrow> graph_checkpoint \<Rightarrow> 'w graph_env \<Rightarrow> 'w graph_env" where
  "emit_finished g chk env = graph_emit GRAPH_FINISHED
     [(''graph_name'', JStr (cg_name g)), (''status'', JStr (gc_status chk)), (''checkpoint_id'', JStr (gc_id chk)),
      (''superstep'', JInt (gc_superstep chk)), (''nodes_run'', JInt (int (length (gc_completed_nodes chk))))]
     (gc_error chk) env"

definition emit_checkpointed :: "'w compiled_graph \<Rightarrow> graph_checkpoint \<Rightarrow> 'w graph_env \<Rightarrow> 'w graph_env" where
  "emit_checkpointed g chk env = graph_emit GRAPH_CHECKPOINTED
     [(''graph_name'', JStr (cg_name g)), (''checkpoint_id'', JStr (gc_id chk)), (''superstep'', JInt (gc_superstep chk)),
      (''frontier'', JList (map JStr (gc_frontier chk)))] None env"

definition emit_approval :: "'w compiled_graph \<Rightarrow> graph_checkpoint \<Rightarrow> string \<Rightarrow> 'w graph_env \<Rightarrow> 'w graph_env" where
  "emit_approval g chk node env = graph_emit APPROVAL_REQUIRED
     [(''graph_name'', JStr (cg_name g)), (''checkpoint_id'', JStr (gc_id chk)),
      (''member_checkpoint_id'', JStr (gc_member_checkpoint_id chk)), (''node'', JStr node),
      (''superstep'', JInt (gc_superstep chk))] None env"

definition emit_edge :: "'w compiled_graph \<Rightarrow> string \<Rightarrow> string \<Rightarrow> 'w graph_env \<Rightarrow> 'w graph_env" where
  "emit_edge g a b env = graph_emit GRAPH_EDGE_TAKEN
     [(''graph_name'', JStr (cg_name g)), (''from'', JStr a), (''to'', JStr b)] None env"

record graph_result =
  gr_graph_name :: string
  gr_status :: string
  gr_final_state :: json_dict
  gr_supersteps :: int
  gr_node_sequence :: "string list"
  gr_checkpoint_id :: "string option"
  gr_error :: "string option"

definition graph_result_of :: "'w compiled_graph \<Rightarrow> string \<Rightarrow> string option \<Rightarrow> graph_checkpoint \<Rightarrow> graph_result" where
  "graph_result_of g st err chk =
     \<lparr>gr_graph_name = cg_name g, gr_status = st, gr_final_state = gc_state chk, gr_supersteps = gc_superstep chk,
      gr_node_sequence = gc_completed_nodes chk, gr_checkpoint_id = Some (gc_id chk), gr_error = err\<rparr>"


section \<open>One superstep\<close>

datatype node_end = Completed json_dict | Paused string string | Failed graph_error

text \<open>A completed node's event; \<open>extra\<close> is what follows the status.\<close>

definition emit_node_completed :: "'w compiled_graph \<Rightarrow> string \<Rightarrow> string \<Rightarrow> json_dict \<Rightarrow> string option \<Rightarrow> 'w graph_env \<Rightarrow> 'w graph_env" where
  "emit_node_completed g name st extra err env = graph_emit GRAPH_NODE_COMPLETED
     ([(''graph_name'', JStr (cg_name g)), (''node'', JStr name), (''status'', JStr st)] @ extra) err env"

definition run_node :: "'w compiled_graph \<Rightarrow> string \<Rightarrow> 'w graph_node \<Rightarrow> json_dict \<Rightarrow> 'w graph_env \<Rightarrow> node_end \<times> 'w graph_env" where
  "run_node g name node state env =
     (let env1 = graph_emit GRAPH_NODE_STARTED [(''graph_name'', JStr (cg_name g)), (''node'', JStr name)] None env
      in case gn_fn node state (env_world env1) of (raw, w) \<Rightarrow>
        (let env2 = env1\<lparr>env_world := w\<rparr>;
             finish = (\<lambda>delta. (Completed delta, emit_node_completed g name ''completed''
               [(''delta_keys'', JList (map JStr (sort (map fst delta))))] None env2))
         in case raw of
              NPause node' cp \<Rightarrow> (Paused node' cp, env2)
            | NRaise msg \<Rightarrow>
                (Failed (GraphError (''node '' @ repr_str name @ '' raised: '' @ msg)),
                 emit_node_completed g name ''failed'' [] (Some msg) env2)
            | NNothing \<Rightarrow> finish []
            | NDelta delta \<Rightarrow> finish delta
            | NOther ty \<Rightarrow>
                (Failed (GraphError (''node '' @ repr_str name @ '' must return a mapping delta or None, got '' @ ty)), env2)))"

fun run_nodes :: "'w compiled_graph \<Rightarrow> (string \<times> 'w graph_node) list \<Rightarrow> json_dict \<Rightarrow> 'w graph_env \<Rightarrow> node_end list \<times> 'w graph_env" where
  "run_nodes g [] state env = ([], env)"
| "run_nodes g ((name, node) # rest) state env =
     (case run_node g name node state env of (e, env1) \<Rightarrow>
        (case run_nodes g rest state env1 of (es, env2) \<Rightarrow> (e # es, env2)))"

definition visits :: "graph_checkpoint \<Rightarrow> string \<Rightarrow> int" where
  "visits chk name = (case map_of (gc_visit_counts chk) name of Some n \<Rightarrow> n | None \<Rightarrow> 0)"

text \<open>The nodes of the frontier, or the error of the first that is unknown or used up.\<close>

fun admit_nodes :: "'w compiled_graph \<Rightarrow> graph_checkpoint \<Rightarrow> string list \<Rightarrow> graph_error + (string \<times> 'w graph_node) list" where
  "admit_nodes g chk [] = Inr []"
| "admit_nodes g chk (name # names) =
     (case map_of (cg_nodes g) name of
        None \<Rightarrow> Inl (OtherError ''KeyError'')
      | Some node \<Rightarrow>
          (case gn_max_visits node of
             Some cap \<Rightarrow>
               if visits chk name \<ge> cap
               then Inl (GraphRecursionError (''node '' @ repr_str name @ '' exceeded max_visits='' @ int_str cap))
               else map_sum id (\<lambda>ns. (name, node) # ns) (admit_nodes g chk names)
           | None \<Rightarrow> map_sum id (\<lambda>ns. (name, node) # ns) (admit_nodes g chk names)))"

definition pauses :: "node_end list \<Rightarrow> (string \<times> string) list" where
  "pauses es = concat (map (\<lambda>e. case e of Paused n cp \<Rightarrow> [(n, cp)] | _ \<Rightarrow> []) es)"

definition failures :: "node_end list \<Rightarrow> graph_error list" where
  "failures es = concat (map (\<lambda>e. case e of Failed err \<Rightarrow> [err] | _ \<Rightarrow> []) es)"

definition deltas_of :: "node_end list \<Rightarrow> json_dict list" where
  "deltas_of es = concat (map (\<lambda>e. case e of Completed d \<Rightarrow> [d] | _ \<Rightarrow> []) es)"

text \<open>The routing decisions of the frontier over the merged state, with the edge events.\<close>

fun route_all :: "'w compiled_graph \<Rightarrow> json_dict \<Rightarrow> string list \<Rightarrow> 'w graph_env \<Rightarrow> (graph_error + string list) \<times> 'w graph_env" where
  "route_all g merged [] env = (Inr [], env)"
| "route_all g merged (name # names) env =
     (case route g name merged of
        Inl e \<Rightarrow> (Inl e, env)
      | Inr ts \<Rightarrow>
          (case route_all g merged names (fold (emit_edge g name) ts env) of
             (Inl e, env') \<Rightarrow> (Inl e, env')
           | (Inr rest, env') \<Rightarrow> (Inr (filter (\<lambda>t. t \<noteq> GRAPH_END) ts @ rest), env')))"

datatype step_end = StepError graph_error | StepPause string string | StepDone "json_dict list" "string list"

definition run_superstep :: "'w compiled_graph \<Rightarrow> string list \<Rightarrow> graph_checkpoint \<Rightarrow> 'w graph_env \<Rightarrow> step_end \<times> 'w graph_env" where
  "run_superstep g frontier chk env =
     (case admit_nodes g chk frontier of
        Inl e \<Rightarrow> (StepError e, env)
      | Inr nodes \<Rightarrow>
          (case run_nodes g nodes (gc_state chk) env of (ends, env1) \<Rightarrow>
             (case pauses ends of
                [(node, cp)] \<Rightarrow> (StepPause node cp, env1)
              | _ # _ # _ \<Rightarrow>
                  (StepError (GraphError (''two or more nodes paused for approval in one superstep (''
                     @ py_repr (JList (map JStr (sort (map fst (pauses ends)))))
                     @ ''); the durable graph checkpoint can hold only one pending member'')), env1)
              | [] \<Rightarrow>
                  (case failures ends of
                     e # _ \<Rightarrow> (StepError e, env1)
                   | [] \<Rightarrow>
                       (case route_all g (fold (merge_delta g) (deltas_of ends) (gc_state chk)) frontier env1 of
                          (Inl e, env2) \<Rightarrow> (StepError e, env2)
                        | (Inr targets, env2) \<Rightarrow> (StepDone (deltas_of ends) targets, env2))))))"

section \<open>The superstep loop\<close>

definition dedupe :: "'a list \<Rightarrow> 'a list" where
  "dedupe xs = rev (remdups (rev xs))"

definition count_visits :: "string list \<Rightarrow> (string, int) dict \<Rightarrow> (string, int) dict" where
  "count_visits names counts =
     fold (\<lambda>n c. AList.update n ((case map_of c n of Some k \<Rightarrow> k | None \<Rightarrow> 0) + 1) c) names counts"

datatype loop_end = LoopReturned graph_result | LoopRaised graph_error | LoopCut

text \<open>A checkpoint that ends the loop: stamped, saved, announced.\<close>

definition close_run :: "'w compiled_graph \<Rightarrow> graph_checkpoint \<Rightarrow> 'w graph_env \<Rightarrow> graph_checkpoint \<times> 'w graph_env" where
  "close_run g chk env = (let chk1 = stamped env chk in (chk1, emit_finished g chk1 (graph_save chk1 env)))"

definition pause_run :: "'w compiled_graph \<Rightarrow> string \<Rightarrow> graph_checkpoint \<Rightarrow> 'w graph_env \<Rightarrow> graph_checkpoint \<times> 'w graph_env" where
  "pause_run g node chk env =
     (let chk1 = stamped env chk
      in (chk1, emit_finished g chk1 (emit_approval g chk1 node (graph_save chk1 env))))"

definition size_message :: "nat \<Rightarrow> int \<Rightarrow> int \<Rightarrow> string" where
  "size_message bytes bound step = ''merged state is '' @ nat_str bytes @ '' bytes, exceeding max_state_bytes=''
     @ int_str bound @ '' (superstep '' @ int_str step @ '')''"

definition limit_message :: "int \<Rightarrow> string list \<Rightarrow> string" where
  "limit_message bound frontier = ''recursion limit '' @ int_str bound @ '' exceeded (frontier=''
     @ py_repr (JList (map JStr frontier)) @ '')''"

text \<open>The body of the loop: it ends the loop (left) or leaves the next checkpoint (right).\<close>

definition loop_body :: "'w compiled_graph \<Rightarrow> int option \<Rightarrow> graph_checkpoint \<Rightarrow> 'w graph_env
    \<Rightarrow> (loop_end \<times> graph_checkpoint \<times> 'w graph_env) + (graph_checkpoint \<times> 'w graph_env)" where
  "loop_body g limit chk env =
     (let frontier = dedupe (gc_frontier chk)
      in case run_superstep g frontier chk env of
           (StepError e, env1) \<Rightarrow> Inl (LoopRaised e, chk, env1)
         | (StepPause node cp, env1) \<Rightarrow>
             (case pause_run g node (chk\<lparr>gc_status := GRAPH_INTERRUPTED, gc_paused_node := node,
                 gc_member_checkpoint_id := cp, gc_error := None\<rparr>) env1 of
                (chk1, env2) \<Rightarrow> Inl (LoopReturned (graph_result_of g GRAPH_INTERRUPTED None chk1), chk1, env2))
         | (StepDone deltas targets, env1) \<Rightarrow>
             (let merged = fold (merge_delta g) deltas (gc_state chk);
                  chk1 = chk\<lparr>gc_state := merged\<rparr>
              in if (case limit of Some n \<Rightarrow> int (state_size_bytes merged) > n | None \<Rightarrow> False)
                 then (let msg = size_message (state_size_bytes merged) (the limit) (gc_superstep chk)
                       in case close_run g (chk1\<lparr>gc_status := GRAPH_FAILED, gc_error := Some msg\<rparr>) env1 of
                            (chk2, env2) \<Rightarrow> Inl (LoopRaised (GraphStateSizeError msg), chk2, env2))
                 else (let chk2 = stamped env1 (chk1\<lparr>gc_completed_nodes := gc_completed_nodes chk @ frontier,
                             gc_visit_counts := count_visits frontier (gc_visit_counts chk), gc_frontier := targets,
                             gc_superstep := gc_superstep chk + 1\<rparr>)
                       in Inr (chk2, emit_checkpointed g chk2 (graph_save chk2 env1)))))"

lemma loop_body_advances: "loop_body g limit chk env = Inr (chk', env') \<Longrightarrow> gc_superstep chk' = gc_superstep chk + 1"
  by (auto simp: loop_body_def Let_def stamped_def split: prod.splits step_end.splits if_splits)

text \<open>\<open>budget\<close> is the number of supersteps the timeout leaves, if there is one.\<close>

function run_loop :: "'w compiled_graph \<Rightarrow> int option \<Rightarrow> nat option \<Rightarrow> graph_checkpoint \<Rightarrow> 'w graph_env
    \<Rightarrow> loop_end \<times> graph_checkpoint \<times> 'w graph_env" where
  "run_loop g limit budget chk env =
     (if gc_frontier chk = [] then
        (case close_run g (chk\<lparr>gc_status := GRAPH_COMPLETED\<rparr>) env of
           (chk1, env1) \<Rightarrow> (LoopReturned (graph_result_of g GRAPH_COMPLETED None chk1), chk1, env1))
      else if gc_superstep chk \<ge> cg_recursion_limit g then
        (let msg = limit_message (cg_recursion_limit g) (gc_frontier chk)
         in case close_run g (chk\<lparr>gc_status := GRAPH_FAILED, gc_error := Some msg\<rparr>) env of
              (chk1, env1) \<Rightarrow> (LoopRaised (GraphRecursionError msg), chk1, env1))
      else if budget = Some 0 then (LoopCut, chk, env)
      else case loop_body g limit chk env of
             Inl stop \<Rightarrow> stop
           | Inr (chk', env') \<Rightarrow> run_loop g limit (map_option (\<lambda>n. n - 1) budget) chk' env')"
  by pat_completeness auto
termination
  by (relation "measure (\<lambda>(g, _, _, chk, _). nat (cg_recursion_limit g - gc_superstep chk))")
    (auto dest: loop_body_advances)

declare run_loop.simps [simp del]

section \<open>Running, resuming, splicing\<close>

record member_outcome =
  mo_delta :: json_dict
  mo_paused_again :: bool
  mo_member_checkpoint_id :: string

type_synonym 'w resume_member = "string \<Rightarrow> string \<Rightarrow> json_dict \<Rightarrow> 'w \<Rightarrow> (string + member_outcome) \<times> 'w"

text \<open>
  The splice of a resumed member: an error, the result of a run that paused again, or the
  checkpoint the loop goes on from.
\<close>

definition splice_member_resume :: "'w compiled_graph \<Rightarrow> 'w resume_member \<Rightarrow> graph_checkpoint \<Rightarrow> 'w graph_env
    \<Rightarrow> (graph_error + graph_result option) \<times> graph_checkpoint \<times> 'w graph_env" where
  "splice_member_resume g member chk env =
     (let node = gc_paused_node chk; cp = gc_member_checkpoint_id chk
      in if map_of (cg_nodes g) node = None
         then (Inl (GraphError (''interrupted checkpoint names unknown paused node '' @ repr_str node)), chk, env)
         else case member node cp (gc_state chk) (env_world env) of (answer, w) \<Rightarrow>
           (let env1 = env\<lparr>env_world := w\<rparr>
            in case answer of
                 Inl msg \<Rightarrow> (Inl (OtherError msg), chk, env1)
               | Inr res \<Rightarrow>
                   if mo_paused_again res then
                     (case pause_run g node (chk\<lparr>gc_status := GRAPH_INTERRUPTED, gc_member_checkpoint_id :=
                         (if mo_member_checkpoint_id res \<noteq> [] then mo_member_checkpoint_id res else cp)\<rparr>) env1 of
                        (chk1, env2) \<Rightarrow> (Inr (Some (graph_result_of g GRAPH_INTERRUPTED None chk1)), chk1, env2))
                   else
                     (let merged = merge_delta g (mo_delta res) (gc_state chk);
                          chk1 = chk\<lparr>gc_state := merged\<rparr>;
                          env2 = emit_node_completed g node ''completed'' [(''resumed'', JBool True)] None env1
                      in case route_all g merged [node] env2 of
                           (Inl e, env3) \<Rightarrow> (Inl e, chk1, env3)
                         | (Inr targets, env3) \<Rightarrow>
                             (let chk2 = stamped env3 (chk1\<lparr>gc_completed_nodes := gc_completed_nodes chk @ [node],
                                    gc_visit_counts := count_visits [node] (gc_visit_counts chk), gc_frontier := targets,
                                    gc_superstep := gc_superstep chk + 1, gc_paused_node := [],
                                    gc_member_checkpoint_id := [], gc_status := GRAPH_RUNNING\<rparr>)
                              in (Inr None, chk2, emit_checkpointed g chk2 (graph_save chk2 env3))))))"

datatype resume_ref = ByCheckpoint graph_checkpoint | ById string

definition resolve_resume :: "'w compiled_graph \<Rightarrow> resume_ref option \<Rightarrow> 'w graph_env \<Rightarrow> graph_error + graph_checkpoint option" where
  "resolve_resume g ref env =
     (let checked = (\<lambda>chk. if gc_graph_name chk \<noteq> [] \<and> gc_graph_name chk \<noteq> cg_name g
            then Inl (GraphError (''checkpoint is for graph '' @ repr_str (gc_graph_name chk) @ '', not '' @ repr_str (cg_name g)))
            else Inr (Some (chk\<lparr>gc_status := GRAPH_RUNNING\<rparr>)))
      in case ref of
           None \<Rightarrow> Inr None
         | Some (ByCheckpoint chk) \<Rightarrow> checked chk
         | Some (ById k) \<Rightarrow>
             (case mem_graph_load k (env_store env) of
                None \<Rightarrow> Inl (GraphError (''no graph checkpoint '' @ repr_str k @ '' to resume''))
              | Some chk \<Rightarrow> checked chk))"

definition fresh_checkpoint :: "'w compiled_graph \<Rightarrow> string \<Rightarrow> json_dict \<Rightarrow> 'w graph_env \<Rightarrow> graph_checkpoint" where
  "fresh_checkpoint g cid initial env =
     (new_graph_checkpoint cid (env_stamp env (length (env_events env))))
       \<lparr>gc_graph_name := cg_name g, gc_state := initial, gc_frontier := [cg_entry g]\<rparr>"

text \<open>The start event and the loop, with the conversion of a timeout into an interrupt.\<close>

definition drive_graph :: "'w compiled_graph \<Rightarrow> int option \<Rightarrow> nat option \<Rightarrow> graph_checkpoint \<Rightarrow> 'w graph_env
    \<Rightarrow> (graph_error + graph_result) \<times> 'w graph_env" where
  "drive_graph g limit budget chk env =
     (let env1 = (if gc_superstep chk = 0 then graph_emit GRAPH_STARTED
            [(''graph_name'', JStr (cg_name g)), (''entry'', JStr (cg_entry g)), (''checkpoint_id'', JStr (gc_id chk))] None env
          else env)
      in case run_loop g limit budget chk env1 of
           (LoopReturned r, _, env2) \<Rightarrow> (Inr r, env2)
         | (LoopRaised e, _, env2) \<Rightarrow> (Inl e, env2)
         | (LoopCut, chk1, env2) \<Rightarrow>
             (let chk2 = stamped env2 (chk1\<lparr>gc_status := GRAPH_INTERRUPTED, gc_error := Some ''cancelled''\<rparr>)
              in (Inr (graph_result_of g GRAPH_INTERRUPTED (Some ''cancelled'') chk2),
                  graph_emit GRAPH_FINISHED
                    [(''graph_name'', JStr (cg_name g)), (''status'', JStr GRAPH_INTERRUPTED),
                     (''checkpoint_id'', JStr (gc_id chk2)), (''superstep'', JInt (gc_superstep chk2))]
                    (Some ''cancelled'') (graph_save chk2 env2))))"

text \<open>
  The arguments of one call: the initial state, what to resume, a checkpoint id to use, the
  supersteps a timeout leaves, a bound on the state, and the callback that resumes a member;
  \<open>new_id\<close> is the fresh id.
\<close>

record 'w invocation =
  in_state :: json_dict
  in_resume :: "resume_ref option"
  in_checkpoint_id :: "string option"
  in_timeout :: "nat option"
  in_max_state_bytes :: "int option"
  in_member :: "'w resume_member option"

definition invoke :: "'w compiled_graph \<Rightarrow> string \<Rightarrow> 'w invocation \<Rightarrow> 'w graph_env \<Rightarrow> (graph_error + graph_result) \<times> 'w graph_env" where
  "invoke g new_id i env =
     (if (case in_max_state_bytes i of Some n \<Rightarrow> n < 1 | None \<Rightarrow> False)
      then (Inl (GraphError ''max_state_bytes must be >= 1''), env)
      else (let limit = (case in_max_state_bytes i of Some n \<Rightarrow> Some n | None \<Rightarrow> cg_max_state_bytes g)
            in case resolve_resume g (in_resume i) env of
                 Inl e \<Rightarrow> (Inl e, env)
               | Inr found \<Rightarrow>
                   (let chk = (case found of
                          None \<Rightarrow> fresh_checkpoint g (case in_checkpoint_id i of Some k \<Rightarrow> if k \<noteq> [] then k else new_id
                              | None \<Rightarrow> new_id) (in_state i) env
                        | Some c \<Rightarrow> (case in_checkpoint_id i of Some k \<Rightarrow> c\<lparr>gc_id := k\<rparr> | None \<Rightarrow> c))
                    in case in_member i of
                         None \<Rightarrow> drive_graph g limit (in_timeout i) chk env
                       | Some member \<Rightarrow>
                           if in_resume i = None \<or> gc_member_checkpoint_id chk = []
                           then drive_graph g limit (in_timeout i) chk env
                           else (case splice_member_resume g member chk env of
                                   (Inl e, _, env1) \<Rightarrow> (Inl e, env1)
                                 | (Inr (Some r), _, env1) \<Rightarrow> (Inr r, env1)
                                 | (Inr None, chk1, env1) \<Rightarrow> drive_graph g limit (in_timeout i) chk1 env1))))"


section \<open>The guards bound a run\<close>

lemma emit_world [simp]:
  "env_world (graph_emit k p e env) = env_world env" "env_world (graph_save c env) = env_world env"
  "env_world (emit_finished g c env) = env_world env" "env_world (emit_checkpointed g c env) = env_world env"
  "env_world (emit_approval g c n env) = env_world env" "env_world (emit_edge g a b env) = env_world env"
  "env_world (emit_node_completed g n st x e env) = env_world env"
  by (simp_all add: graph_emit_def graph_save_def emit_finished_def emit_checkpointed_def emit_approval_def
      emit_edge_def emit_node_completed_def)

lemma emit_store [simp]:
  "env_store (graph_emit k p e env) = env_store env" "env_store (graph_save c env) = mem_graph_save c (env_store env)"
  "env_store (emit_finished g c env) = env_store env" "env_store (emit_checkpointed g c env) = env_store env"
  "env_store (emit_approval g c n env) = env_store env" "env_store (emit_edge g a b env) = env_store env"
  "env_store (emit_node_completed g n st x e env) = env_store env"
  by (simp_all add: graph_emit_def graph_save_def emit_finished_def emit_checkpointed_def emit_approval_def
      emit_edge_def emit_node_completed_def)

lemma emit_edges_world [simp]: "env_world (fold (emit_edge g a) ts env) = env_world env"
  by (induction ts arbitrary: env) simp_all

lemma set_dedupe [simp]: "set (dedupe xs) = set xs"
  by (simp add: dedupe_def)

lemma distinct_dedupe [simp]: "distinct (dedupe xs)"
  by (simp add: dedupe_def)

lemma dedupe_eq_Nil [simp]: "dedupe xs = [] \<longleftrightarrow> xs = []"
  by (simp add: dedupe_def)

lemma count_visits_get:
  "distinct names \<Longrightarrow> (case map_of (count_visits names counts) n of Some k \<Rightarrow> k | None \<Rightarrow> 0)
     = (case map_of counts n of Some k \<Rightarrow> k | None \<Rightarrow> 0) + (if n \<in> set names then 1 else 0 :: int)"
  unfolding count_visits_def by (induction names arbitrary: counts) auto

lemma admit_nodes_caps:
  "admit_nodes g chk names = Inr nodes \<Longrightarrow> n \<in> set names \<Longrightarrow> map_of (cg_nodes g) n = Some node \<Longrightarrow>
     gn_max_visits node = Some cap \<Longrightarrow> visits chk n < cap"
  by (induction names arbitrary: nodes) (auto split: option.splits if_splits sum.splits simp: map_sum_def)

text \<open>
  The progress of a run: no superstep beyond the limit, no node beyond its cap, and the visit
  counts are those of the completed sequence.
\<close>

definition progress_ok :: "'w compiled_graph \<Rightarrow> graph_checkpoint \<Rightarrow> bool" where
  "progress_ok g chk \<longleftrightarrow> 0 \<le> gc_superstep chk \<and> gc_superstep chk \<le> cg_recursion_limit g
     \<and> (\<forall>n. visits chk n = int (count_list (gc_completed_nodes chk) n))
     \<and> (\<forall>n node cap. map_of (cg_nodes g) n = Some node \<longrightarrow> gn_max_visits node = Some cap \<longrightarrow> visits chk n \<le> cap)"

lemma count_list_distinct: "distinct xs \<Longrightarrow> count_list xs n = (if n \<in> set xs then 1 else 0)"
  by (induction xs) auto

lemma progress_advance:
  assumes "progress_ok g chk" and "gc_superstep chk < cg_recursion_limit g" and "distinct names"
    and "\<And>n node cap. n \<in> set names \<Longrightarrow> map_of (cg_nodes g) n = Some node \<Longrightarrow> gn_max_visits node = Some cap \<Longrightarrow>
      visits chk n < cap"
    and "gc_superstep chk' = gc_superstep chk + 1" and "gc_completed_nodes chk' = gc_completed_nodes chk @ names"
    and "gc_visit_counts chk' = count_visits names (gc_visit_counts chk)"
  shows "progress_ok g chk'"
proof -
  have v: "visits chk' n = visits chk n + (if n \<in> set names then 1 else 0)" for n
    using count_visits_get [OF assms(3), of "gc_visit_counts chk" n] by (simp add: visits_def assms(7))
  show ?thesis
    using assms(1,2,5,6) v assms(4) count_list_distinct [OF assms(3)] unfolding progress_ok_def
    by (auto simp: count_list_append) (metis add.commute add_0 zless_imp_add1_zle)+
qed

lemma progress_close:
  assumes "progress_ok g chk" and "gc_superstep chk' = gc_superstep chk" and "gc_completed_nodes chk' = gc_completed_nodes chk"
    and "gc_visit_counts chk' = gc_visit_counts chk"
  shows "progress_ok g chk'"
proof -
  have "visits chk' = visits chk" by (simp add: fun_eq_iff visits_def assms(4))
  then show ?thesis using assms(1-3) unfolding progress_ok_def by metis
qed

text \<open>How a superstep of the loop ends.\<close>

lemma loop_body_cases:
  assumes "loop_body g limit chk env = out"
  obtains (error) e env1 where "run_superstep g (dedupe (gc_frontier chk)) chk env = (StepError e, env1)"
      "out = Inl (LoopRaised e, chk, env1)"
  | (pause) node cp env1 chk1 env2 where
      "run_superstep g (dedupe (gc_frontier chk)) chk env = (StepPause node cp, env1)"
      "chk1 = stamped env1 (chk\<lparr>gc_status := GRAPH_INTERRUPTED, gc_paused_node := node, gc_member_checkpoint_id := cp, gc_error := None\<rparr>)"
      "env_world env2 = env_world env1" "env_store env2 = mem_graph_save chk1 (env_store env1)"
      "out = Inl (LoopReturned (graph_result_of g GRAPH_INTERRUPTED None chk1), chk1, env2)"
  | (oversize) deltas targets env1 msg chk1 env2 where
      "run_superstep g (dedupe (gc_frontier chk)) chk env = (StepDone deltas targets, env1)"
      "chk1 = stamped env1 (chk\<lparr>gc_state := fold (merge_delta g) deltas (gc_state chk), gc_status := GRAPH_FAILED, gc_error := Some msg\<rparr>)"
      "env_world env2 = env_world env1" "out = Inl (LoopRaised (GraphStateSizeError msg), chk1, env2)"
  | (step) deltas targets env1 chk1 env2 where
      "run_superstep g (dedupe (gc_frontier chk)) chk env = (StepDone deltas targets, env1)"
      "chk1 = stamped env1 (chk\<lparr>gc_state := fold (merge_delta g) deltas (gc_state chk),
          gc_completed_nodes := gc_completed_nodes chk @ dedupe (gc_frontier chk),
          gc_visit_counts := count_visits (dedupe (gc_frontier chk)) (gc_visit_counts chk), gc_frontier := targets,
          gc_superstep := gc_superstep chk + 1\<rparr>)"
      "env_world env2 = env_world env1" "env_store env2 = mem_graph_save chk1 (env_store env1)" "out = Inr (chk1, env2)"
proof -
  obtain e env1 where r: "run_superstep g (dedupe (gc_frontier chk)) chk env = (e, env1)" by fastforce
  show ?thesis
  proof (cases e)
    case (StepError err)
    then show ?thesis using assms r error by (simp add: loop_body_def)
  next
    case (StepPause node cp)
    note r' = r [unfolded StepPause]
    let ?c = "stamped env1 (chk\<lparr>gc_status := GRAPH_INTERRUPTED, gc_paused_node := node, gc_member_checkpoint_id := cp, gc_error := None\<rparr>)"
    have "out = Inl (LoopReturned (graph_result_of g GRAPH_INTERRUPTED None ?c), ?c,
        emit_finished g ?c (emit_approval g ?c node (graph_save ?c env1)))"
      using assms r' by (simp add: loop_body_def pause_run_def Let_def)
    then show ?thesis by (rule pause [OF r' refl, rotated 2]) simp_all
  next
    case (StepDone deltas targets)
    note r' = r [unfolded StepDone]
    let ?m = "fold (merge_delta g) deltas (gc_state chk)"
    show ?thesis
    proof (cases "case limit of Some n \<Rightarrow> int (state_size_bytes ?m) > n | None \<Rightarrow> False")
      case True
      let ?msg = "size_message (state_size_bytes ?m) (the limit) (gc_superstep chk)"
      let ?c = "stamped env1 (chk\<lparr>gc_state := ?m, gc_status := GRAPH_FAILED, gc_error := Some ?msg\<rparr>)"
      from True have "out = Inl (LoopRaised (GraphStateSizeError ?msg), ?c, emit_finished g ?c (graph_save ?c env1))"
        using assms r' by (simp add: loop_body_def close_run_def Let_def)
      then show ?thesis by (rule oversize [OF r' refl, rotated 1]) simp_all
    next
      case False
      let ?c = "stamped env1 (chk\<lparr>gc_state := ?m, gc_completed_nodes := gc_completed_nodes chk @ dedupe (gc_frontier chk),
          gc_visit_counts := count_visits (dedupe (gc_frontier chk)) (gc_visit_counts chk), gc_frontier := targets,
          gc_superstep := gc_superstep chk + 1\<rparr>)"
      from False have "out = Inr (?c, emit_checkpointed g ?c (graph_save ?c env1))"
        using assms r' by (simp add: loop_body_def Let_def)
      then show ?thesis by (rule step [OF r' refl, rotated 2]) simp_all
    qed
  qed
qed

lemma superstep_admits:
  "run_superstep g names chk env = (StepDone deltas targets, env1) \<Longrightarrow> \<exists>nodes. admit_nodes g chk names = Inr nodes"
  by (auto simp: run_superstep_def split: sum.splits)

lemma stamped_core [simp]:
  "gc_superstep (stamped env c) = gc_superstep c" "gc_completed_nodes (stamped env c) = gc_completed_nodes c"
  "gc_visit_counts (stamped env c) = gc_visit_counts c" "gc_frontier (stamped env c) = gc_frontier c"
  "gc_state (stamped env c) = gc_state c" "gc_id (stamped env c) = gc_id c" "gc_graph_name (stamped env c) = gc_graph_name c"
  "gc_status (stamped env c) = gc_status c" "gc_member_checkpoint_id (stamped env c) = gc_member_checkpoint_id c"
  "gc_paused_node (stamped env c) = gc_paused_node c" "gc_error (stamped env c) = gc_error c"
  by (simp_all add: stamped_def)

lemma loop_body_progress:
  assumes "loop_body g limit chk env = out" and "progress_ok g chk" and "gc_superstep chk < cg_recursion_limit g"
  shows "case out of Inl (_, chk', _) \<Rightarrow> progress_ok g chk' | Inr (chk', _) \<Rightarrow> progress_ok g chk'"
  using assms(1)
proof (cases rule: loop_body_cases)
  case (step deltas targets env1 chk1 env2)
  from superstep_admits [OF step(1)] obtain nodes where "admit_nodes g chk (dedupe (gc_frontier chk)) = Inr nodes" by blast
  then have "progress_ok g chk1"
    by (intro progress_advance [OF assms(2,3) distinct_dedupe]) (auto simp: step(2) dest: admit_nodes_caps)
  then show ?thesis by (simp add: step(5))
qed (use assms(2) in \<open>auto intro: progress_close\<close>)

text \<open>The loop halts before its body, ends in it, or goes on.\<close>

definition halted :: "'w compiled_graph \<Rightarrow> nat option \<Rightarrow> graph_checkpoint \<Rightarrow> bool" where
  "halted g budget chk \<longleftrightarrow> gc_frontier chk = [] \<or> gc_superstep chk \<ge> cg_recursion_limit g \<or> budget = Some 0"

lemma halted_cases:
  assumes "halted g budget chk"
  obtains (empty) "gc_frontier chk = []"
  | (exceeded) "gc_frontier chk \<noteq> []" "gc_superstep chk \<ge> cg_recursion_limit g"
  | (cut) "gc_frontier chk \<noteq> []" "gc_superstep chk < cg_recursion_limit g" "budget = Some 0"
  using assms unfolding halted_def by fastforce

lemma run_loop_completed:
  "gc_frontier chk = [] \<Longrightarrow> run_loop g limit budget chk env =
     (LoopReturned (graph_result_of g GRAPH_COMPLETED None (stamped env (chk\<lparr>gc_status := GRAPH_COMPLETED\<rparr>))),
      stamped env (chk\<lparr>gc_status := GRAPH_COMPLETED\<rparr>),
      snd (close_run g (chk\<lparr>gc_status := GRAPH_COMPLETED\<rparr>) env))"
  by (simp add: run_loop.simps [of g limit budget chk env] close_run_def Let_def)

lemma run_loop_exceeded:
  "gc_frontier chk \<noteq> [] \<Longrightarrow> gc_superstep chk \<ge> cg_recursion_limit g \<Longrightarrow> run_loop g limit budget chk env =
     (LoopRaised (GraphRecursionError (limit_message (cg_recursion_limit g) (gc_frontier chk))),
      stamped env (chk\<lparr>gc_status := GRAPH_FAILED, gc_error := Some (limit_message (cg_recursion_limit g) (gc_frontier chk))\<rparr>),
      snd (close_run g (chk\<lparr>gc_status := GRAPH_FAILED, gc_error := Some (limit_message (cg_recursion_limit g) (gc_frontier chk))\<rparr>) env))"
  by (simp add: run_loop.simps [of g limit budget chk env] close_run_def Let_def)

lemma run_loop_cut:
  "gc_frontier chk \<noteq> [] \<Longrightarrow> gc_superstep chk < cg_recursion_limit g \<Longrightarrow>
     run_loop g limit (Some 0) chk env = (LoopCut, chk, env)"
  by (simp add: run_loop.simps [of g limit "Some 0" chk env])

lemma run_loop_end:
  "\<not> halted g budget chk \<Longrightarrow> loop_body g limit chk env = Inl stop \<Longrightarrow> run_loop g limit budget chk env = stop"
  by (simp add: halted_def run_loop.simps [of g limit budget chk env])

lemma run_loop_step:
  "\<not> halted g budget chk \<Longrightarrow> loop_body g limit chk env = Inr (c1, e1) \<Longrightarrow>
     run_loop g limit budget chk env = run_loop g limit (map_option (\<lambda>n. n - 1) budget) c1 e1"
  by (simp add: halted_def run_loop.simps [of g limit budget chk env])

lemma run_loop_halted:
  assumes "halted g budget chk" and "run_loop g limit budget chk env = (e, chk', env')"
  shows "gc_superstep chk' = gc_superstep chk \<and> gc_completed_nodes chk' = gc_completed_nodes chk
    \<and> gc_visit_counts chk' = gc_visit_counts chk"
  using assms(1)
proof (cases rule: halted_cases)
  case empty
  then show ?thesis using assms(2) by (auto simp: run_loop_completed)
next
  case exceeded
  then show ?thesis using assms(2) by (auto simp: run_loop_exceeded)
next
  case cut
  then show ?thesis using assms(2) by (auto simp: run_loop_cut)
qed

text \<open>Induction over the loop: from one superstep to the rest of the run.\<close>

lemma run_loop_induct [case_names halt last step]:
  fixes P :: "nat option \<Rightarrow> graph_checkpoint \<Rightarrow> 'w graph_env \<Rightarrow> bool" and env0 :: "'w graph_env"
  assumes "\<And>budget chk env. halted g budget chk \<Longrightarrow> P budget chk env"
    and "\<And>budget chk env stop. \<not> halted g budget chk \<Longrightarrow> loop_body g limit chk env = Inl stop \<Longrightarrow> P budget chk env"
    and "\<And>budget chk env c1 e1. \<not> halted g budget chk \<Longrightarrow> loop_body g limit chk env = Inr (c1, e1) \<Longrightarrow>
      P (map_option (\<lambda>n. n - 1) budget) c1 e1 \<Longrightarrow> P budget chk env"
  shows "P budget chk env0"
proof (induction "nat (cg_recursion_limit g - gc_superstep chk)" arbitrary: budget chk env0 rule: less_induct)
  case (less chk budget env)
  show ?case
  proof (cases "halted g budget chk")
    case True
    then show ?thesis by (rule assms(1))
  next
    case False
    show ?thesis
    proof (cases "loop_body g limit chk env")
      case (Inl stop)
      with False show ?thesis by (rule assms(2))
    next
      case (Inr p)
      obtain c1 e1 where p: "p = (c1, e1)" by fastforce
      from False have "gc_superstep chk < cg_recursion_limit g" by (simp add: halted_def)
      moreover have "gc_superstep c1 = gc_superstep chk + 1" using loop_body_advances Inr p by blast
      ultimately show ?thesis using less [of c1 "map_option (\<lambda>n. n - 1) budget" e1] assms(3) [OF False] Inr p by simp
    qed
  qed
qed

lemma run_loop_progress:
  "progress_ok g chk \<Longrightarrow> run_loop g limit budget chk env = (e, chk', env') \<Longrightarrow> progress_ok g chk'"
proof (induction budget chk env rule: run_loop_induct [of g _ limit])
  case (halt budget chk env)
  then show ?case using run_loop_halted progress_close by blast
next
  case (last budget chk env stop)
  then have "gc_superstep chk < cg_recursion_limit g" by (simp add: halted_def)
  from loop_body_progress [OF last(2) last(3) this] show ?case using last run_loop_end [OF last(1,2)] by simp
next
  case (step budget chk env c1 e1)
  then have "gc_superstep chk < cg_recursion_limit g" by (simp add: halted_def)
  from loop_body_progress [OF step(2) step(4) this] show ?case using step run_loop_step [OF step(1,2)] by simp
qed

section \<open>A run does not depend on its events\<close>

text \<open>
  What the loop reads of a checkpoint; two surroundings are alike when a node cannot tell them
  apart.
\<close>

definition same_progress :: "graph_checkpoint \<Rightarrow> graph_checkpoint \<Rightarrow> bool" where
  "same_progress c d \<longleftrightarrow> gc_id c = gc_id d \<and> gc_state c = gc_state d \<and> gc_frontier c = gc_frontier d
     \<and> gc_superstep c = gc_superstep d \<and> gc_visit_counts c = gc_visit_counts d
     \<and> gc_completed_nodes c = gc_completed_nodes d"

definition alike :: "'w graph_env \<Rightarrow> 'w graph_env \<Rightarrow> bool" where
  "alike e f \<longleftrightarrow> env_world e = env_world f"

definition same_end :: "'a \<times> 'w graph_env \<Rightarrow> 'a \<times> 'w graph_env \<Rightarrow> bool" where
  "same_end p q \<longleftrightarrow> fst p = fst q \<and> alike (snd p) (snd q)"

lemma run_node_alike: "alike e f \<Longrightarrow> same_end (run_node g n node st e) (run_node g n node st f)"
  by (simp add: run_node_def same_end_def alike_def Let_def split: prod.split node_outcome.split)

lemma run_nodes_alike: "alike e f \<Longrightarrow> same_end (run_nodes g nodes st e) (run_nodes g nodes st f)"
proof (induction nodes arbitrary: e f)
  case Nil
  then show ?case by (simp add: same_end_def)
next
  case (Cons p nodes)
  obtain n node where p: "p = (n, node)" by fastforce
  obtain x e1 y f1 where r: "run_node g n node st e = (x, e1)" "run_node g n node st f = (y, f1)" by fastforce
  with run_node_alike [OF Cons.prems, of g n node st] have "x = y" "alike e1 f1" by (simp_all add: same_end_def)
  with Cons.IH [of e1 f1] show ?case by (auto simp: p r same_end_def split: prod.split)
qed

lemma route_all_alike: "alike e f \<Longrightarrow> same_end (route_all g m names e) (route_all g m names f)"
proof (induction names arbitrary: e f)
  case Nil
  then show ?case by (simp add: same_end_def)
next
  case (Cons n names)
  show ?case
  proof (cases "route g n m")
    case (Inl err)
    then show ?thesis using Cons.prems by (simp add: same_end_def)
  next
    case (Inr ts)
    obtain x e1 y f1 where r: "route_all g m names (fold (emit_edge g n) ts e) = (x, e1)"
        "route_all g m names (fold (emit_edge g n) ts f) = (y, f1)" by fastforce
    have "same_end (x, e1) (y, f1)"
      using Cons.IH [of "fold (emit_edge g n) ts e" "fold (emit_edge g n) ts f"] Cons.prems by (simp add: alike_def r)
    then show ?thesis by (simp add: Inr r same_end_def split: sum.split)
  qed
qed

lemma admit_nodes_same: "gc_visit_counts c = gc_visit_counts d \<Longrightarrow> admit_nodes g c names = admit_nodes g d names"
  by (induction names) (simp_all add: visits_def split: option.split)

lemma run_superstep_alike:
  assumes "same_progress c d" and "alike e f"
  shows "same_end (run_superstep g names c e) (run_superstep g names d f)"
proof (cases "admit_nodes g c names")
  case (Inl err)
  moreover have "admit_nodes g d names = Inl err"
    using assms(1) admit_nodes_same [of c d g names] Inl by (simp add: same_progress_def)
  ultimately show ?thesis using assms(2) by (simp add: run_superstep_def same_end_def)
next
  case (Inr nodes)
  obtain x e1 y f1 where r: "run_nodes g nodes (gc_state d) e = (x, e1)" "run_nodes g nodes (gc_state d) f = (y, f1)" by fastforce
  with run_nodes_alike [OF assms(2), of g nodes "gc_state d"] have xy: "x = y" "alike e1 f1" by (simp_all add: same_end_def)
  have d: "gc_state c = gc_state d" "admit_nodes g d names = Inr nodes"
    using assms(1) admit_nodes_same [of c d g names] Inr by (simp_all add: same_progress_def)
  obtain a e2 b f2 where t: "route_all g (fold (merge_delta g) (deltas_of y) (gc_state d)) names e1 = (a, e2)"
      "route_all g (fold (merge_delta g) (deltas_of y) (gc_state d)) names f1 = (b, f2)" by fastforce
  with route_all_alike [OF xy(2), of g "fold (merge_delta g) (deltas_of y) (gc_state d)" names]
  have "a = b" "alike e2 f2" by (simp_all add: same_end_def)
  then show ?thesis
    by (simp add: run_superstep_def Inr d r xy t same_end_def split: list.split sum.split)
qed

lemma same_progress_stamped [simp]:
  "same_progress (stamped e c) d \<longleftrightarrow> same_progress c d" "same_progress c (stamped e d) \<longleftrightarrow> same_progress c d"
  by (simp_all add: same_progress_def)

lemma result_same: "same_progress c d \<Longrightarrow> graph_result_of g st err c = graph_result_of g st err d"
  by (simp add: same_progress_def graph_result_of_def)

text \<open>One round from checkpoints of the same progress ends, or goes on, in the same way.\<close>

lemma loop_body_alike:
  assumes s: "same_progress c d" and a: "alike e f"
  shows "case loop_body g limit c e of
      Inl (x, _, e1) \<Rightarrow> \<exists>d1 f1. loop_body g limit d f = Inl (x, d1, f1) \<and> alike e1 f1
    | Inr (c1, e1) \<Rightarrow> \<exists>d1 f1. loop_body g limit d f = Inr (d1, f1) \<and> same_progress c1 d1 \<and> alike e1 f1"
proof -
  let ?n = "dedupe (gc_frontier c)"
  have core: "gc_frontier d = gc_frontier c" "gc_state d = gc_state c" "gc_superstep d = gc_superstep c"
    using s by (simp_all add: same_progress_def)
  obtain x e1 y f1 where r: "run_superstep g ?n c e = (x, e1)" "run_superstep g ?n d f = (y, f1)" by fastforce
  with run_superstep_alike [OF s a, of g ?n] have xy: "y = x" "alike e1 f1" by (simp_all add: same_end_def)
  show ?thesis
  proof (cases x)
    case (StepError err)
    then show ?thesis using r xy by (simp add: loop_body_def core)
  next
    case (StepPause node cp)
    then show ?thesis using r xy s
      by (simp add: loop_body_def core pause_run_def Let_def alike_def same_progress_def graph_result_of_def)
  next
    case (StepDone deltas targets)
    show ?thesis
    proof (cases "case limit of Some n \<Rightarrow> int (state_size_bytes (fold (merge_delta g) deltas (gc_state c))) > n | None \<Rightarrow> False")
      case True
      then show ?thesis using r xy StepDone
        by (simp add: loop_body_def core close_run_def Let_def alike_def)
    next
      case False
      then show ?thesis using r xy s StepDone
        by (simp add: loop_body_def core Let_def alike_def same_progress_def)
    qed
  qed
qed

definition same_loop_end :: "loop_end \<times> graph_checkpoint \<times> 'w graph_env \<Rightarrow> loop_end \<times> graph_checkpoint \<times> 'w graph_env \<Rightarrow> bool" where
  "same_loop_end p q \<longleftrightarrow> fst p = fst q \<and> alike (snd (snd p)) (snd (snd q))"

lemma close_run_alike: "alike e f \<Longrightarrow> alike (snd (close_run g c e)) (snd (close_run g d f))"
  by (simp add: close_run_def Let_def alike_def)

lemma run_loop_alike:
  "same_progress c d \<Longrightarrow> alike e f \<Longrightarrow> same_loop_end (run_loop g limit None c e) (run_loop g limit None d f)"
proof (induction "nat (cg_recursion_limit g - gc_superstep c)" arbitrary: c d e f rule: less_induct)
  case less
  note core = less.prems(1) [unfolded same_progress_def]
  consider "gc_frontier c = []" | "gc_frontier c \<noteq> []" "gc_superstep c \<ge> cg_recursion_limit g"
    | "\<not> halted g None c" by (auto simp: halted_def)
  then show ?case
  proof cases
    case 1
    with core show ?thesis using close_run_alike [OF less.prems(2)]
      by (simp add: run_loop_completed same_loop_end_def graph_result_of_def)
  next
    case 2
    with core show ?thesis using close_run_alike [OF less.prems(2)]
      by (simp add: run_loop_exceeded same_loop_end_def)
  next
    case 3
    then have hd: "\<not> halted g None d" using core by (simp add: halted_def)
    note body = loop_body_alike [OF less.prems, of g limit]
    show ?thesis
    proof (cases "loop_body g limit c e")
      case (Inl stop)
      obtain x c1 e1 where "stop = (x, c1, e1)" by (cases stop)
      with body Inl show ?thesis
        by (auto simp: same_loop_end_def run_loop_end [OF 3 Inl] dest: run_loop_end [OF hd])
    next
      case (Inr p)
      obtain c1 e1 where p: "p = (c1, e1)" by fastforce
      with body Inr obtain d1 f1 where n: "loop_body g limit d f = Inr (d1, f1)" "same_progress c1 d1" "alike e1 f1" by auto
      from 3 have "gc_superstep c < cg_recursion_limit g" by (simp add: halted_def)
      moreover have "gc_superstep c1 = gc_superstep c + 1" using loop_body_advances Inr p by blast
      ultimately show ?thesis
        using less.hyps [OF _ n(2,3)] run_loop_step [OF 3 Inr [unfolded p]] run_loop_step [OF hd n(1)] by simp
    qed
  qed
qed

text \<open>A cut leaves a checkpoint from which the uncut run goes on.\<close>

lemma loop_body_keeps:
  "loop_body g limit chk env = Inr (c1, e1) \<Longrightarrow> gc_id c1 = gc_id chk \<and> gc_graph_name c1 = gc_graph_name chk
     \<and> gc_member_checkpoint_id c1 = gc_member_checkpoint_id chk"
  by (erule loop_body_cases) auto

lemma run_loop_cut_goes_on:
  "run_loop g limit budget chk env = (LoopCut, c1, e1) \<Longrightarrow>
     run_loop g limit None chk env = run_loop g limit None c1 e1 \<and> gc_id c1 = gc_id chk
     \<and> gc_graph_name c1 = gc_graph_name chk \<and> gc_member_checkpoint_id c1 = gc_member_checkpoint_id chk"
proof (induction budget chk env rule: run_loop_induct [of g _ limit])
  case (halt budget chk env)
  from halt(1) show ?case using halt(2) by (cases rule: halted_cases) (auto simp: run_loop_completed run_loop_exceeded run_loop_cut)
next
  case (last budget chk env stop)
  then have "stop = (LoopCut, c1, e1)" using run_loop_end [OF last(1,2)] by simp
  with last(2) show ?case by (auto elim: loop_body_cases)
next
  case (step budget chk env c2 e2)
  then have n: "\<not> halted g None chk" by (auto simp: halted_def)
  show ?case using step(3,4) run_loop_step [OF step(1,2)] run_loop_step [OF n step(2)] loop_body_keeps [OF step(2)] by simp
qed

lemma run_loop_stops:
  "run_loop g limit budget chk env = (LoopReturned r, c1, e1) \<Longrightarrow> gr_error r = None"
proof (induction budget chk env rule: run_loop_induct [of g _ limit])
  case (halt budget chk env)
  from halt(1) show ?case using halt(2)
    by (cases rule: halted_cases) (auto simp: run_loop_completed run_loop_exceeded run_loop_cut graph_result_of_def)
next
  case (last budget chk env stop)
  then have "stop = (LoopReturned r, c1, e1)" using run_loop_end [OF last(1,2)] by simp
  with last(2) show ?case by (auto simp: graph_result_of_def elim: loop_body_cases)
next
  case (step budget chk env c2 e2)
  then show ?case using run_loop_step [OF step(1,2)] by simp
qed

lemma run_loop_result:
  "run_loop g limit budget chk env = (LoopReturned r, c1, e1) \<Longrightarrow>
     gr_supersteps r = gc_superstep c1 \<and> gr_node_sequence r = gc_completed_nodes c1"
proof (induction budget chk env rule: run_loop_induct [of g _ limit])
  case (halt budget chk env)
  from halt(1) show ?case using halt(2)
    by (cases rule: halted_cases) (auto simp: run_loop_completed run_loop_exceeded run_loop_cut graph_result_of_def)
next
  case (last budget chk env stop)
  then have "stop = (LoopReturned r, c1, e1)" using run_loop_end [OF last(1,2)] by simp
  with last(2) show ?case by (auto simp: graph_result_of_def elim: loop_body_cases)
next
  case (step budget chk env c2 e2)
  then show ?case using run_loop_step [OF step(1,2)] by simp
qed

text \<open>The start event is the only thing \<open>drive_graph\<close> adds before the loop.\<close>

definition started :: "'w compiled_graph \<Rightarrow> graph_checkpoint \<Rightarrow> 'w graph_env \<Rightarrow> 'w graph_env" where
  "started g chk env = (if gc_superstep chk = 0 then graph_emit GRAPH_STARTED
     [(''graph_name'', JStr (cg_name g)), (''entry'', JStr (cg_entry g)), (''checkpoint_id'', JStr (gc_id chk))] None env
     else env)"

lemma started_alike [simp]: "alike (started g chk env) f \<longleftrightarrow> alike env f" "alike e (started g chk env) \<longleftrightarrow> alike e env"
  by (simp_all add: started_def alike_def)

lemma drive_graph_cases:
  assumes "drive_graph g limit budget chk env = (out, env')"
  obtains (returned) r c1 where "run_loop g limit budget chk (started g chk env) = (LoopReturned r, c1, env')" "out = Inr r"
  | (raised) e c1 where "run_loop g limit budget chk (started g chk env) = (LoopRaised e, c1, env')" "out = Inl e"
  | (cut) c1 env1 c2 where "run_loop g limit budget chk (started g chk env) = (LoopCut, c1, env1)"
      "c2 = stamped env1 (c1\<lparr>gc_status := GRAPH_INTERRUPTED, gc_error := Some ''cancelled''\<rparr>)"
      "out = Inr (graph_result_of g GRAPH_INTERRUPTED (Some ''cancelled'') c2)"
      "env_world env' = env_world env1" "env_store env' = mem_graph_save c2 (env_store env1)"
proof -
  obtain e c1 env1 where r: "run_loop g limit budget chk (started g chk env) = (e, c1, env1)" by (cases "run_loop g limit budget chk (started g chk env)")
  show ?thesis
  proof (cases e)
    case (LoopReturned x)
    then show ?thesis using assms r returned by (simp add: drive_graph_def started_def)
  next
    case (LoopRaised x)
    then show ?thesis using assms r raised by (simp add: drive_graph_def started_def)
  next
    case LoopCut
    let ?c = "stamped env1 (c1\<lparr>gc_status := GRAPH_INTERRUPTED, gc_error := Some ''cancelled''\<rparr>)"
    have o: "out = Inr (graph_result_of g GRAPH_INTERRUPTED (Some ''cancelled'') ?c)"
        "env_world env' = env_world env1" "env_store env' = mem_graph_save ?c (env_store env1)"
      using assms r LoopCut by (auto simp: drive_graph_def started_def Let_def)
    show ?thesis by (rule cut [OF r [unfolded LoopCut] refl o])
  qed
qed

lemma drive_graph_result:
  assumes "progress_ok g chk" and "drive_graph g limit budget chk env = (Inr r, env')"
  shows "gr_supersteps r \<le> cg_recursion_limit g
    \<and> (\<forall>n node cap. map_of (cg_nodes g) n = Some node \<longrightarrow> gn_max_visits node = Some cap \<longrightarrow>
          int (count_list (gr_node_sequence r) n) \<le> cap)"
proof -
  obtain c where "progress_ok g c" "gr_supersteps r = gc_superstep c" "gr_node_sequence r = gc_completed_nodes c"
    using assms(2)
  proof (cases rule: drive_graph_cases)
    case (returned x c1)
    then show ?thesis using that [OF run_loop_progress [OF assms(1) returned(1)]] run_loop_result [OF returned(1)] by simp
  next
    case (raised e c1)
    then show ?thesis by simp
  next
    case (cut c1 env1 c2)
    then show ?thesis using that [OF run_loop_progress [OF assms(1) cut(1)]] by (simp add: graph_result_of_def)
  qed
  then show ?thesis unfolding progress_ok_def by metis
qed

lemma fresh_core [simp]:
  "gc_superstep (fresh_checkpoint g cid st env) = 0" "gc_completed_nodes (fresh_checkpoint g cid st env) = []"
  "gc_visit_counts (fresh_checkpoint g cid st env) = []" "gc_graph_name (fresh_checkpoint g cid st env) = cg_name g"
  "gc_member_checkpoint_id (fresh_checkpoint g cid st env) = []"
  by (simp_all add: fresh_checkpoint_def new_graph_checkpoint_def)

text \<open>A call that resumes nothing runs the loop from a fresh checkpoint.\<close>

lemma invoke_fresh:
  assumes "in_resume i = None" and "\<not> (case in_max_state_bytes i of Some n \<Rightarrow> n < 1 | None \<Rightarrow> False)"
  shows "\<exists>cid. \<forall>t. invoke g new_id (i\<lparr>in_timeout := t\<rparr>) env =
    drive_graph g (case in_max_state_bytes i of Some n \<Rightarrow> Some n | None \<Rightarrow> cg_max_state_bytes g) t
      (fresh_checkpoint g cid (in_state i) env) env"
  using assms
  by (intro exI [of _ "case in_checkpoint_id i of Some k \<Rightarrow> if k \<noteq> [] then k else new_id | None \<Rightarrow> new_id"])
    (simp add: invoke_def resolve_resume_def Let_def split: option.split)

lemma invoke_checks_bound:
  "in_max_state_bytes i = Some n \<Longrightarrow> n < 1 \<Longrightarrow> invoke g new_id i env = (Inl (GraphError ''max_state_bytes must be >= 1''), env)"
  by (simp add: invoke_def)

lemma run_loop_uncut: "fst (run_loop g limit None chk env) \<noteq> LoopCut"
proof (induction "None :: nat option" chk env rule: run_loop_induct [of g _ limit])
  case (halt chk env)
  from halt(1) show ?case by (cases rule: halted_cases) (auto simp: run_loop_completed run_loop_exceeded)
next
  case (last chk env stop)
  with run_loop_end [OF last(1,2)] show ?case by (auto elim: loop_body_cases)
next
  case (step chk env c1 e1)
  then show ?case using run_loop_step [OF step(1,2)] by simp
qed

text \<open>What the builder makes.\<close>

inductive built :: "'w state_graph \<Rightarrow> bool" where
  created: "built (new_state_graph name)"
| noded: "built g \<Longrightarrow> add_node name fn cap g = Inr g' \<Longrightarrow> built g'"
| edged: "built g \<Longrightarrow> built (add_edge a b g)"
| routed: "built g \<Longrightarrow> add_conditional_edges a router g = Inr g' \<Longrightarrow> built g'"
| entered: "built g \<Longrightarrow> built (set_entry_point name g)"
| reduced: "built g \<Longrightarrow> built (set_reducer k f g)"

lemma built_caps: "built g \<Longrightarrow> map_of (sg_nodes g) n = Some node \<Longrightarrow> gn_max_visits node = Some cap \<Longrightarrow> 1 \<le> cap"
  by (induction arbitrary: n node cap rule: built.induct)
    (auto simp: new_state_graph_def add_node_def add_edge_def add_conditional_edges_def set_entry_point_def
      set_reducer_def update_conv split: if_splits option.splits)

lemma built_projr:
  "built g \<Longrightarrow> \<not> isl (add_node name fn cap g) \<Longrightarrow> built (projr (add_node name fn cap g))"
  "built g \<Longrightarrow> \<not> isl (add_conditional_edges a router g) \<Longrightarrow> built (projr (add_conditional_edges a router g))"
  by (cases "add_node name fn cap g"; auto intro: noded) (cases "add_conditional_edges a router g"; auto intro: routed)

section \<open>Properties\<close>

text \<open>C33: The guards bound every run: a fresh run of a graph the builder made and compiled, with any
  routers, cycles and node bodies, that returns took at most \<open>max(1, recursion_limit)\<close> supersteps
  and ran no node with a visit cap more often than its cap.\<close>

theorem graph_runs_are_bounded:
  assumes "built sg" and "compile_graph recursion_limit max_bytes sg = Inr g" and "in_resume i = None"
    and "invoke g new_id i env = (Inr r, env')"
  shows "gr_supersteps r \<le> max 1 recursion_limit
    \<and> (\<forall>n node cap. map_of (sg_nodes sg) n = Some node \<longrightarrow> gn_max_visits node = Some cap \<longrightarrow>
          int (count_list (gr_node_sequence r) n) \<le> cap)"
proof -
  have limit: "cg_recursion_limit g = max 1 recursion_limit" and nodes: "cg_nodes g = sg_nodes sg"
    using assms(2) by (auto simp: compile_graph_def split: if_splits option.splits)
  have bound: "\<not> (case in_max_state_bytes i of Some n \<Rightarrow> n < 1 | None \<Rightarrow> False)"
    using assms(4) by (auto simp: invoke_def split: if_splits)
  have "i\<lparr>in_timeout := in_timeout i\<rparr> = i" by simp
  with invoke_fresh [OF assms(3) bound, of g new_id env] assms(4) obtain cid bytes
    where d: "drive_graph g bytes (in_timeout i) (fresh_checkpoint g cid (in_state i) env) env = (Inr r, env')" by metis
  have "progress_ok g (fresh_checkpoint g cid (in_state i) env)"
    using built_caps [OF assms(1)] by (force simp: progress_ok_def limit nodes visits_def)
  from drive_graph_result [OF this d] show ?thesis unfolding limit nodes .
qed


section \<open>Examples\<close>

text \<open>A node that counts itself up until a router stops it; the world counts the calls.\<close>

definition tick :: "json_dict \<Rightarrow> nat \<Rightarrow> node_outcome \<times> nat" where
  "tick state w = (NDelta [(''n'', JInt 1)], w + 1)"

definition until_three :: "json_dict \<Rightarrow> router_decision" where
  "until_three state = (if map_of state ''n'' = Some (JInt 3) then RName GRAPH_END else RName ''tick'')"

definition ticking :: "nat state_graph" where
  "ticking = set_entry_point ''tick'' (projr (add_conditional_edges ''tick'' until_three
     (projr (add_node ''tick'' tick (Some 5) (set_reducer ''n'' add_reducer (new_state_graph ''ticks''))))))"

definition plain_call :: "nat invocation" where
  "plain_call = \<lparr>in_state = [], in_resume = None, in_checkpoint_id = None, in_timeout = None,
     in_max_state_bytes = None, in_member = None\<rparr>"

definition bare_env :: "nat graph_env" where
  "bare_env = \<lparr>env_world = 0, env_events = [], env_store = [], env_stamp = (\<lambda>_. ''t'')\<rparr>"

lemma ticking_built: "built ticking"
  unfolding ticking_def
  by (rule entered, rule built_projr(2), rule built_projr(1), rule reduced, rule created)
    (simp_all add: add_node_def add_conditional_edges_def new_state_graph_def set_reducer_def GRAPH_START_def GRAPH_END_def)

definition ticking_compiled :: "nat compiled_graph" where
  "ticking_compiled = projr (compile_graph 10 None ticking)"

lemma ticking_runs:
  "compile_graph 10 None ticking = Inr ticking_compiled"
  "map_sum (\<lambda>_. ()) gr_supersteps (fst (invoke ticking_compiled ''g1'' plain_call bare_env)) = Inr 3"
  "map_sum (\<lambda>_. ()) gr_error (fst (invoke ticking_compiled ''g1'' (plain_call\<lparr>in_timeout := Some 2\<rparr>) bare_env))
     = Inr (Some ''cancelled'')"
  subgoal by (simp add: ticking_compiled_def ticking_def compile_graph_def add_node_def add_conditional_edges_def
      new_state_graph_def set_reducer_def set_entry_point_def GRAPH_START_def GRAPH_END_def)
  subgoal by code_simp
  subgoal by code_simp
  done

text \<open>
  A superstep of two nodes in which one pauses: the splice of its resume replaces the frontier, and
  the sibling is neither merged nor run again.
\<close>

definition forked :: "nat state_graph" where
  "forked = add_edge ''a'' GRAPH_END (add_edge ''b'' GRAPH_END (add_edge ''s'' ''b'' (add_edge ''s'' ''a''
     (set_entry_point ''s'' (projr (add_node ''b'' (\<lambda>_ w. (NDelta [(''b'', JBool True)], w)) None
       (projr (add_node ''a'' (\<lambda>_ w. (NPause ''a'' ''m1'', w)) None
         (projr (add_node ''s'' (\<lambda>_ w. (NNothing, w)) None (new_state_graph ''fork'')))))))))))"

definition approving :: "nat resume_member" where
  "approving node cp state w = (Inr \<lparr>mo_delta = [(''a'', JBool True)], mo_paused_again = False, mo_member_checkpoint_id = []\<rparr>, w)"

lemma paused_superstep_drops_the_sibling:
  "(let g = projr (compile_graph 10 None forked); env1 = snd (invoke g ''g1'' plain_call bare_env);
        r = projr (fst (invoke g ''g2'' (plain_call\<lparr>in_resume := Some (ById ''g1''), in_member := Some approving\<rparr>) env1))
    in gr_status r = GRAPH_COMPLETED \<and> gr_node_sequence r = [''s'', ''a''] \<and> map_of (gr_final_state r) ''b'' = None)"
  by code_simp

text \<open>A run that completes after a timeout keeps the error of the cut in its checkpoint.\<close>

lemma completed_run_keeps_the_cancelled_error:
  "(let env1 = snd (invoke ticking_compiled ''g1'' (plain_call\<lparr>in_timeout := Some 2\<rparr>) bare_env);
        env2 = snd (invoke ticking_compiled ''g2'' (plain_call\<lparr>in_resume := Some (ById ''g1'')\<rparr>) env1)
    in map_option (\<lambda>c. (gc_status c, gc_error c)) (mem_graph_load ''g1'' (env_store env2))
         = Some (GRAPH_COMPLETED, Some ''cancelled'')
     \<and> ge_error (last (env_events env2)) = Some ''cancelled'')"
  by code_simp

theorem graph_runs_are_bounded_witness:
  "(case invoke ticking_compiled ''g1'' plain_call bare_env of (Inr r, _) \<Rightarrow> gr_supersteps r \<le> max 1 10 | _ \<Rightarrow> False)"
proof -
  obtain out env' where i: "invoke ticking_compiled ''g1'' plain_call bare_env = (out, env')" by fastforce
  with ticking_runs(2) obtain r where r: "out = Inr r" by (cases out) simp_all
  have "in_resume plain_call = None" by (simp add: plain_call_def)
  from graph_runs_are_bounded [OF ticking_built ticking_runs(1) this i [unfolded r]] show ?thesis by (simp add: i r)
qed


end
