(* ===== verification/EventLog.thy ===== *)
theory EventLog
  imports StorageModels
begin

text \<open>
  \<open>InMemoryEventLog\<close> (himmy/services/storage/inmemory.py): the append-only event
  stream with two secondary indexes. The abstract log is the stream alone; the lemmas show
  that a read through an index returns what a scan of the stream returns, and that the
  partial index rebuild of an erasure keeps the indexes exact.

  The sets of ids of an erasure are lists here; no result depends on their order.
\<close>

text \<open>The stored value of an event type (\<open>EventType\<close> is a \<open>str\<close> enum).\<close>

fun event_type_value :: "event_type \<Rightarrow> string" where
  "event_type_value AGENT_RUN_STARTED = ''AGENT_RUN_STARTED''"
| "event_type_value AGENT_RUN_FINISHED = ''AGENT_RUN_FINISHED''"
| "event_type_value AGENT_TURN_STARTED = ''AGENT_TURN_STARTED''"
| "event_type_value AGENT_TURN_COMPLETED = ''AGENT_TURN_COMPLETED''"
| "event_type_value APPROVAL_REQUIRED = ''APPROVAL_REQUIRED''"
| "event_type_value APPROVAL_GRANTED = ''APPROVAL_GRANTED''"
| "event_type_value APPROVAL_REJECTED = ''APPROVAL_REJECTED''"
| "event_type_value INFERENCE_REQUESTED = ''INFERENCE_REQUESTED''"
| "event_type_value INFERENCE_SUCCEEDED = ''INFERENCE_SUCCEEDED''"
| "event_type_value INFERENCE_FAILED = ''INFERENCE_FAILED''"
| "event_type_value TOOL_CALLED = ''TOOL_CALLED''"
| "event_type_value TOOL_COMPLETED = ''TOOL_COMPLETED''"
| "event_type_value TOOL_FAILED = ''TOOL_FAILED''"
| "event_type_value CONTEXT_SNAPSHOT_BUILT = ''CONTEXT_SNAPSHOT_BUILT''"
| "event_type_value CONTEXT_COMPACTED = ''CONTEXT_COMPACTED''"
| "event_type_value GUARDRAIL_APPLIED = ''GUARDRAIL_APPLIED''"
| "event_type_value WORKFLOW_STARTED = ''WORKFLOW_STARTED''"
| "event_type_value WORKFLOW_STEP_COMPLETED = ''WORKFLOW_STEP_COMPLETED''"
| "event_type_value WORKFLOW_FINISHED = ''WORKFLOW_FINISHED''"
| "event_type_value AGENT_HANDOFF = ''AGENT_HANDOFF''"
| "event_type_value AGENT_DELEGATED = ''AGENT_DELEGATED''"
| "event_type_value GROUP_CHAT_STARTED = ''GROUP_CHAT_STARTED''"
| "event_type_value GROUP_SPEAKER_SELECTED = ''GROUP_SPEAKER_SELECTED''"
| "event_type_value GROUP_SPEAKER_SPOKE = ''GROUP_SPEAKER_SPOKE''"
| "event_type_value GROUP_CHAT_FINISHED = ''GROUP_CHAT_FINISHED''"
| "event_type_value FANOUT_STARTED = ''FANOUT_STARTED''"
| "event_type_value FANOUT_WORKER_COMPLETED = ''FANOUT_WORKER_COMPLETED''"
| "event_type_value FANOUT_JOINED = ''FANOUT_JOINED''"
| "event_type_value MEMORY_REMEMBERED = ''MEMORY_REMEMBERED''"
| "event_type_value MEMORY_RECALLED = ''MEMORY_RECALLED''"
| "event_type_value MEMORY_CONSOLIDATED = ''MEMORY_CONSOLIDATED''"
| "event_type_value GRAPH_STARTED = ''GRAPH_STARTED''"
| "event_type_value GRAPH_NODE_STARTED = ''GRAPH_NODE_STARTED''"
| "event_type_value GRAPH_NODE_COMPLETED = ''GRAPH_NODE_COMPLETED''"
| "event_type_value GRAPH_EDGE_TAKEN = ''GRAPH_EDGE_TAKEN''"
| "event_type_value GRAPH_CHECKPOINTED = ''GRAPH_CHECKPOINTED''"
| "event_type_value GRAPH_FINISHED = ''GRAPH_FINISHED''"
| "event_type_value TYPED_OUTPUT_VALIDATED = ''TYPED_OUTPUT_VALIDATED''"
| "event_type_value TYPED_OUTPUT_REPAIRED = ''TYPED_OUTPUT_REPAIRED''"
| "event_type_value LEARNING_APPLIED = ''LEARNING_APPLIED''"
| "event_type_value OUTCOME_SCORED = ''OUTCOME_SCORED''"

text \<open>
  \<open>normalize_event_type\<close> (himmy/services/storage/protocols.py): a filter is given as
  the enum or as its raw value.
\<close>

datatype event_type_filter = ByType event_type | ByValue string

definition normalize_event_type :: "event_type_filter option \<Rightarrow> string option" where
  "normalize_event_type f =
     (case f of None \<Rightarrow> None
      | Some (ByType t) \<Rightarrow> Some (event_type_value t)
      | Some (ByValue s) \<Rightarrow> Some s)"

record event_log =
  el_events :: "run_event list"
  el_by_thread :: "(string, run_event list) dict"
  el_by_trace :: "(string, run_event list) dict"

definition empty_event_log :: event_log where
  "empty_event_log = \<lparr>el_events = [], el_by_thread = [], el_by_trace = []\<rparr>"

text \<open>\<open>d.get(k, [])\<close> and \<open>d.setdefault(k, []).append(e)\<close>.\<close>

definition bucket :: "(string, run_event list) dict \<Rightarrow> string \<Rightarrow> run_event list" where
  "bucket d k = (case map_of d k of None \<Rightarrow> [] | Some es \<Rightarrow> es)"

definition bucket_append ::
  "string option \<Rightarrow> run_event \<Rightarrow> (string, run_event list) dict \<Rightarrow> (string, run_event list) dict" where
  "bucket_append key e d = (case key of None \<Rightarrow> d | Some k \<Rightarrow> AList.update k (bucket d k @ [e]) d)"

definition append_event :: "run_event \<Rightarrow> event_log \<Rightarrow> event_log" where
  "append_event e lg =
     \<lparr>el_events = el_events lg @ [e],
      el_by_thread = bucket_append (ev_thread_id e) e (el_by_thread lg),
      el_by_trace = bucket_append (ev_trace_id e) e (el_by_trace lg)\<rparr>"

record event_query =
  q_thread_id :: "string option"
  q_trace_id :: "string option"
  q_event_type :: "event_type_filter option"
  q_tool_name :: "string option"
  q_workspace_id :: "string option"
  q_limit :: "int option"
  q_newest_first :: bool

definition event_matches :: "event_query \<Rightarrow> run_event \<Rightarrow> bool" where
  "event_matches q e \<longleftrightarrow>
     (q_thread_id q = None \<or> ev_thread_id e = q_thread_id q)
     \<and> (q_trace_id q = None \<or> ev_trace_id e = q_trace_id q)
     \<and> (case normalize_event_type (q_event_type q) of None \<Rightarrow> True
        | Some t \<Rightarrow> event_type_value (ev_type e) = t)
     \<and> (case q_tool_name q of None \<Rightarrow> True
        | Some t \<Rightarrow> map_of (ev_payload e) ''tool_name'' = Some (JStr t))
     \<and> (q_workspace_id q = None \<or> ev_workspace_id e = q_workspace_id q)"

text \<open>Ordering and bound of a read; \<open>limit\<close> cuts after the order is chosen.\<close>

definition order_and_limit :: "event_query \<Rightarrow> run_event list \<Rightarrow> run_event list" where
  "order_and_limit q es =
     (let es = (if q_newest_first q then rev es else es)
      in case q_limit q of None \<Rightarrow> es | Some n \<Rightarrow> py_take (max 0 n) es)"

definition list_events :: "event_query \<Rightarrow> event_log \<Rightarrow> run_event list" where
  "list_events q lg =
     (let candidates =
        (case q_thread_id q of
           Some t \<Rightarrow> bucket (el_by_thread lg) t
         | None \<Rightarrow> (case q_trace_id q of
             Some t \<Rightarrow> bucket (el_by_trace lg) t
           | None \<Rightarrow> el_events lg))
      in order_and_limit q (filter (event_matches q) candidates))"

text \<open>
  \<open>delete_events\<close>: drop the events named by thread or by trace, pop the named buckets,
  and rebuild from the pruned stream those buckets that shared an event with a popped one.
\<close>

definition named_by :: "string option \<Rightarrow> string list \<Rightarrow> bool" where
  "named_by key ids = (case key of None \<Rightarrow> False | Some k \<Rightarrow> k \<in> set ids)"

definition sibling_keys ::
  "(run_event \<Rightarrow> string option) \<Rightarrow> string list \<Rightarrow> string list \<Rightarrow> (string, run_event list) dict
     \<Rightarrow> string list" where
  "sibling_keys key named dropped d =
     concat (map (\<lambda>k. List.map_filter
       (\<lambda>e. case key e of None \<Rightarrow> None | Some t \<Rightarrow> if t \<in> set named then None else Some t)
       (bucket d k)) dropped)"

definition rebuild ::
  "(run_event \<Rightarrow> string option) \<Rightarrow> run_event list \<Rightarrow> string list \<Rightarrow> (string, run_event list) dict
     \<Rightarrow> (string, run_event list) dict" where
  "rebuild key events ks d =
     fold (\<lambda>k. AList.update k (filter (\<lambda>e. key e = Some k) events)) ks d"

definition delete_events :: "string list \<Rightarrow> string list \<Rightarrow> event_log \<Rightarrow> int \<times> event_log" where
  "delete_events thread_ids trace_ids lg =
     (let events = filter (\<lambda>e. \<not> named_by (ev_thread_id e) thread_ids
                               \<and> \<not> named_by (ev_trace_id e) trace_ids) (el_events lg);
          dropped_threads = filter (\<lambda>t. map_of (el_by_thread lg) t \<noteq> None) thread_ids;
          dropped_traces = filter (\<lambda>t. map_of (el_by_trace lg) t \<noteq> None) trace_ids;
          sibling_traces = sibling_keys ev_trace_id trace_ids dropped_threads (el_by_thread lg);
          sibling_threads = sibling_keys ev_thread_id thread_ids dropped_traces (el_by_trace lg)
      in (int (length (el_events lg)) - int (length events),
          \<lparr>el_events = events,
           el_by_thread = rebuild ev_thread_id events sibling_threads
             (dict_pop_all dropped_threads (el_by_thread lg)),
           el_by_trace = rebuild ev_trace_id events sibling_traces
             (dict_pop_all dropped_traces (el_by_trace lg))\<rparr>))"

section \<open>The indexes are exact\<close>

definition index_exact ::
  "(run_event \<Rightarrow> string option) \<Rightarrow> run_event list \<Rightarrow> (string, run_event list) dict \<Rightarrow> bool" where
  "index_exact key events d \<longleftrightarrow> (\<forall>k. bucket d k = filter (\<lambda>e. key e = Some k) events)"

definition event_log_wf :: "event_log \<Rightarrow> bool" where
  "event_log_wf lg \<longleftrightarrow> index_exact ev_thread_id (el_events lg) (el_by_thread lg)
     \<and> index_exact ev_trace_id (el_events lg) (el_by_trace lg)"

lemma empty_event_log_wf: "event_log_wf empty_event_log"
  by (simp add: event_log_wf_def index_exact_def empty_event_log_def bucket_def)

lemma index_exact_append:
  "index_exact key es d \<Longrightarrow> index_exact key (es @ [e]) (bucket_append (key e) e d)"
  by (auto simp: index_exact_def bucket_append_def bucket_def split: option.splits)

lemma append_event_wf: "event_log_wf lg \<Longrightarrow> event_log_wf (append_event e lg)"
  by (simp add: event_log_wf_def append_event_def index_exact_append)

lemma get_rebuild:
  "map_of (rebuild key es ks d) k =
     (if k \<in> set ks then Some (filter (\<lambda>e. key e = Some k) es) else map_of d k)"
  unfolding rebuild_def by (induction ks arbitrary: d) auto

text \<open>
  A sibling is reached from every dropped event: the bucket of a key that is neither popped
  nor rebuilt has lost nothing.
\<close>

lemma sibling_keys_iff:
  assumes "index_exact key' es d" and "dropped = filter (\<lambda>t. map_of d t \<noteq> None) ids'"
  shows "k \<in> set (sibling_keys key ids dropped d) \<longleftrightarrow>
     k \<notin> set ids \<and> (\<exists>e \<in> set es. key e = Some k \<and> named_by (key' e) ids')"
proof -
  have b: "set (bucket d t) = {e \<in> set es. key' e = Some t}" for t
    using assms(1) by (simp add: index_exact_def)
  have named: "map_of d t \<noteq> None" if "e \<in> set es" "key' e = Some t" for e t
    using b [of t] that by (cases "map_of d t") (auto simp: bucket_def)
  have sib: "k \<in> set (List.map_filter (\<lambda>e. case key e of None \<Rightarrow> None
        | Some t \<Rightarrow> if t \<in> set ids then None else Some t) b) \<longleftrightarrow>
      k \<notin> set ids \<and> (\<exists>e \<in> set b. key e = Some k)" for b
    by (force simp: map_filter_def split: option.splits if_splits)
  show ?thesis
  proof
    assume "k \<in> set (sibling_keys key ids dropped d)"
    then obtain t where "t \<in> set ids'" and "k \<notin> set ids" and "\<exists>e \<in> set (bucket d t). key e = Some k"
      by (auto simp: sibling_keys_def sib assms(2))
    then show "k \<notin> set ids \<and> (\<exists>e \<in> set es. key e = Some k \<and> named_by (key' e) ids')"
      by (auto simp: b named_by_def)
  next
    assume *: "k \<notin> set ids \<and> (\<exists>e \<in> set es. key e = Some k \<and> named_by (key' e) ids')"
    then obtain e t where e: "e \<in> set es" "key e = Some k" "key' e = Some t" "t \<in> set ids'"
      by (auto simp: named_by_def split: option.splits)
    with named have "t \<in> set dropped" by (simp add: assms(2))
    with e * b [of t] show "k \<in> set (sibling_keys key ids dropped d)"
      by (auto simp: sibling_keys_def sib)
  qed
qed

lemma index_exact_delete:
  assumes exact: "index_exact key es d"
    and events: "es' = filter (\<lambda>e. \<not> named_by (key e) ids \<and> \<not> named_by (key' e) ids') es"
    and siblings: "\<And>k. k \<in> set ks \<longleftrightarrow>
      k \<notin> set ids \<and> (\<exists>e \<in> set es. key e = Some k \<and> named_by (key' e) ids')"
  shows "index_exact key es'
    (rebuild key es' ks (dict_pop_all (filter (\<lambda>t. map_of d t \<noteq> None) ids) d))"
  unfolding index_exact_def
proof
  fix k
  show "bucket (rebuild key es' ks (dict_pop_all (filter (\<lambda>t. map_of d t \<noteq> None) ids) d)) k
    = filter (\<lambda>e. key e = Some k) es'"
  proof (cases "k \<in> set ids")
    case True
    then have "filter (\<lambda>e. key e = Some k) es' = []" and "k \<notin> set ks"
      by (auto simp: siblings events named_by_def filter_empty_conv)
    with True show ?thesis
      by (cases "map_of d k") (simp_all add: bucket_def get_rebuild dict_get_pop_all)
  next
    case notin: False
    show ?thesis
    proof (cases "k \<in> set ks")
      case True
      then show ?thesis by (simp add: bucket_def get_rebuild)
    next
      case False
      with notin have "filter (\<lambda>e. key e = Some k) es' = filter (\<lambda>e. key e = Some k) es"
        unfolding events filter_filter
        by (intro filter_cong) (auto simp: siblings named_by_def)
      with False notin exact show ?thesis
        by (simp add: bucket_def get_rebuild dict_get_pop_all index_exact_def)
    qed
  qed
qed

lemma delete_events_wf:
  assumes "event_log_wf lg"
  shows "event_log_wf (snd (delete_events threads traces lg))"
proof -
  have t: "index_exact ev_thread_id (el_events lg) (el_by_thread lg)"
    and r: "index_exact ev_trace_id (el_events lg) (el_by_trace lg)"
    using assms by (simp_all add: event_log_wf_def)
  show ?thesis
    unfolding event_log_wf_def delete_events_def Let_def snd_conv event_log.simps
    by (intro conjI index_exact_delete [OF t refl sibling_keys_iff [OF r refl]]
        index_exact_delete [OF r _ sibling_keys_iff [OF t refl]])
      (simp add: conj_commute)
qed

section \<open>Refinement of the plain stream\<close>

text \<open>The abstract log: a stream, read by scanning it.\<close>

datatype event_op = Append run_event | Erase "string list" "string list"

fun run_event_op :: "event_op \<Rightarrow> event_log \<Rightarrow> event_log" where
  "run_event_op (Append e) lg = append_event e lg"
| "run_event_op (Erase threads traces) lg = snd (delete_events threads traces lg)"

fun stream_op :: "event_op \<Rightarrow> run_event list \<Rightarrow> run_event list" where
  "stream_op (Append e) es = es @ [e]"
| "stream_op (Erase threads traces) es =
     filter (\<lambda>e. \<not> (named_by (ev_thread_id e) threads \<or> named_by (ev_trace_id e) traces)) es"

definition scan :: "event_query \<Rightarrow> run_event list \<Rightarrow> run_event list" where
  "scan q es = order_and_limit q (filter (event_matches q) es)"

lemma run_event_op_events: "el_events (run_event_op op lg) = stream_op op (el_events lg)"
  by (cases op) (simp_all add: append_event_def delete_events_def Let_def)

lemma run_event_op_wf: "event_log_wf lg \<Longrightarrow> event_log_wf (run_event_op op lg)"
  by (cases op) (simp_all add: append_event_wf delete_events_wf)

lemma history_wf: "event_log_wf lg \<Longrightarrow> event_log_wf (fold run_event_op ops lg)"
  by (induction ops arbitrary: lg) (simp_all add: run_event_op_wf)

lemma history_events: "el_events (fold run_event_op ops lg) = fold stream_op ops (el_events lg)"
  by (induction ops arbitrary: lg) (simp_all add: run_event_op_events)

lemma list_events_scan:
  assumes "event_log_wf lg"
  shows "list_events q lg = scan q (el_events lg)"
proof -
  have "filter (event_matches q) (filter (\<lambda>e. ev_thread_id e = Some t) es) = filter (event_matches q) es"
    if "q_thread_id q = Some t" for t es
    using that by (auto simp: event_matches_def intro!: filter_cong)
  moreover have "filter (event_matches q) (filter (\<lambda>e. ev_trace_id e = Some t) es) = filter (event_matches q) es"
    if "q_trace_id q = Some t" for t es
    using that by (auto simp: event_matches_def intro!: filter_cong)
  ultimately show ?thesis
    using assms
    by (simp add: list_events_def scan_def event_log_wf_def index_exact_def Let_def split: option.splits)
qed

text \<open>
  C34: The indexed event log refines the plain stream: after any history of appends and
  erasures, every read (by thread, trace, event type, tool, workspace, order and limit)
  returns what a scan of the abstract stream returns, so the index a read picks and the
  partial rebuild of the indexes by an erasure are never visible.
\<close>

theorem event_log_refines_stream:
  "list_events q (fold run_event_op ops empty_event_log) = scan q (fold stream_op ops [])"
proof -
  let ?lg = "fold run_event_op ops empty_event_log"
  have "event_log_wf ?lg" by (simp add: history_wf empty_event_log_wf)
  moreover have "el_events ?lg = fold stream_op ops []"
    by (simp add: history_events empty_event_log_def)
  ultimately show ?thesis by (simp add: list_events_scan)
qed

text \<open>
  An erasure leaves no trace: \<open>delete_events\<close> reports how many events it dropped, and
  afterwards a read of an erased thread or trace is empty while a read that only asks for a
  kept thread whose events carry no erased trace returns what it returned before.
\<close>

theorem erased_events_unreadable:
  assumes log: "lg = fold run_event_op ops empty_event_log"
    and del: "delete_events threads traces lg = (n, lg')"
  shows "n = int (length (filter (\<lambda>e. named_by (ev_thread_id e) threads
                                     \<or> named_by (ev_trace_id e) traces) (el_events lg)))
    \<and> (named_by (q_thread_id q) threads \<or> named_by (q_trace_id q) traces \<longrightarrow> list_events q lg' = [])
    \<and> ((\<forall>e \<in> set (el_events lg). event_matches q e \<longrightarrow>
          \<not> named_by (ev_thread_id e) threads \<and> \<not> named_by (ev_trace_id e) traces) \<longrightarrow>
       list_events q lg' = list_events q lg)"
proof -
  let ?gone = "\<lambda>e. named_by (ev_thread_id e) threads \<or> named_by (ev_trace_id e) traces"
  have wf: "event_log_wf lg" by (simp add: log history_wf empty_event_log_wf)
  have lg': "lg' = run_event_op (Erase threads traces) lg" using del by simp
  then have read: "list_events q lg' = scan q (filter (\<lambda>e. \<not> ?gone e) (el_events lg))"
    using wf by (simp add: list_events_scan run_event_op_events del: run_event_op.simps
        add: run_event_op_wf)
  have n: "n = int (length (filter ?gone (el_events lg)))"
    using del sum_length_filter_compl [of ?gone "el_events lg"]
    by (auto simp: delete_events_def Let_def)
  have "list_events q lg' = []" if "named_by (q_thread_id q) threads \<or> named_by (q_trace_id q) traces"
  proof -
    have "filter (event_matches q) (filter (\<lambda>e. \<not> ?gone e) (el_events lg)) = []"
      using that by (auto simp: filter_empty_conv event_matches_def named_by_def split: option.splits)
    then show ?thesis by (simp add: read scan_def order_and_limit_def py_take_def split: option.splits)
  qed
  moreover have "list_events q lg' = list_events q lg"
    if "\<forall>e \<in> set (el_events lg). event_matches q e \<longrightarrow> \<not> ?gone e"
  proof -
    have "filter (event_matches q) (filter (\<lambda>e. \<not> ?gone e) (el_events lg)) = filter (event_matches q) (el_events lg)"
      using that by (auto intro: filter_cong)
    with wf show ?thesis by (simp add: read list_events_scan scan_def)
  qed
  ultimately show ?thesis using n by blast
qed

definition demo_event :: "string \<Rightarrow> event_type \<Rightarrow> string \<Rightarrow> string \<Rightarrow> run_event" where
  "demo_event eid t thread trace =
     \<lparr>event_id = eid, ev_type = t, ev_trace_id = Some trace, ev_thread_id = Some thread,
      ev_agent_id = None, ev_workspace_id = Some ''acme'', ev_request_id = None,
      ev_tool_call_id = None, ev_payload = [(''tool_name'', JStr ''search'')], ev_error = None,
      ev_timestamp = 0\<rparr>"

definition demo_events :: "event_op list" where
  "demo_events =
     [Append (demo_event ''e1'' AGENT_RUN_STARTED ''t1'' ''x''),
      Append (demo_event ''e2'' TOOL_CALLED ''t2'' ''x''),
      Append (demo_event ''e3'' TOOL_FAILED ''t2'' ''y'')]"

definition demo_query :: "string \<Rightarrow> event_query" where
  "demo_query t = \<lparr>q_thread_id = Some t, q_trace_id = None, q_event_type = None,
     q_tool_name = Some ''search'', q_workspace_id = None, q_limit = Some 5, q_newest_first = True\<rparr>"

theorem erased_events_unreadable_witness:
  "\<exists>lg'. delete_events [''t1''] [] (fold run_event_op demo_events empty_event_log) = (1, lg')
     \<and> list_events (demo_query ''t1'') lg' = []
     \<and> length (list_events (demo_query ''t2'') lg') = 2"
proof -
  let ?lg = "fold run_event_op demo_events empty_event_log"
  obtain lg' where del: "delete_events [''t1''] [] ?lg = (1, lg')"
    by (simp add: delete_events_def Let_def demo_events_def demo_event_def append_event_def
        empty_event_log_def named_by_def)
  have events: "el_events ?lg = [demo_event ''e1'' AGENT_RUN_STARTED ''t1'' ''x'',
      demo_event ''e2'' TOOL_CALLED ''t2'' ''x'', demo_event ''e3'' TOOL_FAILED ''t2'' ''y'']"
    by (simp add: demo_events_def append_event_def empty_event_log_def)
  have "list_events (demo_query ''t1'') lg' = []"
    using erased_events_unreadable [OF refl del, of "demo_query ''t1''"]
    by (simp add: demo_query_def named_by_def)
  moreover have "list_events (demo_query ''t2'') lg' = list_events (demo_query ''t2'') ?lg"
    using erased_events_unreadable [OF refl del, of "demo_query ''t2''"] events
    by (simp add: demo_query_def named_by_def event_matches_def demo_event_def)
  moreover have "length (list_events (demo_query ''t2'') ?lg) = 2"
    by (simp add: demo_events_def append_event_def empty_event_log_def bucket_append_def bucket_def
        list_events_def demo_query_def demo_event_def event_matches_def order_and_limit_def py_take_def
        normalize_event_type_def)
  ultimately show ?thesis using del by auto
qed

end
