(* ===== verification/TriggerDedup.thy ===== *)
theory TriggerDedup
  imports Json
begin

text \<open>
  Inbound-trigger de-duplication: the storage protocol \<open>TriggerDedupStore\<close> and its client
  \<open>DurableIdempotencyStore\<close> (himmy/services/storage/trigger_dedup.py), and the in-memory
  implementation \<open>InMemoryTriggerDedupStore\<close> (himmy/services/storage/inmemory.py).

  The protocol is a record of operations, the way the client holds it; its promise is the
  locale \<open>trigger_dedup\<close>, a simulation of an abstract ledger of rows. The client's
  guarantees are proved from the locale and hold for every backend that keeps it; the
  in-memory store is one. The clock is an argument of every operation.
\<close>

section \<open>The protocol\<close>

datatype claim_outcome = WON | DONE | IN_FLIGHT

record dedup_claim =
  outcome :: claim_outcome
  claim_result :: "string option"

record dedup_row =
  row_result :: "string option"
  row_expires_at :: "instant option"

type_synonym dedup_key = "string \<times> string"

record 's trigger_dedup_store =
  dedup_try_claim :: "dedup_key \<Rightarrow> duration \<Rightarrow> instant \<Rightarrow> 's \<Rightarrow> dedup_claim \<times> 's"
  dedup_complete :: "dedup_key \<Rightarrow> string \<Rightarrow> duration \<Rightarrow> instant \<Rightarrow> 's \<Rightarrow> 's"
  dedup_release :: "dedup_key \<Rightarrow> 's \<Rightarrow> 's"
  dedup_sweep :: "instant \<Rightarrow> 's \<Rightarrow> nat \<times> 's"

section \<open>The in-memory ledger\<close>

type_synonym dedup_rows = "(dedup_key, dedup_row) dict"

definition row_live :: "instant \<Rightarrow> dedup_row \<Rightarrow> bool" where
  "row_live now row = (case row_expires_at row of None \<Rightarrow> True | Some e \<Rightarrow> e > now)"

definition mem_try_claim ::
  "dedup_key \<Rightarrow> duration \<Rightarrow> instant \<Rightarrow> dedup_rows \<Rightarrow> dedup_claim \<times> dedup_rows" where
  "mem_try_claim k lease now rows =
     (let won = (\<lparr>outcome = WON, claim_result = None\<rparr>,
                 AList.update k \<lparr>row_result = None, row_expires_at = Some (now + lease)\<rparr> rows)
      in case map_of rows k of
           None \<Rightarrow> won
         | Some row \<Rightarrow>
             if row_live now row then
               (if row_result row \<noteq> None
                then (\<lparr>outcome = DONE, claim_result = row_result row\<rparr>, rows)
                else (\<lparr>outcome = IN_FLIGHT, claim_result = None\<rparr>, rows))
             else won)"

definition mem_complete ::
  "dedup_key \<Rightarrow> string \<Rightarrow> duration \<Rightarrow> instant \<Rightarrow> dedup_rows \<Rightarrow> dedup_rows" where
  "mem_complete k result ttl now rows =
     AList.update k \<lparr>row_result = Some result, row_expires_at = Some (now + ttl)\<rparr> rows"

definition mem_release :: "dedup_key \<Rightarrow> dedup_rows \<Rightarrow> dedup_rows" where
  "mem_release k rows =
     (case map_of rows k of
        None \<Rightarrow> rows
      | Some row \<Rightarrow> if row_result row = None then AList.delete k rows else rows)"

definition row_doomed :: "instant \<Rightarrow> dedup_row \<Rightarrow> bool" where
  "row_doomed now row = (case row_expires_at row of None \<Rightarrow> False | Some e \<Rightarrow> e \<le> now)"

definition mem_sweep :: "instant \<Rightarrow> dedup_rows \<Rightarrow> nat \<times> dedup_rows" where
  "mem_sweep now rows =
     (let doomed = map fst (filter (\<lambda>(k, row). row_doomed now row) rows)
      in (length doomed, dict_pop_all doomed rows))"

definition InMemoryTriggerDedupStore :: "dedup_rows trigger_dedup_store" where
  "InMemoryTriggerDedupStore =
     \<lparr>dedup_try_claim = mem_try_claim, dedup_complete = mem_complete,
      dedup_release = mem_release, dedup_sweep = mem_sweep\<rparr>"

section \<open>The client\<close>

definition DEFAULT_INFLIGHT_LEASE :: duration where
  "DEFAULT_INFLIGHT_LEASE = 300 * 1000000"

definition DEFAULT_COMPLETED_TTL :: duration where
  "DEFAULT_COMPLETED_TTL = 86400 * 1000000"

record 's durable_idempotency_store =
  backend :: "'s trigger_dedup_store"
  dedup_scope :: string
  inflight_lease :: duration
  completed_ttl :: duration

datatype run_once_error = ConnectorError | CallRaised string

text \<open>
  \<open>run_once_async\<close>: the handler \<open>call\<close> is started at \<open>t0\<close> and returns at \<open>t1\<close>; while it
  runs the store may change (other workers), so it takes and returns the store.
\<close>

definition stored_result :: "json \<Rightarrow> string" where
  "stored_result result = (case result of JStr s \<Rightarrow> s | _ \<Rightarrow> [])"

definition run_once_async ::
  "'s durable_idempotency_store \<Rightarrow> string \<Rightarrow> ('s \<Rightarrow> (string + json) \<times> 's) \<Rightarrow> instant \<Rightarrow> instant \<Rightarrow> 's
     \<Rightarrow> (run_once_error + json) \<times> 's" where
  "run_once_async d key call t0 t1 s =
     (case dedup_try_claim (backend d) (dedup_scope d, key) (inflight_lease d) t0 s of
        (claim, s) \<Rightarrow>
          if outcome claim = DONE then
            (Inr (case claim_result claim of None \<Rightarrow> JNull | Some r \<Rightarrow> JStr r), s)
          else if outcome claim = IN_FLIGHT then (Inl ConnectorError, s)
          else (case call s of
              (Inl e, s) \<Rightarrow> (Inl (CallRaised e), dedup_release (backend d) (dedup_scope d, key) s)
            | (Inr result, s) \<Rightarrow>
                (Inr result,
                 dedup_complete (backend d) (dedup_scope d, key) (stored_result result)
                   (completed_ttl d) t1 s)))"

definition seen_async ::
  "'s durable_idempotency_store \<Rightarrow> string \<Rightarrow> instant \<Rightarrow> 's \<Rightarrow> bool \<times> 's" where
  "seen_async d key now s =
     (case dedup_try_claim (backend d) (dedup_scope d, key) 0 now s of
        (claim, s) \<Rightarrow>
          if outcome claim = WON then (False, dedup_release (backend d) (dedup_scope d, key) s)
          else (outcome claim = DONE, s))"

section \<open>What a backend promises\<close>

text \<open>
  The abstract ledger is a finite or infinite map of rows; a dead row counts as absent for a
  claim. \<open>view\<close> reads the ledger out of a store.
\<close>

type_synonym ledger = "dedup_key \<Rightarrow> dedup_row option"

definition ledger_claim :: "dedup_key \<Rightarrow> duration \<Rightarrow> instant \<Rightarrow> ledger \<Rightarrow> dedup_claim \<times> ledger" where
  "ledger_claim k lease now L =
     (case Option.bind (L k) (\<lambda>row. if row_live now row then Some row else None) of
        None \<Rightarrow> (\<lparr>outcome = WON, claim_result = None\<rparr>,
                 L(k \<mapsto> \<lparr>row_result = None, row_expires_at = Some (now + lease)\<rparr>))
      | Some row \<Rightarrow> (case row_result row of
            None \<Rightarrow> (\<lparr>outcome = IN_FLIGHT, claim_result = None\<rparr>, L)
          | Some r \<Rightarrow> (\<lparr>outcome = DONE, claim_result = Some r\<rparr>, L)))"

definition ledger_release :: "dedup_key \<Rightarrow> ledger \<Rightarrow> ledger" where
  "ledger_release k L =
     (if map_option row_result (L k) = Some None then L(k := None) else L)"

definition ledger_sweep :: "instant \<Rightarrow> ledger \<Rightarrow> ledger" where
  "ledger_sweep now L = (\<lambda>k. Option.bind (L k) (\<lambda>row. if row_live now row then Some row else None))"

locale trigger_dedup =
  fixes ops :: "'s trigger_dedup_store"
    and invar :: "'s \<Rightarrow> bool"
    and view :: "'s \<Rightarrow> ledger"
  assumes claim_view: "invar s \<Longrightarrow> dedup_try_claim ops k lease now s = (c, s') \<Longrightarrow>
        invar s' \<and> ledger_claim k lease now (view s) = (c, view s')"
    and complete_view: "invar s \<Longrightarrow> invar (dedup_complete ops k r ttl now s)
        \<and> view (dedup_complete ops k r ttl now s)
          = (view s)(k \<mapsto> \<lparr>row_result = Some r, row_expires_at = Some (now + ttl)\<rparr>)"
    and release_view: "invar s \<Longrightarrow> invar (dedup_release ops k s)
        \<and> view (dedup_release ops k s) = ledger_release k (view s)"
    and sweep_view: "invar s \<Longrightarrow> invar (snd (dedup_sweep ops now s))
        \<and> view (snd (dedup_sweep ops now s)) = ledger_sweep now (view s)"

interpretation mem_ledger: trigger_dedup InMemoryTriggerDedupStore dict_wf map_of
proof unfold_locales
  fix s :: dedup_rows and k lease now c s'
  assume "dict_wf s" and "dedup_try_claim InMemoryTriggerDedupStore k lease now s = (c, s')"
  then show "dict_wf s' \<and> ledger_claim k lease now (map_of s) = (c, map_of s')"
    by (auto simp: InMemoryTriggerDedupStore_def mem_try_claim_def ledger_claim_def Let_def update_conv'
        split: option.splits if_splits)
next
  fix s :: dedup_rows and k r ttl now
  assume "dict_wf s"
  then show "dict_wf (dedup_complete InMemoryTriggerDedupStore k r ttl now s)
        \<and> map_of (dedup_complete InMemoryTriggerDedupStore k r ttl now s)
          = (map_of s)(k \<mapsto> \<lparr>row_result = Some r, row_expires_at = Some (now + ttl)\<rparr>)"
    by (simp add: InMemoryTriggerDedupStore_def mem_complete_def update_conv')
next
  fix s :: dedup_rows and k
  assume "dict_wf s"
  then show "dict_wf (dedup_release InMemoryTriggerDedupStore k s)
        \<and> map_of (dedup_release InMemoryTriggerDedupStore k s) = ledger_release k (map_of s)"
    by (cases "map_of s k")
      (simp_all add: InMemoryTriggerDedupStore_def mem_release_def ledger_release_def delete_conv')
next
  fix s :: dedup_rows and now
  assume "dict_wf s"
  then have "dict_pop_all (map fst (filter (\<lambda>(k, row). row_doomed now row) s)) s
      = filter (\<lambda>(k, row). \<not> row_doomed now row) s"
    by (simp add: pop_all_filtered case_prod_unfold)
  moreover have "\<not> row_doomed now row \<longleftrightarrow> row_live now row" for row
    by (auto simp: row_doomed_def row_live_def split: option.splits)
  ultimately show "dict_wf (snd (dedup_sweep InMemoryTriggerDedupStore now s))
        \<and> map_of (snd (dedup_sweep InMemoryTriggerDedupStore now s)) = ledger_sweep now (map_of s)"
    using \<open>dict_wf s\<close>
    by (auto simp: InMemoryTriggerDedupStore_def mem_sweep_def ledger_sweep_def Let_def dict_wf_filter
        dict_get_filter fun_eq_iff split: option.splits)
qed

section \<open>Deliveries as a state machine\<close>

text \<open>
  Workers deliver keys over one store. \<open>running w\<close> is the key whose handler worker \<open>w\<close>
  executes and the end of its lease; \<open>completed k\<close> is the last recorded completion of \<open>k\<close>:
  its result and the end of its dedup window. A handler that ends does so within its lease
  (the lease is sized for that); a worker may also crash, leaving its row behind.
\<close>

record 's delivery_system =
  clock :: instant
  dedup_store :: 's
  running :: "string \<Rightarrow> (string \<times> instant) option"
  completed :: "string \<Rightarrow> (string \<times> instant) option"

inductive delivery_step ::
  "'s durable_idempotency_store \<Rightarrow> 's delivery_system \<Rightarrow> 's delivery_system \<Rightarrow> bool"
  for d :: "'s durable_idempotency_store" where
  start:
    "running st w = None \<Longrightarrow>
     dedup_try_claim (backend d) (dedup_scope d, k) (inflight_lease d) (clock st) (dedup_store st) = (c, s') \<Longrightarrow>
     outcome c = WON \<Longrightarrow>
     delivery_step d st (st\<lparr>dedup_store := s',
       running := (running st)(w \<mapsto> (k, clock st + inflight_lease d))\<rparr>)"
| refused:
    "dedup_try_claim (backend d) (dedup_scope d, k) (inflight_lease d) (clock st) (dedup_store st) = (c, s') \<Longrightarrow>
     outcome c \<noteq> WON \<Longrightarrow>
     delivery_step d st (st\<lparr>dedup_store := s'\<rparr>)"
| finish:
    "running st w = Some (k, t) \<Longrightarrow> clock st < t \<Longrightarrow>
     delivery_step d st (st\<lparr>
       dedup_store := dedup_complete (backend d) (dedup_scope d, k) r (completed_ttl d) (clock st) (dedup_store st),
       running := (running st)(w := None),
       completed := (completed st)(k \<mapsto> (r, clock st + completed_ttl d))\<rparr>)"
| fail:
    "running st w = Some (k, t) \<Longrightarrow> clock st < t \<Longrightarrow>
     delivery_step d st (st\<lparr>
       dedup_store := dedup_release (backend d) (dedup_scope d, k) (dedup_store st),
       running := (running st)(w := None)\<rparr>)"
| crash:
    "delivery_step d st (st\<lparr>running := (running st)(w := None)\<rparr>)"
| check:
    "delivery_step d st (st\<lparr>dedup_store := snd (seen_async d k (clock st) (dedup_store st))\<rparr>)"
| gc:
    "delivery_step d st (st\<lparr>dedup_store := snd (dedup_sweep (backend d) (clock st) (dedup_store st))\<rparr>)"
| tick:
    "0 \<le> dt \<Longrightarrow> delivery_step d st (st\<lparr>clock := clock st + dt\<rparr>)"

inductive delivery_reachable ::
  "'s durable_idempotency_store \<Rightarrow> 's \<Rightarrow> 's delivery_system \<Rightarrow> bool"
  for d :: "'s durable_idempotency_store" and s0 :: 's where
  init: "delivery_reachable d s0
    \<lparr>clock = t, dedup_store = s0, running = Map.empty, completed = Map.empty\<rparr>"
| step: "delivery_reachable d s0 st \<Longrightarrow> delivery_step d st st' \<Longrightarrow> delivery_reachable d s0 st'"

text \<open>The ledger agrees with the live leases and the live completions.\<close>

definition delivery_agrees :: "string \<Rightarrow> ledger \<Rightarrow> 's delivery_system \<Rightarrow> bool" where
  "delivery_agrees sc L st \<longleftrightarrow>
     (\<forall>w k t. running st w = Some (k, t) \<longrightarrow> clock st < t \<longrightarrow>
        L (sc, k) = Some \<lparr>row_result = None, row_expires_at = Some t\<rparr>)
   \<and> (\<forall>w w' k t t'. running st w = Some (k, t) \<longrightarrow> running st w' = Some (k, t') \<longrightarrow>
        clock st < t \<longrightarrow> clock st < t' \<longrightarrow> w = w')
   \<and> (\<forall>k r e. completed st k = Some (r, e) \<longrightarrow> clock st < e \<longrightarrow>
        L (sc, k) = Some \<lparr>row_result = Some r, row_expires_at = Some e\<rparr>)"

lemma delivery_agreesI:
  assumes "\<And>w k t. running st w = Some (k, t) \<Longrightarrow> clock st < t \<Longrightarrow>
        L (sc, k) = Some \<lparr>row_result = None, row_expires_at = Some t\<rparr>"
    and "\<And>w w' k t t'. running st w = Some (k, t) \<Longrightarrow> running st w' = Some (k, t') \<Longrightarrow>
        clock st < t \<Longrightarrow> clock st < t' \<Longrightarrow> w = w'"
    and "\<And>k r e. completed st k = Some (r, e) \<Longrightarrow> clock st < e \<Longrightarrow>
        L (sc, k) = Some \<lparr>row_result = Some r, row_expires_at = Some e\<rparr>"
  shows "delivery_agrees sc L st"
  unfolding delivery_agrees_def using assms by blast

lemma delivery_agreesD:
  assumes "delivery_agrees sc L st"
  shows "running st w = Some (k, t) \<Longrightarrow> clock st < t \<Longrightarrow>
        L (sc, k) = Some \<lparr>row_result = None, row_expires_at = Some t\<rparr>"
    and "running st w = Some (k, t) \<Longrightarrow> running st w' = Some (k, t') \<Longrightarrow>
        clock st < t \<Longrightarrow> clock st < t' \<Longrightarrow> w = w'"
    and "completed st k = Some (r, e) \<Longrightarrow> clock st < e \<Longrightarrow>
        L (sc, k) = Some \<lparr>row_result = Some r, row_expires_at = Some e\<rparr>"
  using assms unfolding delivery_agrees_def by blast+

lemma ledger_claim_won:
  assumes "ledger_claim k lease now L = (c, L')" and "outcome c = WON"
  shows "\<And>row. L k = Some row \<Longrightarrow> \<not> row_live now row"
    and "L' = L(k \<mapsto> \<lparr>row_result = None, row_expires_at = Some (now + lease)\<rparr>)"
  using assms by (auto simp: ledger_claim_def split: option.splits Option.bind_splits if_splits)

lemma ledger_claim_refused:
  assumes "ledger_claim k lease now L = (c, L')" and "outcome c \<noteq> WON"
  shows "L' = L"
  using assms by (auto simp: ledger_claim_def split: option.splits)

text \<open>A change of a ledger row that is not live disturbs nothing.\<close>

lemma agrees_dead_row:
  assumes "delivery_agrees sc L st" and "\<And>row. L (sc, k) = Some row \<Longrightarrow> \<not> row_live (clock st) row"
  shows "\<And>w t. running st w = Some (k, t) \<Longrightarrow> \<not> clock st < t"
    and "\<And>r e. completed st k = Some (r, e) \<Longrightarrow> \<not> clock st < e"
  using assms delivery_agreesD [OF assms(1)] by (fastforce simp: row_live_def)+

lemma agrees_update_dead:
  assumes "delivery_agrees sc L st" and "\<And>row. L (sc, k) = Some row \<Longrightarrow> \<not> row_live (clock st) row"
    and "\<And>k'. k' \<noteq> k \<Longrightarrow> L' (sc, k') = L (sc, k')"
  shows "delivery_agrees sc L' st"
  using delivery_agreesD [OF assms(1)] agrees_dead_row [OF assms(1,2)] assms(3)
  by (intro delivery_agreesI) metis+

text \<open>The effect of a won claim and of a handler's end on the agreement.\<close>

lemma agrees_start:
  assumes ag: "delivery_agrees sc L st"
    and dead: "\<And>row. L (sc, k) = Some row \<Longrightarrow> \<not> row_live (clock st) row"
  shows "delivery_agrees sc (L((sc, k) \<mapsto> \<lparr>row_result = None, row_expires_at = Some t\<rparr>))
    (st\<lparr>dedup_store := s', running := (running st)(w \<mapsto> (k, t))\<rparr>)"
proof (rule delivery_agreesI)
  have idle: "\<And>w t. running st w = Some (k, t) \<Longrightarrow> \<not> clock st < t"
    "\<And>r e. completed st k = Some (r, e) \<Longrightarrow> \<not> clock st < e"
    using agrees_dead_row [OF ag] dead by blast+
  show "(L((sc, k) \<mapsto> \<lparr>row_result = None, row_expires_at = Some t\<rparr>)) (sc, k')
      = Some \<lparr>row_result = None, row_expires_at = Some t'\<rparr>"
    if "running (st\<lparr>dedup_store := s', running := (running st)(w \<mapsto> (k, t))\<rparr>) w' = Some (k', t')"
      and "clock (st\<lparr>dedup_store := s', running := (running st)(w \<mapsto> (k, t))\<rparr>) < t'" for w' k' t'
    using that idle(1) [of w'] delivery_agreesD(1) [OF ag, of w' k' t'] by (auto split: if_splits)
  show "w' = w''"
    if "running (st\<lparr>dedup_store := s', running := (running st)(w \<mapsto> (k, t))\<rparr>) w' = Some (k', t')"
      and "running (st\<lparr>dedup_store := s', running := (running st)(w \<mapsto> (k, t))\<rparr>) w'' = Some (k', t'')"
      and "clock (st\<lparr>dedup_store := s', running := (running st)(w \<mapsto> (k, t))\<rparr>) < t'"
      and "clock (st\<lparr>dedup_store := s', running := (running st)(w \<mapsto> (k, t))\<rparr>) < t''" for w' w'' k' t' t''
    using that idle(1) [of w'] idle(1) [of w''] delivery_agreesD(2) [OF ag, of w' k' t' w'' t'']
    by (auto split: if_splits)
  show "(L((sc, k) \<mapsto> \<lparr>row_result = None, row_expires_at = Some t\<rparr>)) (sc, k')
      = Some \<lparr>row_result = Some r, row_expires_at = Some e\<rparr>"
    if "completed (st\<lparr>dedup_store := s', running := (running st)(w \<mapsto> (k, t))\<rparr>) k' = Some (r, e)"
      and "clock (st\<lparr>dedup_store := s', running := (running st)(w \<mapsto> (k, t))\<rparr>) < e" for k' r e
    using that idle(2) delivery_agreesD(3) [OF ag, of k' r e] by (auto split: if_splits)
qed

lemma agrees_end:
  assumes ag: "delivery_agrees sc L st" and run: "running st w = Some (k, t)" "clock st < t"
    and other: "\<And>k'. k' \<noteq> k \<Longrightarrow> L' (sc, k') = L (sc, k')"
    and compl: "\<And>k'. k' \<noteq> k \<Longrightarrow> c' k' = completed st k'"
      "\<And>r e. c' k = Some (r, e) \<Longrightarrow> clock st < e \<Longrightarrow>
        L' (sc, k) = Some \<lparr>row_result = Some r, row_expires_at = Some e\<rparr>"
  shows "delivery_agrees sc L' (st\<lparr>dedup_store := s', running := (running st)(w := None), completed := c'\<rparr>)"
    (is "delivery_agrees sc L' ?st")
proof (rule delivery_agreesI)
  show "L' (sc, k') = Some \<lparr>row_result = None, row_expires_at = Some t'\<rparr>"
    if "running ?st w' = Some (k', t')" and "clock ?st < t'" for w' k' t'
  proof -
    from that have w': "w' \<noteq> w" "running st w' = Some (k', t')" "clock st < t'" by (auto split: if_splits)
    with run delivery_agreesD(2) [OF ag, of w' k' t' w] have "k' \<noteq> k" by auto
    with w' other delivery_agreesD(1) [OF ag] show ?thesis by simp
  qed
  show "w' = w''"
    if "running ?st w' = Some (k', t')" and "running ?st w'' = Some (k', t'')"
      and "clock ?st < t'" and "clock ?st < t''" for w' w'' k' t' t''
    using that delivery_agreesD(2) [OF ag, of w' k' t' w'' t''] by (auto split: if_splits)
  show "L' (sc, k') = Some \<lparr>row_result = Some r, row_expires_at = Some e\<rparr>"
    if "completed ?st k' = Some (r, e)" and "clock ?st < e" for k' r e
    using that compl other delivery_agreesD(3) [OF ag, of k' r e] by (cases "k' = k") simp_all
qed

lemma running_not_completed:
  assumes "delivery_agrees sc L st" and "running st w = Some (k, t)" "clock st < t"
    and "completed st k = Some (r, e)"
  shows "\<not> clock st < e"
  using delivery_agreesD(1) [OF assms(1-3)] delivery_agreesD(3) [OF assms(1,4)] by auto

context trigger_dedup begin

lemma seen_view:
  assumes "invar s" and "backend d = ops" and "seen_async d k now s = (b, s')"
  shows "invar s'"
    and "view s' = view s \<or> (\<exists>v. view s' = (view s)((dedup_scope d, k) := v)
        \<and> (\<forall>row. view s (dedup_scope d, k) = Some row \<longrightarrow> \<not> row_live now row))"
proof -
  obtain c s1 where c: "dedup_try_claim ops (dedup_scope d, k) 0 now s = (c, s1)"
    by (cases "dedup_try_claim ops (dedup_scope d, k) 0 now s")
  note v = claim_view [OF assms(1) c]
  have "invar s' \<and> (view s' = view s \<or> (\<exists>v. view s' = (view s)((dedup_scope d, k) := v)
        \<and> (\<forall>row. view s (dedup_scope d, k) = Some row \<longrightarrow> \<not> row_live now row)))"
  proof (cases "outcome c = WON")
    case True
    with v have l: "ledger_claim (dedup_scope d, k) 0 now (view s) = (c, view s1)" by simp
    have "s' = dedup_release ops (dedup_scope d, k) s1"
      using assms(2,3) c True by (simp add: seen_async_def)
    with v release_view [of s1] have "invar s'" "view s' = ledger_release (dedup_scope d, k) (view s1)"
      by simp_all
    with ledger_claim_won [OF l True] show ?thesis by (auto simp: ledger_release_def)
  next
    case False
    with assms(2,3) c have "s' = s1" by (simp add: seen_async_def)
    with v False ledger_claim_refused show ?thesis by blast
  qed
  then show "invar s'" and "view s' = view s \<or> (\<exists>v. view s' = (view s)((dedup_scope d, k) := v)
        \<and> (\<forall>row. view s (dedup_scope d, k) = Some row \<longrightarrow> \<not> row_live now row))"
    by blast+
qed

lemma step_agrees:
  assumes "delivery_step d st st'" and ops: "backend d = ops"
    and inv: "invar (dedup_store st)" and ag: "delivery_agrees (dedup_scope d) (view (dedup_store st)) st"
  shows "invar (dedup_store st') \<and> delivery_agrees (dedup_scope d) (view (dedup_store st')) st'"
  using assms(1)
proof cases
  case (start w k c s')
  with claim_view [OF inv] ops have v: "invar s'"
    "ledger_claim (dedup_scope d, k) (inflight_lease d) (clock st) (view (dedup_store st)) = (c, view s')"
    by simp_all
  note won = ledger_claim_won [OF v(2) start(4)]
  with v(1) agrees_start [OF ag won(1)] start(1) show ?thesis by simp
next
  case (refused k c s')
  with claim_view [OF inv] ops ledger_claim_refused have "invar s'" "view s' = view (dedup_store st)"
    by metis+
  with ag refused(1) show ?thesis by (simp add: delivery_agrees_def)
next
  case (finish w k t r)
  with complete_view [OF inv] ops show ?thesis
    by (auto intro!: agrees_end [OF ag finish(2,3)])
next
  case (fail w k t)
  have "view (dedup_release ops (dedup_scope d, k) (dedup_store st))
      = (view (dedup_store st))((dedup_scope d, k) := None)"
    using release_view [OF inv] delivery_agreesD(1) [OF ag fail(2,3)] by (simp add: ledger_release_def)
  moreover have "delivery_agrees (dedup_scope d) ((view (dedup_store st))((dedup_scope d, k) := None))
      (st\<lparr>dedup_store := s', running := (running st)(w := None), completed := completed st\<rparr>)" for s'
    using running_not_completed [OF ag fail(2,3)] by (intro agrees_end [OF ag fail(2,3)]) auto
  ultimately show ?thesis
    using release_view [OF inv] ops fail(1) by simp
next
  case (crash w)
  with inv ag show ?thesis
    unfolding delivery_agrees_def by (auto split: if_splits)
next
  case (check k)
  obtain b s' where seen: "seen_async d k (clock st) (dedup_store st) = (b, s')"
    by (cases "seen_async d k (clock st) (dedup_store st)")
  from seen_view [OF inv ops seen] have "invar s'" "delivery_agrees (dedup_scope d) (view s') st"
    using ag agrees_update_dead [OF ag] by fastforce+
  with check seen show ?thesis by (simp add: delivery_agrees_def)
next
  case gc
  have "invar (snd (dedup_sweep ops (clock st) (dedup_store st)))"
    and "view (snd (dedup_sweep ops (clock st) (dedup_store st)))
      = ledger_sweep (clock st) (view (dedup_store st))"
    using sweep_view [OF inv] by simp_all
  with gc ops delivery_agreesD [OF ag] show ?thesis
    by (auto intro!: delivery_agreesI simp: ledger_sweep_def row_live_def)
next
  case (tick dt)
  with inv delivery_agreesD [OF ag] show ?thesis
    by (auto intro!: delivery_agreesI)
qed

lemma reachable_agrees:
  assumes "delivery_reachable d s0 st" and "backend d = ops" and "invar s0"
  shows "invar (dedup_store st) \<and> delivery_agrees (dedup_scope d) (view (dedup_store st)) st"
  using assms(1)
proof induction
  case (init t)
  with assms(3) show ?case by (auto intro: delivery_agreesI)
next
  case (step st st')
  with step_agrees assms(2) show ?case by blast
qed

lemma duplicate_not_run:
  assumes "delivery_reachable d s0 st" and ops: "backend d = ops" and "invar s0"
    and "completed st k = Some (r, e)" and "clock st < e"
  shows "fst (run_once_async d k call (clock st) t1 (dedup_store st)) = Inr (JStr r)"
    and "view (snd (run_once_async d k call (clock st) t1 (dedup_store st))) = view (dedup_store st)"
    and "fst (seen_async d k (clock st) (dedup_store st))"
proof -
  from reachable_agrees [OF assms(1-3)] have inv: "invar (dedup_store st)"
    and row: "view (dedup_store st) (dedup_scope d, k) = Some \<lparr>row_result = Some r, row_expires_at = Some e\<rparr>"
    using delivery_agreesD(3) assms(4,5) by blast+
  have claim: "\<exists>s'. dedup_try_claim ops (dedup_scope d, k) lease (clock st) (dedup_store st)
      = (\<lparr>outcome = DONE, claim_result = Some r\<rparr>, s') \<and> view s' = view (dedup_store st)" for lease
  proof -
    obtain c s' where c: "dedup_try_claim ops (dedup_scope d, k) lease (clock st) (dedup_store st) = (c, s')"
      by fastforce
    from claim_view [OF inv c] row assms(5) c show ?thesis
      by (simp add: ledger_claim_def row_live_def)
  qed
  from claim [of "inflight_lease d"] ops
  show "fst (run_once_async d k call (clock st) t1 (dedup_store st)) = Inr (JStr r)"
    and "view (snd (run_once_async d k call (clock st) t1 (dedup_store st))) = view (dedup_store st)"
    by (auto simp: run_once_async_def)
  from claim [of 0] ops show "fst (seen_async d k (clock st) (dedup_store st))"
    by (auto simp: seen_async_def)
qed

lemma live_delivery_refuses:
  assumes "delivery_reachable d s0 st" and ops: "backend d = ops" and "invar s0"
    and "running st w = Some (k, t)" and "clock st < t"
  shows "fst (run_once_async d k call (clock st) t1 (dedup_store st)) = Inl ConnectorError"
proof -
  from reachable_agrees [OF assms(1-3)] have inv: "invar (dedup_store st)"
    and row: "view (dedup_store st) (dedup_scope d, k) = Some \<lparr>row_result = None, row_expires_at = Some t\<rparr>"
    using delivery_agreesD(1) assms(4,5) by blast+
  obtain c s' where c: "dedup_try_claim ops (dedup_scope d, k) (inflight_lease d) (clock st) (dedup_store st)
      = (c, s')" by fastforce
  from claim_view [OF inv c] row assms(5) c ops show ?thesis
    by (auto simp: ledger_claim_def row_live_def run_once_async_def)
qed

text \<open>A handler that raises is retried by the next delivery, whatever the time.\<close>

lemma failed_call_retried:
  assumes "invar s" and ops: "backend d = ops"
    and fail: "run_once_async d k call t0 t1 s = (Inl (CallRaised e), s')"
    and call: "\<And>x. invar x \<Longrightarrow> invar (snd (call x))
        \<and> view (snd (call x)) (dedup_scope d, k) = view x (dedup_scope d, k)"
  shows "\<exists>x. fst (run_once_async d k call' t2 t3 s') =
      (case call' x of (Inl e', _) \<Rightarrow> Inl (CallRaised e') | (Inr r, _) \<Rightarrow> Inr r)"
proof -
  obtain c s1 where c: "dedup_try_claim ops (dedup_scope d, k) (inflight_lease d) t0 s = (c, s1)"
    by fastforce
  with fail ops have won: "outcome c = WON"
    by (cases "outcome c") (auto simp: run_once_async_def)
  from claim_view [OF assms(1) c] have v1: "invar s1"
    and l1: "ledger_claim (dedup_scope d, k) (inflight_lease d) t0 (view s) = (c, view s1)" by simp_all
  obtain r s2 where s2: "call s1 = (r, s2)" by fastforce
  with fail ops c won have s': "s' = dedup_release ops (dedup_scope d, k) s2"
    by (auto simp: run_once_async_def split: sum.splits)
  from call [OF v1] s2 have "invar s2" and "view s2 (dedup_scope d, k) = view s1 (dedup_scope d, k)"
    by simp_all
  with ledger_claim_won(2) [OF l1 won] release_view [of s2] s'
  have inv': "invar s'" and gone: "view s' (dedup_scope d, k) = None"
    by (simp_all add: ledger_release_def)
  obtain c' s3 where c': "dedup_try_claim ops (dedup_scope d, k) (inflight_lease d) t2 s' = (c', s3)"
    by fastforce
  with claim_view [OF inv' c'] gone have "outcome c' = WON"
    by (auto simp: ledger_claim_def)
  with c' ops show ?thesis
    by (intro exI [of _ s3]) (auto simp: run_once_async_def split: sum.splits prod.splits)
qed

end

section \<open>Guarantees of the in-memory backend\<close>


definition demo_dedup :: "dedup_rows durable_idempotency_store" where
  "demo_dedup = \<lparr>backend = InMemoryTriggerDedupStore, dedup_scope = ''webhook'',
     inflight_lease = DEFAULT_INFLIGHT_LEASE, completed_ttl = DEFAULT_COMPLETED_TTL\<rparr>"


text \<open>
  A failed delivery is retried: when a handler raises (and did not itself touch the row
  of its key), the claim is gone and the next delivery of the key runs its handler, at
  whatever time it comes.
\<close>

theorem failed_delivery_is_retried:
  assumes "dict_wf s" and "backend d = InMemoryTriggerDedupStore"
    and "run_once_async d k call t0 t1 s = (Inl (CallRaised e), s')"
    and "\<And>x. dict_wf x \<Longrightarrow> dict_wf (snd (call x)) \<and> map_of (snd (call x)) (dedup_scope d, k) = map_of x (dedup_scope d, k)"
  shows "\<exists>x. fst (run_once_async d k call' t2 t3 s') =
      (case call' x of (Inl e', _) \<Rightarrow> Inl (CallRaised e') | (Inr r, _) \<Rightarrow> Inr r)"
  using mem_ledger.failed_call_retried [OF assms] by simp

theorem failed_delivery_is_retried_witness:
  "fst (run_once_async demo_dedup ''k'' (\<lambda>s. (Inr (JInt 1), s)) 2 3
     (snd (run_once_async demo_dedup ''k'' (\<lambda>s. (Inl ''boom'', s)) 0 1 []))) = Inr (JInt 1)"
proof -
  let ?call = "\<lambda>s. (Inl ''boom'', s) :: (string + json) \<times> dedup_rows"
  obtain s' where "run_once_async demo_dedup ''k'' ?call 0 1 [] = (Inl (CallRaised ''boom''), s')"
    by (simp add: run_once_async_def demo_dedup_def InMemoryTriggerDedupStore_def mem_try_claim_def)
  with failed_delivery_is_retried [where d = demo_dedup and call = ?call and s = "[]" and k = "''k''"
      and ?t0.0 = 0 and ?t1.0 = 1 and e = "''boom''" and s' = s' and call' = "\<lambda>s. (Inr (JInt 1), s)"
      and ?t2.0 = 2 and ?t3.0 = 3]
  show ?thesis by (simp add: demo_dedup_def)
qed

text \<open>
  Release and complete do not check who holds the claim. A worker whose lease ran out
  and whose handler then fails deletes the claim of the worker that took over, and a
  \<open>seen\<close> check that is suspended between its two store calls deletes a claim won in
  between; either way a third delivery fires while the second handler is inside its lease.
\<close>

theorem release_is_not_fenced:
  assumes "map_of s (sc, k) = None" and "0 < lease" and "t0 + lease \<le> t" and "t < t + lease"
  shows "(let s1 = snd (mem_try_claim (sc, k) lease t0 s);
              (c2, s2) = mem_try_claim (sc, k) lease t s1;
              s3 = mem_release (sc, k) s2;
              (c3, s4) = mem_try_claim (sc, k) lease t s3
          in outcome c2 = WON \<and> outcome c3 = WON)
       \<and> (let s1 = snd (mem_try_claim (sc, k) 0 t s);
              (c2, s2) = mem_try_claim (sc, k) lease t s1;
              s3 = mem_release (sc, k) s2;
              (c3, s4) = mem_try_claim (sc, k) lease t s3
          in outcome c2 = WON \<and> outcome c3 = WON)"
  using assms
  by (simp add: mem_try_claim_def mem_release_def Let_def row_live_def dict_get_delete)

theorem release_is_not_fenced_witness:
  "outcome (fst (mem_try_claim (''webhook'', ''k'') 300 400 (mem_release (''webhook'', ''k'')
     (snd (mem_try_claim (''webhook'', ''k'') 300 400 (snd (mem_try_claim (''webhook'', ''k'') 300 0 []))))))) = WON"
  using release_is_not_fenced [of "[]" "''webhook''" "''k''" 300 0 400]
  by (simp add: Let_def case_prod_unfold)

end
