(* ===== verification/Records.thy ===== *)
theory Records
  imports PyText
begin

text \<open>
  The entities kernel's values (himmy/entities/records.py): deterministic ids, immutable
  records, links and queries. SHA-1 based \<open>uuid.uuid5\<close> is a parameter \<open>uuid5\<close> of the
  definitions (the name space is fixed, so it is a function of the derivation string); where
  a property needs that two derivation strings do not collide it says so for the strings at
  hand. \<open>uuid.UUID(s)\<close> is modelled as far as the code uses it: whether it accepts \<open>s\<close>.
\<close>

section \<open>Ids\<close>

definition is_uuid :: "string \<Rightarrow> bool" where
  "is_uuid value =
     (let hex = py_remove ''uuid:'' (py_remove ''urn:'' value);
          hex = py_remove ''-'' (py_strip (\<lambda>c. c = CHR ''{'' \<or> c = CHR ''}'') hex)
      in length hex = 32 \<and> py_int16_accepts hex)"

definition escape_prefix :: "string \<Rightarrow> string" where
  "escape_prefix component =
     py_replace_char (CHR '':'') [CHR 0x5C, CHR '':'']
       (py_replace_char (CHR 0x5C) [CHR 0x5C, CHR 0x5C] component)"

definition stable_id_derivation :: "string \<Rightarrow> string \<Rightarrow> string" where
  "stable_id_derivation namespace key = escape_prefix namespace @ CHR '':'' # key"

definition stable_id_for ::
  "(string \<Rightarrow> string) \<Rightarrow> string \<Rightarrow> string \<Rightarrow> string option \<Rightarrow> string" where
  "stable_id_for uuid5 value namespace fallback_key =
     (let key = (if value \<noteq> [] then value else case fallback_key of None \<Rightarrow> [] | Some k \<Rightarrow> k)
      in if is_uuid key then key else uuid5 (stable_id_derivation namespace key))"

definition record_id_derivation :: "string \<Rightarrow> string \<Rightarrow> int \<Rightarrow> string" where
  "record_id_derivation kind stable_id version =
     escape_prefix kind @ CHR '':'' # escape_prefix stable_id @ CHR '':'' # int_str version"

definition record_id_for :: "(string \<Rightarrow> string) \<Rightarrow> string \<Rightarrow> int \<Rightarrow> string \<Rightarrow> string" where
  "record_id_for uuid5 stable_id version kind = uuid5 (record_id_derivation kind stable_id version)"

section \<open>Containment of metadata\<close>

fun metadata_contains :: "json \<Rightarrow> json \<Rightarrow> bool" where
  "metadata_contains h (JObj n) =
     (case h of
        JObj hs \<Rightarrow> list_all (\<lambda>(k, v). case map_of hs k of None \<Rightarrow> False | Some hv \<Rightarrow> metadata_contains hv v) n
      | _ \<Rightarrow> False)"
| "metadata_contains h (JList ns) =
     (case h of
        JList items \<Rightarrow> list_all (\<lambda>sub. list_ex (\<lambda>item. metadata_contains item sub) items) ns
      | _ \<Rightarrow> False)"
| "metadata_contains h needle = json_eq h needle"

section \<open>Records, links, queries\<close>

record entity_record =
  er_record_id :: string
  er_stable_id :: string
  er_version :: int
  er_kind :: string
  er_payload :: json_dict
  er_metadata :: json_dict
  er_created_at :: instant

text \<open>The constructor: an empty \<open>record_id\<close> is filled in (\<open>model_post_init\<close>).\<close>

definition EntityRecord ::
  "(string \<Rightarrow> string) \<Rightarrow> string \<Rightarrow> string \<Rightarrow> int \<Rightarrow> string \<Rightarrow> json_dict \<Rightarrow> json_dict \<Rightarrow> instant \<Rightarrow> entity_record" where
  "EntityRecord uuid5 rid sid ver kind payload meta now =
     \<lparr>er_record_id = (if rid = [] then record_id_for uuid5 sid ver kind else rid),
      er_stable_id = sid, er_version = ver, er_kind = kind,
      er_payload = payload, er_metadata = meta, er_created_at = now\<rparr>"

definition entity_record_create ::
  "(string \<Rightarrow> string) \<Rightarrow> string \<Rightarrow> int \<Rightarrow> string \<Rightarrow> json_dict option \<Rightarrow> json_dict option \<Rightarrow> instant \<Rightarrow> entity_record" where
  "entity_record_create uuid5 sid ver kind payload meta now =
     EntityRecord uuid5 (record_id_for uuid5 sid ver kind) sid ver kind
       (case payload of None \<Rightarrow> [] | Some p \<Rightarrow> p) (case meta of None \<Rightarrow> [] | Some m \<Rightarrow> m) now"

record entity_link =
  link_id :: string
  from_record_id :: string
  to_record_id :: string
  relation :: string
  link_metadata :: json_dict
  link_created_at :: instant

record entity_query =
  eq_kind :: "string option"
  eq_metadata_filters :: json_dict
  eq_stable_id :: "string option"

section \<open>Derivation strings are unambiguous\<close>

lemma escape_prefix_simps [simp]:
  "escape_prefix [] = []"
  "escape_prefix (c # cs) =
     (if c = CHR 0x5C then [CHR 0x5C, CHR 0x5C] else if c = CHR '':'' then [CHR 0x5C, CHR '':''] else [c])
       @ escape_prefix cs"
  by (simp_all add: escape_prefix_def py_replace_char_def)

text \<open>An escaped component ends at the first unescaped colon.\<close>

lemma escape_prefix_unambiguous:
  "escape_prefix a @ CHR '':'' # x = escape_prefix b @ CHR '':'' # y \<Longrightarrow> a = b \<and> x = y"
proof (induction a arbitrary: b)
  case Nil
  then show ?case by (cases b) (auto split: if_splits)
next
  case (Cons c cs)
  then show ?case by (cases b) (auto split: if_splits)
qed

lemma digit_char_inj: "m < 10 \<Longrightarrow> n < 10 \<Longrightarrow> char_of (48 + m :: nat) = char_of (48 + n) \<longleftrightarrow> m = n"
  by (auto dest!: arg_cong [where f = of_char])

lemma nat_str_inj: "nat_str m = nat_str n \<Longrightarrow> m = n"
proof (induction m arbitrary: n rule: nat_str.induct)
  case (1 m)
  have len: "length (nat_str (k div 10) @ [c]) \<ge> 2" for k c
    by (simp add: nat_str.simps [of "k div 10"] Suc_le_eq)
  show ?case
  proof (cases "m < 10")
    case True
    with "1.prems" len [of n] show ?thesis
      by (cases "n < 10") (auto simp: nat_str.simps [of m] nat_str.simps [of n] digit_char_inj)
  next
    case False
    with "1.prems" len [of m] have "\<not> n < 10"
      by (auto simp: nat_str.simps [of m] nat_str.simps [of n])
    with False "1.prems" have "nat_str (m div 10) = nat_str (n div 10)"
      and "char_of (48 + m mod 10) = (char_of (48 + n mod 10) :: char)"
      by (simp_all add: nat_str.simps [of m] nat_str.simps [of n])
    with "1.IH" [OF False] have "m div 10 = n div 10" "m mod 10 = n mod 10"
      using digit_char_inj [of "m mod 10" "n mod 10"] by simp_all
    then show ?thesis by (metis div_mult_mod_eq)
  qed
qed

lemma nat_str_not_minus: "hd (nat_str n) \<noteq> CHR ''-'' \<and> nat_str n \<noteq> []"
proof (induction n rule: nat_str.induct)
  case (1 n)
  have "char_of (48 + n) \<noteq> CHR ''-''" if "n < 10"
    using that by (auto dest!: arg_cong [where f = "of_char :: char \<Rightarrow> nat"])
  with 1 show ?case by (simp add: nat_str.simps [of n])
qed

lemma int_str_inj: "int_str i = int_str j \<Longrightarrow> i = j"
  using nat_str_inj [of "nat i" "nat j"] nat_str_inj [of "nat (- i)" "nat (- j)"]
    nat_str_not_minus [of "nat i"] nat_str_not_minus [of "nat j"]
  by (cases "nat_str (nat i)"; cases "nat_str (nat j)") (auto simp: int_str_def split: if_splits)

lemma record_id_derivation_inj:
  "record_id_derivation k s v = record_id_derivation k' s' v' \<longleftrightarrow> k = k' \<and> s = s' \<and> v = v'"
  by (auto simp: record_id_derivation_def dest!: escape_prefix_unambiguous int_str_inj)

lemma record_id_derivation_nonempty [simp]: "record_id_derivation k s v \<noteq> []"
  by (simp add: record_id_derivation_def)

text \<open>
  Ids do not collide by construction: two record ids agree exactly when kind, stable id
  and version agree, and two derived stable ids exactly when name space and key agree, as
  long as \<open>uuid5\<close> does not collide on the two derivation strings; so a crafted key or name
  space containing separators cannot alias another one.
\<close>

theorem ids_do_not_alias:
  assumes "inj_on uuid5 {record_id_derivation k s v, record_id_derivation k' s' v'}"
    and "inj_on uuid5 {stable_id_derivation ns a, stable_id_derivation ns' b}"
    and "a \<noteq> []" and "b \<noteq> []" and "\<not> is_uuid a" and "\<not> is_uuid b"
  shows "(record_id_for uuid5 s v k = record_id_for uuid5 s' v' k' \<longleftrightarrow> k = k' \<and> s = s' \<and> v = v')
    \<and> (stable_id_for uuid5 a ns fa = stable_id_for uuid5 b ns' fb \<longleftrightarrow> ns = ns' \<and> a = b)"
proof
  show "record_id_for uuid5 s v k = record_id_for uuid5 s' v' k' \<longleftrightarrow> k = k' \<and> s = s' \<and> v = v'"
    using assms(1) by (auto simp: record_id_for_def record_id_derivation_inj dest: inj_onD)
  have "stable_id_derivation ns a = stable_id_derivation ns' b \<longleftrightarrow> ns = ns' \<and> a = b"
    by (auto simp: stable_id_derivation_def dest!: escape_prefix_unambiguous)
  with assms(2-) show "stable_id_for uuid5 a ns fa = stable_id_for uuid5 b ns' fb \<longleftrightarrow> ns = ns' \<and> a = b"
    by (auto simp: stable_id_for_def Let_def dest: inj_onD)
qed

text \<open>The clash the escaping prevents, with the identity as a collision-free \<open>uuid5\<close>.\<close>

theorem ids_do_not_alias_witness:
  "stable_id_for id ''b'' ''x:a'' None \<noteq> stable_id_for id ''a:b'' ''x'' None
   \<and> record_id_for id ''s'' 1 ''k:'' \<noteq> record_id_for id '':s'' 1 ''k''"
proof -
  have "\<not> is_uuid ''b''" "\<not> is_uuid ''a:b''"
    by (simp_all add: is_uuid_def Let_def py_strip_def)
  then show ?thesis
    using ids_do_not_alias [of id "''k:''" "''s''" 1 "''k''" "'':s''" 1 "''x:a''" "''b''" "''x''" "''a:b''" None None]
    by simp
qed

text \<open>
  Stable ids are stable: an id that is already a UUID is kept, so deriving twice gives
  the same id whatever the name space, as long as \<open>uuid5\<close> returns a UUID.
\<close>

theorem stable_id_idempotent:
  assumes "\<And>x. is_uuid (uuid5 x)"
  shows "stable_id_for uuid5 (stable_id_for uuid5 value ns fallback) ns' fb = stable_id_for uuid5 value ns fallback
    \<and> (is_uuid value \<longrightarrow> stable_id_for uuid5 value ns fallback = value)"
proof -
  have empty: "\<not> is_uuid []" by (simp add: is_uuid_def Let_def py_strip_def)
  have "is_uuid (stable_id_for uuid5 value ns fallback)"
    using assms empty by (simp add: stable_id_for_def Let_def)
  moreover from this empty have "stable_id_for uuid5 value ns fallback \<noteq> []" by metis
  ultimately have "stable_id_for uuid5 (stable_id_for uuid5 value ns fallback) ns' fb
      = stable_id_for uuid5 value ns fallback"
    by (subst stable_id_for_def) (simp add: Let_def)
  moreover have "stable_id_for uuid5 value ns fallback = value" if "is_uuid value"
    using that empty by (cases "value") (simp_all add: stable_id_for_def Let_def)
  ultimately show ?thesis by blast
qed

theorem stable_id_idempotent_witness:
  "stable_id_for (\<lambda>_. ''6f1d3a2e-7c4b-5a9e-8d12-0a1b2c3d4e5f'')
     (stable_id_for (\<lambda>_. ''6f1d3a2e-7c4b-5a9e-8d12-0a1b2c3d4e5f'') ''persona'' ''p'' None) ''q'' None
   = ''6f1d3a2e-7c4b-5a9e-8d12-0a1b2c3d4e5f''"
proof -
  have "is_uuid ''6f1d3a2e-7c4b-5a9e-8d12-0a1b2c3d4e5f''"
    by code_simp
  moreover have "\<not> is_uuid ''persona''" by code_simp
  ultimately show ?thesis
    using stable_id_idempotent [of "\<lambda>_. ''6f1d3a2e-7c4b-5a9e-8d12-0a1b2c3d4e5f''" "''persona''" "''p''" None "''q''" None]
    by (simp add: stable_id_for_def Let_def)
qed

end
