(* ===== verification/Registry.thy ===== *)
theory Registry
  imports Records
begin

text \<open>
  \<open>EntityRegistry\<close> (himmy/entities/registry.py): the in-memory registry of versioned
  records and typed links. Records are values here, so the defensive copies of
  \<open>_shield\<close> are the identity; AuditGuard models them over an object store. The random link
  id and the creation instant of a link or a version are arguments.
\<close>

record entity_registry =
  reg_records :: "(string, entity_record) dict"
  reg_by_stable_id :: "(string, entity_record list) dict"
  reg_links :: "entity_link list"

definition empty_registry :: entity_registry where
  "empty_registry = \<lparr>reg_records = [], reg_by_stable_id = [], reg_links = []\<rparr>"

datatype registry_error = ContentAddressViolation | ConcurrencyConflict

definition versions_of :: "string \<Rightarrow> entity_registry \<Rightarrow> entity_record list" where
  "versions_of sid reg = (case map_of (reg_by_stable_id reg) sid of None \<Rightarrow> [] | Some vs \<Rightarrow> vs)"

definition same_content :: "entity_record \<Rightarrow> entity_record \<Rightarrow> bool" where
  "same_content a b \<longleftrightarrow> dict_eq (er_payload a) (er_payload b) \<and> dict_eq (er_metadata a) (er_metadata b)"

definition register ::
  "entity_record \<Rightarrow> entity_registry \<Rightarrow> (registry_error + entity_record) \<times> entity_registry" where
  "register r reg =
     (case map_of (reg_records reg) (er_record_id r) of
        Some existing \<Rightarrow>
          if same_content existing r then (Inr existing, reg) else (Inl ContentAddressViolation, reg)
      | None \<Rightarrow>
          (Inr r, reg\<lparr>reg_records := AList.update (er_record_id r) r (reg_records reg),
             reg_by_stable_id := AList.update (er_stable_id r)
               (sort_key er_version (versions_of (er_stable_id r) reg @ [r])) (reg_by_stable_id reg)\<rparr>))"

definition get_record :: "string \<Rightarrow> entity_registry \<Rightarrow> entity_record option" where
  "get_record rid reg = map_of (reg_records reg) rid"

definition get_latest :: "string \<Rightarrow> entity_registry \<Rightarrow> entity_record option" where
  "get_latest sid reg = (case versions_of sid reg of [] \<Rightarrow> None | vs \<Rightarrow> Some (last vs))"

definition get_history :: "string \<Rightarrow> entity_registry \<Rightarrow> entity_record list" where
  "get_history sid reg = versions_of sid reg"

definition current_version :: "string \<Rightarrow> entity_registry \<Rightarrow> int" where
  "current_version sid reg = (case get_latest sid reg of None \<Rightarrow> 0 | Some r \<Rightarrow> er_version r)"

definition new_version ::
  "(string \<Rightarrow> string) \<Rightarrow> string \<Rightarrow> string \<Rightarrow> json_dict \<Rightarrow> json_dict option \<Rightarrow> int option \<Rightarrow> instant
     \<Rightarrow> entity_registry \<Rightarrow> (registry_error + entity_record) \<times> entity_registry" where
  "new_version uuid5 sid kind payload meta expected now reg =
     (let current = current_version sid reg
      in if expected \<noteq> None \<and> expected \<noteq> Some current then (Inl ConcurrencyConflict, reg)
         else register (entity_record_create uuid5 sid (current + 1) kind (Some payload) meta now) reg)"

definition link ::
  "string \<Rightarrow> string \<Rightarrow> string \<Rightarrow> string \<Rightarrow> json_dict option \<Rightarrow> instant \<Rightarrow> entity_registry
     \<Rightarrow> entity_link \<times> entity_registry" where
  "link lid from_id to_id rel meta now reg =
     (let l = \<lparr>link_id = lid, from_record_id = from_id, to_record_id = to_id, relation = rel,
               link_metadata = (case meta of None \<Rightarrow> [] | Some m \<Rightarrow> m), link_created_at = now\<rparr>
      in (l, reg\<lparr>reg_links := reg_links reg @ [l]\<rparr>))"

section \<open>Reads\<close>

definition list_by_kind :: "string \<Rightarrow> entity_registry \<Rightarrow> entity_record list" where
  "list_by_kind kind reg = filter (\<lambda>r. er_kind r = kind) (dict_values (reg_records reg))"

text \<open>\<open>r.metadata.get(k) == v\<close>: a missing key reads as \<open>None\<close>, which equals a null filter.\<close>

definition metadata_get_eq :: "json_dict \<Rightarrow> string \<Rightarrow> json \<Rightarrow> bool" where
  "metadata_get_eq meta k v = json_eq (case map_of meta k of None \<Rightarrow> JNull | Some w \<Rightarrow> w) v"

definition list_recent_by_kind ::
  "string \<Rightarrow> int \<Rightarrow> json_dict option \<Rightarrow> entity_registry \<Rightarrow> entity_record list" where
  "list_recent_by_kind kind limit filters reg =
     (if limit \<le> 0 then []
      else py_take limit
        (sort_key (\<lambda>r. - er_created_at r)
          (filter (\<lambda>r. er_kind r = kind
              \<and> list_all (\<lambda>(k, v). metadata_get_eq (er_metadata r) k v)
                  (case filters of None \<Rightarrow> [] | Some f \<Rightarrow> f))
            (dict_values (reg_records reg)))))"

definition query_matches :: "entity_query \<Rightarrow> entity_record \<Rightarrow> bool" where
  "query_matches q r \<longleftrightarrow>
     (eq_kind q = None \<or> Some (er_kind r) = eq_kind q)
     \<and> (eq_stable_id q = None \<or> Some (er_stable_id r) = eq_stable_id q)
     \<and> (eq_metadata_filters q = [] \<or> metadata_contains (JObj (er_metadata r)) (JObj (eq_metadata_filters q)))"

definition query :: "entity_query \<Rightarrow> entity_registry \<Rightarrow> entity_record list" where
  "query q reg = filter (query_matches q) (dict_values (reg_records reg))"

definition links_from :: "string \<Rightarrow> entity_registry \<Rightarrow> entity_link list" where
  "links_from rid reg = filter (\<lambda>l. from_record_id l = rid) (reg_links reg)"

definition links_to :: "string \<Rightarrow> entity_registry \<Rightarrow> entity_link list" where
  "links_to rid reg = filter (\<lambda>l. to_record_id l = rid) (reg_links reg)"

section \<open>Well-formedness\<close>

text \<open>
  The record table is keyed by record id, and the version list of a stable id is exactly its
  records in ascending version order.
\<close>

definition registry_wf :: "entity_registry \<Rightarrow> bool" where
  "registry_wf reg \<longleftrightarrow>
     dict_wf (reg_records reg)
     \<and> list_all (\<lambda>(rid, r). er_record_id r = rid) (reg_records reg)
     \<and> (\<forall>sid. versions_of sid reg
          = sort_key er_version (filter (\<lambda>r. er_stable_id r = sid) (dict_values (reg_records reg))))"

lemma empty_registry_wf: "registry_wf empty_registry"
  by (simp add: registry_wf_def empty_registry_def versions_of_def)

lemma sort_key_append_one: "sort_key f (sort_key f xs @ [x]) = sort_key f (xs @ [x])"
proof (rule properties_for_sort_key [symmetric])
  have eq: "(\<lambda>y. f k = f y) = (\<lambda>y. f y = f k)" for k by auto
  show "filter (\<lambda>y. f k = f y) (sort_key f (sort_key f xs @ [x])) = filter (\<lambda>y. f k = f y) (xs @ [x])" for k
    by (simp only: eq sort_key_stable filter_append)
qed simp_all

lemma sort_key_snoc_max: "sorted (map f xs) \<Longrightarrow> (\<And>y. y \<in> set xs \<Longrightarrow> f y \<le> f x) \<Longrightarrow> sort_key f (xs @ [x]) = xs @ [x]"
  by (intro sort_key_id_if_sorted) (auto simp: sorted_append)

lemma versions_of_registered:
  assumes "registry_wf reg"
  shows "versions_of sid reg
    = sort_key er_version (filter (\<lambda>r. er_stable_id r = sid) (dict_values (reg_records reg)))"
  using assms by (simp add: registry_wf_def)

lemma versions_sorted: "registry_wf reg \<Longrightarrow> sorted (map er_version (versions_of sid reg))"
  by (simp add: versions_of_registered)

lemma set_versions_of:
  "registry_wf reg \<Longrightarrow> set (versions_of sid reg) = {r. r \<in> set (dict_values (reg_records reg)) \<and> er_stable_id r = sid}"
  by (auto simp: versions_of_registered)

lemma register_cases:
  obtains (existing) e where "get_record (er_record_id r) reg = Some e" "snd (register r reg) = reg"
      "fst (register r reg) = (if same_content e r then Inr e else Inl ContentAddressViolation)"
    | (fresh) "get_record (er_record_id r) reg = None" "fst (register r reg) = Inr r"
      "reg_records (snd (register r reg)) = reg_records reg @ [(er_record_id r, r)]"
      "reg_links (snd (register r reg)) = reg_links reg"
      "\<And>sid. versions_of sid (snd (register r reg)) = (if sid = er_stable_id r
          then sort_key er_version (versions_of sid reg @ [r]) else versions_of sid reg)"
proof (cases "get_record (er_record_id r) reg")
  case None
  then show ?thesis
    by (intro fresh) (auto simp: register_def get_record_def versions_of_def update_fresh)
next
  case (Some e)
  then show ?thesis by (intro existing [of e]) (auto simp: register_def get_record_def)
qed

lemma register_wf: "registry_wf reg \<Longrightarrow> registry_wf (snd (register r reg))"
proof (cases rule: register_cases [of r reg])
  case fresh
  moreover assume wf: "registry_wf reg"
  moreover have "er_record_id r \<notin> fst ` set (reg_records reg)"
    using fresh(1) by (simp add: get_record_def map_of_eq_None_iff)
  ultimately show ?thesis
    by (auto simp: registry_wf_def sort_key_append_one)
qed simp

section \<open>Histories of operations\<close>

datatype registry_op =
    Register entity_record
  | NewVersion string string json_dict "json_dict option" "int option" instant
  | Link string string string string "json_dict option" instant

fun run_registry_op :: "(string \<Rightarrow> string) \<Rightarrow> registry_op \<Rightarrow> entity_registry \<Rightarrow> entity_registry" where
  "run_registry_op uuid5 (Register r) reg = snd (register r reg)"
| "run_registry_op uuid5 (NewVersion sid kind payload meta expected now) reg =
     snd (new_version uuid5 sid kind payload meta expected now reg)"
| "run_registry_op uuid5 (Link lid f t rel meta now) reg = snd (link lid f t rel meta now reg)"

text \<open>Every operation is a registration or leaves the records alone.\<close>

lemma run_registry_op_cases:
  obtains (registers) r where "run_registry_op uuid5 op reg = snd (register r reg)"
      "op = Register r \<or> (\<exists>sid kind payload meta expected now. op = NewVersion sid kind payload meta expected now
        \<and> (expected = None \<or> expected = Some (current_version sid reg))
        \<and> r = entity_record_create uuid5 sid (current_version sid reg + 1) kind (Some payload) meta now)"
    | (keeps) "reg_records (run_registry_op uuid5 op reg) = reg_records reg"
      "reg_by_stable_id (run_registry_op uuid5 op reg) = reg_by_stable_id reg"
proof (cases op)
  case (NewVersion sid kind payload meta expected now)
  then show ?thesis
    using that by (cases "expected \<noteq> None \<and> expected \<noteq> Some (current_version sid reg)")
      (auto simp: new_version_def Let_def)
qed (use that in \<open>auto simp: link_def Let_def\<close>)

lemma run_registry_op_wf: "registry_wf reg \<Longrightarrow> registry_wf (run_registry_op uuid5 op reg)"
proof (cases rule: run_registry_op_cases [of uuid5 op reg])
  case keeps
  then show "registry_wf reg \<Longrightarrow> registry_wf (run_registry_op uuid5 op reg)"
    by (simp add: registry_wf_def versions_of_def)
qed (simp add: register_wf)

lemma registry_history_wf: "registry_wf reg \<Longrightarrow> registry_wf (fold (run_registry_op uuid5) ops reg)"
  by (induction ops arbitrary: reg) (simp_all add: run_registry_op_wf)

lemma run_registry_op_get:
  "get_record rid reg = Some r \<Longrightarrow> get_record rid (run_registry_op uuid5 op reg) = Some r"
proof (cases rule: run_registry_op_cases [of uuid5 op reg])
  case (registers r')
  assume "get_record rid reg = Some r"
  with registers(1) show ?thesis
    by (cases rule: register_cases [of r' reg]) (auto simp: get_record_def)
qed (simp add: get_record_def)

lemma registry_history_get:
  "get_record rid reg = Some r \<Longrightarrow> get_record rid (fold (run_registry_op uuid5) ops reg) = Some r"
  by (induction ops arbitrary: reg) (simp_all add: run_registry_op_get)

text \<open>
  C18: Records are write-once: whatever is registered, versioned or linked afterwards, a
  registered record keeps being returned under its id and stays in the history of its
  artefact; registering its id again with other content is refused with the registry
  unchanged, and with equal content returns the stored record.
\<close>

theorem records_are_write_once:
  assumes "registry_wf reg" and "get_record rid reg = Some r"
    and "reg' = fold (run_registry_op uuid5) ops reg"
  shows "get_record rid reg' = Some r \<and> r \<in> set (get_history (er_stable_id r) reg')
    \<and> (\<forall>r'. er_record_id r' = rid \<longrightarrow>
         register r' reg' = (if same_content r r' then Inr r else Inl ContentAddressViolation, reg'))"
proof -
  have get: "get_record rid reg' = Some r"
    using assms registry_history_get by simp
  moreover have "registry_wf reg'" using assms by (simp add: registry_history_wf)
  ultimately have "r \<in> set (get_history (er_stable_id r) reg')"
    using get by (force simp: get_history_def set_versions_of get_record_def dest: map_of_SomeD)
  with get show ?thesis by (auto simp: register_def get_record_def)
qed

section \<open>Version chains\<close>

definition writes_via_new_version :: "string \<Rightarrow> registry_op \<Rightarrow> bool" where
  "writes_via_new_version sid op = (case op of Register r \<Rightarrow> er_stable_id r \<noteq> sid | _ \<Rightarrow> True)"

lemma get_latest_last: "get_latest sid reg = (if versions_of sid reg = [] then None else Some (last (versions_of sid reg)))"
  by (simp add: get_latest_def split: list.splits)

lemma current_version_chain:
  assumes "map er_version (versions_of sid reg) = [1..int (length (versions_of sid reg))]"
  shows "current_version sid reg = int (length (versions_of sid reg))"
proof (cases "versions_of sid reg = []")
  case False
  then have "er_version (last (versions_of sid reg)) = last [1..int (length (versions_of sid reg))]"
    by (simp flip: assms add: last_map)
  also have "\<dots> = int (length (versions_of sid reg))"
    using False by (subst upto_rec2) (simp_all add: Suc_le_eq flip: length_greater_0_conv)
  finally show ?thesis using False by (simp add: current_version_def get_latest_last)
qed (simp add: current_version_def get_latest_last)

lemma entity_record_create_simps [simp]:
  "er_version (entity_record_create uuid5 sid v kind p m now) = v"
  "er_stable_id (entity_record_create uuid5 sid v kind p m now) = sid"
  "er_kind (entity_record_create uuid5 sid v kind p m now) = kind"
  "er_record_id (entity_record_create uuid5 sid v kind p m now) = record_id_for uuid5 sid v kind"
  "er_payload (entity_record_create uuid5 sid v kind (Some q) m now) = q"
  by (simp_all add: entity_record_create_def EntityRecord_def)

lemma run_registry_op_chain:
  assumes chain: "map er_version (versions_of sid reg) = [1..int (length (versions_of sid reg))]"
    and "writes_via_new_version sid op"
  shows "map er_version (versions_of sid (run_registry_op uuid5 op reg))
      = [1..int (length (versions_of sid (run_registry_op uuid5 op reg)))]"
proof (cases rule: run_registry_op_cases [of uuid5 op reg])
  case (registers r)
  show ?thesis
  proof (cases "er_stable_id r = sid")
    case True
    with registers(2) assms(2) have v: "er_version r = int (length (versions_of sid reg)) + 1"
      using current_version_chain [OF chain] by (auto simp: writes_via_new_version_def)
    have "sorted (map er_version (versions_of sid reg))" unfolding chain by simp
    moreover have "er_version y \<le> er_version r" if "y \<in> set (versions_of sid reg)" for y
    proof -
      have "er_version y \<in> set (map er_version (versions_of sid reg))" using that by simp
      then show ?thesis unfolding chain v by simp
    qed
    ultimately have "sort_key er_version (versions_of sid reg @ [r]) = versions_of sid reg @ [r]"
      by (rule sort_key_snoc_max)
    with registers(1) True chain v show ?thesis
      by (cases rule: register_cases [of r reg]) (simp_all add: upto_rec2)
  next
    case False
    with registers(1) chain show ?thesis
      by (cases rule: register_cases [of r reg]) simp_all
  qed
qed (use chain in \<open>simp add: versions_of_def\<close>)

lemma registry_history_chain:
  "map er_version (versions_of sid reg) = [1..int (length (versions_of sid reg))] \<Longrightarrow>
   list_all (writes_via_new_version sid) ops \<Longrightarrow>
   map er_version (versions_of sid (fold (run_registry_op uuid5) ops reg))
     = [1..int (length (versions_of sid (fold (run_registry_op uuid5) ops reg)))]"
  by (induction ops arbitrary: reg) (simp_all add: run_registry_op_chain)

text \<open>
  Version chains have no gap and no repetition: an artefact written only through
  \<open>new_version\<close> has the versions 1, 2, ..., n in this order, and its latest record is the
  one of version n, whatever the other artefacts' writes and whether calls fail.
\<close>

theorem version_chain_gapless:
  assumes "list_all (writes_via_new_version sid) ops"
    and "reg = fold (run_registry_op uuid5) ops empty_registry"
  shows "map er_version (get_history sid reg) = [1..int (length (get_history sid reg))]
    \<and> map_option er_version (get_latest sid reg)
        = (if get_history sid reg = [] then None else Some (int (length (get_history sid reg))))"
proof -
  have "map er_version (versions_of sid reg) = [1..int (length (versions_of sid reg))]"
    unfolding assms(2) using assms(1)
    by (intro registry_history_chain) (simp_all add: empty_registry_def versions_of_def)
  with current_version_chain [OF this] show ?thesis
    by (simp add: get_history_def get_latest_last current_version_def split: if_splits)
qed

theorem version_chain_gapless_witness:
  "map er_version (get_history ''persona'' (fold (run_registry_op id)
      [NewVersion ''persona'' ''agent_persona'' [(''a'', JInt 1)] None None 0,
       NewVersion ''persona'' ''agent_persona'' [(''a'', JInt 9)] None (Some 7) 1,
       NewVersion ''persona'' ''agent_persona'' [(''a'', JInt 2)] None (Some 1) 2] empty_registry)) = [1, 2]"
proof -
  let ?ops = "[NewVersion ''persona'' ''agent_persona'' [(''a'', JInt 1)] None None 0,
       NewVersion ''persona'' ''agent_persona'' [(''a'', JInt 9)] None (Some 7) 1,
       NewVersion ''persona'' ''agent_persona'' [(''a'', JInt 2)] None (Some 1) 2]"
  have "length (get_history ''persona'' (fold (run_registry_op id) ?ops empty_registry)) = 2"
    by (simp add: new_version_def current_version_def get_latest_def get_history_def versions_of_def register_def
        empty_registry_def entity_record_create_def EntityRecord_def record_id_for_def record_id_derivation_inj
        record_id_derivation_nonempty)
  moreover have "[1..2] = [1, 2::int]" by code_simp
  ultimately show ?thesis
    using version_chain_gapless [of "''persona''" ?ops _ id] by (simp add: writes_via_new_version_def)
qed

definition demo_record :: "int \<Rightarrow> entity_record" where
  "demo_record n = entity_record_create id ''persona'' 1 ''agent_persona'' (Some [(''a'', JInt n)]) None 0"

theorem records_are_write_once_witness:
  "get_record (er_record_id (demo_record 1))
     (fold (run_registry_op id) [Register (demo_record 2)] (snd (register (demo_record 1) empty_registry)))
     = Some (demo_record 1)
   \<and> fst (register (demo_record 2) (fold (run_registry_op id) [Register (demo_record 2)]
         (snd (register (demo_record 1) empty_registry)))) = Inl ContentAddressViolation"
proof -
  let ?reg = "snd (register (demo_record 1) empty_registry)"
  have "registry_wf ?reg" by (simp add: register_wf empty_registry_wf)
  moreover have "get_record (er_record_id (demo_record 1)) ?reg = Some (demo_record 1)"
    by (simp add: register_def empty_registry_def get_record_def)
  moreover have ids: "er_record_id (demo_record 2) = er_record_id (demo_record 1)"
    by (simp add: demo_record_def)
  moreover have other: "\<not> same_content (demo_record 1) (demo_record 2)"
    by (simp add: same_content_def demo_record_def dict_eq_def)
  ultimately have *: "get_record (er_record_id (demo_record 1)) (fold (run_registry_op id) [Register (demo_record 2)] ?reg)
        = Some (demo_record 1)
      \<and> (\<forall>r'. er_record_id r' = er_record_id (demo_record 1) \<longrightarrow>
           register r' (fold (run_registry_op id) [Register (demo_record 2)] ?reg)
           = (if same_content (demo_record 1) r' then Inr (demo_record 1) else Inl ContentAddressViolation,
              fold (run_registry_op id) [Register (demo_record 2)] ?reg))"
    using records_are_write_once [of ?reg "er_record_id (demo_record 1)" "demo_record 1", OF _ _ refl] by blast
  show ?thesis
    by (simp only: conjunct1 [OF *] spec [OF conjunct2 [OF *], of "demo_record 2", THEN mp, OF ids] other
        if_False fst_conv simp_thms)
qed

text \<open>The records of a registry carry derived ids, on whose derivations \<open>uuid5\<close> is injective.\<close>

definition derivation :: "entity_record \<Rightarrow> string" where
  "derivation r = record_id_derivation (er_kind r) (er_stable_id r) (er_version r)"

definition derived_ids :: "(string \<Rightarrow> string) \<Rightarrow> entity_registry \<Rightarrow> bool" where
  "derived_ids uuid5 reg \<longleftrightarrow> list_all (\<lambda>r. er_record_id r = uuid5 (derivation r)) (dict_values (reg_records reg))"

lemma new_version_fresh:
  assumes wf: "registry_wf reg" and ids: "derived_ids uuid5 reg"
    and r: "r = entity_record_create uuid5 sid (current_version sid reg + 1) kind (Some payload) meta now"
    and inj: "inj_on uuid5 (insert (derivation r) (derivation ` set (dict_values (reg_records reg))))"
  shows "get_record (er_record_id r) reg = None" and "\<And>y. y \<in> set (versions_of sid reg) \<Longrightarrow> er_version y < er_version r"
proof -
  show older: "er_version y < er_version r" if y: "y \<in> set (versions_of sid reg)" for y
  proof -
    from y obtain vs x where vs: "versions_of sid reg = vs @ [x]"
      by (metis append_butlast_last_id empty_iff empty_set)
    with versions_sorted [OF wf, of sid] y have "er_version y \<le> er_version (last (versions_of sid reg))"
      by (auto simp: sorted_append)
    with y show ?thesis
      by (auto simp: r current_version_def get_latest_last)
  qed
  show "get_record (er_record_id r) reg = None"
  proof (rule ccontr)
    assume "get_record (er_record_id r) reg \<noteq> None"
    then obtain e where e: "(er_record_id r, e) \<in> set (reg_records reg)"
      by (auto simp: get_record_def dest: map_of_SomeD)
    with wf have "er_record_id e = er_record_id r" by (auto simp: registry_wf_def list_all_iff)
    moreover from e have mem: "e \<in> set (dict_values (reg_records reg))" by force
    moreover have "er_record_id e = uuid5 (derivation e)"
      using ids mem by (auto simp: derived_ids_def list_all_iff)
    ultimately have "uuid5 (derivation e) = uuid5 (derivation r)"
      by (simp add: r record_id_for_def derivation_def)
    then have "derivation e = derivation r"
      by (rule inj_onD [OF inj]) (use mem in \<open>simp_all del: set_map\<close>)
    then have "er_stable_id e = sid" "er_version e = er_version r"
      by (simp_all add: derivation_def record_id_derivation_inj r)
    with mem older [of e] show False by (simp add: set_versions_of [OF wf])
  qed
qed

text \<open>
  No update is lost: over a registry of derived ids on which \<open>uuid5\<close> does not collide,
  a \<open>new_version\<close> whose expected version is absent or current succeeds, and appends its
  content as the next and latest version of the artefact; a second writer that expects the
  same version then gets a conflict and changes nothing.
\<close>

theorem optimistic_versioning:
  assumes wf: "registry_wf reg" and ids: "derived_ids uuid5 reg"
    and r: "r = entity_record_create uuid5 sid (current_version sid reg + 1) kind (Some payload) meta now"
    and inj: "inj_on uuid5 (insert (derivation r) (derivation ` set (dict_values (reg_records reg))))"
    and expected: "expected = None \<or> expected = Some (current_version sid reg)"
    and new: "new_version uuid5 sid kind payload meta expected now reg = (res, reg')"
  shows "res = Inr r \<and> get_latest sid reg' = Some r \<and> get_history sid reg' = get_history sid reg @ [r]
    \<and> (\<forall>sid'. sid' \<noteq> sid \<longrightarrow> get_history sid' reg' = get_history sid' reg)
    \<and> new_version uuid5 sid kind' payload' meta' (Some (current_version sid reg)) now' reg'
        = (Inl ConcurrencyConflict, reg')"
proof -
  note fresh = new_version_fresh [OF wf ids r inj]
  from new expected r have reg: "register r reg = (res, reg')"
    by (auto simp: new_version_def Let_def split: if_splits)
  have sort: "sort_key er_version (versions_of sid reg @ [r]) = versions_of sid reg @ [r]"
    using fresh(2) by (intro sort_key_snoc_max versions_sorted [OF wf]) (simp add: order_less_imp_le)
  have sid: "er_stable_id r = sid" by (simp add: r)
  from reg have res: "res = fst (register r reg)" and reg': "reg' = snd (register r reg)" by simp_all
  have "res = Inr r"
    and vs: "versions_of s reg' = (if s = sid then versions_of sid reg @ [r] else versions_of s reg)" for s
    unfolding res reg'
    by (cases rule: register_cases [of r reg]; use fresh(1) sort in \<open>simp add: sid\<close>)+
  moreover have "current_version sid reg' = current_version sid reg + 1"
    by (simp add: current_version_def get_latest_last vs) (simp add: r current_version_def get_latest_last)
  ultimately show ?thesis
    by (simp add: get_latest_last get_history_def new_version_def Let_def)
qed

theorem optimistic_versioning_witness:
  "fst (new_version id ''persona'' ''agent_persona'' [] None (Some 1) 5 (snd (register (demo_record 1) empty_registry)))
     = Inr (entity_record_create id ''persona'' 2 ''agent_persona'' (Some []) None 5)"
proof -
  let ?reg = "snd (register (demo_record 1) empty_registry)"
  have regs: "reg_records ?reg = [(er_record_id (demo_record 1), demo_record 1)]"
    by (simp add: register_def empty_registry_def)
  have "current_version ''persona'' ?reg = 1"
    by (simp add: current_version_def get_latest_last register_def empty_registry_def versions_of_def demo_record_def)
  moreover have "derived_ids id ?reg"
    by (simp add: derived_ids_def regs derivation_def) (simp add: demo_record_def record_id_for_def)
  ultimately show ?thesis
    using optimistic_versioning [where reg = ?reg and ?uuid5.0 = id and expected = "Some 1" and sid = "''persona''"
        and kind = "''agent_persona''" and payload = "[]" and meta = None and now = 5, OF _ _ refl _ _ surjective_pairing]
    by (simp add: register_wf empty_registry_wf)
qed

end
