(* ===== verification/Lineage.thy ===== *)
theory Lineage
  imports Registry
begin

text \<open>
  The lineage read side (himmy/entities/lineage.py and \<open>neighbors\<close>, \<open>trace\<close> of
  himmy/entities/registry.py): a bounded breadth-first walk over the typed links. The
  specification is reachability in the link relation. Python sets of ids are lists, read by
  membership only.
\<close>

datatype lineage_direction = OUT | IN | BOTH

definition DEFAULT_TRACE_DEPTH :: int where
  "DEFAULT_TRACE_DEPTH = 6"

record lineage_graph =
  root_id :: string
  nodes :: "(string, entity_record) dict"
  edges :: "entity_link list"
  truncated :: bool

definition record_ids :: "lineage_graph \<Rightarrow> string set" where
  "record_ids g = set (map fst (nodes g))"

definition node_count :: "lineage_graph \<Rightarrow> nat" where
  "node_count g = length (nodes g)"

definition edge_count :: "lineage_graph \<Rightarrow> nat" where
  "edge_count g = length (edges g)"

definition relations :: "lineage_graph \<Rightarrow> string set" where
  "relations g = set (map relation (edges g))"

definition filter_relations :: "string list \<Rightarrow> lineage_graph \<Rightarrow> lineage_graph" where
  "filter_relations keep g =
     (let es = filter (\<lambda>l. relation l \<in> set keep) (edges g);
          referenced = root_id g # concat (map (\<lambda>l. [from_record_id l, to_record_id l]) es)
      in \<lparr>root_id = root_id g, nodes = filter (\<lambda>(rid, _). rid \<in> set referenced) (nodes g),
          edges = es, truncated = truncated g\<rparr>)"

section \<open>Neighbours\<close>

fun dedupe_links :: "string option \<Rightarrow> string list \<Rightarrow> entity_link list \<Rightarrow> entity_link list" where
  "dedupe_links rel seen [] = []"
| "dedupe_links rel seen (l # ls) =
     (if rel \<noteq> None \<and> Some (relation l) \<noteq> rel then dedupe_links rel seen ls
      else if link_id l \<in> set seen then dedupe_links rel seen ls
      else l # dedupe_links rel (link_id l # seen) ls)"

definition neighbors ::
  "string \<Rightarrow> lineage_direction \<Rightarrow> string option \<Rightarrow> entity_registry \<Rightarrow> entity_link list" where
  "neighbors rid dir rel reg =
     dedupe_links rel []
       ((if dir = OUT \<or> dir = BOTH then links_from rid reg else [])
        @ (if dir = IN \<or> dir = BOTH then links_to rid reg else []))"

definition other_end :: "string \<Rightarrow> entity_link \<Rightarrow> string" where
  "other_end rid l = (if from_record_id l = rid then to_record_id l else from_record_id l)"

section \<open>The walk\<close>

record walk =
  w_nodes :: "(string, entity_record) dict"
  w_edges :: "entity_link list"
  w_seen_edges :: "string list"
  w_visited :: "string list"
  w_next :: "string list"

definition follows :: "string list option \<Rightarrow> entity_link \<Rightarrow> bool" where
  "follows rels l = (case rels of None \<Rightarrow> True | Some rs \<Rightarrow> relation l \<in> set rs)"

definition visit_link ::
  "entity_registry \<Rightarrow> string list option \<Rightarrow> string \<Rightarrow> entity_link \<Rightarrow> walk \<Rightarrow> walk" where
  "visit_link reg rels rid l w =
     (if \<not> follows rels l then w
      else
        let w = (if link_id l \<in> set (w_seen_edges w) then w
                 else w\<lparr>w_seen_edges := w_seen_edges w @ [link_id l], w_edges := w_edges w @ [l]\<rparr>);
            other = other_end rid l
        in if other \<in> set (w_visited w) then w
           else w\<lparr>w_visited := other # w_visited w,
                  w_nodes := (case get_record other reg of None \<Rightarrow> w_nodes w
                              | Some r \<Rightarrow> AList.update other r (w_nodes w)),
                  w_next := w_next w @ [other]\<rparr>)"

definition expand ::
  "entity_registry \<Rightarrow> lineage_direction \<Rightarrow> string list option \<Rightarrow> string \<Rightarrow> walk \<Rightarrow> walk" where
  "expand reg dir rels rid w = fold (visit_link reg rels rid) (neighbors rid dir None reg) w"

fun trace_walk ::
  "entity_registry \<Rightarrow> lineage_direction \<Rightarrow> string list option \<Rightarrow> nat \<Rightarrow> string list \<Rightarrow> walk
     \<Rightarrow> string list \<times> walk" where
  "trace_walk reg dir rels 0 frontier w = (frontier, w)"
| "trace_walk reg dir rels (Suc n) frontier w =
     (if frontier = [] then (frontier, w)
      else let w = fold (expand reg dir rels) frontier (w\<lparr>w_next := []\<rparr>)
           in trace_walk reg dir rels n (w_next w) w)"

definition trace ::
  "string \<Rightarrow> int \<Rightarrow> lineage_direction \<Rightarrow> string list option \<Rightarrow> entity_registry \<Rightarrow> lineage_graph" where
  "trace rid max_depth dir rels reg =
     (case trace_walk reg dir rels (nat (max 0 max_depth)) [rid]
        \<lparr>w_nodes = (case get_record rid reg of None \<Rightarrow> [] | Some r \<Rightarrow> [(rid, r)]),
         w_edges = [], w_seen_edges = [], w_visited = [rid], w_next = []\<rparr> of
        (frontier, w) \<Rightarrow>
          \<lparr>root_id = rid, nodes = w_nodes w, edges = w_edges w,
           truncated = list_ex (\<lambda>f. list_ex (\<lambda>l. follows rels l \<and> other_end f l \<notin> set (w_visited w))
               (neighbors f dir None reg)) frontier\<rparr>)"

section \<open>Reachability\<close>

text \<open>
  \<open>incident\<close>: the link leaves or enters \<open>a\<close> in the direction of the walk and has a
  relation it follows; \<open>adj\<close> is the relation the walk explores, \<open>within n\<close> the records at
  most \<open>n\<close> hops away.
\<close>

definition incident ::
  "entity_registry \<Rightarrow> lineage_direction \<Rightarrow> string list option \<Rightarrow> string \<Rightarrow> entity_link set" where
  "incident reg dir rels a = {l \<in> set (reg_links reg). follows rels l
     \<and> ((dir = OUT \<or> dir = BOTH) \<and> from_record_id l = a \<or> (dir = IN \<or> dir = BOTH) \<and> to_record_id l = a)}"

definition adj ::
  "entity_registry \<Rightarrow> lineage_direction \<Rightarrow> string list option \<Rightarrow> (string \<times> string) set" where
  "adj reg dir rels = {(a, b). \<exists>l \<in> incident reg dir rels a. b = other_end a l}"

primrec within ::
  "entity_registry \<Rightarrow> lineage_direction \<Rightarrow> string list option \<Rightarrow> string \<Rightarrow> nat \<Rightarrow> string set" where
  "within reg dir rels a 0 = {a}"
| "within reg dir rels a (Suc n) =
     within reg dir rels a n \<union> adj reg dir rels `` within reg dir rels a n"

definition links_distinct :: "entity_registry \<Rightarrow> bool" where
  "links_distinct reg \<longleftrightarrow> distinct (map link_id (reg_links reg))"

lemma set_dedupe_links:
  "inj_on link_id (set ls) \<Longrightarrow>
   set (dedupe_links None seen ls) = {l \<in> set ls. link_id l \<notin> set seen}"
proof (induction ls arbitrary: seen)
  case (Cons l ls)
  then have "\<And>l'. l' \<in> set ls \<Longrightarrow> link_id l' = link_id l \<Longrightarrow> l' = l"
    by (simp add: inj_on_def)
  with Cons show ?case by (auto simp: inj_on_def)
qed simp

lemma set_neighbors:
  assumes "links_distinct reg"
  shows "{l \<in> set (neighbors a dir None reg). follows rels l} = incident reg dir rels a"
proof -
  have "inj_on link_id (set (reg_links reg))"
    using assms by (simp add: links_distinct_def distinct_map)
  then have "inj_on link_id (set ((if dir = OUT \<or> dir = BOTH then links_from a reg else [])
        @ (if dir = IN \<or> dir = BOTH then links_to a reg else [])))"
    by (rule inj_on_subset) (auto simp: links_from_def links_to_def split: if_splits)
  then show ?thesis
    by (auto simp: neighbors_def set_dedupe_links incident_def links_from_def links_to_def split: if_splits)
qed

lemma neighbors_subset: "set (neighbors a dir None reg) \<subseteq> set (reg_links reg)"
proof -
  have "set (dedupe_links rel seen ls) \<subseteq> set ls" for rel seen ls
    by (induction ls arbitrary: seen) auto
  then show ?thesis by (force simp: neighbors_def links_from_def links_to_def split: if_splits)
qed

section \<open>The walk computes reachability\<close>

text \<open>
  During a round that started with the visited set \<open>V\<close>: the visited set has grown by \<open>X\<close>,
  the edges collected are \<open>E\<close>, and the node table has the registered visited records.
\<close>

definition walk_inv ::
  "entity_registry \<Rightarrow> string set \<Rightarrow> string set \<Rightarrow> entity_link set \<Rightarrow> walk \<Rightarrow> bool" where
  "walk_inv reg V X E w \<longleftrightarrow>
     set (w_visited w) = V \<union> X \<and> set (w_next w) = X - V
     \<and> set (w_edges w) = E \<and> w_seen_edges w = map link_id (w_edges w)
     \<and> (\<forall>a. map_of (w_nodes w) a = (if a \<in> V \<union> X then get_record a reg else None))"

lemma visit_link_inv:
  assumes "walk_inv reg V X E w" and "links_distinct reg"
    and "E \<subseteq> set (reg_links reg)" and "l \<in> set (reg_links reg)"
  shows "walk_inv reg V (X \<union> (if follows rels l then {other_end a l} else {}))
    (E \<union> (if follows rels l then {l} else {})) (visit_link reg rels a l w)"
proof (cases "follows rels l")
  case True
  have "link_id l \<in> link_id ` E \<longleftrightarrow> l \<in> E"
    using assms(2-4) by (auto simp: links_distinct_def distinct_map inj_on_def)
  with True assms(1) show ?thesis
    by (auto simp: walk_inv_def visit_link_def Let_def split: option.splits)
next
  case False
  with assms(1) show ?thesis by (simp add: visit_link_def)
qed

lemma visit_links_inv:
  assumes "walk_inv reg V X E w" and "links_distinct reg"
    and "E \<subseteq> set (reg_links reg)" and "set ls \<subseteq> set (reg_links reg)"
  shows "walk_inv reg V (X \<union> other_end a ` {l \<in> set ls. follows rels l})
    (E \<union> {l \<in> set ls. follows rels l}) (fold (visit_link reg rels a) ls w)"
  using assms(1,3,4)
proof (induction ls arbitrary: X E w)
  case (Cons l ls)
  have "walk_inv reg V (X \<union> (if follows rels l then {other_end a l} else {}))
      (E \<union> (if follows rels l then {l} else {})) (visit_link reg rels a l w)"
    using Cons.prems by (intro visit_link_inv [OF _ assms(2)]) auto
  from Cons.IH [OF this] Cons.prems
  have "walk_inv reg V (X \<union> (if follows rels l then {other_end a l} else {}) \<union> other_end a ` {l \<in> set ls. follows rels l})
      (E \<union> (if follows rels l then {l} else {}) \<union> {l \<in> set ls. follows rels l})
      (fold (visit_link reg rels a) (l # ls) w)"
    by (auto split: if_splits)
  moreover have "X \<union> (if follows rels l then {other_end a l} else {}) \<union> other_end a ` {l \<in> set ls. follows rels l}
      = X \<union> other_end a ` {l' \<in> set (l # ls). follows rels l'}"
    and "E \<union> (if follows rels l then {l} else {}) \<union> {l \<in> set ls. follows rels l}
      = E \<union> {l' \<in> set (l # ls). follows rels l'}"
    by auto
  ultimately show ?case by metis
qed simp

lemma adj_image: "adj reg dir rels `` A = (\<Union>a \<in> A. other_end a ` incident reg dir rels a)"
  by (auto simp: adj_def)

lemma expand_inv:
  assumes "walk_inv reg V X E w" and "links_distinct reg" and "E \<subseteq> set (reg_links reg)"
  shows "walk_inv reg V (X \<union> adj reg dir rels `` set fs)
    (E \<union> (\<Union>a \<in> set fs. incident reg dir rels a)) (fold (expand reg dir rels) fs w)"
  using assms(1,3)
proof (induction fs arbitrary: X E w)
  case (Cons f fs)
  have "walk_inv reg V (X \<union> other_end f ` incident reg dir rels f) (E \<union> incident reg dir rels f)
      (expand reg dir rels f w)"
    using visit_links_inv [OF Cons.prems(1) assms(2) Cons.prems(2) neighbors_subset, where a = f and rels = rels]
    by (simp add: expand_def set_neighbors [OF assms(2)])
  moreover have "E \<union> incident reg dir rels f \<subseteq> set (reg_links reg)"
    using Cons.prems(2) by (auto simp: incident_def)
  ultimately have "walk_inv reg V (X \<union> other_end f ` incident reg dir rels f \<union> adj reg dir rels `` set fs)
      (E \<union> incident reg dir rels f \<union> (\<Union>a \<in> set fs. incident reg dir rels a))
      (fold (expand reg dir rels) (f # fs) w)"
    using Cons.IH by simp
  then show ?case by (simp add: adj_image Un_assoc)
qed simp

text \<open>
  Between rounds the visited set is \<open>within n\<close>, the frontier is the part not yet expanded,
  and the edges are those of the expanded part.
\<close>

lemma trace_walk_inv:
  assumes "links_distinct reg"
    and "walk_inv reg (within reg dir rels a k) {} (\<Union>b \<in> within reg dir rels a k - set fs. incident reg dir rels b)
      (w\<lparr>w_next := []\<rparr>)"
    and "set fs \<subseteq> within reg dir rels a k"
    and "adj reg dir rels `` (within reg dir rels a k - set fs) \<subseteq> within reg dir rels a k"
    and "trace_walk reg dir rels n fs w = (fs', w')"
  shows "walk_inv reg (within reg dir rels a (k + n)) {}
      (\<Union>b \<in> within reg dir rels a (k + n) - set fs'. incident reg dir rels b) (w'\<lparr>w_next := []\<rparr>)
    \<and> set fs' \<subseteq> within reg dir rels a (k + n)
    \<and> adj reg dir rels `` (within reg dir rels a (k + n) - set fs') \<subseteq> within reg dir rels a (k + n)
    \<and> (0 < n \<longrightarrow> within reg dir rels a (k + n) - set fs' = within reg dir rels a (k + n - 1))"
  using assms(2-)
proof (induction n arbitrary: k fs w)
  case 0
  then show ?case by simp
next
  case (Suc n)
  let ?W = "within reg dir rels a" and ?inc = "incident reg dir rels"
  show ?case
  proof (cases "fs = []")
    case True
    with Suc.prems(3) have "?W (k + m) = ?W k" for m by (induction m) auto
    from this [of "Suc n"] this [of n] True Suc.prems show ?thesis
      by (simp del: within.simps add_Suc_right)
  next
    case False
    let ?w = "fold (expand reg dir rels) fs (w\<lparr>w_next := []\<rparr>)"
    have inv: "walk_inv reg (?W k) (adj reg dir rels `` set fs)
        ((\<Union>b \<in> ?W k - set fs. ?inc b) \<union> (\<Union>b \<in> set fs. ?inc b)) ?w"
      using expand_inv [OF Suc.prems(1) assms(1), where fs = fs and dir = dir and rels = rels] by (auto simp: incident_def)
    have W: "?W (Suc k) = ?W k \<union> adj reg dir rels `` set fs"
      using Suc.prems(2,3) by auto
    have nxt: "set (w_next ?w) = ?W (Suc k) - ?W k"
      using inv W by (auto simp: walk_inv_def)
    have expanded: "?W (Suc k) - set (w_next ?w) = ?W k"
      unfolding nxt using W by auto
    have "(\<Union>b \<in> ?W k - set fs. ?inc b) \<union> (\<Union>b \<in> set fs. ?inc b) = (\<Union>b \<in> ?W k. ?inc b)"
      using Suc.prems(2) by blast
    with inv W have "walk_inv reg (?W (Suc k)) {} (\<Union>b \<in> ?W (Suc k) - set (w_next ?w). ?inc b) (?w\<lparr>w_next := []\<rparr>)"
      unfolding expanded by (simp add: walk_inv_def)
    moreover have "set (w_next ?w) \<subseteq> ?W (Suc k)" unfolding nxt by blast
    moreover have "adj reg dir rels `` (?W (Suc k) - set (w_next ?w)) \<subseteq> ?W (Suc k)"
      unfolding expanded by simp
    moreover have "trace_walk reg dir rels n (w_next ?w) ?w = (fs', w')"
      using Suc.prems(4) False by (simp add: Let_def)
    ultimately have main: "walk_inv reg (?W (Suc k + n)) {} (\<Union>b \<in> ?W (Suc k + n) - set fs'. ?inc b) (w'\<lparr>w_next := []\<rparr>)
        \<and> set fs' \<subseteq> ?W (Suc k + n) \<and> adj reg dir rels `` (?W (Suc k + n) - set fs') \<subseteq> ?W (Suc k + n)
        \<and> (0 < n \<longrightarrow> ?W (Suc k + n) - set fs' = ?W (Suc k + n - 1))"
      and zero: "n = 0 \<longrightarrow> fs' = w_next ?w"
      using Suc.IH [of "Suc k"] by auto
    have "?W (Suc k + n) - set fs' = ?W (Suc k + n - 1)"
    proof (cases "n = 0")
      case True
      with zero expanded show ?thesis by (simp del: within.simps)
    next
      case False
      with main show ?thesis by (simp del: within.simps)
    qed
    with main show ?thesis unfolding add_Suc_shift by blast
  qed
qed

lemma within_reachable: "within reg dir rels a n \<subseteq> (adj reg dir rels)\<^sup>* `` {a}"
proof (induction n)
  case (Suc n)
  then show ?case by (auto intro: rtrancl_into_rtrancl)
qed simp

lemma within_closed:
  assumes "adj reg dir rels `` within reg dir rels a n \<subseteq> within reg dir rels a n"
  shows "within reg dir rels a n = (adj reg dir rels)\<^sup>* `` {a}"
proof -
  have start: "a \<in> within reg dir rels a n" by (induction n) simp_all
  have "x \<in> within reg dir rels a n" if "(a, x) \<in> (adj reg dir rels)\<^sup>*" for x
    using that by (induction rule: rtrancl_induct) (use start assms in auto)
  with within_reachable [of reg dir rels a n] show ?thesis by blast
qed

lemma trace_result:
  assumes "links_distinct reg" and "g = trace rid depth dir rels reg"
  obtains fs w where "nodes g = w_nodes w" "edges g = w_edges w"
    "truncated g \<longleftrightarrow> (\<exists>f \<in> set fs. \<exists>l \<in> incident reg dir rels f. other_end f l \<notin> set (w_visited w))"
    "walk_inv reg (within reg dir rels rid (nat depth)) {}
      (\<Union>b \<in> within reg dir rels rid (nat depth) - set fs. incident reg dir rels b) (w\<lparr>w_next := []\<rparr>)"
    "set fs \<subseteq> within reg dir rels rid (nat depth)"
    "adj reg dir rels `` (within reg dir rels rid (nat depth) - set fs) \<subseteq> within reg dir rels rid (nat depth)"
    "depth > 0 \<Longrightarrow> within reg dir rels rid (nat depth) - set fs = within reg dir rels rid (nat depth - 1)"
    "depth \<le> 0 \<Longrightarrow> fs = [rid]"
proof -
  let ?w0 = "\<lparr>w_nodes = (case get_record rid reg of None \<Rightarrow> [] | Some r \<Rightarrow> [(rid, r)]),
         w_edges = [], w_seen_edges = [], w_visited = [rid], w_next = []\<rparr>"
  obtain fs w where walk: "trace_walk reg dir rels (nat (max 0 depth)) [rid] ?w0 = (fs, w)" by fastforce
  have start: "walk_inv reg (within reg dir rels rid 0) {}
      (\<Union>b \<in> within reg dir rels rid 0 - set [rid]. incident reg dir rels b) (?w0\<lparr>w_next := []\<rparr>)"
    by (auto simp: walk_inv_def split: option.splits)
  have depth: "nat (max 0 depth) = nat depth" by simp
  have "nodes g = w_nodes w" "edges g = w_edges w"
    "truncated g \<longleftrightarrow> (\<exists>f \<in> set fs. \<exists>l \<in> incident reg dir rels f. other_end f l \<notin> set (w_visited w))"
    using assms(2) walk
    by (auto simp: trace_def list_ex_iff simp flip: set_neighbors [OF assms(1), of _ dir rels])
  moreover have "depth \<le> 0 \<Longrightarrow> fs = [rid]" using walk by simp
  ultimately show ?thesis
    using that trace_walk_inv [OF assms(1) start _ _ walk] by (simp add: depth)
qed

text \<open>
  C35: A trace is the neighbourhood it claims to be: its nodes are exactly the registered
  records at most \<open>max_depth\<close> hops from the root over the followed links, and it is marked
  truncated exactly when some record reachable from the root lies beyond that bound.
\<close>

theorem trace_is_bounded_reachability:
  assumes "links_distinct reg" and "g = trace rid depth dir rels reg"
  shows "(\<forall>a. map_of (nodes g) a =
            (if a \<in> within reg dir rels rid (nat depth) then get_record a reg else None))
    \<and> (truncated g \<longleftrightarrow> within reg dir rels rid (nat depth) \<noteq> (adj reg dir rels)\<^sup>* `` {rid})"
proof -
  let ?W = "within reg dir rels rid (nat depth)"
  obtain fs w where g: "nodes g = w_nodes w"
      "truncated g \<longleftrightarrow> (\<exists>f \<in> set fs. \<exists>l \<in> incident reg dir rels f. other_end f l \<notin> set (w_visited w))"
    and inv: "walk_inv reg ?W {} (\<Union>b \<in> ?W - set fs. incident reg dir rels b) (w\<lparr>w_next := []\<rparr>)"
    and fs: "set fs \<subseteq> ?W" "adj reg dir rels `` (?W - set fs) \<subseteq> ?W"
    by (rule trace_result [OF assms])
  have "set (w_visited w) = ?W" using inv by (simp add: walk_inv_def)
  with g(2) have "truncated g \<longleftrightarrow> \<not> adj reg dir rels `` set fs \<subseteq> ?W"
    by (auto simp: adj_def)
  also have "\<dots> \<longleftrightarrow> \<not> adj reg dir rels `` ?W \<subseteq> ?W"
    using fs by blast
  also have "\<dots> \<longleftrightarrow> ?W \<noteq> (adj reg dir rels)\<^sup>* `` {rid}"
    using within_closed [of reg dir rels rid "nat depth"] by (auto intro: rtrancl_into_rtrancl)
  finally have "truncated g \<longleftrightarrow> ?W \<noteq> (adj reg dir rels)\<^sup>* `` {rid}" .
  with inv g(1) show ?thesis by (simp add: walk_inv_def)
qed

definition demo_lineage :: entity_registry where
  "demo_lineage = snd (link ''l3'' ''b'' ''c'' ''derived_from'' None 0
     (snd (link ''l2'' ''a'' ''c'' ''built_from'' None 0
       (snd (link ''l1'' ''a'' ''b'' ''uses_persona'' None 0 empty_registry)))))"

lemma demo_lineage_links: "links_distinct demo_lineage"
  by (simp add: links_distinct_def demo_lineage_def link_def Let_def empty_registry_def)

theorem trace_is_bounded_reachability_witness:
  "within demo_lineage OUT (Some [''uses_persona'', ''derived_from'']) ''a'' 1
     \<noteq> (adj demo_lineage OUT (Some [''uses_persona'', ''derived_from'']))\<^sup>* `` {''a''}
   \<and> within demo_lineage BOTH None ''a'' 6 = (adj demo_lineage BOTH None)\<^sup>* `` {''a''}"
proof -
  have "truncated (trace ''a'' 1 OUT (Some [''uses_persona'', ''derived_from'']) demo_lineage)"
    and "\<not> truncated (trace ''a'' 6 BOTH None demo_lineage)"
    by code_simp+
  then show ?thesis
    using trace_is_bounded_reachability [OF demo_lineage_links refl,
        of "''a''" 1 OUT "Some [''uses_persona'', ''derived_from'']"]
      trace_is_bounded_reachability [OF demo_lineage_links refl, of "''a''" 6 BOTH None]
    by simp
qed

text \<open>
  The edges of a trace are exactly the followed links incident to the records fewer than
  \<open>max_depth\<close> hops away. So a link between two records that are both exactly
  \<open>max_depth\<close> hops away is left out, also when the trace is not marked truncated.
\<close>

theorem trace_edges:
  assumes "links_distinct reg" and "g = trace rid depth dir rels reg"
  shows "set (edges g) = (if depth \<le> 0 then {}
    else \<Union>b \<in> within reg dir rels rid (nat depth - 1). incident reg dir rels b)"
proof -
  let ?W = "within reg dir rels rid (nat depth)"
  obtain fs w where w: "edges g = w_edges w"
      "walk_inv reg ?W {} (\<Union>b \<in> ?W - set fs. incident reg dir rels b) (w\<lparr>w_next := []\<rparr>)"
    and expanded: "0 < depth \<longrightarrow> ?W - set fs = within reg dir rels rid (nat depth - 1)"
      "depth \<le> 0 \<longrightarrow> fs = [rid]"
    using trace_result [OF assms] by metis
  from w have "set (edges g) = (\<Union>b \<in> ?W - set fs. incident reg dir rels b)"
    by (simp add: walk_inv_def)
  with expanded show ?thesis by simp
qed

theorem trace_edges_witness:
  "let g = trace ''a'' 1 BOTH None demo_lineage
   in map relation (edges g) = [''uses_persona'', ''built_from''] \<and> \<not> truncated g
      \<and> set (edges g) = incident demo_lineage BOTH None ''a''"
proof -
  have "map relation (edges (trace ''a'' 1 BOTH None demo_lineage)) = [''uses_persona'', ''built_from'']"
    and "\<not> truncated (trace ''a'' 1 BOTH None demo_lineage)"
    by code_simp+
  then show ?thesis
    using trace_edges [OF demo_lineage_links refl, of "''a''" 1 BOTH None] by (simp add: Let_def)
qed

end
