(* ===== verification/Canonical.thy ===== *)
theory Canonical
  imports Records "HOL-Library.List_Lexorder" "HOL-Library.Char_ord"
begin

text \<open>
  The canonical serialisation behind every content hash
  (\<open>_canonical\<close> of himmy/entities/integrity.py): \<open>json.dumps\<close> with sorted keys, compact
  separators and ASCII escapes. It is shown to be injective up to the order of object keys.
\<close>

section \<open>Serialisation\<close>

definition hex_char :: "nat \<Rightarrow> char" where
  "hex_char n = char_of (if n < 10 then 48 + n else 87 + n)"

definition json_char :: "char \<Rightarrow> string" where
  "json_char c =
     (let n = of_char c :: nat; bs = CHR 0x5C in
      if c = CHR 0x22 then [bs, CHR 0x22]
      else if c = bs then [bs, bs]
      else if 32 \<le> n \<and> n \<le> 126 then [c]
      else if n = 10 then [bs, CHR ''n'']
      else if n = 13 then [bs, CHR ''r'']
      else if n = 9 then [bs, CHR ''t'']
      else if n = 12 then [bs, CHR ''f'']
      else if n = 8 then [bs, CHR ''b'']
      else bs # ''u00'' @ [hex_char (n div 16), hex_char (n mod 16)])"

definition json_str :: "string \<Rightarrow> string" where
  "json_str s = CHR 0x22 # concat (map json_char s) @ [CHR 0x22]"

fun join_comma :: "string list \<Rightarrow> string" where
  "join_comma [] = []"
| "join_comma (x # xs) = x @ concat (map (Cons (CHR '','')) xs)"

fun json_dumps :: "json \<Rightarrow> string" where
  "json_dumps JNull = ''null''"
| "json_dumps (JBool b) = (if b then ''true'' else ''false'')"
| "json_dumps (JInt n) = int_str n"
| "json_dumps (JStr s) = json_str s"
| "json_dumps (JList vs) = CHR ''['' # join_comma (map json_dumps vs) @ '']''"
| "json_dumps (JObj d) =
     CHR ''{'' # join_comma (map (\<lambda>(k, s). json_str k @ CHR '':'' # s)
        (sort_key fst (map (\<lambda>(k, v). (k, json_dumps v)) d))) @ ''}''"

text \<open>The document with the keys of every object sorted, and its rendering as it stands.\<close>

fun json_norm :: "json \<Rightarrow> json" where
  "json_norm (JList vs) = JList (map json_norm vs)"
| "json_norm (JObj d) = JObj (sort_key fst (map (\<lambda>(k, v). (k, json_norm v)) d))"
| "json_norm v = v"

fun json_render :: "json \<Rightarrow> string" where
  "json_render JNull = ''null''"
| "json_render (JBool b) = (if b then ''true'' else ''false'')"
| "json_render (JInt n) = int_str n"
| "json_render (JStr s) = json_str s"
| "json_render (JList vs) = CHR ''['' # join_comma (map json_render vs) @ '']''"
| "json_render (JObj d) =
     CHR ''{'' # join_comma (map (\<lambda>(k, v). json_str k @ CHR '':'' # json_render v) d) @ ''}''"

lemma json_dumps_render: "json_dumps v = json_render (json_norm v)"
proof (induction v)
  case (JList vs)
  then show ?case by (simp add: comp_def cong: map_cong)
next
  case (JObj d)
  let ?f = "\<lambda>(k, v). (k, json_render v)" and ?d = "map (\<lambda>(k, v). (k, json_norm v)) d"
  have fst: "(\<lambda>x. fst (?f x)) = fst" by auto
  have "map (\<lambda>(k, v). (k, json_dumps v)) d = map ?f ?d"
    using JObj by (auto simp: prod_set_defs)
  then have "sort_key fst (map (\<lambda>(k, v). (k, json_dumps v)) d) = map ?f (sort_key fst ?d)"
    using map_sort_key [of ?f fst ?d] by (simp only: fst)
  then show ?case by (simp add: comp_def case_prod_unfold)
qed simp_all

section \<open>Injectivity\<close>

text \<open>
  A rendering followed by a delimiter determines both: every value is self-delimiting
  except a number, which ends at the first character that is not part of one.
\<close>

lemma hex_char_inj: "m < 16 \<Longrightarrow> n < 16 \<Longrightarrow> hex_char m = hex_char n \<longleftrightarrow> m = n"
  by (auto simp: hex_char_def dest!: arg_cong [where f = "of_char :: char \<Rightarrow> nat"] split: if_splits)

definition short_escape :: "char \<Rightarrow> char" where
  "short_escape e = (if e = CHR ''n'' then CHR 10 else if e = CHR ''r'' then CHR 13
     else if e = CHR ''t'' then CHR 9 else if e = CHR ''f'' then CHR 12
     else if e = CHR ''b'' then CHR 8 else e)"

lemma char_eq_code: "of_char c = (of_char d :: nat) \<Longrightarrow> c = d"
  by simp

lemma json_char_cases:
  obtains (plain) "json_char c = [c]" "c \<noteq> CHR 0x22" "c \<noteq> CHR 0x5C"
    | (short) e where "json_char c = [CHR 0x5C, e]" "e \<noteq> CHR ''u''" "c = short_escape e"
    | (hex) "json_char c = CHR 0x5C # ''u00'' @ [hex_char (of_char c div 16), hex_char (of_char c mod 16)]"
proof -
  let ?n = "of_char c :: nat"
  consider "c = CHR 0x22" | "c = CHR 0x5C" | "c \<noteq> CHR 0x22" "c \<noteq> CHR 0x5C" "32 \<le> ?n \<and> ?n \<le> 126"
    | "?n = 10" | "?n = 13" | "?n = 9" | "?n = 12" | "?n = 8"
    | "c \<noteq> CHR 0x22" "c \<noteq> CHR 0x5C" "\<not> (32 \<le> ?n \<and> ?n \<le> 126)" "?n \<notin> {10, 13, 9, 12, 8}"
    by auto
  then show ?thesis
  proof cases
    case 1 then show ?thesis by (intro short [of "CHR 0x22"]) (simp_all add: json_char_def short_escape_def)
  next
    case 2 then show ?thesis by (intro short [of "CHR 0x5C"]) (simp_all add: json_char_def short_escape_def Let_def)
  next
    case 3 then show ?thesis by (intro plain) (auto simp: json_char_def Let_def)
  next
    case 4 then have "c = CHR 10" by (intro char_eq_code) simp
    then show ?thesis by (intro short [of "CHR ''n''"]) (simp_all add: json_char_def short_escape_def)
  next
    case 5 then have "c = CHR 13" by (intro char_eq_code) simp
    then show ?thesis by (intro short [of "CHR ''r''"]) (simp_all add: json_char_def short_escape_def)
  next
    case 6 then have "c = CHR 9" by (intro char_eq_code) simp
    then show ?thesis by (intro short [of "CHR ''t''"]) (simp_all add: json_char_def short_escape_def)
  next
    case 7 then have "c = CHR 12" by (intro char_eq_code) simp
    then show ?thesis by (intro short [of "CHR ''f''"]) (simp_all add: json_char_def short_escape_def)
  next
    case 8 then have "c = CHR 8" by (intro char_eq_code) simp
    then show ?thesis by (intro short [of "CHR ''b''"]) (simp_all add: json_char_def short_escape_def)
  next
    case 9 then show ?thesis by (intro hex) (auto simp: json_char_def Let_def)
  qed
qed

lemma json_char_prefix_free:
  assumes "json_char c @ x = json_char d @ y"
  shows "c = d \<and> x = y"
proof (cases rule: json_char_cases [of c])
  case plain
  with assms show ?thesis by (cases rule: json_char_cases [of d]) auto
next
  case (short e)
  with assms show ?thesis by (cases rule: json_char_cases [of d]) auto
next
  case hex
  with assms show ?thesis
  proof (cases rule: json_char_cases [of d])
    case hex': hex
    let ?m = "of_char c :: nat" and ?n = "of_char d :: nat"
    have "?m div 16 < 16" "?n div 16 < 16"
      using nat_of_char_less_256 [of c] nat_of_char_less_256 [of d] by (simp_all only: less_mult_imp_div_less)
    with assms hex hex' have "?m div 16 = ?n div 16" "?m mod 16 = ?n mod 16" "x = y"
      by (simp_all add: hex_char_inj)
    then show ?thesis by (metis div_mult_mod_eq of_char_eq_iff)
  qed auto
qed

lemma json_char_not_quote: "json_char c @ x \<noteq> CHR 0x22 # y"
  by (cases rule: json_char_cases [of c]) auto

lemma json_str_prefix_free: "json_str s @ x = json_str t @ y \<Longrightarrow> s = t \<and> x = y"
proof -
  assume "json_str s @ x = json_str t @ y"
  then have "concat (map json_char s) @ CHR 0x22 # x = concat (map json_char t) @ CHR 0x22 # y"
    by (simp add: json_str_def)
  then show ?thesis
  proof (induction s arbitrary: t)
    case Nil
    then show ?case by (cases t) (simp_all add: json_char_not_quote [symmetric])
  next
    case (Cons c s)
    then show ?case
    proof (cases t)
      case Nil
      with Cons.prems show ?thesis by (simp add: json_char_not_quote)
    next
      case (Cons d t')
      with Cons.prems have "json_char c @ concat (map json_char s) @ CHR 0x22 # x
          = json_char d @ concat (map json_char t') @ CHR 0x22 # y" by simp
      from json_char_prefix_free [OF this] Cons.IH [of t'] Cons show ?thesis by simp
    qed
  qed
qed

definition delimiter :: "char \<Rightarrow> bool" where
  "delimiter c \<longleftrightarrow> c = CHR '','' \<or> c = CHR '']'' \<or> c = CHR ''}''"

definition delimited :: "string \<Rightarrow> bool" where
  "delimited x \<longleftrightarrow> x = [] \<or> delimiter (hd x)"

lemma nat_str_chars: "c \<in> set (nat_str n) \<Longrightarrow> \<exists>k < 10. c = char_of (48 + k :: nat)"
proof (induction n rule: nat_str.induct)
  case (1 n)
  then show ?case
    by (cases "n < 10") (auto simp: nat_str.simps [of n] simp del: char_of_eq_iff intro: exI [of _ "n mod 10"])
qed

lemma digit_not_delimiter: "k < 10 \<Longrightarrow> \<not> delimiter (char_of (48 + k :: nat))"
  by (auto simp: delimiter_def dest!: arg_cong [where f = "of_char :: char \<Rightarrow> nat"])

lemma int_str_chars: "c \<in> set (int_str i) \<Longrightarrow> \<not> delimiter c"
  using digit_not_delimiter by (auto simp: int_str_def delimiter_def dest!: nat_str_chars split: if_splits)

lemma takeWhile_undelimited:
  "(\<And>c. c \<in> set s \<Longrightarrow> \<not> delimiter c) \<Longrightarrow> delimited x \<Longrightarrow> takeWhile (\<lambda>c. \<not> delimiter c) (s @ x) = s"
  by (cases x) (auto simp: delimited_def takeWhile_tail)

lemma int_str_prefix_free:
  assumes "int_str i @ x = int_str j @ y" and "delimited x" and "delimited y"
  shows "i = j \<and> x = y"
proof -
  have "int_str i = int_str j"
    using assms takeWhile_undelimited [of "int_str i" x] takeWhile_undelimited [of "int_str j" y]
    by (metis int_str_chars)
  with assms(1) show ?thesis by (auto dest: int_str_inj)
qed

text \<open>Comma-separated items before a closing bracket \<open>e\<close>.\<close>

definition ends_at_delimiter :: "('a \<Rightarrow> string) \<Rightarrow> 'a \<Rightarrow> bool" where
  "ends_at_delimiter f v \<longleftrightarrow>
     (\<forall>w x y. delimited x \<longrightarrow> delimited y \<longrightarrow> f v @ x = f w @ y \<longrightarrow> v = w \<and> x = y)"

lemma ends_at_delimiterD:
  "ends_at_delimiter f v \<Longrightarrow> f v @ x = f w @ y \<Longrightarrow> delimited x \<Longrightarrow> delimited y \<Longrightarrow> v = w \<and> x = y"
  by (simp add: ends_at_delimiter_def)

lemma items_delimited: "delimiter e \<Longrightarrow> delimited (concat (map (Cons (CHR '','')) ss) @ e # x)"
  by (cases ss) (simp_all add: delimited_def delimiter_def)

lemma items_prefix_free:
  assumes "delimiter e" and "e \<noteq> CHR '',''" and "\<And>v. v \<in> set vs \<Longrightarrow> ends_at_delimiter f v"
    and "concat (map (Cons (CHR '','')) (map f vs)) @ e # x = concat (map (Cons (CHR '','')) (map f ws)) @ e # y"
  shows "vs = ws \<and> x = y"
  using assms(3,4)
proof (induction vs arbitrary: ws)
  case Nil
  with assms(2) show ?case by (cases ws) auto
next
  case (Cons v vs)
  with assms(2) obtain w ws' where ws: "ws = w # ws'" by (cases ws) auto
  with Cons.prems(2) have "f v @ concat (map (Cons (CHR '','')) (map f vs)) @ e # x
      = f w @ concat (map (Cons (CHR '','')) (map f ws')) @ e # y" by simp
  from ends_at_delimiterD [OF Cons.prems(1) this] Cons.IH [of ws'] Cons.prems(1) ws assms(1)
  show ?case by (simp add: items_delimited del: map_map)
qed

lemma join_comma_prefix_free:
  assumes "delimiter e" and "e \<noteq> CHR '',''" and "\<And>v. v \<in> set vs \<Longrightarrow> ends_at_delimiter f v"
    and "\<And>v. f v \<noteq> [] \<and> hd (f v) \<noteq> e"
    and "join_comma (map f vs) @ e # x = join_comma (map f ws) @ e # y"
  shows "vs = ws \<and> x = y"
proof (cases vs)
  case Nil
  with assms(4,5) show ?thesis
    by (cases ws) (auto simp: append_eq_Cons_conv Cons_eq_append_conv, metis hd_append list.sel(1))
next
  case (Cons v vs')
  show ?thesis
  proof (cases ws)
    case Nil
    with Cons assms(4,5) show ?thesis by simp (metis hd_append list.sel(1))
  next
    case (Cons w ws')
    with \<open>vs = v # vs'\<close> assms(5) have "f v @ concat (map (Cons (CHR '','')) (map f vs')) @ e # x
        = f w @ concat (map (Cons (CHR '','')) (map f ws')) @ e # y" by simp
    from ends_at_delimiterD [OF assms(3) this] items_prefix_free [OF assms(1,2), of vs' f x ws' y]
      Cons \<open>vs = v # vs'\<close> assms(1,3)
    show ?thesis by (simp add: items_delimited del: map_map)
  qed
qed

text \<open>The first character tells the kind of value.\<close>

definition kind_of_char :: "char \<Rightarrow> nat" where
  "kind_of_char c = (if c = CHR ''n'' then 0 else if c = CHR ''t'' then 1 else if c = CHR ''f'' then 2
     else if c = CHR 0x22 then 3 else if c = CHR ''['' then 4 else if c = CHR ''{'' then 5
     else if delimiter c then 6 else 7)"

fun kind_of_json :: "json \<Rightarrow> nat" where
  "kind_of_json JNull = 0"
| "kind_of_json (JBool b) = (if b then 1 else 2)"
| "kind_of_json (JInt n) = 7"
| "kind_of_json (JStr s) = 3"
| "kind_of_json (JList vs) = 4"
| "kind_of_json (JObj d) = 5"

lemma kind_of_digit: "k < 10 \<Longrightarrow> kind_of_char (char_of (48 + k :: nat)) = 7"
  by (auto simp: kind_of_char_def delimiter_def dest!: arg_cong [where f = "of_char :: char \<Rightarrow> nat"] split: if_splits)

lemma kind_of_int_str: "int_str i \<noteq> [] \<and> kind_of_char (hd (int_str i)) = 7"
proof (cases "i < 0")
  case True
  then show ?thesis by (simp add: int_str_def kind_of_char_def delimiter_def)
next
  case False
  have ne: "nat_str (nat i) \<noteq> []" using nat_str_not_minus by blast
  then obtain k :: nat where "k < 10" "hd (nat_str (nat i)) = char_of (48 + k)"
    using nat_str_chars [of "hd (nat_str (nat i))" "nat i"] by auto
  with ne False kind_of_digit show ?thesis by (simp add: int_str_def)
qed

lemma kind_of_render: "json_render v \<noteq> [] \<and> kind_of_char (hd (json_render v)) = kind_of_json v"
  using kind_of_int_str by (cases v) (simp_all add: kind_of_char_def json_str_def)

lemma kind_of_json_range: "kind_of_json v \<noteq> 6"
  by (cases v) simp_all

lemma same_kind:
  assumes "json_render v @ x = json_render w @ y"
  shows "kind_of_json v = kind_of_json w"
  using arg_cong [OF assms, of hd] kind_of_render [of v] kind_of_render [of w] by simp

lemma json_render_not_closing: "json_render v \<noteq> [] \<and> hd (json_render v) \<noteq> CHR '']''"
  using kind_of_render [of v] kind_of_json_range [of v] by (auto simp: kind_of_char_def delimiter_def)

lemma member_not_closing:
  "(case p of (k, v) \<Rightarrow> json_str k @ CHR '':'' # json_render v) \<noteq> []
   \<and> hd (case p of (k, v) \<Rightarrow> json_str k @ CHR '':'' # json_render v) \<noteq> CHR ''}''"
  by (cases p) (simp add: json_str_def)

lemma member_ends_at_delimiter:
  assumes "ends_at_delimiter json_render v"
  shows "ends_at_delimiter (\<lambda>(k, v). json_str k @ CHR '':'' # json_render v) (k, v)"
  unfolding ends_at_delimiter_def
proof (intro allI impI)
  fix p x y
  assume "delimited x" "delimited y"
    and *: "(case (k, v) of (k, v) \<Rightarrow> json_str k @ CHR '':'' # json_render v) @ x
      = (case p of (k, v) \<Rightarrow> json_str k @ CHR '':'' # json_render v) @ y"
  obtain k' v' where p: "p = (k', v')" by fastforce
  from * have "json_str k @ CHR '':'' # json_render v @ x = json_str k' @ CHR '':'' # json_render v' @ y"
    by (simp add: p)
  from json_str_prefix_free [OF this] ends_at_delimiterD [OF assms, of x v' y] \<open>delimited x\<close> \<open>delimited y\<close>
  show "(k, v) = p \<and> x = y" by (simp add: p)
qed

lemma json_render_prefix_free: "ends_at_delimiter json_render v"
proof (induction v)
  case JNull
  show ?case unfolding ends_at_delimiter_def
  proof (intro allI impI)
    fix w x y assume eq: "json_render JNull @ x = json_render w @ y"
    from same_kind [OF eq] eq show "JNull = w \<and> x = y" by (cases w) (auto split: if_splits)
  qed
next
  case (JBool b)
  show ?case unfolding ends_at_delimiter_def
  proof (intro allI impI)
    fix w x y assume eq: "json_render (JBool b) @ x = json_render w @ y"
    from same_kind [OF eq] eq show "JBool b = w \<and> x = y" by (cases w) (auto split: if_splits)
  qed
next
  case (JInt n)
  show ?case unfolding ends_at_delimiter_def
  proof (intro allI impI)
    fix w x y assume "delimited x" "delimited y" and eq: "json_render (JInt n) @ x = json_render w @ y"
    from same_kind [OF eq] obtain m where w: "w = JInt m" by (cases w) (auto split: if_splits)
    with eq int_str_prefix_free [of n x m y] \<open>delimited x\<close> \<open>delimited y\<close> show "JInt n = w \<and> x = y" by simp
  qed
next
  case (JStr s)
  show ?case unfolding ends_at_delimiter_def
  proof (intro allI impI)
    fix w x y assume eq: "json_render (JStr s) @ x = json_render w @ y"
    from same_kind [OF eq] obtain t where "w = JStr t" by (cases w) (auto split: if_splits)
    with eq json_str_prefix_free [of s x t y] show "JStr s = w \<and> x = y" by simp
  qed
next
  case (JList vs)
  show ?case unfolding ends_at_delimiter_def
  proof (intro allI impI)
    fix w x y assume eq: "json_render (JList vs) @ x = json_render w @ y"
    from same_kind [OF eq] obtain ws where w: "w = JList ws" by (cases w) (auto split: if_splits)
    with eq have "join_comma (map json_render vs) @ CHR '']'' # x = join_comma (map json_render ws) @ CHR '']'' # y"
      by simp
    with JList w join_comma_prefix_free [where e = "CHR '']''" and f = json_render and vs = vs]
    show "JList vs = w \<and> x = y" by (simp add: delimiter_def json_render_not_closing)
  qed
next
  case (JObj d)
  show ?case unfolding ends_at_delimiter_def
  proof (intro allI impI)
    let ?f = "\<lambda>(k, v). json_str k @ CHR '':'' # json_render v"
    fix w x y assume eq: "json_render (JObj d) @ x = json_render w @ y"
    from same_kind [OF eq] obtain e where w: "w = JObj e" by (cases w) (auto split: if_splits)
    with eq have "join_comma (map ?f d) @ CHR ''}'' # x = join_comma (map ?f e) @ CHR ''}'' # y"
      by simp
    moreover have "ends_at_delimiter ?f p" if "p \<in> set d" for p
      using JObj [of p "snd p"] that member_ends_at_delimiter by (cases p) auto
    moreover have "delimiter (CHR ''}'')" "CHR ''}'' \<noteq> CHR '',''" by (simp_all add: delimiter_def)
    ultimately have "d = e \<and> x = y"
      using join_comma_prefix_free [of "CHR ''}''" d ?f x e y] member_not_closing by blast
    with w show "JObj d = w \<and> x = y" by simp
  qed
qed

lemma json_render_inj: "json_render v = json_render w \<longleftrightarrow> v = w"
  using ends_at_delimiterD [OF json_render_prefix_free, of v "[]" w "[]"] by (auto simp: delimited_def)

lemma json_dumps_eq_iff: "json_dumps v = json_dumps w \<longleftrightarrow> json_norm v = json_norm w"
  by (simp add: json_dumps_render json_render_inj)

text \<open>
  The canonical form loses nothing: two documents have the same canonical text exactly
  when they differ at most in the order of object keys.
\<close>

theorem canonical_injective: "json_dumps v = json_dumps w \<longleftrightarrow> json_norm v = json_norm w"
  by (rule json_dumps_eq_iff)

end
