(* ===== verification/Integrity.thy ===== *)
theory Integrity
  imports Canonical
begin

text \<open>
  Tamper evidence over the lineage graph (himmy/entities/integrity.py): content hashes, the
  Merkle-rooted audit bundle and the ordered audit chain. \<open>hashlib.sha256(...).hexdigest()\<close>
  is the parameter \<open>sha256\<close>, \<open>hmac\<close> the parameter \<open>mac\<close> (key, message), and Ed25519
  signing and verification are parameters too. Properties that need it assume that
  \<open>sha256\<close> does not collide on the strings that are hashed in the case at hand.
\<close>

section \<open>Content hashes\<close>

definition content_preimage :: "entity_record \<Rightarrow> string" where
  "content_preimage r = json_dumps (JObj
     [(''kind'', JStr (er_kind r)), (''stable_id'', JStr (er_stable_id r)),
      (''version'', JInt (er_version r)), (''payload'', JObj (er_payload r)),
      (''metadata'', JObj (er_metadata r))])"

definition content_hash :: "(string \<Rightarrow> string) \<Rightarrow> entity_record \<Rightarrow> string" where
  "content_hash sha256 r = sha256 (content_preimage r)"

definition link_preimage :: "entity_link \<Rightarrow> string" where
  "link_preimage l = json_dumps (JObj
     [(''from'', JStr (from_record_id l)), (''to'', JStr (to_record_id l)),
      (''relation'', JStr (relation l)), (''metadata'', JObj (link_metadata l))])"

definition link_hash :: "(string \<Rightarrow> string) \<Rightarrow> entity_link \<Rightarrow> string" where
  "link_hash sha256 l = sha256 (link_preimage l)"

text \<open>What a hash covers: everything but the id and the creation instant.\<close>

definition audit_content :: "entity_record \<Rightarrow> string \<times> string \<times> int \<times> json \<times> json" where
  "audit_content r = (er_kind r, er_stable_id r, er_version r,
     json_norm (JObj (er_payload r)), json_norm (JObj (er_metadata r)))"

definition link_content :: "entity_link \<Rightarrow> string \<times> string \<times> string \<times> json" where
  "link_content l = (from_record_id l, to_record_id l, relation l, json_norm (JObj (link_metadata l)))"

lemma json_norm_obj_get:
  assumes "json_norm (JObj a) = json_norm (JObj b)" and "dict_wf a" and "dict_wf b"
  shows "map_option json_norm (map_of a k) = map_option json_norm (map_of b k)"
proof -
  let ?norm = "map (\<lambda>(k, v). (k, json_norm v))"
  have "sort_key fst (?norm a) = sort_key fst (?norm b)" using assms(1) by simp
  then have "set (sort_key fst (?norm a)) = set (sort_key fst (?norm b))" by (rule arg_cong)
  then have "set (?norm a) = set (?norm b)" by (simp only: set_sort)
  with assms(2,3) have "map_of (?norm a) = map_of (?norm b)"
    by (intro map_of_inject_set [THEN iffD2]) simp_all
  moreover have "map_of (?norm d) k = map_option json_norm (map_of d k)" for d
    by (induction d) auto
  ultimately show ?thesis by metis
qed

lemma content_preimage_eq: "content_preimage r = content_preimage r' \<longleftrightarrow> audit_content r = audit_content r'"
proof
  assume "content_preimage r = content_preimage r'"
  then have "json_norm (JObj [(''kind'', JStr (er_kind r)), (''stable_id'', JStr (er_stable_id r)),
      (''version'', JInt (er_version r)), (''payload'', JObj (er_payload r)), (''metadata'', JObj (er_metadata r))])
    = json_norm (JObj [(''kind'', JStr (er_kind r')), (''stable_id'', JStr (er_stable_id r')),
      (''version'', JInt (er_version r')), (''payload'', JObj (er_payload r')), (''metadata'', JObj (er_metadata r'))])"
    by (simp only: content_preimage_def json_dumps_eq_iff)
  note get = json_norm_obj_get [OF this]
  show "audit_content r = audit_content r'"
    using get [of "''kind''"] get [of "''stable_id''"] get [of "''version''"] get [of "''payload''"]
      get [of "''metadata''"]
    by (simp add: audit_content_def del: json_norm.simps(2))
next
  assume "audit_content r = audit_content r'"
  then show "content_preimage r = content_preimage r'"
    unfolding content_preimage_def json_dumps_eq_iff
    by (simp add: audit_content_def)
qed

lemma link_preimage_eq: "link_preimage l = link_preimage l' \<longleftrightarrow> link_content l = link_content l'"
proof
  assume "link_preimage l = link_preimage l'"
  then have "json_norm (JObj [(''from'', JStr (from_record_id l)), (''to'', JStr (to_record_id l)),
      (''relation'', JStr (relation l)), (''metadata'', JObj (link_metadata l))])
    = json_norm (JObj [(''from'', JStr (from_record_id l')), (''to'', JStr (to_record_id l')),
      (''relation'', JStr (relation l')), (''metadata'', JObj (link_metadata l'))])"
    by (simp only: link_preimage_def json_dumps_eq_iff)
  note get = json_norm_obj_get [OF this]
  show "link_content l = link_content l'"
    using get [of "''from''"] get [of "''to''"] get [of "''relation''"] get [of "''metadata''"]
    by (simp add: link_content_def del: json_norm.simps(2))
next
  assume "link_content l = link_content l'"
  then show "link_preimage l = link_preimage l'"
    unfolding link_preimage_def json_dumps_eq_iff
    by (simp add: link_content_def)
qed

section \<open>The Merkle root\<close>

fun merkle_level :: "(string \<Rightarrow> string) \<Rightarrow> string list \<Rightarrow> string list" where
  "merkle_level sha256 (x # y # zs) = sha256 (x @ y) # merkle_level sha256 zs"
| "merkle_level sha256 [x] = [sha256 (x @ x)]"
| "merkle_level sha256 [] = []"

lemma length_merkle_level: "length (merkle_level sha256 xs) = (length xs + 1) div 2"
  by (induction sha256 xs rule: merkle_level.induct) simp_all

function merkle_up :: "(string \<Rightarrow> string) \<Rightarrow> string list \<Rightarrow> string" where
  "merkle_up sha256 level =
     (if length level > 1 then merkle_up sha256 (merkle_level sha256 level) else hd level)"
  by auto
termination
  by (relation "measure (\<lambda>(_, level). length level)") (auto simp: length_merkle_level)

declare merkle_up.simps [simp del]

definition merkle_root :: "(string \<Rightarrow> string) \<Rightarrow> string list \<Rightarrow> string" where
  "merkle_root sha256 leaves =
     (let level = sort leaves in if level = [] then sha256 [] else merkle_up sha256 level)"

section \<open>The audit bundle\<close>

definition AUDIT_BUNDLE_VERSION :: int where
  "AUDIT_BUNDLE_VERSION = 1"

record audit_bundle =
  bundle_version :: int
  bundle_records :: "(string, string) dict"
  bundle_links :: "(string, string) dict"
  bundle_merkle_root :: string
  bundle_signature :: string
  bundle_algorithm :: string

record verification_result =
  vr_ok :: bool
  signature_valid :: bool
  tampered_record_ids :: "string list"
  missing_record_ids :: "string list"
  added_record_ids :: "string list"
  tampered_link_ids :: "string list"
  missing_link_ids :: "string list"
  added_link_ids :: "string list"

text \<open>The dictionary comprehension \<open>{key(x): hash(x) for x in xs}\<close>.\<close>

definition hash_map :: "('a \<Rightarrow> string) \<Rightarrow> ('a \<Rightarrow> string) \<Rightarrow> 'a list \<Rightarrow> (string, string) dict" where
  "hash_map key h xs = fold (\<lambda>x. AList.update (key x) (h x)) xs []"

definition export_audit_bundle ::
  "(string \<Rightarrow> string) \<Rightarrow> (string \<Rightarrow> string \<Rightarrow> string) \<Rightarrow> entity_record list \<Rightarrow> entity_link list \<Rightarrow> string
     \<Rightarrow> audit_bundle" where
  "export_audit_bundle sha256 mac records links secret =
     (let record_hashes = hash_map er_record_id (content_hash sha256) records;
          link_hashes = hash_map link_id (link_hash sha256) links;
          root = merkle_root sha256 (dict_values record_hashes @ dict_values link_hashes)
      in \<lparr>bundle_version = AUDIT_BUNDLE_VERSION, bundle_records = record_hashes, bundle_links = link_hashes,
          bundle_merkle_root = root, bundle_signature = mac secret root,
          bundle_algorithm = ''HMAC-SHA256''\<rparr>)"

text \<open>The three divergence lists of one dictionary against the live one.\<close>

definition tampered_ids :: "(string, string) dict \<Rightarrow> (string, string) dict \<Rightarrow> string list" where
  "tampered_ids signed live =
     map fst (filter (\<lambda>(k, h). case map_of live k of None \<Rightarrow> False | Some h' \<Rightarrow> h' \<noteq> h) signed)"

definition missing_ids :: "(string, string) dict \<Rightarrow> (string, string) dict \<Rightarrow> string list" where
  "missing_ids signed live = filter (\<lambda>k. map_of live k = None) (map fst signed)"

definition added_ids :: "(string, string) dict \<Rightarrow> (string, string) dict \<Rightarrow> string list" where
  "added_ids signed live = filter (\<lambda>k. map_of signed k = None) (map fst live)"

definition verify_audit_bundle ::
  "(string \<Rightarrow> string) \<Rightarrow> (string \<Rightarrow> string \<Rightarrow> string) \<Rightarrow> audit_bundle \<Rightarrow> entity_record list \<Rightarrow> entity_link list
     \<Rightarrow> string \<Rightarrow> verification_result" where
  "verify_audit_bundle sha256 mac bundle records links secret =
     (let valid = (bundle_signature bundle = mac secret (bundle_merkle_root bundle));
          live_records = hash_map er_record_id (content_hash sha256) records;
          live_links = hash_map link_id (link_hash sha256) links;
          tampered_records = tampered_ids (bundle_records bundle) live_records;
          missing_records = missing_ids (bundle_records bundle) live_records;
          added_records = added_ids (bundle_records bundle) live_records;
          tampered_links = tampered_ids (bundle_links bundle) live_links;
          missing_links = missing_ids (bundle_links bundle) live_links;
          added_links = added_ids (bundle_links bundle) live_links
      in \<lparr>vr_ok = (valid \<and> tampered_records = [] \<and> missing_records = [] \<and> added_records = []
                  \<and> tampered_links = [] \<and> missing_links = [] \<and> added_links = []),
          signature_valid = valid, tampered_record_ids = tampered_records,
          missing_record_ids = missing_records, added_record_ids = added_records,
          tampered_link_ids = tampered_links, missing_link_ids = missing_links,
          added_link_ids = added_links\<rparr>)"

text \<open>The Ed25519 variants; \<open>sign\<close> and \<open>check\<close> are the library's operations.\<close>

definition export_audit_bundle_ed25519 ::
  "(string \<Rightarrow> string) \<Rightarrow> (string \<Rightarrow> string \<Rightarrow> string) \<Rightarrow> entity_record list \<Rightarrow> entity_link list \<Rightarrow> string
     \<Rightarrow> audit_bundle" where
  "export_audit_bundle_ed25519 sha256 sign records links private_pem =
     (let record_hashes = hash_map er_record_id (content_hash sha256) records;
          link_hashes = hash_map link_id (link_hash sha256) links;
          root = merkle_root sha256 (dict_values record_hashes @ dict_values link_hashes)
      in \<lparr>bundle_version = AUDIT_BUNDLE_VERSION, bundle_records = record_hashes, bundle_links = link_hashes,
          bundle_merkle_root = root, bundle_signature = sign root private_pem,
          bundle_algorithm = ''Ed25519''\<rparr>)"

definition verify_audit_bundle_ed25519 ::
  "(string \<Rightarrow> string) \<Rightarrow> (string \<Rightarrow> string \<Rightarrow> string) \<Rightarrow> (string \<Rightarrow> string \<Rightarrow> string \<Rightarrow> bool)
     \<Rightarrow> audit_bundle \<Rightarrow> entity_record list \<Rightarrow> entity_link list \<Rightarrow> string \<Rightarrow> verification_result" where
  "verify_audit_bundle_ed25519 sha256 mac check bundle records links public_pem =
     (let base = verify_audit_bundle sha256 mac bundle records links [];
          valid = check (bundle_merkle_root bundle) (bundle_signature bundle) public_pem
      in base\<lparr>signature_valid := valid,
              vr_ok := (valid \<and> tampered_record_ids base = [] \<and> missing_record_ids base = []
                \<and> added_record_ids base = [] \<and> tampered_link_ids base = []
                \<and> missing_link_ids base = [] \<and> added_link_ids base = [])\<rparr>)"

section \<open>What the bundle detects\<close>

lemma hash_map_wf: "dict_wf (hash_map key h xs)"
proof -
  have "dict_wf d \<Longrightarrow> dict_wf (fold (\<lambda>x. AList.update (key x) (h x)) xs d)" for d
    by (induction xs arbitrary: d) simp_all
  then show ?thesis by (simp add: hash_map_def)
qed

lemma get_hash_map:
  assumes "distinct (map key xs)"
  shows "map_of (hash_map key h xs) k = Some v \<longleftrightarrow> (\<exists>x \<in> set xs. key x = k \<and> h x = v)"
proof -
  have "map_of (fold (\<lambda>x. AList.update (key x) (h x)) xs d) k = Some v \<longleftrightarrow>
      (\<exists>x \<in> set xs. key x = k \<and> h x = v) \<or> k \<notin> key ` set xs \<and> map_of d k = Some v" for d
    using assms by (induction xs arbitrary: d) auto
  then show ?thesis by (simp add: hash_map_def)
qed

lemma set_tampered_ids:
  "dict_wf signed \<Longrightarrow> set (tampered_ids signed live)
    = {k. \<exists>h h'. map_of signed k = Some h \<and> map_of live k = Some h' \<and> h' \<noteq> h}"
  unfolding tampered_ids_def dict_get_iff [of signed]
  by (auto simp: image_iff split: option.splits)

lemma set_missing_ids: "set (missing_ids signed live) = {k. map_of signed k \<noteq> None \<and> map_of live k = None}"
  by (auto simp: missing_ids_def map_of_eq_None_iff)

lemma set_added_ids: "set (added_ids signed live) = {k. map_of live k \<noteq> None \<and> map_of signed k = None}"
  by (auto simp: added_ids_def map_of_eq_None_iff)

text \<open>Signed and live dictionary compared through the content behind the hashes.\<close>

lemma no_divergence_iff:
  assumes "distinct (map key xs)" and "distinct (map key ys)"
    and hash: "\<And>x y. x \<in> set xs \<Longrightarrow> y \<in> set ys \<Longrightarrow> h x = h y \<longleftrightarrow> c x = c y"
  shows "tampered_ids (hash_map key h xs) (hash_map key h ys) = []
      \<and> missing_ids (hash_map key h xs) (hash_map key h ys) = []
      \<and> added_ids (hash_map key h xs) (hash_map key h ys) = []
    \<longleftrightarrow> (\<lambda>x. (key x, c x)) ` set xs = (\<lambda>x. (key x, c x)) ` set ys" (is "?none \<longleftrightarrow> ?same")
proof -
  have get: "map_of (hash_map key h xs) k = Some v \<longleftrightarrow> (\<exists>x \<in> set xs. key x = k \<and> h x = v)"
      "map_of (hash_map key h ys) k = Some v \<longleftrightarrow> (\<exists>x \<in> set ys. key x = k \<and> h x = v)" for k v
    using assms(1,2) by (simp_all add: get_hash_map)
  have "?none \<longleftrightarrow> (\<forall>k. map_of (hash_map key h xs) k = map_of (hash_map key h ys) k)"
  proof
    assume ?none
    show "\<forall>k. map_of (hash_map key h xs) k = map_of (hash_map key h ys) k"
    proof
      fix k
      from \<open>?none\<close> have "k \<notin> set (tampered_ids (hash_map key h xs) (hash_map key h ys))"
        "k \<notin> set (missing_ids (hash_map key h xs) (hash_map key h ys))"
        "k \<notin> set (added_ids (hash_map key h xs) (hash_map key h ys))" by simp_all
      then show "map_of (hash_map key h xs) k = map_of (hash_map key h ys) k"
        unfolding set_tampered_ids [OF hash_map_wf] set_missing_ids set_added_ids
        by (cases "map_of (hash_map key h xs) k"; cases "map_of (hash_map key h ys) k") simp_all
    qed
  next
    assume "\<forall>k. map_of (hash_map key h xs) k = map_of (hash_map key h ys) k"
    then have "set (tampered_ids (hash_map key h xs) (hash_map key h ys)) = {}"
      "set (missing_ids (hash_map key h xs) (hash_map key h ys)) = {}"
      "set (added_ids (hash_map key h xs) (hash_map key h ys)) = {}"
      unfolding set_tampered_ids [OF hash_map_wf] set_missing_ids set_added_ids by auto
    then show ?none by simp
  qed
  also have "\<dots> \<longleftrightarrow> (\<forall>k v. map_of (hash_map key h xs) k = Some v \<longleftrightarrow> map_of (hash_map key h ys) k = Some v)"
    by (metis not_None_eq)
  also have "\<dots> \<longleftrightarrow> (\<forall>k v. (\<exists>x \<in> set xs. key x = k \<and> h x = v) \<longleftrightarrow> (\<exists>x \<in> set ys. key x = k \<and> h x = v))"
    by (simp only: get)
  also have "\<dots> \<longleftrightarrow> ?same"
    using hash by (auto simp: set_eq_iff image_iff) (metis, metis)+
  finally show ?thesis .
qed

lemma images_differ:
  "(\<exists>h h'. (\<exists>x \<in> A. k x = i \<and> f x = h) \<and> (\<exists>y \<in> B. k y = i \<and> f y = h') \<and> h' \<noteq> h) \<longleftrightarrow>
   (\<exists>x \<in> A. \<exists>y \<in> B. k x = i \<and> k y = i \<and> f x \<noteq> f y)"
  by metis

lemma content_hash_eq_iff:
  "inj_on sha256 A \<Longrightarrow> content_preimage r \<in> A \<Longrightarrow> content_preimage r' \<in> A \<Longrightarrow>
   content_hash sha256 r = content_hash sha256 r' \<longleftrightarrow> audit_content r = audit_content r'"
  by (simp add: content_hash_def inj_on_eq_iff content_preimage_eq)

lemma link_hash_eq_iff:
  "inj_on sha256 A \<Longrightarrow> link_preimage l \<in> A \<Longrightarrow> link_preimage l' \<in> A \<Longrightarrow>
   link_hash sha256 l = link_hash sha256 l' \<longleftrightarrow> link_content l = link_content l'"
  by (simp add: link_hash_def inj_on_eq_iff link_preimage_eq)

lemmas bundle_defs = export_audit_bundle_def verify_audit_bundle_def

text \<open>
  An audit bundle detects every change of the graph: against a bundle exported with the
  same secret, verification succeeds exactly when records and links are the exported ones
  up to order and creation instants, and it names as tampered, missing and added exactly
  the record ids whose content differs, that are gone, and that are new.
\<close>

theorem audit_bundle_detects_changes:
  assumes ids: "distinct (map er_record_id recs)" "distinct (map er_record_id recs')"
      "distinct (map link_id links)" "distinct (map link_id links')"
    and inj: "inj_on sha256 (content_preimage ` (set recs \<union> set recs') \<union> link_preimage ` (set links \<union> set links'))"
    and res: "res = verify_audit_bundle sha256 mac (export_audit_bundle sha256 mac recs links secret) recs' links' secret"
  shows "(vr_ok res \<longleftrightarrow>
        (\<lambda>r. (er_record_id r, audit_content r)) ` set recs = (\<lambda>r. (er_record_id r, audit_content r)) ` set recs'
      \<and> (\<lambda>l. (link_id l, link_content l)) ` set links = (\<lambda>l. (link_id l, link_content l)) ` set links')
    \<and> set (tampered_record_ids res) = {rid. \<exists>r \<in> set recs. \<exists>r' \<in> set recs'.
        er_record_id r = rid \<and> er_record_id r' = rid \<and> audit_content r \<noteq> audit_content r'}
    \<and> set (missing_record_ids res) = er_record_id ` set recs - er_record_id ` set recs'
    \<and> set (added_record_ids res) = er_record_id ` set recs' - er_record_id ` set recs"
proof -
  have rh: "content_hash sha256 r = content_hash sha256 r' \<longleftrightarrow> audit_content r = audit_content r'"
    if "r \<in> set recs" "r' \<in> set recs'" for r r'
    using that by (intro content_hash_eq_iff [OF inj]) auto
  have lh: "link_hash sha256 l = link_hash sha256 l' \<longleftrightarrow> link_content l = link_content l'"
    if "l \<in> set links" "l' \<in> set links'" for l l'
    using that by (intro link_hash_eq_iff [OF inj]) auto
  have ok: "vr_ok res \<longleftrightarrow>
        (\<lambda>r. (er_record_id r, audit_content r)) ` set recs = (\<lambda>r. (er_record_id r, audit_content r)) ` set recs'
      \<and> (\<lambda>l. (link_id l, link_content l)) ` set links = (\<lambda>l. (link_id l, link_content l)) ` set links'"
    by (subst no_divergence_iff [OF ids(1,2) rh, symmetric], assumption, assumption,
        subst no_divergence_iff [OF ids(3,4) lh, symmetric], assumption, assumption)
      (simp add: res bundle_defs Let_def)
  have none: "map_of (hash_map er_record_id (content_hash sha256) xs) rid = None \<longleftrightarrow> rid \<notin> er_record_id ` set xs"
    if "distinct (map er_record_id xs)" for xs rid
    using get_hash_map [OF that, of "content_hash sha256" rid] by (auto simp: option.simps(3) not_Some_eq [symmetric])
  have "set (tampered_record_ids res) = {rid. \<exists>r \<in> set recs. \<exists>r' \<in> set recs'.
        er_record_id r = rid \<and> er_record_id r' = rid \<and> audit_content r \<noteq> audit_content r'}"
  proof -
    have lists: "tampered_record_ids res = tampered_ids (hash_map er_record_id (content_hash sha256) recs)
        (hash_map er_record_id (content_hash sha256) recs')"
      by (simp add: res bundle_defs Let_def)
    have "set (tampered_record_ids res) = {rid. \<exists>r \<in> set recs. \<exists>r' \<in> set recs'.
        er_record_id r = rid \<and> er_record_id r' = rid \<and> content_hash sha256 r \<noteq> content_hash sha256 r'}"
      unfolding lists set_tampered_ids [OF hash_map_wf] get_hash_map [OF ids(1)] get_hash_map [OF ids(2)]
      by (simp only: images_differ)
    then show ?thesis by (simp add: rh cong: bex_cong)
  qed
  with ok none [OF ids(1)] none [OF ids(2)] show ?thesis
    by (auto simp: res bundle_defs Let_def set_missing_ids set_added_ids)
qed

text \<open>
  The record and link tables of a bundle are not bound to its signature: whatever graph
  is live, anybody can replace the two tables of a signed bundle by the hashes of that
  graph, keep root and signature, and verification succeeds; the Merkle root is never
  recomputed from the tables.
\<close>

theorem bundle_tables_not_bound:
  assumes "bundle_signature b = mac secret (bundle_merkle_root b)"
  shows "vr_ok (verify_audit_bundle sha256 mac
      (b\<lparr>bundle_records := hash_map er_record_id (content_hash sha256) recs,
         bundle_links := hash_map link_id (link_hash sha256) links\<rparr>) recs links secret)"
proof -
  have "tampered_ids d d = [] \<and> missing_ids d d = [] \<and> added_ids d d = []" if "dict_wf d" for d
    unfolding set_empty [symmetric] set_tampered_ids [OF that] set_missing_ids set_added_ids by auto
  then show ?thesis
    using assms by (simp add: verify_audit_bundle_def Let_def hash_map_wf)
qed

text \<open>
  The Merkle root does not depend on the order of the leaves, as documented; it does
  not determine them either: with an odd number of leaves the last one is paired with
  itself, so repeating the greatest of three leaves gives the same root.
\<close>

theorem merkle_root_order_independent:
  assumes "mset leaves = mset leaves'"
  shows "merkle_root sha256 leaves = merkle_root sha256 leaves'
    \<and> (a \<le> b \<and> b \<le> c \<longrightarrow> merkle_root sha256 [a, b, c] = merkle_root sha256 [a, b, c, c])"
proof -
  have "sort leaves = sort leaves'"
    using assms by (metis mset_sort properties_for_sort sorted_sort)
  moreover have "merkle_root sha256 [a, b, c] = merkle_root sha256 [a, b, c, c]" if "a \<le> b" "b \<le> c"
    using that by (simp add: merkle_root_def Let_def merkle_up.simps [of _ "[a, b, c]"]
        merkle_up.simps [of _ "[a, b, c, c]"])
  ultimately show ?thesis by (simp add: merkle_root_def)
qed

definition demo_hash :: "string \<Rightarrow> string" where
  "demo_hash s = concat (map (\<lambda>c. [hex_char (of_char c div 16), hex_char (of_char c mod 16)]) s)"

lemma demo_hash_inj: "inj demo_hash"
proof (rule injI)
  fix s t
  have byte: "of_char c div 16 < (16 :: nat)" for c
    using nat_of_char_less_256 [of c] by (simp only: less_mult_imp_div_less)
  show "demo_hash s = demo_hash t \<Longrightarrow> s = t"
  proof (induction s arbitrary: t)
    case Nil
    then show ?case by (cases t) (simp_all add: demo_hash_def)
  next
    case (Cons c s)
    then obtain d t' where t: "t = d # t'" by (cases t) (simp_all add: demo_hash_def)
    with Cons.prems byte have "of_char c div 16 = (of_char d div 16 :: nat)" "of_char c mod 16 = (of_char d mod 16 :: nat)"
      and "demo_hash s = demo_hash t'"
      by (simp_all add: demo_hash_def hex_char_inj)
    with Cons.IH t show ?case by (metis div_mult_mod_eq of_char_eq_iff)
  qed
qed

definition demo_audit_record :: "string \<Rightarrow> int \<Rightarrow> entity_record" where
  "demo_audit_record rid n =
     \<lparr>er_record_id = rid, er_stable_id = ''s'', er_version = n, er_kind = ''security_event'',
      er_payload = [(''n'', JInt n)], er_metadata = [], er_created_at = 0\<rparr>"

lemma demo_audit_record_simps:
  "er_record_id (demo_audit_record rid n) = rid"
  "audit_content (demo_audit_record rid n) = audit_content (demo_audit_record rid' n') \<longleftrightarrow> n = n'"
  by (auto simp: demo_audit_record_def audit_content_def)

theorem audit_bundle_detects_changes_witness:
  "let b = export_audit_bundle demo_hash (\<lambda>k m. m @ k) [demo_audit_record ''a'' 1, demo_audit_record ''b'' 2] [] ''key'';
       res = verify_audit_bundle demo_hash (\<lambda>k m. m @ k) b [demo_audit_record ''b'' 3, demo_audit_record ''c'' 4] [] ''key''
   in set (tampered_record_ids res) = {''b''} \<and> set (missing_record_ids res) = {''a''}
      \<and> set (added_record_ids res) = {''c''}"
proof -
  let ?recs = "[demo_audit_record ''a'' 1, demo_audit_record ''b'' 2]"
    and ?recs' = "[demo_audit_record ''b'' 3, demo_audit_record ''c'' 4]"
  have inj: "inj_on demo_hash A" for A
    using demo_hash_inj by (rule inj_on_subset) simp
  have ids: "distinct (map er_record_id ?recs)" "distinct (map er_record_id ?recs')"
    "distinct (map link_id [])" "distinct (map link_id [])"
    by (simp_all add: demo_audit_record_simps)
  note detects = audit_bundle_detects_changes [OF ids inj refl, of "\<lambda>k m. m @ k" "''key''", THEN conjunct2]
  show ?thesis
    unfolding Let_def conjunct1 [OF detects] conjunct1 [OF conjunct2 [OF detects]] conjunct2 [OF conjunct2 [OF detects]]
    by (auto simp: demo_audit_record_simps)
qed

theorem bundle_tables_not_bound_witness:
  "let b = export_audit_bundle demo_hash (\<lambda>k m. m @ k) [demo_audit_record ''a'' 1] [] ''key''
   in vr_ok (verify_audit_bundle demo_hash (\<lambda>k m. m @ k)
        (b\<lparr>bundle_records := hash_map er_record_id (content_hash demo_hash) [demo_audit_record ''a'' 99],
           bundle_links := hash_map link_id (link_hash demo_hash) []\<rparr>)
        [demo_audit_record ''a'' 99] [] ''key'')"
  unfolding Let_def
  by (rule bundle_tables_not_bound) (simp add: export_audit_bundle_def Let_def)

theorem merkle_root_order_independent_witness:
  "merkle_root demo_hash [''b'', ''a''] = merkle_root demo_hash [''a'', ''b'']
   \<and> merkle_root demo_hash [''a'', ''b'', ''c''] = merkle_root demo_hash [''a'', ''b'', ''c'', ''c'']"
  using merkle_root_order_independent [of "[''b'', ''a'']" "[''a'', ''b'']" demo_hash "''a''" "''b''" "''c''"]
  by (simp add: less_eq_char_def less_char_def)

end
