(* ===== verification/AuditChain.thy ===== *)
theory AuditChain
  imports Integrity
begin

text \<open>
  The ordered audit chain of himmy/entities/integrity.py: each entry binds its predecessor,
  the tip is signed, and verification recomputes the tip and classifies each divergent id.
  A hex digest contains no colon, which is what makes \<open>prev:leaf\<close> unambiguous.
\<close>

definition genesis_text :: string where
  "genesis_text = ''himmy-audit-chain:genesis''"

definition chain_step :: "(string \<Rightarrow> string) \<Rightarrow> string \<Rightarrow> string \<Rightarrow> string" where
  "chain_step sha256 prev leaf = sha256 (prev @ CHR '':'' # leaf)"

definition CHAIN_GENESIS_HASH :: "(string \<Rightarrow> string) \<Rightarrow> string" where
  "CHAIN_GENESIS_HASH sha256 = sha256 genesis_text"

record chain_entry =
  ce_record_id :: string
  ce_content_hash :: string
  ce_prev_hash :: string
  ce_chain_hash :: string

record audit_chain_bundle =
  acb_version :: int
  acb_entries :: "chain_entry list"
  acb_tip_hash :: string
  acb_signature :: string
  acb_algorithm :: string

record chain_verification_result =
  cv_ok :: bool
  cv_signature_valid :: bool
  chain_intact :: bool
  first_break_index :: "nat option"
  cv_tampered :: "string list"
  cv_reordered :: "string list"
  cv_missing :: "string list"
  cv_added :: "string list"

text \<open>The loop of \<open>export_audit_chain\<close>: the entries and the tip from a given \<open>prev\<close>.\<close>

fun chain_entries ::
  "(string \<Rightarrow> string) \<Rightarrow> string \<Rightarrow> entity_record list \<Rightarrow> chain_entry list \<times> string" where
  "chain_entries sha256 prev [] = ([], prev)"
| "chain_entries sha256 prev (r # rs) =
     (let leaf = content_hash sha256 r;
          chained = chain_step sha256 prev leaf
      in case chain_entries sha256 chained rs of (es, tip) \<Rightarrow>
           (\<lparr>ce_record_id = er_record_id r, ce_content_hash = leaf, ce_prev_hash = prev,
             ce_chain_hash = chained\<rparr> # es, tip))"

definition export_audit_chain ::
  "(string \<Rightarrow> string) \<Rightarrow> (string \<Rightarrow> string \<Rightarrow> string) \<Rightarrow> entity_record list \<Rightarrow> string \<Rightarrow> audit_chain_bundle" where
  "export_audit_chain sha256 mac records secret =
     (case chain_entries sha256 (CHAIN_GENESIS_HASH sha256) records of (es, tip) \<Rightarrow>
        \<lparr>acb_version = AUDIT_BUNDLE_VERSION, acb_entries = es, acb_tip_hash = tip,
         acb_signature = mac secret tip, acb_algorithm = ''HMAC-SHA256''\<rparr>)"

section \<open>Verification\<close>

text \<open>The state of the positional walk, and \<open>_flag\<close>: an id is put in one list only.\<close>

record chain_walk =
  cw_tampered :: "string list"
  cw_reordered :: "string list"
  cw_missing :: "string list"
  cw_added :: "string list"
  cw_flagged :: "string list"

datatype divergence = Tampered | Reordered | Missing | Added

definition flag :: "divergence \<Rightarrow> string \<Rightarrow> chain_walk \<Rightarrow> chain_walk" where
  "flag kind rid w =
     (if rid \<in> set (cw_flagged w) then w
      else
        let w = w\<lparr>cw_flagged := rid # cw_flagged w\<rparr>
        in case kind of
             Tampered \<Rightarrow> w\<lparr>cw_tampered := cw_tampered w @ [rid]\<rparr>
           | Reordered \<Rightarrow> w\<lparr>cw_reordered := cw_reordered w @ [rid]\<rparr>
           | Missing \<Rightarrow> w\<lparr>cw_missing := cw_missing w @ [rid]\<rparr>
           | Added \<Rightarrow> w\<lparr>cw_added := cw_added w @ [rid]\<rparr>)"

text \<open>One position: the signed pair and the live pair there, as far as they exist.\<close>

definition chain_position ::
  "string list \<Rightarrow> string list \<Rightarrow> (string \<times> string) option \<Rightarrow> (string \<times> string) option \<Rightarrow> chain_walk
     \<Rightarrow> bool \<times> chain_walk" where
  "chain_position bundle_ids live_ids entry pair w =
     (let live_kind = (\<lambda>rid. if rid \<in> set bundle_ids then Reordered else Added);
          entry_kind = (\<lambda>rid. if rid \<in> set live_ids then Reordered else Missing)
      in case (entry, pair) of
           (Some (eid, eh), Some (rid, leaf)) \<Rightarrow>
             if rid = eid then
               (if leaf \<noteq> eh then (True, flag Tampered rid w) else (False, w))
             else (True, flag (entry_kind eid) eid (flag (live_kind rid) rid w))
         | (None, Some (rid, _)) \<Rightarrow> (True, flag (live_kind rid) rid w)
         | (Some (eid, _), None) \<Rightarrow> (True, flag (entry_kind eid) eid w)
         | (None, None) \<Rightarrow> (False, w))"

text \<open>The loop over \<open>range(max(len(entries), len(live)))\<close> from index \<open>i\<close> on.\<close>

fun chain_positions ::
  "string list \<Rightarrow> string list \<Rightarrow> nat \<Rightarrow> (string \<times> string) list \<Rightarrow> (string \<times> string) list
     \<Rightarrow> nat option \<Rightarrow> chain_walk \<Rightarrow> nat option \<times> chain_walk" where
  "chain_positions bids lids i [] [] brk w = (brk, w)"
| "chain_positions bids lids i (e # es) [] brk w =
     (let (diverged, w') = chain_position bids lids (Some e) None w
      in chain_positions bids lids (Suc i) es [] (if diverged \<and> brk = None then Some i else brk) w')"
| "chain_positions bids lids i [] (p # ps) brk w =
     (let (diverged, w') = chain_position bids lids None (Some p) w
      in chain_positions bids lids (Suc i) [] ps (if diverged \<and> brk = None then Some i else brk) w')"
| "chain_positions bids lids i (e # es) (p # ps) brk w =
     (let (diverged, w') = chain_position bids lids (Some e) (Some p) w
      in chain_positions bids lids (Suc i) es ps (if diverged \<and> brk = None then Some i else brk) w')"

definition empty_chain_walk :: chain_walk where
  "empty_chain_walk = \<lparr>cw_tampered = [], cw_reordered = [], cw_missing = [], cw_added = [], cw_flagged = []\<rparr>"

definition entry_pair :: "chain_entry \<Rightarrow> string \<times> string" where
  "entry_pair e = (ce_record_id e, ce_content_hash e)"

definition verify_audit_chain ::
  "(string \<Rightarrow> string) \<Rightarrow> (string \<Rightarrow> string \<Rightarrow> string) \<Rightarrow> audit_chain_bundle \<Rightarrow> entity_record list \<Rightarrow> string
     \<Rightarrow> chain_verification_result" where
  "verify_audit_chain sha256 mac bundle records secret =
     (let valid = (acb_signature bundle = mac secret (acb_tip_hash bundle));
          live = map (\<lambda>r. (er_record_id r, content_hash sha256 r)) records;
          live_tip = fold (\<lambda>(_, leaf) h. chain_step sha256 h leaf) live (CHAIN_GENESIS_HASH sha256);
          intact = (live_tip = acb_tip_hash bundle);
          signed = map entry_pair (acb_entries bundle)
      in case chain_positions (map fst signed) (map fst live) 0 signed live None empty_chain_walk of
           (brk, w) \<Rightarrow>
             \<lparr>cv_ok = (valid \<and> intact), cv_signature_valid = valid, chain_intact = intact,
              first_break_index = brk, cv_tampered = cw_tampered w, cv_reordered = cw_reordered w,
              cv_missing = cw_missing w, cv_added = cw_added w\<rparr>)"

section \<open>The tip determines the sequence\<close>

definition tip_from :: "(string \<Rightarrow> string) \<Rightarrow> string \<Rightarrow> string list \<Rightarrow> string" where
  "tip_from sha256 h leaves = fold (\<lambda>leaf h. chain_step sha256 h leaf) leaves h"

text \<open>The strings hashed on the way.\<close>

fun chain_strings :: "(string \<Rightarrow> string) \<Rightarrow> string \<Rightarrow> string list \<Rightarrow> string set" where
  "chain_strings sha256 h [] = {}"
| "chain_strings sha256 h (l # ls) =
     insert (h @ CHR '':'' # l) (chain_strings sha256 (chain_step sha256 h l) ls)"

definition hex_output :: "(string \<Rightarrow> string) \<Rightarrow> bool" where
  "hex_output sha256 \<longleftrightarrow> (\<forall>s. set (sha256 s) \<subseteq> hex_char ` {..<16})"

lemma colon_not_hex: "CHR '':'' \<notin> hex_char ` {..<16}"
  by (auto simp: hex_char_def dest!: arg_cong [where f = "of_char :: char \<Rightarrow> nat"] split: if_splits)

lemma h_not_hex: "CHR ''h'' \<notin> hex_char ` {..<16}"
  by (auto simp: hex_char_def dest!: arg_cong [where f = "of_char :: char \<Rightarrow> nat"] split: if_splits)

lemma split_at_colon:
  "CHR '':'' \<notin> set a \<Longrightarrow> CHR '':'' \<notin> set b \<Longrightarrow> a @ CHR '':'' # x = b @ CHR '':'' # y \<Longrightarrow> a = b \<and> x = y"
proof (induction a arbitrary: b)
  case Nil
  then show ?case by (cases b) auto
next
  case (Cons c a)
  then show ?case by (cases b) auto
qed

lemma tip_from_simps [simp]:
  "tip_from sha256 h [] = h"
  "tip_from sha256 h (l # ls) = tip_from sha256 (chain_step sha256 h l) ls"
  "tip_from sha256 h (ls @ [l]) = chain_step sha256 (tip_from sha256 h ls) l"
  by (simp_all add: tip_from_def)

lemma chain_strings_snoc:
  "chain_strings sha256 h (ls @ [l]) = insert (tip_from sha256 h ls @ CHR '':'' # l) (chain_strings sha256 h ls)"
  by (induction ls arbitrary: h) auto

lemma tip_no_colon:
  assumes "hex_output sha256"
  shows "set (tip_from sha256 (CHAIN_GENESIS_HASH sha256) ls) \<subseteq> hex_char ` {..<16}"
  using assms
  by (cases ls rule: rev_cases) (auto simp: hex_output_def CHAIN_GENESIS_HASH_def chain_step_def)

definition tip_strings :: "(string \<Rightarrow> string) \<Rightarrow> string list \<Rightarrow> string set" where
  "tip_strings sha256 ls = insert genesis_text (chain_strings sha256 (CHAIN_GENESIS_HASH sha256) ls)"

lemma genesis_not_step:
  assumes "hex_output sha256"
  shows "tip_from sha256 (CHAIN_GENESIS_HASH sha256) ls @ CHR '':'' # l \<noteq> genesis_text"
proof
  let ?t = "tip_from sha256 (CHAIN_GENESIS_HASH sha256) ls"
  assume eq: "?t @ CHR '':'' # l = genesis_text"
  have "CHR ''h'' \<notin> set ?t" using tip_no_colon [OF assms, of ls] h_not_hex by blast
  with eq show False by (cases ?t) (auto simp: genesis_text_def)
qed

lemma tip_inj:
  assumes "hex_output sha256" and "inj_on sha256 (tip_strings sha256 ls \<union> tip_strings sha256 ls')"
    and "tip_from sha256 (CHAIN_GENESIS_HASH sha256) ls = tip_from sha256 (CHAIN_GENESIS_HASH sha256) ls'"
  shows "ls = ls'"
  using assms(2,3)
proof (induction ls arbitrary: ls' rule: rev_induct)
  let ?g = "CHAIN_GENESIS_HASH sha256"
  case Nil
  show ?case
  proof (cases ls' rule: rev_cases)
    case (snoc ys y)
    with Nil.prems have "sha256 genesis_text = sha256 (tip_from sha256 ?g ys @ CHR '':'' # y)"
      by (simp add: chain_step_def CHAIN_GENESIS_HASH_def)
    then have "genesis_text = tip_from sha256 ?g ys @ CHR '':'' # y"
      by (rule inj_onD [OF Nil.prems(1)]) (simp_all add: snoc tip_strings_def chain_strings_snoc)
    with genesis_not_step [OF assms(1), of ys y] show ?thesis by simp
  qed simp
next
  let ?g = "CHAIN_GENESIS_HASH sha256"
  case (snoc x xs)
  show ?case
  proof (cases ls' rule: rev_cases)
    case Nil
    with snoc.prems have "sha256 (tip_from sha256 ?g xs @ CHR '':'' # x) = sha256 genesis_text"
      by (simp add: chain_step_def CHAIN_GENESIS_HASH_def)
    then have "tip_from sha256 ?g xs @ CHR '':'' # x = genesis_text"
      by (rule inj_onD [OF snoc.prems(1)]) (simp_all add: Nil tip_strings_def chain_strings_snoc)
    with genesis_not_step [OF assms(1), of xs x] show ?thesis by simp
  next
    case ls': (snoc ys y)
    with snoc.prems have "sha256 (tip_from sha256 ?g xs @ CHR '':'' # x) = sha256 (tip_from sha256 ?g ys @ CHR '':'' # y)"
      by (simp add: chain_step_def)
    moreover have "tip_from sha256 ?g xs @ CHR '':'' # x \<in> tip_strings sha256 (xs @ [x]) \<union> tip_strings sha256 ls'"
      and "tip_from sha256 ?g ys @ CHR '':'' # y \<in> tip_strings sha256 (xs @ [x]) \<union> tip_strings sha256 ls'"
      by (simp_all add: ls' tip_strings_def chain_strings_snoc)
    ultimately have "tip_from sha256 ?g xs @ CHR '':'' # x = tip_from sha256 ?g ys @ CHR '':'' # y"
      by (rule inj_onD [OF snoc.prems(1)])
    then have eq: "tip_from sha256 ?g xs = tip_from sha256 ?g ys \<and> x = y"
      using tip_no_colon [OF assms(1), of xs] tip_no_colon [OF assms(1), of ys] colon_not_hex
      by (intro split_at_colon) auto
    have "inj_on sha256 (tip_strings sha256 xs \<union> tip_strings sha256 ys)"
      by (rule inj_on_subset [OF snoc.prems(1)]) (auto simp: ls' tip_strings_def chain_strings_snoc)
    with snoc.IH eq ls' show ?thesis by simp
  qed
qed

lemma chain_entries_pairs:
  "map entry_pair (fst (chain_entries sha256 h rs)) = map (\<lambda>r. (er_record_id r, content_hash sha256 r)) rs"
  by (induction rs arbitrary: h) (simp_all add: Let_def entry_pair_def case_prod_unfold)

lemma chain_entries_tip:
  "snd (chain_entries sha256 h rs) = tip_from sha256 h (map (content_hash sha256) rs)"
  by (induction rs arbitrary: h) (simp_all add: Let_def case_prod_unfold)

lemma live_tip: "fold (\<lambda>(_, leaf) h. chain_step sha256 h leaf) (map (\<lambda>r. (er_record_id r, content_hash sha256 r)) rs) h
    = tip_from sha256 h (map (content_hash sha256) rs)"
  by (induction rs arbitrary: h) simp_all

section \<open>The positional walk\<close>

text \<open>The first position where two lists differ.\<close>

fun first_diff :: "'a list \<Rightarrow> 'a list \<Rightarrow> nat option" where
  "first_diff [] [] = None"
| "first_diff (x # xs) (y # ys) = (if x = y then map_option Suc (first_diff xs ys) else Some 0)"
| "first_diff _ _ = Some 0"

lemma first_diff_None: "first_diff xs ys = None \<longleftrightarrow> xs = ys"
  by (induction xs ys rule: first_diff.induct) auto

lemma first_diff_Some:
  "first_diff xs ys = Some i \<Longrightarrow> take i xs = take i ys \<and> take (Suc i) xs \<noteq> take (Suc i) ys"
  by (induction xs ys arbitrary: i rule: first_diff.induct) (auto split: if_splits)

lemma diverged_iff:
  "fst (chain_position bids lids (Some e) (Some p) w) \<longleftrightarrow> e \<noteq> p"
  "fst (chain_position bids lids (Some e) None w)"
  "fst (chain_position bids lids None (Some p) w)"
  by (cases e; cases p; auto simp: chain_position_def Let_def)+

lemma chain_positions_break:
  "fst (chain_positions bids lids i es ps brk w)
     = (case brk of Some b \<Rightarrow> Some b | None \<Rightarrow> map_option ((+) i) (first_diff es ps))"
proof (induction bids lids i es ps brk w rule: chain_positions.induct)
  case (2 bids lids i e es brk w)
  obtain d w' where pos: "chain_position bids lids (Some e) None w = (d, w')" by fastforce
  with diverged_iff(2) [of bids lids e w] 2 [OF refl pos [symmetric]] show ?case
    by (auto simp: option.map_comp comp_def split: option.splits)
next
  case (3 bids lids i p ps brk w)
  obtain d w' where pos: "chain_position bids lids None (Some p) w = (d, w')" by fastforce
  with diverged_iff(3) [of bids lids p w] 3 [OF refl pos [symmetric]] show ?case
    by (auto simp: option.map_comp comp_def split: option.splits)
next
  case (4 bids lids i e es p ps brk w)
  obtain d w' where pos: "chain_position bids lids (Some e) (Some p) w = (d, w')" by fastforce
  with diverged_iff(1) [of bids lids e p w] 4 [OF refl pos [symmetric]] show ?case
    by (cases "first_diff es ps") (auto split: option.splits)
qed (simp split: option.splits)

definition flagged_ids :: "chain_walk \<Rightarrow> string list" where
  "flagged_ids w = cw_tampered w @ cw_reordered w @ cw_missing w @ cw_added w"

definition walk_ok :: "string set \<Rightarrow> string set \<Rightarrow> chain_walk \<Rightarrow> bool" where
  "walk_ok B L w \<longleftrightarrow> distinct (flagged_ids w) \<and> set (cw_flagged w) = set (flagged_ids w)
     \<and> set (cw_missing w) \<subseteq> B - L \<and> set (cw_added w) \<subseteq> L - B
     \<and> set (cw_tampered w) \<union> set (cw_reordered w) \<subseteq> B \<inter> L"

lemma flag_flagged [simp]: "set (cw_flagged (flag kind rid w)) = insert rid (set (cw_flagged w))"
  by (cases kind) (auto simp: flag_def Let_def)

lemma flag_ok:
  assumes "walk_ok B L w"
  shows "rid \<in> B \<Longrightarrow> rid \<in> L \<Longrightarrow> walk_ok B L (flag Tampered rid w)"
    and "rid \<in> L \<Longrightarrow> walk_ok B L (flag (if rid \<in> B then Reordered else Added) rid w)"
    and "rid \<in> B \<Longrightarrow> walk_ok B L (flag (if rid \<in> L then Reordered else Missing) rid w)"
  using assms by (auto simp: walk_ok_def flag_def Let_def flagged_ids_def)

text \<open>A position keeps the invariant and flags the ids that are on one side only.\<close>

lemma chain_position_ok:
  assumes "walk_ok (set bids) (set lids) w"
    and "pred_option (\<lambda>e. fst e \<in> set bids) entry" and "pred_option (\<lambda>p. fst p \<in> set lids) pair"
    and "chain_position bids lids entry pair w = (d, w')"
  shows "walk_ok (set bids) (set lids) w' \<and> set (cw_flagged w) \<subseteq> set (cw_flagged w')
    \<and> pred_option (\<lambda>e. fst e \<notin> set lids \<longrightarrow> fst e \<in> set (cw_flagged w')) entry
    \<and> pred_option (\<lambda>p. fst p \<notin> set bids \<longrightarrow> fst p \<in> set (cw_flagged w')) pair"
proof (cases entry)
  case None
  then show ?thesis
    using assms flag_ok(2) [OF assms(1)]
    by (cases pair) (auto simp: chain_position_def Let_def)
next
  case (Some e)
  obtain eid eh where e: "e = (eid, eh)" by fastforce
  show ?thesis
  proof (cases pair)
    case None
    with Some e show ?thesis
      using assms flag_ok(3) [OF assms(1)] by (auto simp: chain_position_def Let_def)
  next
    case (Some p)
    obtain rid leaf where p: "p = (rid, leaf)" by fastforce
    show ?thesis
    proof (cases "rid = eid")
      case True
      with Some \<open>entry = Some e\<close> e p show ?thesis
        using assms flag_ok(1) [OF assms(1)] by (auto simp: chain_position_def Let_def split: if_splits)
    next
      case False
      let ?w = "flag (if rid \<in> set bids then Reordered else Added) rid w"
      have w': "w' = flag (if eid \<in> set lids then Reordered else Missing) eid ?w"
        using False Some \<open>entry = Some e\<close> e p assms(4) by (simp add: chain_position_def Let_def)
      have "walk_ok (set bids) (set lids) ?w"
        using assms(3) Some p by (intro flag_ok(2) [OF assms(1)]) simp
      from flag_ok(3) [OF this, of eid] assms(2) \<open>entry = Some e\<close> e
      have "walk_ok (set bids) (set lids) w'" by (simp add: w')
      then show ?thesis by (auto simp: w' \<open>entry = Some e\<close> e Some p)
    qed
  qed
qed

lemma chain_positions_ok:
  assumes "walk_ok (set bids) (set lids) w"
    and "fst ` set es \<subseteq> set bids" and "fst ` set ps \<subseteq> set lids"
  shows "walk_ok (set bids) (set lids) (snd (chain_positions bids lids i es ps brk w))
    \<and> set (cw_flagged w) \<union> (fst ` set es - set lids) \<union> (fst ` set ps - set bids)
      \<subseteq> set (cw_flagged (snd (chain_positions bids lids i es ps brk w)))"
  using assms
proof (induction bids lids i es ps brk w rule: chain_positions.induct)
  case (2 bids lids i e es brk w)
  obtain d w' where cp: "chain_position bids lids (Some e) None w = (d, w')" by fastforce
  note pos = chain_position_ok [OF 2(2) _ _ cp]
  from 2(1) [OF refl cp [symmetric]] 2(3,4) pos cp show ?case by auto
next
  case (3 bids lids i p ps brk w)
  obtain d w' where cp: "chain_position bids lids None (Some p) w = (d, w')" by fastforce
  note pos = chain_position_ok [OF 3(2) _ _ cp]
  from 3(1) [OF refl cp [symmetric]] 3(3,4) pos cp show ?case by auto
next
  case (4 bids lids i e es p ps brk w)
  obtain d w' where cp: "chain_position bids lids (Some e) (Some p) w = (d, w')" by fastforce
  note pos = chain_position_ok [OF 4(2) _ _ cp]
  from 4(1) [OF refl cp [symmetric]] 4(3,4) pos cp show ?case by auto
qed auto

section \<open>What the chain detects\<close>

lemma map_eq_transfer:
  "(\<And>x y. x \<in> set xs \<Longrightarrow> y \<in> set ys \<Longrightarrow> f x = f y \<longleftrightarrow> g x = g y) \<Longrightarrow>
   map f xs = map f ys \<longleftrightarrow> map g xs = map g ys"
  by (induction xs ys rule: list_induct2') simp_all

definition hash_pair :: "(string \<Rightarrow> string) \<Rightarrow> entity_record \<Rightarrow> string \<times> string" where
  "hash_pair sha256 r = (er_record_id r, content_hash sha256 r)"

lemma verify_exported_chain:
  assumes "res = verify_audit_chain sha256 mac (export_audit_chain sha256 mac recs secret) recs' secret"
    and "(brk, w) = chain_positions (map fst (map (hash_pair sha256) recs)) (map fst (map (hash_pair sha256) recs')) 0
      (map (hash_pair sha256) recs) (map (hash_pair sha256) recs') None empty_chain_walk"
  shows "cv_ok res \<longleftrightarrow> tip_from sha256 (CHAIN_GENESIS_HASH sha256) (map (content_hash sha256) recs')
      = tip_from sha256 (CHAIN_GENESIS_HASH sha256) (map (content_hash sha256) recs)"
    and "first_break_index res = brk" and "cv_tampered res = cw_tampered w" and "cv_reordered res = cw_reordered w"
    and "cv_missing res = cw_missing w" and "cv_added res = cw_added w"
proof -
  obtain es tip where ce: "chain_entries sha256 (CHAIN_GENESIS_HASH sha256) recs = (es, tip)" by fastforce
  have tip: "tip = tip_from sha256 (CHAIN_GENESIS_HASH sha256) (map (content_hash sha256) recs)"
    using chain_entries_tip [of sha256 "CHAIN_GENESIS_HASH sha256" recs] ce by simp
  have pairs: "map entry_pair es = map (hash_pair sha256) recs"
    using chain_entries_pairs [of sha256 "CHAIN_GENESIS_HASH sha256" recs] ce
    by (simp add: hash_pair_def)
  have live: "map (\<lambda>r. (er_record_id r, content_hash sha256 r)) recs' = map (hash_pair sha256) recs'"
    by (simp add: hash_pair_def)
  have "res = \<lparr>cv_ok = (tip_from sha256 (CHAIN_GENESIS_HASH sha256) (map (content_hash sha256) recs') = tip),
      cv_signature_valid = True,
      chain_intact = (tip_from sha256 (CHAIN_GENESIS_HASH sha256) (map (content_hash sha256) recs') = tip),
      first_break_index = brk, cv_tampered = cw_tampered w, cv_reordered = cw_reordered w,
      cv_missing = cw_missing w, cv_added = cw_added w\<rparr>"
    unfolding assms(1) verify_audit_chain_def export_audit_chain_def ce Let_def
    by (simp add: pairs live_tip del: map_map) (simp only: live assms(2) [symmetric] prod.case)
  then show "cv_ok res \<longleftrightarrow> tip_from sha256 (CHAIN_GENESIS_HASH sha256) (map (content_hash sha256) recs')
      = tip_from sha256 (CHAIN_GENESIS_HASH sha256) (map (content_hash sha256) recs)"
    and "first_break_index res = brk" and "cv_tampered res = cw_tampered w" and "cv_reordered res = cw_reordered w"
    and "cv_missing res = cw_missing w" and "cv_added res = cw_added w"
    by (simp_all add: tip)
qed

text \<open>
  The audit chain certifies the ordered history: against a chain exported with the same
  secret, verification succeeds exactly when the live records have the same contents in the
  same order, so any edit, reordering, deletion or insertion is rejected, as long as the
  hash does not collide on the strings hashed by the two runs.
\<close>

theorem audit_chain_certifies_history:
  assumes hex: "hex_output sha256"
    and inj: "inj_on sha256 (content_preimage ` (set recs \<union> set recs')
        \<union> tip_strings sha256 (map (content_hash sha256) recs) \<union> tip_strings sha256 (map (content_hash sha256) recs'))"
  shows "cv_ok (verify_audit_chain sha256 mac (export_audit_chain sha256 mac recs secret) recs' secret)
    \<longleftrightarrow> map audit_content recs = map audit_content recs'"
proof -
  obtain brk w where "(brk, w) = chain_positions (map fst (map (hash_pair sha256) recs))
      (map fst (map (hash_pair sha256) recs')) 0 (map (hash_pair sha256) recs) (map (hash_pair sha256) recs') None
      empty_chain_walk" by (metis surj_pair)
  note ok = verify_exported_chain(1) [OF refl this, of mac secret]
  have "inj_on sha256 (tip_strings sha256 (map (content_hash sha256) recs')
      \<union> tip_strings sha256 (map (content_hash sha256) recs))"
    by (rule inj_on_subset [OF inj]) blast
  then have "cv_ok (verify_audit_chain sha256 mac (export_audit_chain sha256 mac recs secret) recs' secret)
      \<longleftrightarrow> map (content_hash sha256) recs = map (content_hash sha256) recs'"
    unfolding ok using tip_inj [OF hex] by metis
  also have "\<dots> \<longleftrightarrow> map audit_content recs = map audit_content recs'"
  proof -
    have "content_hash sha256 r = content_hash sha256 r' \<longleftrightarrow> audit_content r = audit_content r'"
      if "r \<in> set recs" "r' \<in> set recs'" for r r'
      using that by (intro content_hash_eq_iff [OF inj]) auto
    then show ?thesis by (rule map_eq_transfer)
  qed
  finally show ?thesis .
qed

text \<open>
  The audit chain localises a divergence: the first break is the first position where
  signed and live history differ in id or content hash, the missing and the added ids are
  exactly those on one side only, and every divergent id is in one list, once.
\<close>

theorem audit_chain_localises_break:
  assumes "res = verify_audit_chain sha256 mac (export_audit_chain sha256 mac recs secret) recs' secret"
  shows "(first_break_index res = None \<longleftrightarrow> map (hash_pair sha256) recs = map (hash_pair sha256) recs')
    \<and> (\<forall>i. first_break_index res = Some i \<longrightarrow>
         take i (map (hash_pair sha256) recs) = take i (map (hash_pair sha256) recs')
         \<and> take (Suc i) (map (hash_pair sha256) recs) \<noteq> take (Suc i) (map (hash_pair sha256) recs'))
    \<and> set (cv_missing res) = er_record_id ` set recs - er_record_id ` set recs'
    \<and> set (cv_added res) = er_record_id ` set recs' - er_record_id ` set recs
    \<and> distinct (cv_tampered res @ cv_reordered res @ cv_missing res @ cv_added res)"
proof -
  let ?s = "map (hash_pair sha256) recs" and ?l = "map (hash_pair sha256) recs'"
  obtain brk w where walk: "(brk, w) = chain_positions (map fst ?s) (map fst ?l) 0 ?s ?l None empty_chain_walk"
    by (metis surj_pair)
  note res = verify_exported_chain [OF assms walk]
  have brk: "brk = first_diff ?s ?l"
    using chain_positions_break [of "map fst ?s" "map fst ?l" 0 ?s ?l None empty_chain_walk] walk [symmetric]
    by (cases "first_diff ?s ?l") simp_all
  have start: "walk_ok (set (map fst ?s)) (set (map fst ?l)) empty_chain_walk"
    by (simp add: walk_ok_def empty_chain_walk_def flagged_ids_def)
  have ids: "set (map fst ?s) = er_record_id ` set recs" "set (map fst ?l) = er_record_id ` set recs'"
    by (auto simp: hash_pair_def)
  have w: "walk_ok (set (map fst ?s)) (set (map fst ?l)) w"
      "(set (map fst ?s) - set (map fst ?l)) \<union> (set (map fst ?l) - set (map fst ?s)) \<subseteq> set (cw_flagged w)"
  proof -
    have "fst ` set ?s \<subseteq> set (map fst ?s)" "fst ` set ?l \<subseteq> set (map fst ?l)" by auto
    note ok = chain_positions_ok [OF start this, of 0 None, folded walk, unfolded snd_conv]
    from ok show "walk_ok (set (map fst ?s)) (set (map fst ?l)) w" by blast
    from ok show "(set (map fst ?s) - set (map fst ?l)) \<union> (set (map fst ?l) - set (map fst ?s)) \<subseteq> set (cw_flagged w)"
      unfolding set_map by blast
  qed
  then have "set (cw_missing w) = set (map fst ?s) - set (map fst ?l)"
      and "set (cw_added w) = set (map fst ?l) - set (map fst ?s)"
    by (auto simp: walk_ok_def flagged_ids_def)
  with w(1) show ?thesis
    unfolding res(2-6) brk ids
    by (simp add: first_diff_None walk_ok_def flagged_ids_def) (metis first_diff_Some)
qed

lemma demo_hash_hex: "hex_output demo_hash"
proof -
  have byte: "of_char c div 16 < (16 :: nat)" for c
    using nat_of_char_less_256 [of c] by (simp only: less_mult_imp_div_less)
  then show ?thesis by (auto simp: hex_output_def demo_hash_def)
qed

theorem audit_chain_certifies_history_witness:
  "\<not> cv_ok (verify_audit_chain demo_hash (\<lambda>k m. m @ k)
      (export_audit_chain demo_hash (\<lambda>k m. m @ k) [demo_audit_record ''a'' 1, demo_audit_record ''b'' 2] ''key'')
      [demo_audit_record ''b'' 2, demo_audit_record ''a'' 1] ''key'')"
proof -
  have "inj_on demo_hash A" for A
    using demo_hash_inj by (rule inj_on_subset) simp
  then show ?thesis
    using audit_chain_certifies_history [OF demo_hash_hex]
    by (simp add: demo_audit_record_simps)
qed

theorem audit_chain_localises_break_witness:
  "set (cv_missing (verify_audit_chain demo_hash (\<lambda>k m. m @ k)
      (export_audit_chain demo_hash (\<lambda>k m. m @ k) [demo_audit_record ''a'' 1, demo_audit_record ''b'' 2] ''key'')
      [demo_audit_record ''b'' 2] ''key'')) = {''a''}"
proof -
  have "set (cv_missing (verify_audit_chain demo_hash (\<lambda>k m. m @ k)
      (export_audit_chain demo_hash (\<lambda>k m. m @ k) [demo_audit_record ''a'' 1, demo_audit_record ''b'' 2] ''key'')
      [demo_audit_record ''b'' 2] ''key''))
    = er_record_id ` set [demo_audit_record ''a'' 1, demo_audit_record ''b'' 2] - er_record_id ` set [demo_audit_record ''b'' 2]"
    using audit_chain_localises_break [OF refl, of demo_hash "\<lambda>k m. m @ k"
      "[demo_audit_record ''a'' 1, demo_audit_record ''b'' 2]" "''key''" "[demo_audit_record ''b'' 2]"]
    by blast
  then show ?thesis by (simp add: demo_audit_record_simps insert_Diff_if)
qed

end
