(* ===== verification/DbChain.thy ===== *)
theory DbChain
  imports AuditChain "HOL-Library.While_Combinator"
begin

text \<open>
  The chain kept inside the record table (himmy/entities/db_chain.py): verification from the
  rows alone by following \<open>prev_hash\<close> pointers, and the write side of it in
  himmy/entities/sqlite_registry.py (the in-memory tip and the pointer a new row gets). The
  loops of the verifier follow pointers until none is found; with hash collisions they
  could run forever, so they are \<open>while_option\<close> and the verifier returns an option.
\<close>

record db_chain_row =
  dcr_record :: entity_record
  dcr_prev_hash :: "string option"

definition is_chained :: "db_chain_row \<Rightarrow> bool" where
  "is_chained r \<longleftrightarrow> dcr_prev_hash r \<noteq> None"

datatype break_reason = NoReason | Fork nat string | NoHead | Breaks nat nat "string option"

record db_chain_verification =
  dv_ok :: bool
  dv_chained :: nat
  dv_tip_hash :: string
  dv_broken_at :: "string option"
  dv_reason :: break_reason
  dv_unchained :: "string list"

definition chain_step_for :: "(string \<Rightarrow> string) \<Rightarrow> string \<Rightarrow> entity_record \<Rightarrow> string" where
  "chain_step_for sha256 prev r = chain_step sha256 prev (content_hash sha256 r)"

text \<open>\<open>by_prev.setdefault(row.prev_hash, []).append(row)\<close> over the chained rows.\<close>

definition prev_bucket :: "(string, db_chain_row list) dict \<Rightarrow> string \<Rightarrow> db_chain_row list" where
  "prev_bucket d k = (case map_of d k of None \<Rightarrow> [] | Some rs \<Rightarrow> rs)"

definition index_row :: "db_chain_row \<Rightarrow> (string, db_chain_row list) dict \<Rightarrow> (string, db_chain_row list) dict" where
  "index_row row d =
     (case dcr_prev_hash row of None \<Rightarrow> d | Some k \<Rightarrow> AList.update k (prev_bucket d k @ [row]) d)"

definition by_prev :: "db_chain_row list \<Rightarrow> (string, db_chain_row list) dict" where
  "by_prev rows = fold index_row rows []"

text \<open>The forward walk from \<open>cursor\<close>: cursor, number of rows visited, last record id.\<close>

definition walk_forward ::
  "(string \<Rightarrow> string) \<Rightarrow> (string, db_chain_row list) dict \<Rightarrow> string \<times> nat \<times> string option
     \<Rightarrow> (string \<times> nat \<times> string option) option" where
  "walk_forward sha256 d =
     while_option (\<lambda>(cursor, _, _). map_of d cursor \<noteq> None)
       (\<lambda>(cursor, visited, _).
          let row = hd (prev_bucket d cursor)
          in (chain_step_for sha256 cursor (dcr_record row), visited + 1, Some (er_record_id (dcr_record row))))"

text \<open>The second walk, collecting the reached record ids.\<close>

definition walk_reached ::
  "(string \<Rightarrow> string) \<Rightarrow> (string, db_chain_row list) dict \<Rightarrow> string \<times> string list
     \<Rightarrow> (string \<times> string list) option" where
  "walk_reached sha256 d =
     while_option (\<lambda>(c, _). map_of d c \<noteq> None)
       (\<lambda>(c, reached).
          let row = hd (prev_bucket d c)
          in (chain_step_for sha256 c (dcr_record row), er_record_id (dcr_record row) # reached))"

definition verify_db_chain ::
  "(string \<Rightarrow> string) \<Rightarrow> db_chain_row list \<Rightarrow> db_chain_verification option" where
  "verify_db_chain sha256 rows =
     (let genesis = CHAIN_GENESIS_HASH sha256;
          chained = filter is_chained rows;
          unchained = map (\<lambda>r. er_record_id (dcr_record r)) (filter (\<lambda>r. \<not> is_chained r) rows);
          n = length chained;
          d = by_prev chained
      in if chained = [] then
           Some \<lparr>dv_ok = True, dv_chained = 0, dv_tip_hash = genesis, dv_broken_at = None,
                 dv_reason = NoReason, dv_unchained = unchained\<rparr>
         else (case find (\<lambda>(_, g). 1 < length g) d of
             Some (prev, g) \<Rightarrow>
               Some \<lparr>dv_ok = False, dv_chained = n, dv_tip_hash = genesis,
                     dv_broken_at = Some (er_record_id (dcr_record (g ! 1))),
                     dv_reason = Fork (length g) (take 12 prev), dv_unchained = unchained\<rparr>
           | None \<Rightarrow>
               if map_of d genesis = None then
                 Some \<lparr>dv_ok = False, dv_chained = n, dv_tip_hash = genesis, dv_broken_at = None,
                       dv_reason = NoHead, dv_unchained = unchained\<rparr>
               else (case walk_forward sha256 d (genesis, 0, None) of
                   None \<Rightarrow> None
                 | Some (cursor, visited, last_id) \<Rightarrow>
                     if visited \<noteq> n then
                       (case walk_reached sha256 d (genesis, []) of
                          None \<Rightarrow> None
                        | Some (_, reached) \<Rightarrow>
                            Some \<lparr>dv_ok = False, dv_chained = n, dv_tip_hash = cursor, dv_broken_at = last_id,
                                  dv_reason = Breaks visited n
                                    (find (\<lambda>rid. rid \<notin> set reached) (map (\<lambda>r. er_record_id (dcr_record r)) chained)),
                                  dv_unchained = unchained\<rparr>)
                     else
                       Some \<lparr>dv_ok = True, dv_chained = n, dv_tip_hash = cursor, dv_broken_at = None,
                             dv_reason = NoReason, dv_unchained = unchained\<rparr>)))"

section \<open>The write side\<close>

text \<open>
  A chained registry holds the tip in memory; a new row stores it as its \<open>prev_hash\<close> and
  the tip advances. On start the tip is recomputed from the rows, in at most as many steps
  as there are rows; of rows with one \<open>prev_hash\<close> the last one counts.
\<close>

definition insert_chained ::
  "(string \<Rightarrow> string) \<Rightarrow> entity_record \<Rightarrow> db_chain_row list \<times> string \<Rightarrow> db_chain_row list \<times> string" where
  "insert_chained sha256 r s =
     (case s of (rows, tip) \<Rightarrow>
        (rows @ [\<lparr>dcr_record = r, dcr_prev_hash = Some tip\<rparr>], chain_step_for sha256 tip r))"

fun follow_tip ::
  "(string \<Rightarrow> string) \<Rightarrow> (string, db_chain_row list) dict \<Rightarrow> nat \<Rightarrow> string \<Rightarrow> string" where
  "follow_tip sha256 d 0 cursor = cursor"
| "follow_tip sha256 d (Suc n) cursor =
     (case map_of d cursor of
        None \<Rightarrow> cursor
      | Some g \<Rightarrow> follow_tip sha256 d n (chain_step_for sha256 cursor (dcr_record (last g))))"

definition recompute_committed_tip :: "(string \<Rightarrow> string) \<Rightarrow> db_chain_row list \<Rightarrow> string" where
  "recompute_committed_tip sha256 rows =
     (let chained = filter is_chained rows
      in if chained = [] then CHAIN_GENESIS_HASH sha256
         else follow_tip sha256 (by_prev chained) (length chained) (CHAIN_GENESIS_HASH sha256))"

definition write_chain :: "(string \<Rightarrow> string) \<Rightarrow> entity_record list \<Rightarrow> db_chain_row list \<times> string" where
  "write_chain sha256 recs = fold (insert_chained sha256) recs ([], CHAIN_GENESIS_HASH sha256)"

section \<open>The pointer index\<close>

lemma prev_bucket_by_prev: "prev_bucket (by_prev rows) k = filter (\<lambda>r. dcr_prev_hash r = Some k) rows"
proof -
  have "prev_bucket (fold index_row rows d) k = prev_bucket d k @ filter (\<lambda>r. dcr_prev_hash r = Some k) rows" for d
    by (induction rows arbitrary: d) (auto simp: index_row_def prev_bucket_def split: option.splits)
  then show ?thesis by (simp add: by_prev_def prev_bucket_def)
qed

lemma by_prev_nonempty: "map_of (by_prev rows) k \<noteq> Some []"
proof -
  have "(\<forall>k. map_of d k \<noteq> Some []) \<Longrightarrow> map_of (fold index_row rows d) k \<noteq> Some []" for d
    by (induction rows arbitrary: d) (auto simp: index_row_def split: option.splits)
  then show ?thesis by (simp add: by_prev_def)
qed

lemma get_by_prev:
  "map_of (by_prev rows) k =
     (let g = filter (\<lambda>r. dcr_prev_hash r = Some k) rows in if g = [] then None else Some g)"
  using prev_bucket_by_prev [of rows k] by_prev_nonempty [of rows k]
  by (auto simp: prev_bucket_def Let_def split: option.splits)

lemma by_prev_wf: "dict_wf (by_prev rows)"
proof -
  have "dict_wf d \<Longrightarrow> dict_wf (fold index_row rows d)" for d
    by (induction rows arbitrary: d) (auto simp: index_row_def split: option.splits)
  then show ?thesis by (simp add: by_prev_def)
qed

text \<open>The rows written for a sequence of records, and the tips they point at.\<close>

fun chain_rows :: "(string \<Rightarrow> string) \<Rightarrow> string \<Rightarrow> entity_record list \<Rightarrow> db_chain_row list" where
  "chain_rows sha256 h [] = []"
| "chain_rows sha256 h (r # rs) =
     \<lparr>dcr_record = r, dcr_prev_hash = Some h\<rparr> # chain_rows sha256 (chain_step_for sha256 h r) rs"

definition record_tip :: "(string \<Rightarrow> string) \<Rightarrow> string \<Rightarrow> entity_record list \<Rightarrow> string" where
  "record_tip sha256 h rs = tip_from sha256 h (map (content_hash sha256) rs)"

lemma record_tip_simps [simp]:
  "record_tip sha256 h [] = h"
  "record_tip sha256 h (r # rs) = record_tip sha256 (chain_step_for sha256 h r) rs"
  "record_tip sha256 h (rs @ [r]) = chain_step_for sha256 (record_tip sha256 h rs) r"
  by (simp_all add: record_tip_def chain_step_for_def)

lemma chain_rows_append:
  "chain_rows sha256 h (rs @ ss) = chain_rows sha256 h rs @ chain_rows sha256 (record_tip sha256 h rs) ss"
  by (induction rs arbitrary: h) simp_all

lemma length_chain_rows [simp]: "length (chain_rows sha256 h rs) = length rs"
  by (induction rs arbitrary: h) simp_all

lemma insert_chained_rows:
  "fold (insert_chained sha256) recs (rows, h) = (rows @ chain_rows sha256 h recs, record_tip sha256 h recs)"
  by (induction recs arbitrary: rows h) (simp_all add: insert_chained_def)

lemma write_chain_rows:
  "write_chain sha256 recs = (chain_rows sha256 (CHAIN_GENESIS_HASH sha256) recs,
     record_tip sha256 (CHAIN_GENESIS_HASH sha256) recs)"
  by (simp add: write_chain_def insert_chained_rows)

lemma chain_row_prev:
  "row \<in> set (chain_rows sha256 h rs) \<Longrightarrow>
     \<exists>ps r qs. rs = ps @ r # qs \<and> row = \<lparr>dcr_record = r, dcr_prev_hash = Some (record_tip sha256 h ps)\<rparr>"
proof (induction rs arbitrary: h)
  case (Cons r rs)
  then show ?case
  proof (cases "row = \<lparr>dcr_record = r, dcr_prev_hash = Some h\<rparr>")
    case True
    then show ?thesis by (intro exI [of _ "[]"]) simp
  next
    case False
    with Cons obtain ps r' qs where "rs = ps @ r' # qs"
      "row = \<lparr>dcr_record = r', dcr_prev_hash = Some (record_tip sha256 (chain_step_for sha256 h r) ps)\<rparr>"
      by fastforce
    then show ?thesis by (intro exI [of _ "r # ps"]) auto
  qed
qed simp

section \<open>The walk follows a path\<close>

fun row_path :: "(string \<Rightarrow> string) \<Rightarrow> (string, db_chain_row list) dict \<Rightarrow> string \<Rightarrow> entity_record list \<Rightarrow> bool" where
  "row_path sha256 d c [] \<longleftrightarrow> map_of d c = None"
| "row_path sha256 d c (r # rs) \<longleftrightarrow>
     map_of d c = Some [\<lparr>dcr_record = r, dcr_prev_hash = Some c\<rparr>]
     \<and> row_path sha256 d (chain_step_for sha256 c r) rs"

lemma walk_forward_path:
  "row_path sha256 d c rs \<Longrightarrow> walk_forward sha256 d (c, v, l)
     = Some (record_tip sha256 c rs, v + length rs, if rs = [] then l else Some (er_record_id (last rs)))"
proof (induction rs arbitrary: c v l)
  case Nil
  then show ?case by (simp add: walk_forward_def while_option_unfold)
next
  case (Cons r rs)
  then have "walk_forward sha256 d (c, v, l)
      = walk_forward sha256 d (chain_step_for sha256 c r, v + 1, Some (er_record_id r))"
    unfolding walk_forward_def
    by (subst while_option_unfold) (simp add: prev_bucket_def)
  with Cons show ?case by simp
qed

lemma walk_reached_path:
  "row_path sha256 d c rs \<Longrightarrow> walk_reached sha256 d (c, ids)
     = Some (record_tip sha256 c rs, rev (map er_record_id rs) @ ids)"
proof (induction rs arbitrary: c ids)
  case Nil
  then show ?case by (simp add: walk_reached_def while_option_unfold)
next
  case (Cons r rs)
  then have "walk_reached sha256 d (c, ids) = walk_reached sha256 d (chain_step_for sha256 c r, er_record_id r # ids)"
    unfolding walk_reached_def
    by (subst while_option_unfold) (simp add: prev_bucket_def)
  with Cons show ?case by simp
qed

section \<open>Verification along a path\<close>

definition chained_prevs :: "db_chain_row list \<Rightarrow> string option list" where
  "chained_prevs rows = map dcr_prev_hash (filter is_chained rows)"

lemma chained_prevs_simps [simp]:
  "chained_prevs [] = []"
  "chained_prevs (r # rows) = (if dcr_prev_hash r = None then chained_prevs rows else dcr_prev_hash r # chained_prevs rows)"
  "chained_prevs (xs @ ys) = chained_prevs xs @ chained_prevs ys"
  by (simp_all add: chained_prevs_def is_chained_def)

lemma chained_prevs_mset: "mset xs = mset ys \<Longrightarrow> mset (chained_prevs xs) = mset (chained_prevs ys)"
  by (simp add: chained_prevs_def mset_filter)

lemma set_chained_prevs: "Some k \<in> set (chained_prevs rows) \<longleftrightarrow> (\<exists>r \<in> set rows. dcr_prev_hash r = Some k)"
  by (auto simp: chained_prevs_def is_chained_def image_iff intro: sym)

lemma bucket_unique:
  "distinct (chained_prevs rows) \<Longrightarrow> row \<in> set rows \<Longrightarrow> dcr_prev_hash row = Some k \<Longrightarrow>
   filter (\<lambda>r. dcr_prev_hash r = Some k) rows = [row]"
proof (induction rows)
  case (Cons r rows)
  show ?case
  proof (cases "dcr_prev_hash r = Some k")
    case True
    with Cons.prems(1) have "Some k \<notin> set (chained_prevs rows)" by simp
    then have "\<forall>r \<in> set rows. dcr_prev_hash r \<noteq> Some k" by (simp add: set_chained_prevs)
    with True Cons.prems show ?thesis by (auto simp: filter_empty_conv)
  next
    case False
    with Cons show ?thesis by (auto split: if_splits)
  qed
qed simp

lemma bucket_absent: "Some k \<notin> set (chained_prevs rows) \<Longrightarrow> filter (\<lambda>r. dcr_prev_hash r = Some k) rows = []"
  by (simp add: set_chained_prevs filter_empty_conv)

lemma get_by_prev_chained:
  "map_of (by_prev (filter is_chained rows)) k =
     (let g = filter (\<lambda>r. dcr_prev_hash r = Some k) rows in if g = [] then None else Some g)"
proof -
  have "filter (\<lambda>r. dcr_prev_hash r = Some k) (filter is_chained rows)
      = filter (\<lambda>r. dcr_prev_hash r = Some k) rows"
    by (auto simp: is_chained_def intro: filter_cong)
  then show ?thesis by (simp add: get_by_prev)
qed

lemma no_fork:
  assumes "distinct (chained_prevs rows)"
  shows "find (\<lambda>(_, g). 1 < length g) (by_prev (filter is_chained rows)) = None"
proof -
  have "length g \<le> 1" if "(k, g) \<in> set (by_prev (filter is_chained rows))" for k g
  proof -
    from that have "map_of (by_prev (filter is_chained rows)) k = Some g"
      by (simp add: dict_get_iff by_prev_wf)
    then have g: "g = filter (\<lambda>r. dcr_prev_hash r = Some k) rows" "g \<noteq> []"
      by (auto simp: get_by_prev_chained Let_def split: if_splits)
    then obtain row where "row \<in> set rows" "dcr_prev_hash row = Some k"
      by (auto simp: filter_empty_conv)
    with assms g show ?thesis by (simp add: bucket_unique)
  qed
  then show ?thesis by (fastforce simp: find_None_iff)
qed

text \<open>Rows with distinct pointers in which a path from genesis visits the records \<open>vs\<close>.\<close>

lemma verify_along_path:
  assumes distinct: "distinct (chained_prevs rows)"
    and path: "row_path sha256 (by_prev (filter is_chained rows)) (CHAIN_GENESIS_HASH sha256) vs"
    and "vs \<noteq> []" and n: "n = length (filter is_chained rows)"
    and "verify_db_chain sha256 rows = res"
  shows "\<exists>v. res = Some v \<and> dv_ok v = (length vs = n) \<and> dv_chained v = n
    \<and> dv_tip_hash v = record_tip sha256 (CHAIN_GENESIS_HASH sha256) vs
    \<and> dv_broken_at v = (if length vs = n then None else Some (er_record_id (last vs)))
    \<and> dv_unchained v = map (\<lambda>r. er_record_id (dcr_record r)) (filter (\<lambda>r. \<not> is_chained r) rows)"
proof -
  let ?c = "filter is_chained rows" and ?g = "CHAIN_GENESIS_HASH sha256"
  obtain r rs where vs: "vs = r # rs" using assms(3) by (cases vs) auto
  with path have head: "map_of (by_prev ?c) ?g \<noteq> None" by simp
  then have "?c \<noteq> []" by (auto simp: by_prev_def)
  moreover note no_fork [OF distinct] head
    walk_forward_path [OF path, of 0 None] walk_reached_path [OF path, of "[]"]
  ultimately show ?thesis
    unfolding assms(5) [symmetric] verify_db_chain_def n Let_def
    by (simp add: assms(3))
qed

lemma chain_strings_append:
  "chain_strings sha256 h xs \<subseteq> chain_strings sha256 h (xs @ ys)"
  by (induction xs arbitrary: h) auto

lemma record_tip_inj:
  assumes "hex_output sha256"
    and "inj_on sha256 (tip_strings sha256 (map (content_hash sha256) recs) \<union> tip_strings sha256 (map (content_hash sha256) recs'))"
    and "recs = ps @ xs" and "recs' = qs @ ys"
    and "record_tip sha256 (CHAIN_GENESIS_HASH sha256) ps = record_tip sha256 (CHAIN_GENESIS_HASH sha256) qs"
  shows "map (content_hash sha256) ps = map (content_hash sha256) qs"
proof (rule tip_inj [OF assms(1)])
  have "tip_strings sha256 (map (content_hash sha256) ps) \<subseteq> tip_strings sha256 (map (content_hash sha256) recs)"
    "tip_strings sha256 (map (content_hash sha256) qs) \<subseteq> tip_strings sha256 (map (content_hash sha256) recs')"
    by (auto simp: tip_strings_def assms(3,4) intro: subsetD [OF chain_strings_append])
  then show "inj_on sha256 (tip_strings sha256 (map (content_hash sha256) ps) \<union> tip_strings sha256 (map (content_hash sha256) qs))"
    by (intro inj_on_subset [OF assms(2)]) blast
qed (use assms(5) in \<open>simp add: record_tip_def\<close>)

lemma chained_prevs_chain_rows:
  "chained_prevs (chain_rows sha256 h rs) = map (\<lambda>i. Some (record_tip sha256 h (take i rs))) [0..<length rs]"
proof (induction rs arbitrary: h)
  case (Cons r rs)
  have "[0..<length (r # rs)] = 0 # map Suc [0..<length rs]"
    by (simp add: map_Suc_upt upt_conv_Cons del: upt_Suc)
  with Cons show ?case by (simp add: comp_def del: upt_Suc)
qed simp

lemma chain_rows_distinct:
  assumes "hex_output sha256" and "inj_on sha256 (tip_strings sha256 (map (content_hash sha256) recs))"
  shows "distinct (chained_prevs (chain_rows sha256 (CHAIN_GENESIS_HASH sha256) recs))"
proof -
  have "i = j" if "i < length recs" "j < length recs"
    "record_tip sha256 (CHAIN_GENESIS_HASH sha256) (take i recs) = record_tip sha256 (CHAIN_GENESIS_HASH sha256) (take j recs)" for i j
  proof -
    have "map (content_hash sha256) (take i recs) = map (content_hash sha256) (take j recs)"
      by (rule record_tip_inj [OF assms(1), of recs recs _ "drop i recs" _ "drop j recs"]) (simp_all add: assms(2) that)
    then have "length (take i recs) = length (take j recs)" by (metis length_map)
    with that show ?thesis by simp
  qed
  then show ?thesis
    by (auto simp: chained_prevs_chain_rows distinct_map inj_on_def)
qed

text \<open>A table holding the written rows, in any order, and rows that never joined the chain.\<close>

definition table_of :: "db_chain_row list \<Rightarrow> db_chain_row list \<Rightarrow> bool" where
  "table_of rows written \<longleftrightarrow>
     (\<exists>other. mset rows = mset (written @ other) \<and> (\<forall>r \<in> set other. dcr_prev_hash r = None))"

lemma table_of_prevs:
  assumes "table_of rows written"
  shows "mset (chained_prevs rows) = mset (chained_prevs written)"
proof -
  from assms obtain other where "mset rows = mset (written @ other)" "\<forall>r \<in> set other. dcr_prev_hash r = None"
    by (auto simp: table_of_def)
  moreover from this(2) have "chained_prevs other = []" by (induction other) auto
  ultimately show ?thesis using chained_prevs_mset [of rows "written @ other"] by simp
qed

lemma table_of_mem: "table_of rows written \<Longrightarrow> row \<in> set written \<Longrightarrow> row \<in> set rows"
  by (metis Un_iff mset_eq_setD set_append table_of_def)

lemma length_chained_prevs: "length (filter is_chained rows) = size (mset (chained_prevs rows))"
  by (simp add: chained_prevs_def flip: mset_filter)

lemma table_path:
  assumes "table_of rows written" and "distinct (chained_prevs written)"
    and "set (chain_rows sha256 h vs) \<subseteq> set written" and "Some (record_tip sha256 h vs) \<notin> set (chained_prevs written)"
  shows "row_path sha256 (by_prev (filter is_chained rows)) h vs"
  using assms(3,4)
proof (induction vs arbitrary: h)
  case Nil
  then have "Some h \<notin> set (chained_prevs rows)"
    using table_of_prevs [OF assms(1)] by (metis mset_eq_setD record_tip_simps(1))
  then show ?case by (simp add: get_by_prev_chained bucket_absent Let_def)
next
  case (Cons r vs)
  have "distinct (chained_prevs rows)"
    using assms(2) table_of_prevs [OF assms(1)] by (metis mset_eq_imp_distinct_iff)
  moreover have "\<lparr>dcr_record = r, dcr_prev_hash = Some h\<rparr> \<in> set rows"
    using Cons.prems(1) by (intro table_of_mem [OF assms(1)]) auto
  ultimately have "filter (\<lambda>r. dcr_prev_hash r = Some h) rows = [\<lparr>dcr_record = r, dcr_prev_hash = Some h\<rparr>]"
    by (intro bucket_unique) auto
  with Cons show ?case by (simp add: get_by_prev_chained Let_def)
qed

lemma tip_not_prev:
  assumes "hex_output sha256" and "inj_on sha256 (tip_strings sha256 (map (content_hash sha256) recs))"
  shows "Some (record_tip sha256 (CHAIN_GENESIS_HASH sha256) recs) \<notin>
    set (chained_prevs (chain_rows sha256 (CHAIN_GENESIS_HASH sha256) recs))"
proof
  let ?g = "CHAIN_GENESIS_HASH sha256"
  assume "Some (record_tip sha256 ?g recs) \<in> set (chained_prevs (chain_rows sha256 ?g recs))"
  then obtain i where "i < length recs" and i: "record_tip sha256 ?g recs = record_tip sha256 ?g (take i recs)"
    by (auto simp: chained_prevs_chain_rows)
  have "map (content_hash sha256) recs = map (content_hash sha256) (take i recs)"
    by (rule record_tip_inj [OF assms(1) _ _ _ i, of recs recs "[]" "drop i recs"]) (simp_all add: assms(2))
  then have "length recs = length (take i recs)" by (metis length_map)
  moreover have "length (take i recs) = i" using \<open>i < length recs\<close> by simp
  ultimately show False using \<open>i < length recs\<close> by linarith
qed

lemma table_verifies:
  assumes "hex_output sha256" and "inj_on sha256 (tip_strings sha256 (map (content_hash sha256) recs))"
    and "table_of rows (chain_rows sha256 (CHAIN_GENESIS_HASH sha256) recs)"
  shows "\<exists>v. verify_db_chain sha256 rows = Some v \<and> dv_ok v \<and> dv_chained v = length recs
      \<and> dv_tip_hash v = record_tip sha256 (CHAIN_GENESIS_HASH sha256) recs"
proof (cases "recs = []")
  case True
  then have "length (filter is_chained rows) = 0"
    by (simp only: length_chained_prevs table_of_prevs [OF assms(3)]) simp
  with True show ?thesis by (simp add: verify_db_chain_def Let_def)
next
  case False
  let ?w = "chain_rows sha256 (CHAIN_GENESIS_HASH sha256) recs"
  note d = chain_rows_distinct [OF assms(1,2)]
  have "distinct (chained_prevs rows)"
    using d table_of_prevs [OF assms(3)] by (metis mset_eq_imp_distinct_iff)
  moreover have "row_path sha256 (by_prev (filter is_chained rows)) (CHAIN_GENESIS_HASH sha256) recs"
    using tip_not_prev [OF assms(1,2)] by (intro table_path [OF assms(3) d]) auto
  moreover have "length recs = length (filter is_chained rows)"
    by (simp only: length_chained_prevs table_of_prevs [OF assms(3)]) (simp add: chained_prevs_chain_rows)
  ultimately show ?thesis
    using verify_along_path [of rows sha256 recs, OF _ _ False refl refl] by auto
qed

text \<open>
  An honest table verifies from the rows alone: after any sequence of chained writes,
  with the rows read back in any order and mixed with unchained ones, verification
  terminates, succeeds, counts every chained row and ends at the writer's tip.
\<close>

theorem honest_db_chain_verifies:
  assumes "hex_output sha256" and "inj_on sha256 (tip_strings sha256 (map (content_hash sha256) recs))"
    and "write_chain sha256 recs = (written, tip)" and "table_of rows written"
  shows "\<exists>v. verify_db_chain sha256 rows = Some v \<and> dv_ok v \<and> dv_chained v = length recs \<and> dv_tip_hash v = tip"
  using table_verifies [OF assms(1,2)] assms(3,4) by (simp add: write_chain_rows)

text \<open>An in-place edit of the record of row \<open>i\<close>; the stored pointer stays.\<close>

definition edit_row :: "nat \<Rightarrow> entity_record \<Rightarrow> db_chain_row list \<Rightarrow> db_chain_row list" where
  "edit_row i r rows = rows[i := (rows ! i)\<lparr>dcr_record := r\<rparr>]"

text \<open>
  C36: An edit in the middle is detected and located: replacing the content of any record but
  the last written one, its pointer kept, makes verification fail at exactly that row.
\<close>

theorem db_chain_detects_edit:
  assumes hex: "hex_output sha256" and recs: "recs = ps @ r # q # qs"
    and inj: "inj_on sha256 ({content_preimage r, content_preimage r'}
      \<union> tip_strings sha256 (map (content_hash sha256) recs) \<union> tip_strings sha256 (map (content_hash sha256) (ps @ [r'])))"
    and edit: "audit_content r' \<noteq> audit_content r"
    and tampered: "table_of rows (edit_row (length ps) r' (fst (write_chain sha256 recs)))"
  shows "\<exists>v. verify_db_chain sha256 rows = Some v \<and> \<not> dv_ok v \<and> dv_broken_at v = Some (er_record_id r')"
proof -
  let ?g = "CHAIN_GENESIS_HASH sha256" and ?h = "map (content_hash sha256)"
  let ?w = "chain_rows sha256 ?g (ps @ [r'])
    @ chain_rows sha256 (record_tip sha256 ?g (ps @ [r])) (q # qs)"
  have inj1: "inj_on sha256 (tip_strings sha256 (?h recs))"
    by (rule inj_on_subset [OF inj]) blast
  have table: "table_of rows ?w"
    using tampered by (simp add: write_chain_rows recs chain_rows_append nth_append list_update_append edit_row_def)
  have prevs: "chained_prevs ?w = chained_prevs (chain_rows sha256 ?g recs)"
    by (simp add: recs chain_rows_append is_chained_def)
  have d: "distinct (chained_prevs ?w)"
    unfolding prevs by (rule chain_rows_distinct [OF hex inj1])
  have off: "Some (record_tip sha256 ?g (ps @ [r'])) \<notin> set (chained_prevs ?w)"
  proof
    assume "Some (record_tip sha256 ?g (ps @ [r'])) \<in> set (chained_prevs ?w)"
    then obtain i where i: "record_tip sha256 ?g (ps @ [r']) = record_tip sha256 ?g (take i recs)"
      unfolding prevs by (auto simp: chained_prevs_chain_rows)
    have "?h (ps @ [r']) = ?h (take i recs)"
      by (rule record_tip_inj [OF hex _ _ _ i, of "ps @ [r']" recs "[]" "drop i recs"])
        (auto intro: inj_on_subset [OF inj])
    then have "content_hash sha256 r' = ?h (take i recs) ! length ps" and "length ps < length (take i recs)"
      by (metis length_map map_append nth_append_length list.simps(8,9), metis length_append_singleton length_map lessI)
    then have "content_hash sha256 r' = content_hash sha256 r"
      by (simp add: recs nth_append)
    moreover have "content_hash sha256 r' = content_hash sha256 r \<longleftrightarrow> audit_content r' = audit_content r"
      by (rule content_hash_eq_iff [OF inj]) auto
    ultimately show False using edit by blast
  qed
  have "row_path sha256 (by_prev (filter is_chained rows)) ?g (ps @ [r'])"
    using off by (intro table_path [OF table d]) auto
  moreover have "distinct (chained_prevs rows)"
    using d table_of_prevs [OF table] by (metis mset_eq_imp_distinct_iff)
  moreover have "length (filter is_chained rows) = length recs"
    by (simp only: length_chained_prevs table_of_prevs [OF table] prevs) (simp add: chained_prevs_chain_rows)
  ultimately show ?thesis
    using verify_along_path [of rows sha256 "ps @ [r']", OF _ _ _ refl refl] recs by auto
qed

text \<open>
  The end of the chain is not protected: replacing the last written record by any other
  one, or deleting its row, leaves a table that verifies, so the claim that any in-place
  edit is found from the rows alone fails for the tip.
\<close>

theorem db_chain_tip_unprotected:
  assumes "hex_output sha256"
    and "inj_on sha256 (tip_strings sha256 (map (content_hash sha256) (recs @ [r'])))"
    and "write_chain sha256 (recs @ [r]) = (written, tip)"
  shows "(\<exists>v. verify_db_chain sha256
            (edit_row (length recs) r' written) = Some v
          \<and> dv_ok v \<and> dv_chained v = length recs + 1)
    \<and> (\<exists>v. verify_db_chain sha256 (butlast written) = Some v \<and> dv_ok v \<and> dv_chained v = length recs)"
proof -
  let ?g = "CHAIN_GENESIS_HASH sha256"
  have written: "written = chain_rows sha256 ?g recs @ [\<lparr>dcr_record = r, dcr_prev_hash = Some (record_tip sha256 ?g recs)\<rparr>]"
    using assms(3) by (simp add: write_chain_rows chain_rows_append)
  have self: "table_of rows rows" for rows by (auto simp: table_of_def intro: exI [of _ "[]"])
  have "edit_row (length recs) r' written
      = chain_rows sha256 ?g (recs @ [r'])"
    by (simp add: written chain_rows_append nth_append list_update_append edit_row_def)
  moreover have "butlast written = chain_rows sha256 ?g recs" by (simp add: written)
  moreover have "inj_on sha256 (tip_strings sha256 (map (content_hash sha256) recs))"
    by (rule inj_on_subset [OF assms(2)]) (auto simp: tip_strings_def intro: subsetD [OF chain_strings_append])
  ultimately show ?thesis
    using table_verifies [OF assms(1,2) self] table_verifies [OF assms(1) _ self, of recs] by fastforce
qed

text \<open>
  Two chained writers on one table raise a false alarm: each process keeps the tip in
  its own memory, so when both opened the table at the same tip and each adds one record,
  verification of the untampered table reports a fork.
\<close>

theorem two_chained_writers_fork:
  assumes "recompute_committed_tip sha256 rows = t"
    and "insert_chained sha256 r1 (rows, t) = (rows1, t1)" and "insert_chained sha256 r2 (rows1, t) = (rows2, t2)"
  shows "\<exists>v. verify_db_chain sha256 rows2 = Some v \<and> \<not> dv_ok v
    \<and> (\<exists>n prev. dv_reason v = Fork n prev)"
proof -
  have rows2: "rows2 = rows @ [\<lparr>dcr_record = r1, dcr_prev_hash = Some t\<rparr>, \<lparr>dcr_record = r2, dcr_prev_hash = Some t\<rparr>]"
    using assms(2,3) by (auto simp: insert_chained_def)
  let ?c = "filter is_chained rows2"
  have "map_of (by_prev ?c) t = Some (filter (\<lambda>r. dcr_prev_hash r = Some t) rows2)"
    by (simp add: get_by_prev_chained Let_def) (simp add: rows2)
  then have "(t, filter (\<lambda>r. dcr_prev_hash r = Some t) rows2) \<in> set (by_prev ?c)" by (rule map_of_SomeD)
  moreover have "1 < length (filter (\<lambda>r. dcr_prev_hash r = Some t) rows2)" by (simp add: rows2)
  ultimately have "find (\<lambda>(_, g). 1 < length g) (by_prev ?c) \<noteq> None"
    by (auto simp: find_None_iff)
  then obtain k g where "find (\<lambda>(_, g). 1 < length g) (by_prev ?c) = Some (k, g)" by auto
  moreover have "?c \<noteq> []" by (simp add: rows2 is_chained_def)
  ultimately show ?thesis by (simp add: verify_db_chain_def Let_def)
qed

section \<open>Concrete instances\<close>

lemma demo_hash_inj_on: "inj_on demo_hash A"
  using demo_hash_inj by (rule inj_on_subset) simp

lemma table_of_rev: "table_of (rev rows) rows"
  by (auto simp: table_of_def intro: exI [of _ "[]"])

theorem honest_db_chain_verifies_witness:
  "\<exists>v. verify_db_chain demo_hash
      (rev (fst (write_chain demo_hash [demo_audit_record ''a'' 1, demo_audit_record ''b'' 2]))) = Some v
     \<and> dv_ok v \<and> dv_chained v = 2"
  using honest_db_chain_verifies [OF demo_hash_hex demo_hash_inj_on surjective_pairing table_of_rev,
      of "[demo_audit_record ''a'' 1, demo_audit_record ''b'' 2]"]
  by auto

theorem db_chain_detects_edit_witness:
  "\<exists>v. verify_db_chain demo_hash (rev (edit_row 0 (demo_audit_record ''a'' 9)
      (fst (write_chain demo_hash [demo_audit_record ''a'' 1, demo_audit_record ''b'' 2])))) = Some v
     \<and> \<not> dv_ok v \<and> dv_broken_at v = Some ''a''"
  using db_chain_detects_edit [OF demo_hash_hex _ demo_hash_inj_on, of _ "[]" "demo_audit_record ''a'' 1"
      "demo_audit_record ''b'' 2" "[]" "demo_audit_record ''a'' 9", OF refl _ _]
    table_of_rev [of "edit_row 0 (demo_audit_record ''a'' 9)
      (fst (write_chain demo_hash [demo_audit_record ''a'' 1, demo_audit_record ''b'' 2]))"]
  by (simp add: demo_audit_record_simps)

theorem db_chain_tip_unprotected_witness:
  "\<exists>v. verify_db_chain demo_hash (edit_row 1 (demo_audit_record ''b'' 99)
      (fst (write_chain demo_hash [demo_audit_record ''a'' 1, demo_audit_record ''b'' 2]))) = Some v \<and> dv_ok v"
  using db_chain_tip_unprotected [OF demo_hash_hex demo_hash_inj_on surjective_pairing,
      of "[demo_audit_record ''a'' 1]" "demo_audit_record ''b'' 99" "demo_audit_record ''b'' 2"]
  by auto

theorem two_chained_writers_fork_witness:
  "\<exists>v. verify_db_chain demo_hash
      (fst (insert_chained demo_hash (demo_audit_record ''b'' 2)
        (fst (insert_chained demo_hash (demo_audit_record ''a'' 1) ([], recompute_committed_tip demo_hash [])),
         recompute_committed_tip demo_hash []))) = Some v \<and> \<not> dv_ok v"
  using two_chained_writers_fork [OF refl surjective_pairing surjective_pairing,
      of demo_hash "demo_audit_record ''b'' 2" "demo_audit_record ''a'' 1" "[]"]
  by auto

end
