(* ===== verification/RunQueue.thy ===== *)
theory RunQueue
  imports RunStore
begin

text \<open>
  The leased work queue over \<open>InMemoryRunStore\<close>: which run a claim returns, in what
  order the queue drains, what a live lease protects against the other workers, what the
  reaper re-queues, and the per-tenant admission and retention operations.
\<close>

section \<open>Stores keyed by run id\<close>

text \<open>The part of well-formedness that every operation keeps without any condition.\<close>

definition keyed :: "run_store \<Rightarrow> bool" where
  "keyed st \<longleftrightarrow> dict_wf (rs_runs st) \<and> (\<forall>rid r. map_of (rs_runs st) rid = Some r \<longrightarrow> run_id r = rid)"

lemma keyed_wf: "run_store_wf st \<Longrightarrow> keyed st"
  by (simp add: keyed_def run_store_wf_def)

lemma keyedD:
  assumes "keyed st"
  shows "dict_wf (rs_runs st)" and "map_of (rs_runs st) rid = Some r \<Longrightarrow> run_id r = rid"
    and "(rid, r) \<in> set (rs_runs st) \<Longrightarrow> map_of (rs_runs st) rid = Some r"
    and "(rid, r) \<in> set (rs_runs st) \<Longrightarrow> run_id r = rid"
  using assms by (auto simp: keyed_def)

section \<open>The claim\<close>

lemma claim_def_keyed:
  assumes "keyed st" and "claim_candidates now lanes fairness wsconc st = (rid, r) # rest"
    and "lanes \<noteq> Some []"
  shows "rid = run_id r" and "map_of (rs_runs st) (run_id r) = Some r" and "is_ready now lanes r"
    and "claim_next_queued_run owner lease lanes now fairness wsconc st =
      (Some (claim_stamp now owner lease r),
       st\<lparr>rs_runs := AList.update (run_id r) (claim_stamp now owner lease r) (rs_runs st)\<rparr>)"
proof -
  have "(rid, r) \<in> set (claim_candidates now lanes fairness wsconc st)"
    using assms(2) by simp
  then have mem: "(rid, r) \<in> set (rs_runs st)" and "is_ready now lanes r"
    by (auto simp: set_claim_candidates)
  then show "rid = run_id r" "map_of (rs_runs st) (run_id r) = Some r" "is_ready now lanes r"
    using keyedD [OF assms(1)] by auto
  then show "claim_next_queued_run owner lease lanes now fairness wsconc st =
      (Some (claim_stamp now owner lease r),
       st\<lparr>rs_runs := AList.update (run_id r) (claim_stamp now owner lease r) (rs_runs st)\<rparr>)"
    using assms(2,3) by (simp add: claim_next_queued_run_def Let_def)
qed

lemma claim_none:
  "lanes = Some [] \<or> claim_candidates now lanes fairness wsconc st = [] \<Longrightarrow>
   claim_next_queued_run owner lease lanes now fairness wsconc st = (None, st)"
  by (auto simp: claim_next_queued_run_def)

text \<open>Claiming takes the first candidate away and leaves the rest in their order.\<close>

lemma claim_candidates_after_claim:
  assumes k: "keyed st" and c: "claim_candidates now lanes False wsconc st = (rid, r) # rest"
  shows "claim_candidates now lanes False wsconc
    (st\<lparr>rs_runs := AList.update rid (claim_stamp now owner lease r) (rs_runs st)\<rparr>) = rest"
proof -
  let ?key = "\<lambda>(_ :: string, r). due_key r"
  let ?ready = "filter (\<lambda>(_, r). is_ready now lanes r) (rs_runs st)"
  have sorted: "sort_key ?key ?ready = (rid, r) # rest"
    using c by (simp add: claim_candidates_def)
  have wf: "dict_wf (rs_runs st)" using k by (simp add: keyedD)
  have "(rid, r) \<in> set (claim_candidates now lanes False wsconc st)" using c by simp
  then have get: "map_of (rs_runs st) rid = Some r"
    using keyedD(3) [OF k] by (auto simp: set_claim_candidates)
  have "filter (\<lambda>(_, r). is_ready now lanes r)
      (AList.update rid (claim_stamp now owner lease r) (rs_runs st))
    = filter (\<lambda>p. fst p \<noteq> rid) ?ready"
    using wf by (subst filter_update_drop) (auto simp: is_ready_def claim_stamp_def conj_commute)
  then have "claim_candidates now lanes False wsconc
      (st\<lparr>rs_runs := AList.update rid (claim_stamp now owner lease r) (rs_runs st)\<rparr>)
    = sort_key ?key (filter (\<lambda>p. fst p \<noteq> rid) ?ready)"
    by (simp add: claim_candidates_def)
  also have "\<dots> = filter (\<lambda>p. fst p \<noteq> rid) ((rid, r) # rest)"
    by (simp only: filter_sort [of "\<lambda>p. fst p \<noteq> rid" ?key ?ready, symmetric] sorted)
  also have "\<dots> = rest"
  proof -
    have "dict_wf ((rid, r) # rest)"
      unfolding sorted [symmetric] using wf by (intro wf_intros)
    then show ?thesis by (auto simp: filter_id_conv rev_image_eqI)
  qed
  finally show ?thesis .
qed

text \<open>One claim per worker in turn, at one instant and without the fairness ordering.\<close>

fun drain ::
  "string list \<Rightarrow> duration \<Rightarrow> string list option \<Rightarrow> instant \<Rightarrow> run_store
     \<Rightarrow> run_record list \<times> run_store" where
  "drain [] lease lanes now st = ([], st)"
| "drain (w # ws) lease lanes now st =
     (case claim_next_queued_run w lease lanes now False 0 st of
        (None, st') \<Rightarrow> drain ws lease lanes now st'
      | (Some r, st') \<Rightarrow> (let (rs, st'') = drain ws lease lanes now st' in (r # rs, st'')))"

lemma keyed_put:
  "keyed st \<Longrightarrow> run_id r = rid \<Longrightarrow> keyed (st\<lparr>rs_runs := AList.update rid r (rs_runs st)\<rparr>)"
  by (simp add: keyed_def)

lemma keyed_claim:
  assumes "keyed st"
  shows "keyed (snd (claim_next_queued_run owner lease lanes now fairness wsconc st))"
proof (cases "lanes = Some [] \<or> claim_candidates now lanes fairness wsconc st = []")
  case True
  with assms show ?thesis by (simp only: claim_none snd_conv)
next
  case False
  then obtain rid r rest where c: "claim_candidates now lanes fairness wsconc st = (rid, r) # rest"
    by (cases "claim_candidates now lanes fairness wsconc st") auto
  with False claim_def_keyed [OF assms c] assms show ?thesis
    by (simp add: keyed_put claim_stamp_def)
qed

lemma drain_order:
  assumes "keyed st" and "lanes \<noteq> Some []"
  shows "fst (drain ws lease lanes now st) =
    map (\<lambda>(w, _, r). claim_stamp now w lease r) (zip ws (claim_candidates now lanes False 0 st))"
  using assms(1)
proof (induction ws arbitrary: st)
  case Nil
  then show ?case by simp
next
  case (Cons w ws)
  show ?case
  proof (cases "claim_candidates now lanes False 0 st")
    case Nil
    then have "claim_next_queued_run w lease lanes now False 0 st = (None, st)"
      by (simp add: claim_next_queued_run_def)
    with Nil Cons show ?thesis by simp
  next
    case (Cons p rest)
    obtain rid r where p: "p = (rid, r)" by fastforce
    note c = Cons [unfolded p]
    note claim = claim_def_keyed [OF \<open>keyed st\<close> c assms(2)]
    have rest: "claim_candidates now lanes False 0
        (st\<lparr>rs_runs := AList.update (run_id r) (claim_stamp now w lease r) (rs_runs st)\<rparr>) = rest"
      using claim_candidates_after_claim [OF \<open>keyed st\<close> c] claim(1) by simp
    have k: "keyed (st\<lparr>rs_runs := AList.update (run_id r) (claim_stamp now w lease r) (rs_runs st)\<rparr>)"
      using \<open>keyed st\<close> by (rule keyed_put) (simp add: claim_stamp_def)
    show ?thesis
      using Cons.IH [OF k] by (simp add: claim(4) c rest Let_def case_prod_unfold)
  qed
qed

text \<open>
  The queue drains in due order: a sequence of claims by the workers \<open>ws\<close> at one
  instant returns the ready runs sorted by (next attempt or creation, creation), the
  \<open>i\<close>-th run stamped RUNNING for the \<open>i\<close>-th worker, each run once, and no other run.
\<close>

theorem queue_drains_in_due_order:
  assumes "run_store_wf st" and "lanes \<noteq> Some []"
  shows "fst (drain ws lease lanes now st) =
    map (\<lambda>(w, r). claim_stamp now w lease r)
      (zip ws (sort_key due_key (filter (is_ready now lanes) (dict_values (rs_runs st)))))"
proof -
  have "map snd (claim_candidates now lanes False 0 st)
      = sort_key due_key (filter (is_ready now lanes) (dict_values (rs_runs st)))"
    by (simp add: claim_candidates_def map_sort_key [symmetric] filter_map comp_def case_prod_unfold)
  then have "zip ws (sort_key due_key (filter (is_ready now lanes) (dict_values (rs_runs st))))
      = map (\<lambda>(w, p). (w, snd p)) (zip ws (claim_candidates now lanes False 0 st))"
    by (metis zip_map2)
  then show ?thesis
    using drain_order [OF keyed_wf [OF assms(1)] assms(2), of ws lease now]
    by (simp add: comp_def case_prod_unfold)
qed

theorem queue_drains_in_due_order_witness:
  "map run_id (fst (drain [''p'', ''q'', ''r''] 10 None 5 demo_store)) = [''b'', ''a'']"
  using queue_drains_in_due_order [OF demo_store_wf, of None "[''p'', ''q'', ''r'']" 10 5]
  by (simp add: demo_store_def new_run_def is_ready_def lane_matches_def due_key_def claim_stamp_def)

section \<open>What a live lease protects\<close>

text \<open>
  The operations the workers, the reaper and the approval endpoint issue against a shared
  store, each at its own instant; a history is a list of them in the order they execute.
\<close>

datatype queue_op =
    Claim string duration "string list option" bool int
  | Renew string string duration
  | Reap "string list option"
  | Redrive string "string option"
  | Resume string string
  | Write run_record string
  | Create run_record int

fun apply_op :: "instant \<times> queue_op \<Rightarrow> run_store \<Rightarrow> run_store" where
  "apply_op (now, Claim owner lease lanes fairness wsconc) st =
     snd (claim_next_queued_run owner lease lanes now fairness wsconc st)"
| "apply_op (now, Renew rid owner lease) st = snd (renew_lease rid owner lease now st)"
| "apply_op (now, Reap lanes) st = snd (requeue_expired_leases now lanes st)"
| "apply_op (now, Redrive rid ws) st = snd (redrive_run rid ws now st)"
| "apply_op (now, Resume rid ws) st = snd (claim_run_for_resume now rid ws st)"
| "apply_op (now, Write run owner) st = snd (save_run_if_owner now run owner st)"
| "apply_op (now, Create run cap) st = snd (save_run_if_under_quota now cap run st)"

text \<open>Not a heartbeat or a write of \<open>owner\<close> on \<open>rid\<close>, nor a create reusing its id.\<close>

fun foreign_op :: "string \<Rightarrow> string \<Rightarrow> queue_op \<Rightarrow> bool" where
  "foreign_op owner rid (Renew rid' owner' _) = (rid' \<noteq> rid \<or> owner' \<noteq> owner)"
| "foreign_op owner rid (Write run owner') = (run_id run \<noteq> rid \<or> owner' \<noteq> owner)"
| "foreign_op owner rid (Create run _) = (run_id run \<noteq> rid)"
| "foreign_op owner rid _ = True"

lemma keyed_save: "keyed st \<Longrightarrow> keyed (snd (save_run now run st))"
  by (simp add: keyed_def)

lemma keyed_apply_op: "keyed st \<Longrightarrow> keyed (apply_op (now, op) st)"
proof (cases op)
  case (Reap lanes)
  then show "keyed st \<Longrightarrow> keyed (apply_op (now, op) st)"
    by (auto simp: requeue_expired_leases_def keyed_def dict_get_map_values requeue_stamp_def)
qed (auto simp: renew_lease_def redrive_run_def claim_run_for_resume_def save_run_if_owner_def
       save_run_if_under_quota_eq keyed_claim keyed_save keyedD intro!: keyed_put split: option.split)

text \<open>What each operation leaves alone.\<close>

lemma get_run_save_other:
  "run_id run \<noteq> rid \<Longrightarrow> get_run rid (snd (save_run now run st)) = get_run rid st"
  by (auto simp: get_run_def)

lemma get_run_write_other:
  "run_id run \<noteq> rid \<Longrightarrow> get_run rid (snd (save_run_if_owner now run owner st)) = get_run rid st"
  by (simp add: save_run_if_owner_def get_run_save_other split: option.split)

lemma save_run_if_not_owner:
  "get_run (run_id run) st = Some r \<Longrightarrow> owner_id r \<noteq> Some owner \<Longrightarrow>
   save_run_if_owner now run owner st = (False, st)"
  by (simp add: save_run_if_owner_def get_run_def)

lemma get_run_create_other:
  "run_id run \<noteq> rid \<Longrightarrow> get_run rid (snd (save_run_if_under_quota now cap run st)) = get_run rid st"
  by (simp add: save_run_if_under_quota_eq get_run_save_other split: option.split)

lemma get_run_renew_unheld:
  "get_run rid st = Some r \<Longrightarrow> rid' \<noteq> rid \<or> owner_id r \<noteq> Some owner \<Longrightarrow>
   get_run rid (snd (renew_lease rid' owner lease now st)) = Some r"
  by (auto simp: renew_lease_def get_run_def split: option.split)

lemma get_run_redrive_running:
  "get_run rid st = Some r \<Longrightarrow> status r = RUNNING \<Longrightarrow>
   get_run rid (snd (redrive_run rid' ws now st)) = Some r"
  by (auto simp: redrive_run_def get_run_def split: option.split)

lemma get_run_resume_running:
  "get_run rid st = Some r \<Longrightarrow> status r = RUNNING \<Longrightarrow>
   get_run rid (snd (claim_run_for_resume now rid' ws st)) = Some r"
  by (auto simp: claim_run_for_resume_def get_run_def split: option.split)

lemma get_run_claim_running:
  assumes "keyed st" and "get_run rid st = Some r" and "status r = RUNNING"
  shows "get_run rid (snd (claim_next_queued_run owner lease lanes now fairness wsconc st)) = Some r"
proof (cases "lanes = Some [] \<or> claim_candidates now lanes fairness wsconc st = []")
  case True
  with assms show ?thesis by (simp only: claim_none snd_conv)
next
  case False
  then obtain i c rest where c: "claim_candidates now lanes fairness wsconc st = (i, c) # rest"
    by (cases "claim_candidates now lanes fairness wsconc st") auto
  with False claim_def_keyed [OF assms(1) c] assms(2,3) have "run_id c \<noteq> rid"
    by (auto simp: get_run_def is_ready_def)
  with False claim_def_keyed [OF assms(1) c] assms(2) show ?thesis by (simp add: get_run_def)
qed

lemma get_run_reap_live:
  "get_run rid st = Some r \<Longrightarrow> lease_expires_at r = Some t \<Longrightarrow> now < t \<Longrightarrow>
   get_run rid (snd (requeue_expired_leases now lanes st)) = Some r"
  by (auto simp: requeue_expired_leases_def get_run_def dict_get_map_values lease_expired_def)

lemmas get_run_frame = get_run_claim_running get_run_reap_live get_run_resume_running
  get_run_redrive_running get_run_renew_unheld get_run_create_other get_run_write_other

lemma foreign_op_keeps_leased_run:
  assumes k: "keyed st" and r: "get_run rid st = Some r"
    and leased: "status r = RUNNING" "owner_id r = Some owner" "lease_expires_at r = Some t"
    and foreign: "foreign_op owner rid op" and before: "now < t"
  shows "get_run rid (apply_op (now, op) st) = Some r"
proof (cases op)
  case (Write run w)
  show ?thesis
  proof (cases "run_id run = rid")
    case True
    with Write foreign r leased show ?thesis by (simp add: save_run_if_not_owner)
  next
    case False
    with Write r show ?thesis by (simp add: get_run_write_other)
  qed
qed (use k r leased foreign before in \<open>auto simp: get_run_frame\<close>)

lemma foreign_history_keeps_leased_run:
  assumes "keyed st" and "get_run rid st = Some r"
    and "status r = RUNNING" "owner_id r = Some owner" "lease_expires_at r = Some t"
    and "list_all (\<lambda>(now, op). now < t \<and> foreign_op owner rid op) ops"
  shows "get_run rid (fold apply_op ops st) = Some r \<and> keyed (fold apply_op ops st)"
  using assms
proof (induction ops arbitrary: st)
  case Nil
  then show ?case by simp
next
  case (Cons p ops)
  obtain now op where p: "p = (now, op)" by fastforce
  with Cons.prems have "get_run rid (apply_op p st) = Some r"
    by (auto intro: foreign_op_keeps_leased_run)
  moreover have "keyed (apply_op p st)" unfolding p using Cons.prems(1) by (rule keyed_apply_op)
  ultimately show ?case using Cons by auto
qed

text \<open>
  C1: A live lease is exclusive: whatever claims, heartbeats, reaps, redrives, approvals,
  owner-guarded writes and creates the other workers execute before the lease of a RUNNING
  run expires, the run's record stays exactly as its owner left it.
\<close>

theorem live_lease_exclusive:
  assumes "run_store_wf st" and "get_run rid st = Some r"
    and "status r = RUNNING" and "owner_id r = Some owner" and "lease_expires_at r = Some t"
    and "list_all (\<lambda>(now, op). now < t \<and> foreign_op owner rid op) ops"
  shows "get_run rid (fold apply_op ops st) = Some r"
  using foreign_history_keeps_leased_run [OF keyed_wf [OF assms(1)] assms(2-6)] by simp

theorem live_lease_exclusive_witness:
  "map_option owner_id (get_run ''c'' (fold apply_op
      [(50, Reap None), (60, Claim ''q'' 10 None False 0), (70, Renew ''c'' ''q'' 10)] demo_store))
    = Some (Some ''p'')"
proof -
  have "get_run ''c'' demo_store = Some ((new_run ''c'' ''v'' ''s'' 1)\<lparr>status := RUNNING,
      owner_id := Some ''p'', lease_expires_at := Some 100, attempt := 1\<rparr>)"
    by (simp add: demo_store_def get_run_def)
  from live_lease_exclusive [OF demo_store_wf this, where owner = "''p''" and t = 100
      and ops = "[(50, Reap None), (60, Claim ''q'' 10 None False 0), (70, Renew ''c'' ''q'' 10)]"]
  show ?thesis by simp
qed

text \<open>
  C2: No double dispatch: after a worker wins a run, no claim of any worker returns that run
  again while the lease lasts, however the other workers' operations are interleaved.
\<close>

theorem no_double_dispatch:
  assumes "run_store_wf st"
    and "claim_next_queued_run owner lease lanes now fairness wsconc st = (Some r, st1)"
    and "list_all (\<lambda>(t, op). t < now + lease \<and> foreign_op owner (run_id r) op) ops"
    and "claim_next_queued_run owner' lease' lanes' now' fairness' wsconc' (fold apply_op ops st1)
      = (Some r', st2)"
  shows "run_id r' \<noteq> run_id r"
proof -
  have k: "keyed st" using assms(1) by (rule keyed_wf)
  from assms(1,2) obtain c where r: "r = claim_stamp now owner lease c"
    and st1: "st1 = st\<lparr>rs_runs := AList.update (run_id c) r (rs_runs st)\<rparr>"
    by (cases rule: claim_cases [OF assms(1), of owner lease lanes now fairness wsconc]) auto
  from assms(2) keyed_claim [OF k, of owner lease lanes now fairness wsconc]
  have k1: "keyed st1" by simp
  have "get_run (run_id r) (fold apply_op ops st1) = Some r \<and> keyed (fold apply_op ops st1)"
  proof (rule foreign_history_keeps_leased_run [OF k1])
    show "get_run (run_id r) st1 = Some r" using r st1 by (simp add: get_run_def claim_stamp_def)
    show "status r = RUNNING" "owner_id r = Some owner" "lease_expires_at r = Some (now + lease)"
      using r by (simp_all add: claim_stamp_def)
  qed (fact assms(3))
  then have kept: "get_run (run_id r) (fold apply_op ops st1) = Some r"
    and k2: "keyed (fold apply_op ops st1)" by simp_all
  show ?thesis
  proof (cases "lanes' = Some [] \<or> claim_candidates now' lanes' fairness' wsconc' (fold apply_op ops st1) = []")
    case True
    with assms(4) show ?thesis by (simp add: claim_none)
  next
    case False
    then obtain i c' rest where c':
      "claim_candidates now' lanes' fairness' wsconc' (fold apply_op ops st1) = (i, c') # rest"
      by (cases "claim_candidates now' lanes' fairness' wsconc' (fold apply_op ops st1)") auto
    with False claim_def_keyed [OF k2 c'] assms(4) kept r show ?thesis
      by (auto simp: get_run_def is_ready_def claim_stamp_def)
  qed
qed

theorem no_double_dispatch_witness:
  "\<exists>r r' st1 st2. claim_next_queued_run ''p'' 10 None 5 False 0 demo_store = (Some r, st1)
     \<and> claim_next_queued_run ''q'' 10 None 9 False 0 (fold apply_op [(8, Reap None)] st1) = (Some r', st2)
     \<and> run_id r' \<noteq> run_id r"
proof -
  let ?b = "(new_run ''b'' ''w'' ''s'' 2)\<lparr>next_attempt_at := Some 3\<rparr>"
  let ?a = "(new_run ''a'' ''w'' ''s'' 4)\<lparr>idempotency_key := Some ''k''\<rparr>"
  let ?st1 = "demo_store\<lparr>rs_runs := AList.update ''b'' (claim_stamp 5 ''p'' 10 ?b) (rs_runs demo_store)\<rparr>"
  note simps = demo_store_def new_run_def claim_next_queued_run_def claim_candidates_def is_ready_def
    lane_matches_def due_key_def claim_stamp_def requeue_expired_leases_def lease_expired_def
  have 1: "claim_next_queued_run ''p'' 10 None 5 False 0 demo_store = (Some (claim_stamp 5 ''p'' 10 ?b), ?st1)"
    by (simp add: simps Let_def)
  have 2: "\<exists>st2. claim_next_queued_run ''q'' 10 None 9 False 0 (fold apply_op [(8, Reap None)] ?st1)
      = (Some (claim_stamp 9 ''q'' 10 ?a), st2)"
    by (simp add: simps Let_def)
  then obtain st2 where st2: "claim_next_queued_run ''q'' 10 None 9 False 0 (fold apply_op [(8, Reap None)] ?st1)
      = (Some (claim_stamp 9 ''q'' 10 ?a), st2)" ..
  have "run_id (claim_stamp 9 ''q'' 10 ?a) \<noteq> run_id (claim_stamp 5 ''p'' 10 ?b)"
    by (rule no_double_dispatch [OF demo_store_wf 1 _ st2]) simp
  with 1 st2 show ?thesis by blast
qed

section \<open>The reaper\<close>

lemma requeue_stamp_ready:
  "lease_expired now lanes r \<Longrightarrow> now \<le> now' \<Longrightarrow> is_ready now' lanes (requeue_stamp now r)"
  by (auto simp: is_ready_def requeue_stamp_def lease_expired_def lane_matches_def split: option.splits)

lemma requeue_stamp_not_expired: "\<not> lease_expired now' lanes (requeue_stamp now r)"
  by (simp add: requeue_stamp_def lease_expired_def)

lemma get_run_requeue:
  "lanes \<noteq> Some [] \<Longrightarrow> get_run rid (snd (requeue_expired_leases now lanes st)) =
     map_option (\<lambda>r. if lease_expired now lanes r then requeue_stamp now r else r) (get_run rid st)"
  by (simp add: requeue_expired_leases_def get_run_def dict_get_map_values)

lemma requeued_ids:
  assumes "keyed st" and "lanes \<noteq> Some []"
  shows "rid \<in> set (fst (requeue_expired_leases now lanes st)) \<longleftrightarrow>
    (\<exists>r. get_run rid st = Some r \<and> lease_expired now lanes r)"
  using assms keyedD(1,4) [OF assms(1)]
  by (fastforce simp: requeue_expired_leases_def get_run_def dict_get_iff rev_image_eqI)

lemma requeue_twice:
  assumes "lanes \<noteq> Some []"
  shows "requeue_expired_leases now lanes (snd (requeue_expired_leases now lanes st))
    = ([], snd (requeue_expired_leases now lanes st))"
proof -
  let ?f = "\<lambda>(rid :: string, r). (rid, if lease_expired now lanes r then requeue_stamp now r else r)"
  have none: "\<not> lease_expired now lanes r" if "r \<in> snd ` ?f ` set (rs_runs st)" for r
    using that by (auto simp: requeue_stamp_not_expired split: if_splits)
  have "filter (lease_expired now lanes) (map snd (map ?f (rs_runs st))) = []"
    unfolding filter_empty_conv list.set_map by (intro ballI none)
  moreover have "map ?f (map ?f (rs_runs st)) = map ?f (rs_runs st)"
    by (simp add: requeue_stamp_not_expired case_prod_unfold)
  ultimately show ?thesis
    using assms by (simp add: requeue_expired_leases_def)
qed

lemma keyed_requeue: "keyed st \<Longrightarrow> keyed (snd (requeue_expired_leases now lanes st))"
  using keyed_apply_op [of st now "Reap lanes"] by simp

lemma claim_some_if_ready:
  assumes "keyed st" and "get_run rid st = Some r" and "is_ready now lanes r" and "lanes \<noteq> Some []"
  shows "\<exists>r'. fst (claim_next_queued_run owner lease lanes now False wsconc st) = Some r'"
proof -
  from assms have "(rid, r) \<in> set (claim_candidates now lanes False wsconc st)"
    by (simp add: set_claim_candidates get_run_def keyedD dict_get_iff)
  then obtain i c rest where "claim_candidates now lanes False wsconc st = (i, c) # rest"
    by (cases "claim_candidates now lanes False wsconc st") auto
  from claim_def_keyed(4) [OF assms(1) this assms(4)] show ?thesis by simp
qed



section \<open>Fair claims\<close>

lemma claim_candidates_fair:
  "claim_candidates now lanes True wsconc st = (rid, r) # rest \<Longrightarrow>
   (rid', r') \<in> set (claim_candidates now lanes True wsconc st) \<Longrightarrow>
   workspace_load now st (workspace_id r) \<le> workspace_load now st (workspace_id r')"
proof -
  assume c: "claim_candidates now lanes True wsconc st = (rid, r) # rest"
    and mem: "(rid', r') \<in> set (claim_candidates now lanes True wsconc st)"
  let ?key = "\<lambda>(_ :: string, r). (workspace_load now st (workspace_id r), due_key r)"
  obtain xs where xs: "claim_candidates now lanes True wsconc st = sort_key ?key xs"
    by (auto simp: claim_candidates_def Let_def)
  from mem xs have "(rid', r') \<in> set xs" "xs \<noteq> []" by auto
  then have "?key (hd (sort_key ?key xs)) \<le> ?key (rid', r')" by (intro hd_sort_key_min)
  with c xs show ?thesis by auto
qed

lemma workspace_load_after_claim:
  assumes "keyed st" and "get_run (run_id r) st = Some r" and "status r = QUEUED"
  shows "workspace_load now (st\<lparr>rs_runs := AList.update (run_id r) (claim_stamp now owner lease r) (rs_runs st)\<rparr>) ws
    \<le> workspace_load now st ws + (if ws = workspace_id r then 1 else 0)"
proof -
  let ?P = "\<lambda>p. workspace_id (snd p) = ws \<and> live_leased now (snd p)"
  have load: "workspace_load now st' ws = length (filter ?P (rs_runs st'))" for st'
    by (simp add: workspace_load_def filter_map comp_def)
  show ?thesis
  proof (cases "ws = workspace_id r")
    case True
    then show ?thesis
      unfolding load using length_filter_update_le [OF keyedD(1) [OF assms(1)], of ?P] by simp
  next
    case False
    have "filter ?P (AList.update (run_id r) (claim_stamp now owner lease r) (rs_runs st))
        = filter (\<lambda>p. ?P p \<and> fst p \<noteq> run_id r) (rs_runs st)"
      using False by (intro filter_update_drop keyedD(1) [OF assms(1)]) (simp add: claim_stamp_def)
    then have "length (filter ?P (AList.update (run_id r) (claim_stamp now owner lease r) (rs_runs st)))
        = length (filter (\<lambda>p. fst p \<noteq> run_id r) (filter ?P (rs_runs st)))"
      by (simp add: conj_commute)
    also have "\<dots> \<le> length (filter ?P (rs_runs st))" by (rule length_filter_le)
    finally show ?thesis using False by (simp add: load)
  qed
qed

text \<open>
  Per-tenant fairness: with the fairness ordering on and a positive concurrency cap, the
  claimed run belongs to a workspace below the cap that is least loaded among those with an
  admissible ready run, and if no workspace was over the cap before the claim, none is after.
\<close>

theorem fair_claim_respects_cap:
  assumes wf: "run_store_wf st" and cap: "0 < wsconc"
    and claim: "claim_next_queued_run owner lease lanes now True wsconc st = (Some r, st')"
    and under: "\<forall>ws. int (workspace_load now st ws) \<le> wsconc"
  shows "int (workspace_load now st (workspace_id r)) < wsconc
       \<and> (\<forall>r' \<in> set (dict_values (rs_runs st)). is_ready now lanes r'
            \<and> int (workspace_load now st (workspace_id r')) < wsconc \<longrightarrow>
            workspace_load now st (workspace_id r) \<le> workspace_load now st (workspace_id r'))
       \<and> (\<forall>ws. int (workspace_load now st' ws) \<le> wsconc)"
  using wf
proof (cases rule: claim_cases [of st owner lease lanes now True wsconc])
  case empty
  with claim show ?thesis by simp
next
  case (won c rest)
  with claim have r: "workspace_id r = workspace_id c"
    and st': "st' = st\<lparr>rs_runs := AList.update (run_id c) (claim_stamp now owner lease c) (rs_runs st)\<rparr>"
    by (auto simp: claim_stamp_def)
  have "(run_id c, c) \<in> set (claim_candidates now lanes True wsconc st)" using won(1) by simp
  then have below: "int (workspace_load now st (workspace_id c)) < wsconc"
    using cap by (simp add: set_claim_candidates)
  have least: "workspace_load now st (workspace_id c) \<le> workspace_load now st (workspace_id r')"
    if "r' \<in> set (dict_values (rs_runs st))" "is_ready now lanes r'"
      "int (workspace_load now st (workspace_id r')) < wsconc" for r'
  proof -
    from that(1) obtain i where "(i, r') \<in> set (rs_runs st)" by auto
    with that(2,3) have "(i, r') \<in> set (claim_candidates now lanes True wsconc st)"
      by (simp add: set_claim_candidates)
    with won(1) show ?thesis by (rule claim_candidates_fair)
  qed
  have "int (workspace_load now st' ws) \<le> wsconc" for ws
  proof -
    have "workspace_load now st' ws \<le> workspace_load now st ws + (if ws = workspace_id c then 1 else 0)"
      unfolding st' using won(2,3)
      by (intro workspace_load_after_claim [OF keyed_wf [OF wf]]) (simp_all add: get_run_def is_ready_def)
    with below under [rule_format, of ws] show ?thesis by (cases "ws = workspace_id c") simp_all
  qed
  with below least r show ?thesis by auto
qed

theorem fair_claim_respects_cap_witness:
  "\<exists>r st'. claim_next_queued_run ''q'' 10 None 5 True 1 demo_store = (Some r, st')
     \<and> int (workspace_load 5 demo_store (workspace_id r)) < 1
     \<and> int (workspace_load 5 st' ''w'') \<le> 1"
proof -
  let ?b = "(new_run ''b'' ''w'' ''s'' 2)\<lparr>next_attempt_at := Some 3\<rparr>"
  note simps = demo_store_def new_run_def claim_next_queued_run_def claim_candidates_def is_ready_def
    lane_matches_def due_key_def claim_stamp_def workspace_load_def live_leased_def
  have "\<exists>st'. claim_next_queued_run ''q'' 10 None 5 True 1 demo_store = (Some (claim_stamp 5 ''q'' 10 ?b), st')"
    by (simp add: simps Let_def)
  then obtain st' where c: "claim_next_queued_run ''q'' 10 None 5 True 1 demo_store
      = (Some (claim_stamp 5 ''q'' 10 ?b), st')" ..
  moreover have "\<forall>ws. int (workspace_load 5 demo_store ws) \<le> 1"
    by (simp add: demo_store_def new_run_def workspace_load_def live_leased_def)
  ultimately show ?thesis
    using fair_claim_respects_cap [OF demo_store_wf _ c] by auto
qed

end
