(* ===== verification/RunRetry.thy ===== *)
theory RunRetry
  imports RunQueue Records
begin

text \<open>
  The retry policy of leased runs (himmy/application/run_retry.py) and the provider lane of a
  run (himmy/services/storage/run_lane.py): classification of a failure, exponential backoff,
  re-queue or PARK. Strings are code points up to 255; lower-casing covers Latin-1. The one
  clock reading \<open>now\<close> stands for the ones a call makes.
\<close>

section \<open>The provider lane\<close>

definition LANE_LOCAL :: string where "LANE_LOCAL = ''local''"
definition LANE_CLOUD :: string where "LANE_CLOUD = ''cloud''"
definition LANE_DEFAULT :: string where "LANE_DEFAULT = ''default''"

definition LOCAL_PROVIDERS :: "string list" where
  "LOCAL_PROVIDERS = [''ollama'', ''claude-cli'', ''claude_cli'', ''himalaya'', ''local'']"

definition lane_for_model_key :: "string option \<Rightarrow> string" where
  "lane_for_model_key mkey =
     (case mkey of
        None \<Rightarrow> LANE_DEFAULT
      | Some mk \<Rightarrow>
          (let key = py_strip py_is_space mk
           in if key = [] then LANE_DEFAULT
              else
                (let provider = (if CHR '':'' \<in> set key
                       then py_lower (py_strip py_is_space (takeWhile (\<lambda>c. c \<noteq> CHR '':'') key)) else [])
                 in if provider \<in> set LOCAL_PROVIDERS then LANE_LOCAL else LANE_CLOUD)))"

section \<open>Classification\<close>

definition RETRYABLE_ERROR_CODES :: "string list" where
  "RETRYABLE_ERROR_CODES = [''RATE_LIMITED'', ''TIMEOUT'', ''PROVIDER_UNAVAILABLE'']"

definition TRANSIENT_ERROR_MARKERS :: "string list" where
  "TRANSIENT_ERROR_MARKERS =
     [''timeout'', ''timed out'', ''connection'', ''connect error'', ''temporarily unavailable'',
      ''unreachable'', ''rate limit'', ''429'', ''503'', ''502'', ''504'', ''overloaded'', ''provider'',
      ''econnreset'', ''broken pipe'', ''model not found'', ''no route to host'']"

datatype retry_error = TypeError | OverflowError

text \<open>
  A truthy code is decisive; \<open>x in {...}\<close> raises for an unhashable \<open>x\<close>.
\<close>

definition is_transient_run_error :: "string \<Rightarrow> json \<Rightarrow> retry_error + bool" where
  "is_transient_run_error err error_code =
     (if json_truthy error_code then
        (case error_code of
           JStr s \<Rightarrow> Inr (s \<in> set RETRYABLE_ERROR_CODES)
         | JList _ \<Rightarrow> Inl TypeError
         | JObj _ \<Rightarrow> Inl TypeError
         | _ \<Rightarrow> Inr False)
      else if err = [] then Inr False
      else Inr (list_ex (\<lambda>m. py_in m (py_lower err)) TRANSIENT_ERROR_MARKERS))"

section \<open>The policy\<close>

definition seconds :: "int \<Rightarrow> duration" where
  "seconds n = n * 1000000"

definition DEFAULT_QUEUE_MAX_AGE :: duration where
  "DEFAULT_QUEUE_MAX_AGE = seconds 3600"

text \<open>
  \<open>min(2.0 * 2.0 ** max(0, attempt - 1), 300.0)\<close>. A power of two is exact in floating
  point; from \<open>2.0 ** 1024\<close> on the power raises \<open>OverflowError\<close>.
\<close>

definition backoff_delay :: "int \<Rightarrow> duration option" where
  "backoff_delay att =
     (let k = max 0 (att - 1)
      in if 1024 \<le> k then None else Some (seconds (min (2 * 2 ^ nat k) 300)))"

definition requeue_transient :: "instant \<Rightarrow> string \<Rightarrow> duration \<Rightarrow> run_record \<Rightarrow> run_record" where
  "requeue_transient now err delay run =
     run\<lparr>status := QUEUED, owner_id := None, lease_expires_at := None, last_error := Some err,
         error := None, next_attempt_at := Some (now + delay), updated_at := now\<rparr>"

definition park_run :: "instant \<Rightarrow> string \<Rightarrow> run_record \<Rightarrow> run_record" where
  "park_run now err run =
     run\<lparr>status := PARKED, last_error := Some err, owner_id := None, lease_expires_at := None,
         updated_at := now\<rparr>"

definition apply_retry_policy :: "instant \<Rightarrow> string \<Rightarrow> run_store \<Rightarrow> retry_error + run_store" where
  "apply_retry_policy now rid st =
     (case get_run rid st of
        None \<Rightarrow> Inr st
      | Some run \<Rightarrow>
          if status run \<noteq> FAILED then Inr st
          else
            (let err = (case error run of None \<Rightarrow> [] | Some e \<Rightarrow> e);
                 code = (case map_of (metadata run) ''error_code'' of None \<Rightarrow> JNull | Some c \<Rightarrow> c)
             in case is_transient_run_error err code of
                  Inl e \<Rightarrow> Inl e
                | Inr False \<Rightarrow> Inr st
                | Inr True \<Rightarrow>
                    if attempt run < max 1 (max_attempts run) \<and> now - created_at run < DEFAULT_QUEUE_MAX_AGE
                    then (case backoff_delay (attempt run) of
                            None \<Rightarrow> Inl OverflowError
                          | Some delay \<Rightarrow> Inr (snd (save_run now (requeue_transient now err delay run) st)))
                    else Inr (snd (save_run now (park_run now err run) st))))"

section \<open>Backoff\<close>

lemma backoff_delay_bounds: "backoff_delay att = Some d \<Longrightarrow> seconds 2 \<le> d \<and> d \<le> seconds 300"
  by (auto simp: backoff_delay_def seconds_def Let_def split: if_splits)

lemma backoff_delay_mono:
  assumes "att \<le> att'" and "backoff_delay att = Some d" and "backoff_delay att' = Some d'"
  shows "d \<le> d'"
proof -
  have "(2 :: int) ^ nat (max 0 (att - 1)) \<le> 2 ^ nat (max 0 (att' - 1))"
    using assms(1) by (intro power_increasing) auto
  then have "seconds (min (2 * 2 ^ nat (max 0 (att - 1))) 300) \<le> seconds (min (2 * 2 ^ nat (max 0 (att' - 1))) 300)"
    unfolding seconds_def by (intro mult_right_mono min.mono mult_left_mono) simp_all
  with assms(2,3) show ?thesis unfolding backoff_delay_def Let_def by (auto split: if_splits)
qed

lemma backoff_delay_defined: "att \<le> 1024 \<Longrightarrow> \<exists>d. backoff_delay att = Some d"
  by (simp add: backoff_delay_def Let_def)

text \<open>The failure the policy classifies: the recorded error and its structured code.\<close>

definition recorded_failure :: "run_record \<Rightarrow> retry_error + bool" where
  "recorded_failure run =
     is_transient_run_error (case error run of None \<Rightarrow> [] | Some e \<Rightarrow> e)
       (case map_of (metadata run) ''error_code'' of None \<Rightarrow> JNull | Some c \<Rightarrow> c)"

definition recorded_error :: "run_record \<Rightarrow> string" where
  "recorded_error run = (case error run of None \<Rightarrow> [] | Some e \<Rightarrow> e)"

definition retry_budget_left :: "instant \<Rightarrow> run_record \<Rightarrow> bool" where
  "retry_budget_left now run \<longleftrightarrow>
     attempt run < max 1 (max_attempts run) \<and> now - created_at run < DEFAULT_QUEUE_MAX_AGE"

lemma apply_retry_policy_eq:
  "apply_retry_policy now rid st =
     (case get_run rid st of
        None \<Rightarrow> Inr st
      | Some run \<Rightarrow>
          if status run \<noteq> FAILED then Inr st
          else case recorded_failure run of
             Inl e \<Rightarrow> Inl e
           | Inr False \<Rightarrow> Inr st
           | Inr True \<Rightarrow>
               if retry_budget_left now run
               then (case backoff_delay (attempt run) of
                       None \<Rightarrow> Inl OverflowError
                     | Some d \<Rightarrow> Inr (snd (save_run now (requeue_transient now (recorded_error run) d run) st)))
               else Inr (snd (save_run now (park_run now (recorded_error run) run) st)))"
  unfolding apply_retry_policy_def recorded_failure_def recorded_error_def retry_budget_left_def Let_def ..

text \<open>What the policy does to a store, by cases.\<close>

lemma apply_retry_policy_cases:
  assumes "apply_retry_policy now rid st = Inr st'"
  obtains (unchanged) "st' = st"
    | (requeued) run err delay where "get_run rid st = Some run" "status run = FAILED"
        "retry_budget_left now run" "backoff_delay (attempt run) = Some delay"
        "st' = snd (save_run now (requeue_transient now err delay run) st)"
    | (parked) run err where "get_run rid st = Some run" "status run = FAILED"
        "\<not> retry_budget_left now run" "st' = snd (save_run now (park_run now err run) st)"
proof (cases "get_run rid st")
  case None
  with assms show ?thesis by (intro unchanged) (simp add: apply_retry_policy_eq)
next
  case (Some run)
  show ?thesis
  proof (cases "status run = FAILED \<and> recorded_failure run = Inr True")
    case False
    with assms Some show ?thesis
      by (intro unchanged) (auto simp: apply_retry_policy_eq split: sum.splits bool.splits if_splits)
  next
    case True
    show ?thesis
    proof (cases "retry_budget_left now run")
      case budget: True
      with assms Some True obtain d where "backoff_delay (attempt run) = Some d"
        "st' = snd (save_run now (requeue_transient now (recorded_error run) d run) st)"
        by (auto simp: apply_retry_policy_eq split: option.splits)
      with Some True budget show ?thesis by (intro requeued) auto
    next
      case False
      with assms Some True show ?thesis by (intro parked) (auto simp: apply_retry_policy_eq)
    qed
  qed
qed

lemma apply_retry_policy_other:
  assumes "keyed st" and "apply_retry_policy now rid st = Inr st'" and "rid' \<noteq> rid"
  shows "get_run rid' st' = get_run rid' st"
  using assms(2)
proof (cases rule: apply_retry_policy_cases)
  case (requeued run err delay)
  with assms have "run_id (requeue_transient now err delay run) = rid"
    by (simp add: requeue_transient_def get_run_def keyedD)
  with requeued assms(3) show ?thesis by (simp add: get_run_save_other)
next
  case (parked run err)
  with assms have "run_id (park_run now err run) = rid"
    by (simp add: park_run_def get_run_def keyedD)
  with parked assms(3) show ?thesis by (simp add: get_run_save_other)
qed simp

lemma keyed_apply_retry_policy:
  assumes "keyed st" and "apply_retry_policy now rid st = Inr st'"
  shows "keyed st'"
  using assms(2) by (cases rule: apply_retry_policy_cases) (simp_all add: assms(1) keyed_save)

lemma get_run_save_same:
  "run_id run = rid \<Longrightarrow> get_run rid (snd (save_run now run st)) = Some (run\<lparr>updated_at := now\<rparr>)"
  by (simp add: get_run_def)

section \<open>The outcome of a failure\<close>

text \<open>
  The outcome of a transient failure. While attempts and age remain the run goes back to
  the queue unowned, its error moved to \<open>last_error\<close>, and can be claimed from the end of a
  backoff of 2 to 300 seconds on, never before; otherwise it is parked with its error kept,
  out of the queue, and a redrive re-admits it with a fresh attempt count.
\<close>

theorem transient_failure_outcome:
  assumes "keyed st" and "get_run rid st = Some run" and "status run = FAILED"
    and "recorded_failure run = Inr True" and "attempt run \<le> 1024"
  shows "\<exists>st' run'. apply_retry_policy now rid st = Inr st' \<and> get_run rid st' = Some run'
    \<and> owner_id run' = None \<and> last_error run' = Some (recorded_error run) \<and> attempt run' = attempt run
    \<and> (if retry_budget_left now run
       then status run' = QUEUED \<and> error run' = None
         \<and> (\<exists>d. seconds 2 \<le> d \<and> d \<le> seconds 300 \<and> (\<forall>t. is_ready t None run' \<longleftrightarrow> now + d \<le> t))
       else status run' = PARKED \<and> error run' = error run \<and> (\<forall>t lanes. \<not> is_ready t lanes run')
         \<and> (\<exists>st'' run''. redrive_run rid None now st' = (True, st'')
              \<and> get_run rid st'' = Some run'' \<and> is_ready now None run'' \<and> attempt run'' = 0))"
proof (cases "retry_budget_left now run")
  case True
  obtain d where d: "backoff_delay (attempt run) = Some d" using backoff_delay_defined assms(5) by blast
  let ?run' = "(requeue_transient now (recorded_error run) d run)\<lparr>updated_at := now\<rparr>"
  have "run_id run = rid" using assms(1,2) by (simp add: get_run_def keyedD)
  then have "get_run rid (snd (save_run now (requeue_transient now (recorded_error run) d run) st)) = Some ?run'"
    by (intro get_run_save_same) (simp add: requeue_transient_def)
  moreover have "apply_retry_policy now rid st
      = Inr (snd (save_run now (requeue_transient now (recorded_error run) d run) st))"
    using assms(2-4) True d by (simp add: apply_retry_policy_eq)
  moreover have "is_ready t None ?run' \<longleftrightarrow> now + d \<le> t" for t
    by (simp add: is_ready_def lane_matches_def requeue_transient_def)
  ultimately show ?thesis using backoff_delay_bounds [OF d] True
    by (intro exI [where x = "snd (save_run now (requeue_transient now (recorded_error run) d run) st)"]
          exI [where x = ?run']) (auto simp: requeue_transient_def)
next
  case False
  let ?run' = "(park_run now (recorded_error run) run)\<lparr>updated_at := now\<rparr>"
  let ?st' = "snd (save_run now (park_run now (recorded_error run) run) st)"
  have "run_id run = rid" using assms(1,2) by (simp add: get_run_def keyedD)
  then have "get_run rid ?st' = Some ?run'"
    by (intro get_run_save_same) (simp add: park_run_def)
  moreover from this have "\<exists>st'' run''. redrive_run rid None now ?st' = (True, st'')
      \<and> get_run rid st'' = Some run'' \<and> is_ready now None run'' \<and> attempt run'' = 0"
    by (auto simp: redrive_run_def get_run_def park_run_def is_ready_def lane_matches_def)
  moreover have "apply_retry_policy now rid st = Inr ?st'"
    using assms(2-4) False by (simp add: apply_retry_policy_eq)
  ultimately show ?thesis using False
    by (intro exI [where x = ?st'] exI [where x = ?run']) (auto simp: park_run_def is_ready_def)
qed

text \<open>A run that failed with a timeout while the worker \<open>p\<close> held it.\<close>

definition failed_run :: "int \<Rightarrow> run_record" where
  "failed_run att = (new_run ''f'' ''w'' ''s'' 0)\<lparr>status := FAILED, error := Some ''Read TIMED OUT'',
     owner_id := Some ''p'', lease_expires_at := Some 50, attempt := att, max_attempts := 3\<rparr>"

lemma failed_run_facts:
  "keyed \<lparr>rs_runs = [(''f'', failed_run n)], rs_by_idempotency = []\<rparr>"
  "get_run ''f'' \<lparr>rs_runs = [(''f'', failed_run n)], rs_by_idempotency = []\<rparr> = Some (failed_run n)"
  "status (failed_run n) = FAILED" "attempt (failed_run n) = n"
  by (simp_all add: keyed_def get_run_def failed_run_def new_run_def)

lemma failed_run_transient: "recorded_failure (failed_run n) = Inr True"
  by (simp add: recorded_failure_def failed_run_def new_run_def is_transient_run_error_def)
    (code_simp)

theorem transient_failure_outcome_witness:
  "(\<exists>st' run'. apply_retry_policy 60 ''f'' \<lparr>rs_runs = [(''f'', failed_run 1)], rs_by_idempotency = []\<rparr> = Inr st'
     \<and> get_run ''f'' st' = Some run' \<and> status run' = QUEUED)
   \<and> (\<exists>st' run'. apply_retry_policy 60 ''f'' \<lparr>rs_runs = [(''f'', failed_run 3)], rs_by_idempotency = []\<rparr> = Inr st'
     \<and> get_run ''f'' st' = Some run' \<and> status run' = PARKED)"
proof -
  have "retry_budget_left 60 (failed_run 1)" "\<not> retry_budget_left 60 (failed_run 3)"
    by (simp_all add: retry_budget_left_def failed_run_def new_run_def DEFAULT_QUEUE_MAX_AGE_def seconds_def)
  then show ?thesis
    using transient_failure_outcome [OF failed_run_facts(1-3) failed_run_transient, of 1 60]
      transient_failure_outcome [OF failed_run_facts(1-3) failed_run_transient, of 3 60]
    by (auto simp: failed_run_facts(4))
qed

section \<open>The attempt budget\<close>

text \<open>
  The steps of dispatched runs when no worker dies: a create (not yet attempted), the queue
  operations other than reaping and redriving, an owner's write, which keeps the attempt
  count and the ceiling and never re-queues, and the policy.
\<close>

inductive dispatch_step :: "run_store \<Rightarrow> run_store \<Rightarrow> bool" where
  create: "get_run (run_id run) st = None \<Longrightarrow> attempt run = 0 \<Longrightarrow>
     dispatch_step st (apply_op (now, Create run cap) st)"
| claim: "dispatch_step st (apply_op (now, Claim owner lease lanes fairness wsconc) st)"
| renew: "dispatch_step st (apply_op (now, Renew rid owner lease) st)"
| resume: "dispatch_step st (apply_op (now, Resume rid ws) st)"
| finish: "get_run (run_id run) st = Some old \<Longrightarrow> attempt run = attempt old \<Longrightarrow>
     max_attempts run = max_attempts old \<Longrightarrow> status run \<noteq> QUEUED \<Longrightarrow>
     dispatch_step st (apply_op (now, Write run owner) st)"
| retry: "apply_retry_policy now rid st = Inr st' \<Longrightarrow> dispatch_step st st'"

inductive dispatched :: "run_store \<Rightarrow> bool" where
  start: "dispatched empty_run_store"
| step: "dispatched st \<Longrightarrow> dispatch_step st st' \<Longrightarrow> dispatched st'"

definition run_within_budget :: "run_record \<Rightarrow> bool" where
  "run_within_budget r \<longleftrightarrow> attempt r \<le> max 1 (max_attempts r)
     \<and> (status r = QUEUED \<longrightarrow> attempt r < max 1 (max_attempts r))"

definition within_budget :: "run_store \<Rightarrow> bool" where
  "within_budget st \<longleftrightarrow> keyed st \<and> (\<forall>rid r. get_run rid st = Some r \<longrightarrow> run_within_budget r)"

lemma within_budget_put:
  assumes "within_budget st" and "run_within_budget r"
  shows "within_budget (st\<lparr>rs_runs := AList.update (run_id r) r (rs_runs st)\<rparr>)"
  using assms by (auto simp: within_budget_def get_run_def intro!: keyed_put)

lemma within_budget_save:
  assumes "within_budget st" and "run_within_budget run"
  shows "within_budget (snd (save_run now run st))"
  using assms
  by (auto simp: within_budget_def keyed_save get_run_def run_within_budget_def)

lemma within_budget_claim:
  assumes "within_budget st"
  shows "within_budget (snd (claim_next_queued_run owner lease lanes now fairness wsconc st))"
proof (cases "lanes = Some [] \<or> claim_candidates now lanes fairness wsconc st = []")
  case True
  with assms show ?thesis by (simp only: claim_none snd_conv)
next
  case False
  from assms have k: "keyed st" by (simp add: within_budget_def)
  obtain rid r rest where c: "claim_candidates now lanes fairness wsconc st = (rid, r) # rest"
    using False by (cases "claim_candidates now lanes fairness wsconc st") auto
  have "get_run (run_id r) st = Some r" and ready: "is_ready now lanes r"
    using claim_def_keyed [OF k c] False by (simp_all add: get_run_def)
  then have "run_within_budget r" using assms by (auto simp: within_budget_def)
  with ready have "run_within_budget (claim_stamp now owner lease r)"
    by (simp add: run_within_budget_def claim_stamp_def is_ready_def)
  from within_budget_put [OF assms this] show ?thesis
    using claim_def_keyed [OF k c] False by (simp add: claim_stamp_def)
qed

lemma within_budget_change:
  assumes "within_budget st" and "map_of (rs_runs st) rid = Some r"
    and "run_within_budget r \<Longrightarrow> run_within_budget r'" and "run_id r' = run_id r"
  shows "within_budget (st\<lparr>rs_runs := AList.update rid r' (rs_runs st)\<rparr>)"
proof -
  from assms(1,2) have "run_id r = rid" "run_within_budget r"
    by (auto simp: within_budget_def get_run_def keyedD)
  with within_budget_put [OF assms(1), of r'] assms(3,4) show ?thesis by simp
qed

lemma within_budget_retry:
  assumes "within_budget st" and "apply_retry_policy now rid st = Inr st'"
  shows "within_budget st'"
  using assms(2)
proof (cases rule: apply_retry_policy_cases)
  case unchanged
  with assms(1) show ?thesis by simp
next
  case (requeued run err delay)
  with assms(1) show ?thesis
    by (auto intro!: within_budget_save
        simp: run_within_budget_def requeue_transient_def retry_budget_left_def)
next
  case (parked run err)
  with assms(1) have "run_within_budget run" by (auto simp: within_budget_def)
  with parked assms(1) show ?thesis
    by (auto intro!: within_budget_save simp: run_within_budget_def park_run_def)
qed

lemma dispatch_step_within_budget: "dispatch_step st st' \<Longrightarrow> within_budget st \<Longrightarrow> within_budget st'"
proof (induction rule: dispatch_step.induct)
  case (create run st now cap)
  then show ?case
    by (auto simp: save_run_if_under_quota_eq run_within_budget_def intro!: within_budget_save split: option.split)
next
  case (claim st now owner lease lanes fairness wsconc)
  then show ?case by (simp add: within_budget_claim)
next
  case (renew st now rid owner lease)
  then show ?case
    by (auto simp: renew_lease_def run_within_budget_def split: option.split intro!: within_budget_change)
next
  case (resume st now rid ws)
  then show ?case
    by (auto simp: claim_run_for_resume_def run_within_budget_def split: option.split
        intro!: within_budget_change)
next
  case (finish run st old now owner)
  then have "run_within_budget old" by (auto simp: within_budget_def)
  with finish show ?case
    by (auto simp: save_run_if_owner_def run_within_budget_def intro!: within_budget_save split: option.split)
next
  case (retry now rid st st')
  then show ?case using within_budget_retry by blast
qed

lemma dispatched_within_budget: "dispatched st \<Longrightarrow> within_budget st"
proof (induction rule: dispatched.induct)
  case start
  then show ?case by (simp add: within_budget_def empty_run_store_def keyed_def get_run_def)
next
  case (step st st')
  then show ?case by (simp add: dispatch_step_within_budget)
qed

text \<open>
  Bounded retries. In every store reached from the empty one by creates, claims,
  heartbeats, approvals, owner writes and the retry policy, no run has been dispatched more
  often than its ceiling \<open>max(1, max_attempts)\<close>, and a queued run has an attempt left.
\<close>

theorem attempts_bounded:
  assumes "dispatched st" and "get_run rid st = Some r"
  shows "attempt r \<le> max 1 (max_attempts r)
    \<and> (status r = QUEUED \<longrightarrow> attempt r < max 1 (max_attempts r))"
  using dispatched_within_budget [OF assms(1)] assms(2)
  by (auto simp: within_budget_def run_within_budget_def)

text \<open>One run, dispatched, failing and re-queued with its second attempt left.\<close>

definition retry_demo :: run_store where
  "retry_demo =
     (let s1 = apply_op (10, Create ((new_run ''f'' ''w'' ''s'' 10)\<lparr>max_attempts := 2\<rparr>) 0) empty_run_store;
          s2 = apply_op (20, Claim ''p'' 30 None False 0) s1
      in apply_op (30, Write ((new_run ''f'' ''w'' ''s'' 10)\<lparr>max_attempts := 2, attempt := 1,
            status := FAILED, error := Some ''timeout''\<rparr>) ''p'') s2)"

lemma retry_demo_dispatched: "dispatched retry_demo"
proof -
  let ?r = "(new_run ''f'' ''w'' ''s'' 10)\<lparr>max_attempts := 2\<rparr>"
  let ?s1 = "apply_op (10, Create ?r 0) empty_run_store"
  let ?s2 = "apply_op (20, Claim ''p'' 30 None False 0) ?s1"
  have "dispatched ?s1"
    by (rule dispatched.step [OF dispatched.start], rule dispatch_step.create)
      (simp_all add: empty_run_store_def get_run_def new_run_def)
  then have "dispatched ?s2" by (rule dispatched.step) (rule dispatch_step.claim)
  moreover have "get_run ''f'' ?s2 = Some (claim_stamp 20 ''p'' 30 (?r\<lparr>updated_at := 10\<rparr>))"
    by code_simp
  ultimately show ?thesis
    unfolding retry_demo_def Let_def
    by (intro dispatched.step [OF _ dispatch_step.finish])
      (auto simp: new_run_def claim_stamp_def simp del: apply_op.simps)
qed

theorem attempts_bounded_witness:
  "\<exists>st r. apply_retry_policy 40 ''f'' retry_demo = Inr st \<and> get_run ''f'' st = Some r
     \<and> status r = QUEUED \<and> attempt r = 1 \<and> attempt r < max 1 (max_attempts r)"
proof -
  have "case apply_retry_policy 40 ''f'' retry_demo of Inl _ \<Rightarrow> False
      | Inr st \<Rightarrow> (case get_run ''f'' st of None \<Rightarrow> False | Some r \<Rightarrow> status r = QUEUED \<and> attempt r = 1)"
    by code_simp
  then obtain st r where "apply_retry_policy 40 ''f'' retry_demo = Inr st" "get_run ''f'' st = Some r"
    "status r = QUEUED" "attempt r = 1" by (auto split: sum.splits option.splits)
  moreover from this(1) have "dispatched st"
    using retry_demo_dispatched dispatched.step dispatch_step.retry by blast
  ultimately show ?thesis using attempts_bounded [of st "''f''" r] by auto
qed

section \<open>Crashes and the budget\<close>

text \<open>A worker claims and dies; its lease expires and the reaper re-queues the run.\<close>

definition crash_round :: "duration \<Rightarrow> nat \<Rightarrow> (instant \<times> queue_op) list" where
  "crash_round lease i =
     [(int i * lease, Claim ''p'' lease None False 0), (int (Suc i) * lease, Reap None)]"

fun crash_history :: "duration \<Rightarrow> nat \<Rightarrow> (instant \<times> queue_op) list" where
  "crash_history lease 0 = []"
| "crash_history lease (Suc n) = crash_history lease n @ crash_round lease n"

lemma crash_round_single:
  assumes "0 \<le> lease" and "status r = QUEUED" and "run_id r = rid"
    and "case next_attempt_at r of None \<Rightarrow> True | Some t \<Rightarrow> t \<le> int i * lease"
  shows "rs_runs (fold apply_op (crash_round lease i) \<lparr>rs_runs = [(rid, r)], rs_by_idempotency = ix\<rparr>)
    = [(rid, requeue_stamp (int (Suc i) * lease) (claim_stamp (int i * lease) ''p'' lease r))]"
  using assms
  by (auto simp: crash_round_def claim_next_queued_run_def claim_candidates_def is_ready_def
      lane_matches_def requeue_expired_leases_def lease_expired_def claim_stamp_def Let_def
      algebra_simps split: option.splits)

text \<open>
  The reaper does not count against the budget: a queued run whose workers always die
  mid-run is dispatched again after every lease, once per round, whatever its ceiling; after
  \<open>n\<close> crashes it is queued with \<open>n\<close> attempts more.
\<close>

theorem reaper_ignores_attempt_budget:
  assumes "0 \<le> lease" and "run_id r = rid" and "status r = QUEUED" and "next_attempt_at r = None"
  shows "\<exists>r'. get_run rid (fold apply_op (crash_history lease n)
      \<lparr>rs_runs = [(rid, r)], rs_by_idempotency = ix\<rparr>) = Some r'
    \<and> status r' = QUEUED \<and> attempt r' = attempt r + int n \<and> max_attempts r' = max_attempts r"
proof -
  let ?st = "\<lambda>n. fold apply_op (crash_history lease n) \<lparr>rs_runs = [(rid, r)], rs_by_idempotency = ix\<rparr>"
  have "\<exists>r'. rs_runs (?st n) = [(rid, r')] \<and> run_id r' = rid \<and> status r' = QUEUED
     \<and> attempt r' = attempt r + int n \<and> max_attempts r' = max_attempts r
     \<and> (case next_attempt_at r' of None \<Rightarrow> True | Some t \<Rightarrow> t \<le> int n * lease)"
  proof (induction n)
    case 0
    with assms show ?case by simp
  next
    case (Suc n)
    then obtain r' where r': "rs_runs (?st n) = [(rid, r')]" "run_id r' = rid" "status r' = QUEUED"
      "attempt r' = attempt r + int n" "max_attempts r' = max_attempts r"
      "case next_attempt_at r' of None \<Rightarrow> True | Some t \<Rightarrow> t \<le> int n * lease" by blast
    then have "?st n = \<lparr>rs_runs = [(rid, r')], rs_by_idempotency = rs_by_idempotency (?st n)\<rparr>"
      by simp
    with crash_round_single [OF assms(1) r'(3,2,6)] r'(2-5)
    have "rs_runs (?st (Suc n))
        = [(rid, requeue_stamp (int (Suc n) * lease) (claim_stamp (int n * lease) ''p'' lease r'))]"
      by (metis crash_history.simps(2) fold_append comp_apply)
    with r' show ?case by (simp add: requeue_stamp_def claim_stamp_def)
  qed
  then show ?thesis by (auto simp: get_run_def)
qed

theorem reaper_ignores_attempt_budget_witness:
  "\<exists>r'. get_run ''f'' (fold apply_op (crash_history 60 5)
      \<lparr>rs_runs = [(''f'', new_run ''f'' ''w'' ''s'' 0)], rs_by_idempotency = []\<rparr>) = Some r'
    \<and> attempt r' = 5 \<and> max_attempts r' = 1"
  using reaper_ignores_attempt_budget [of 60 "new_run ''f'' ''w'' ''s'' 0" "''f''" 5 "[]"]
  by (auto simp: new_run_def)

end
