(* ===== verification/Dispatcher.thy ===== *)
theory Dispatcher
  imports RunQueue RunRetry
begin

text \<open>
  The worker-pull dispatcher (himmy/application/dispatcher.py) over the in-memory run
  store: the cached health probe of the local providers and the lane gate it drives, the
  claim cycle under the concurrency semaphore, the heartbeat of a worker and the reaper.
  The semaphore is its number of free permits (only the claim loop acquires it), a worker
  is the run it was started for, and what the outside world answers (the clock, the probe)
  is an argument. A storage call that raises is \<open>None\<close>.
\<close>

section \<open>The health gate\<close>

record local_provider_probe =
  cache_seconds :: duration
  cached :: "bool option"
  cached_at :: instant

definition HEALTH_CACHE :: duration where "HEALTH_CACHE = seconds 10"
definition REAP_INTERVAL :: duration where "REAP_INTERVAL = seconds 15"

definition probe_init :: "duration \<Rightarrow> local_provider_probe" where
  "probe_init cache = \<lparr>cache_seconds = cache, cached = None, cached_at = 0\<rparr>"

text \<open>\<open>reachable\<close> is what \<open>_do_probe\<close> returns when it is consulted.\<close>

definition local_available ::
  "instant \<Rightarrow> bool \<Rightarrow> local_provider_probe \<Rightarrow> bool \<times> local_provider_probe" where
  "local_available now reachable p =
     (case cached p of
        Some c \<Rightarrow> if now - cached_at p < cache_seconds p then (c, p)
                  else (reachable, p\<lparr>cached := Some reachable, cached_at := now\<rparr>)
      | None \<Rightarrow> (reachable, p\<lparr>cached := Some reachable, cached_at := now\<rparr>))"

definition claimable_lanes ::
  "instant \<Rightarrow> bool \<Rightarrow> local_provider_probe \<Rightarrow> string list option \<times> local_provider_probe" where
  "claimable_lanes now reachable p =
     (let (available, p') = local_available now reachable p
      in (if available then None else Some [LANE_CLOUD, LANE_DEFAULT], p'))"

section \<open>The claim cycle\<close>

record dispatcher =
  disp_owner_id :: string
  disp_max_concurrency :: nat
  disp_probe :: local_provider_probe
  disp_permits :: nat
  disp_workers :: "run_record list"
  disp_stop :: bool

definition dispatcher_init :: "string \<Rightarrow> int \<Rightarrow> local_provider_probe \<Rightarrow> dispatcher" where
  "dispatcher_init owner max_concurrency p =
     \<lparr>disp_owner_id = owner, disp_max_concurrency = nat (max 1 max_concurrency), disp_probe = p,
      disp_permits = nat (max 1 max_concurrency), disp_workers = [], disp_stop = False\<rparr>"

definition sem_acquire :: "dispatcher \<Rightarrow> dispatcher" where
  "sem_acquire d = d\<lparr>disp_permits := disp_permits d - 1\<rparr>"

definition sem_release :: "dispatcher \<Rightarrow> dispatcher" where
  "sem_release d = d\<lparr>disp_permits := disp_permits d + 1\<rparr>"

definition spawn_worker :: "run_record \<Rightarrow> dispatcher \<Rightarrow> dispatcher" where
  "spawn_worker run d = d\<lparr>disp_workers := disp_workers d @ [run]\<rparr>"

text \<open>The \<open>while\<close> loop of \<open>_claim_once\<close>; the permits bound its rounds.\<close>

function claim_rounds ::
  "(run_store \<Rightarrow> (run_record option \<times> run_store) option) \<Rightarrow> bool \<Rightarrow> dispatcher \<Rightarrow> run_store
     \<Rightarrow> bool option \<times> dispatcher \<times> run_store" where
  "claim_rounds claim claimed_any d st =
     (if disp_stop d \<or> disp_permits d = 0 then (Some claimed_any, d, st)
      else
        (let d1 = sem_acquire d
         in case claim st of
              None \<Rightarrow> (None, sem_release d1, st)
            | Some (None, st') \<Rightarrow> (Some claimed_any, sem_release d1, st')
            | Some (Some run, st') \<Rightarrow> claim_rounds claim True (spawn_worker run d1) st'))"
  by pat_completeness auto
termination
  by (relation "measure (\<lambda>(_, _, d, _). disp_permits d)")
    (auto simp: sem_acquire_def spawn_worker_def)

declare claim_rounds.simps [simp del]

text \<open>The claim call with the service's lease and fairness settings.\<close>

definition dispatch_claim ::
  "string \<Rightarrow> duration \<Rightarrow> string list option \<Rightarrow> instant \<Rightarrow> bool \<Rightarrow> int \<Rightarrow> run_store
     \<Rightarrow> (run_record option \<times> run_store) option" where
  "dispatch_claim owner lease lanes now fairness wsconc st =
     Some (claim_next_queued_run owner lease lanes now fairness (if fairness then wsconc else 0) st)"

definition claim_once ::
  "instant \<Rightarrow> bool \<Rightarrow> duration \<Rightarrow> bool \<Rightarrow> int \<Rightarrow> dispatcher \<Rightarrow> run_store
     \<Rightarrow> bool option \<times> dispatcher \<times> run_store" where
  "claim_once now reachable lease fairness wsconc d st =
     (let (lanes, p) = claimable_lanes now reachable (disp_probe d)
      in claim_rounds (dispatch_claim (disp_owner_id d) lease lanes now fairness wsconc)
           False (d\<lparr>disp_probe := p\<rparr>) st)"

definition on_worker_done :: "run_record \<Rightarrow> dispatcher \<Rightarrow> dispatcher" where
  "on_worker_done run d = sem_release (d\<lparr>disp_workers := remove1 run (disp_workers d)\<rparr>)"

section \<open>Heartbeats\<close>

text \<open>\<open>max(1.0, lease_seconds * 0.3)\<close>, to the microsecond below.\<close>

definition heartbeat_interval :: "duration \<Rightarrow> duration" where
  "heartbeat_interval lease = max (seconds 1) (lease * 3 div 10)"

text \<open>
  The heartbeat task from \<open>now\<close> until \<open>stop\<close> is signalled or the lease is lost: the
  instant it ends and the store it leaves.
\<close>

function heartbeat ::
  "string \<Rightarrow> string \<Rightarrow> duration \<Rightarrow> instant \<Rightarrow> instant \<Rightarrow> run_store \<Rightarrow> instant \<times> run_store" where
  "heartbeat rid owner lease stop now st =
     (let beat = now + heartbeat_interval lease
      in if stop \<le> beat then (stop, st)
         else (case renew_lease rid owner lease beat st of
                 (True, st') \<Rightarrow> heartbeat rid owner lease stop beat st'
               | (False, st') \<Rightarrow> (beat, st')))"
  by pat_completeness auto
termination
  by (relation "measure (\<lambda>(_, _, _, stop, now, _). nat (stop - now))")
    (auto simp: heartbeat_interval_def seconds_def)

declare heartbeat.simps [simp del]

section \<open>Permits\<close>

definition permits_balanced :: "dispatcher \<Rightarrow> bool" where
  "permits_balanced d \<longleftrightarrow> disp_permits d + length (disp_workers d) = disp_max_concurrency d"

lemma claim_rounds_balanced:
  "permits_balanced d \<Longrightarrow> permits_balanced (fst (snd (claim_rounds claim c d st)))"
  "disp_max_concurrency (fst (snd (claim_rounds claim c d st))) = disp_max_concurrency d"
proof (induction claim c d st rule: claim_rounds.induct)
  case (1 claim c d st)
  note IH = 1
  {
    case 1
    with IH(1) show ?case
      by (subst claim_rounds.simps)
        (auto simp: Let_def permits_balanced_def sem_acquire_def sem_release_def spawn_worker_def
          split: option.splits prod.splits)
  next
    case 2
    with IH(2) show ?case
      by (subst claim_rounds.simps)
        (auto simp: Let_def sem_acquire_def sem_release_def spawn_worker_def
          split: option.splits prod.splits)
  }
qed

text \<open>
  What happens to a dispatcher: claim cycles, over any store and with any outcome of the
  storage calls (raising included), workers that end, and the stop signal.
\<close>

inductive dispatcher_step :: "dispatcher \<Rightarrow> dispatcher \<Rightarrow> bool" where
  cycle: "dispatcher_step d (fst (snd (claim_rounds claim False (d\<lparr>disp_probe := p\<rparr>) st)))"
| worker_done: "run \<in> set (disp_workers d) \<Longrightarrow> dispatcher_step d (on_worker_done run d)"
| stop: "dispatcher_step d (d\<lparr>disp_stop := True\<rparr>)"

inductive dispatcher_reachable :: "string \<Rightarrow> int \<Rightarrow> dispatcher \<Rightarrow> bool" for owner mc where
  start: "dispatcher_reachable owner mc (dispatcher_init owner mc p)"
| step: "dispatcher_reachable owner mc d \<Longrightarrow> dispatcher_step d d' \<Longrightarrow> dispatcher_reachable owner mc d'"

lemma dispatcher_step_balanced:
  "dispatcher_step d d' \<Longrightarrow> permits_balanced d \<Longrightarrow>
   permits_balanced d' \<and> disp_max_concurrency d' = disp_max_concurrency d"
proof (induction rule: dispatcher_step.induct)
  case (cycle d claim p st)
  then have "permits_balanced (d\<lparr>disp_probe := p\<rparr>)" by (simp add: permits_balanced_def)
  then show ?case by (simp add: claim_rounds_balanced)
next
  case (worker_done run d)
  from worker_done(1) obtain n where "length (disp_workers d) = Suc n" by (cases "disp_workers d") auto
  with worker_done show ?case
    by (auto simp: permits_balanced_def on_worker_done_def sem_release_def length_remove1)
next
  case (stop d)
  then show ?case by (simp add: permits_balanced_def)
qed

text \<open>
  Permits are conserved: in every reachable state of a dispatcher, after claim cycles
  that found work, found none or raised, the free permits and the running workers add up to
  the configured concurrency (at least one), so no permit leaks and no more runs execute at
  once than it allows.
\<close>

theorem permits_conserved:
  assumes "dispatcher_reachable owner mc d"
  shows "int (disp_permits d + length (disp_workers d)) = max 1 mc"
proof -
  have "permits_balanced d \<and> disp_max_concurrency d = nat (max 1 mc)"
    using assms
  proof (induction rule: dispatcher_reachable.induct)
    case (start p)
    then show ?case by (simp add: dispatcher_init_def permits_balanced_def)
  next
    case (step d d')
    then show ?case using dispatcher_step_balanced by metis
  qed
  then show ?thesis by (simp add: permits_balanced_def)
qed

theorem permits_conserved_witness:
  "(let d = fst (snd (claim_rounds (dispatch_claim ''p'' 10 None 50 False 0) False
       (dispatcher_init ''p'' 3 (probe_init HEALTH_CACHE)) demo_store))
    in disp_permits d = 1 \<and> length (disp_workers d) = 2 \<and> int (disp_permits d + length (disp_workers d)) = max 1 3)"
proof -
  let ?i = "dispatcher_init ''p'' 3 (probe_init HEALTH_CACHE)"
  let ?d = "fst (snd (claim_rounds (dispatch_claim ''p'' 10 None 50 False 0) False ?i demo_store))"
  have "length (disp_workers ?d) = 2" by code_simp
  moreover have "dispatcher_reachable ''p'' 3 ?d"
    using dispatcher_reachable.step [OF dispatcher_reachable.start
      dispatcher_step.cycle [of "dispatcher_init ''p'' 3 (probe_init HEALTH_CACHE)" _ "probe_init HEALTH_CACHE"]]
    by (simp add: dispatcher_init_def)
  ultimately show ?thesis using permits_conserved [of "''p''" 3 ?d] by (simp add: Let_def)
qed

section \<open>What a cycle claims\<close>

lemma claim_rounds_fill:
  assumes "keyed st" and "lanes \<noteq> Some []" and "\<not> disp_stop d"
    and "claim_candidates now lanes False 0 st = cs"
  shows "\<exists>st'. claim_rounds (dispatch_claim owner lease lanes now False wsconc) c d st
      = (Some (c \<or> (0 < disp_permits d \<and> cs \<noteq> [])),
         d\<lparr>disp_permits := disp_permits d - length cs,
           disp_workers := disp_workers d @ map (\<lambda>(_, r). claim_stamp now owner lease r) (take (disp_permits d) cs)\<rparr>, st')
    \<and> keyed st' \<and> claim_candidates now lanes False 0 st' = drop (disp_permits d) cs"
  using assms
proof (induction "disp_permits d" arbitrary: c d st cs)
  case 0
  then have "d\<lparr>disp_permits := 0\<rparr> = d" by simp
  with 0 show ?case by (subst claim_rounds.simps) simp
next
  case (Suc n)
  show ?case
  proof (cases cs)
    case Nil
    with Suc have "claim_next_queued_run owner lease lanes now False 0 st = (None, st)"
      by (simp add: claim_none)
    with Suc Nil show ?thesis
      by (subst claim_rounds.simps)
        (auto simp: dispatch_claim_def Let_def sem_acquire_def sem_release_def)
  next
    case (Cons q rest)
    obtain rid r where q: "q = (rid, r)" by fastforce
    with Suc.prems(4) Cons have c: "claim_candidates now lanes False 0 st = (rid, r) # rest" by simp
    let ?r' = "claim_stamp now owner lease r"
    let ?st = "st\<lparr>rs_runs := AList.update (run_id r) ?r' (rs_runs st)\<rparr>"
    let ?d = "spawn_worker ?r' (sem_acquire d)"
    note claim = claim_def_keyed [OF Suc.prems(1) c Suc.prems(2)]
    have k: "keyed ?st" using Suc.prems(1) by (rule keyed_put) (simp add: claim_stamp_def)
    have rest: "claim_candidates now lanes False 0 ?st = rest"
      using claim_candidates_after_claim [OF Suc.prems(1) c] claim(1) by simp
    have "n = disp_permits ?d" "\<not> disp_stop ?d"
      using Suc.hyps(2) Suc.prems(3) by (simp_all add: spawn_worker_def sem_acquire_def)
    from Suc.hyps(1) [OF this(1) k Suc.prems(2) this(2) rest, of True]
    obtain st' where st': "claim_rounds (dispatch_claim owner lease lanes now False wsconc) True ?d ?st
      = (Some True, ?d\<lparr>disp_permits := disp_permits ?d - length rest,
           disp_workers := disp_workers ?d @ map (\<lambda>(_, r). claim_stamp now owner lease r) (take (disp_permits ?d) rest)\<rparr>, st')"
      "keyed st'" "claim_candidates now lanes False 0 st' = drop (disp_permits ?d) rest" by auto
    have "claim_rounds (dispatch_claim owner lease lanes now False wsconc) c d st
        = claim_rounds (dispatch_claim owner lease lanes now False wsconc) True ?d ?st"
      using Suc.hyps(2) Suc.prems(3) claim(4)
      by (subst claim_rounds.simps) (simp add: dispatch_claim_def Let_def)
    with st' Suc.hyps(2) [symmetric] Cons q show ?thesis
      by (simp add: spawn_worker_def sem_acquire_def)
  qed
qed

text \<open>
  A claim cycle fills the free capacity: unless stopping, it starts a worker for each of
  the first candidates in due order, as many as there are free permits, and it leaves either
  no free permit or no candidate in a claimable lane, so it never idles beside ready work.
\<close>

theorem claim_cycle_fills_capacity:
  assumes "keyed st" and "\<not> disp_stop d"
    and "claim_candidates now (fst (claimable_lanes now reachable (disp_probe d))) False 0 st = cs"
    and "claim_once now reachable lease False wsconc d st = (res, d', st')"
  shows "disp_workers d' = disp_workers d @
      map (\<lambda>(_, r). claim_stamp now (disp_owner_id d) lease r) (take (disp_permits d) cs)
    \<and> disp_permits d' = disp_permits d - length cs
    \<and> claim_candidates now (fst (claimable_lanes now reachable (disp_probe d))) False 0 st'
        = drop (disp_permits d) cs
    \<and> (disp_permits d' = 0 \<or> claim_candidates now (fst (claimable_lanes now reachable (disp_probe d))) False 0 st' = [])"
proof -
  obtain lanes p where lp: "claimable_lanes now reachable (disp_probe d) = (lanes, p)" by fastforce
  then have "lanes \<noteq> Some []"
    by (auto simp: claimable_lanes_def Let_def case_prod_unfold split: if_splits)
  from claim_rounds_fill [OF assms(1) this, of "d\<lparr>disp_probe := p\<rparr>" now cs "disp_owner_id d" lease wsconc False]
  show ?thesis using assms(2-4) lp by (auto simp: claim_once_def)
qed

theorem claim_cycle_fills_capacity_witness:
  "length (disp_workers (fst (snd (claim_once 50 True 10 False 0
      (dispatcher_init ''q'' 1 (probe_init HEALTH_CACHE)) demo_store)))) = 1"
proof -
  let ?d = "dispatcher_init ''q'' 1 (probe_init HEALTH_CACHE)"
  have k: "keyed demo_store" by (rule keyed_wf [OF demo_store_wf])
  have s: "\<not> disp_stop ?d" "disp_permits ?d = 1" "disp_workers ?d = []" by (simp_all add: dispatcher_init_def)
  have "length (claim_candidates 50 (fst (claimable_lanes 50 True (disp_probe ?d))) False 0 demo_store) = 2"
    by code_simp
  moreover obtain res d' st' where "claim_once 50 True 10 False 0 ?d demo_store = (res, d', st')"
    by (rule prod_cases3)
  ultimately show ?thesis using claim_cycle_fills_capacity [OF k s(1) refl] s by fastforce
qed

text \<open>A claim changes nothing but the run it returns, which is in one of its lanes.\<close>

lemma claim_in_lanes:
  assumes "keyed st" and "get_run rid st = Some r" and "\<not> lane_matches lanes r"
  shows "get_run rid (snd (claim_next_queued_run owner lease lanes now fairness wsconc st)) = Some r"
proof (cases "lanes = Some [] \<or> claim_candidates now lanes fairness wsconc st = []")
  case True
  with assms show ?thesis by (simp only: claim_none snd_conv)
next
  case False
  then obtain i c rest where c: "claim_candidates now lanes fairness wsconc st = (i, c) # rest"
    by (cases "claim_candidates now lanes fairness wsconc st") auto
  with False claim_def_keyed [OF assms(1) c] assms(2,3) have "run_id c \<noteq> rid"
    by (auto simp: get_run_def is_ready_def)
  with False claim_def_keyed [OF assms(1) c] assms(2) show ?thesis by (simp add: get_run_def)
qed

lemma claim_rounds_in_lanes:
  assumes "keyed st" and "get_run rid st = Some r" and "\<not> lane_matches lanes r"
  shows "get_run rid (snd (snd (claim_rounds (dispatch_claim owner lease lanes now fairness wsconc) c d st))) = Some r"
  using assms
proof (induction "disp_permits d" arbitrary: c d st)
  case 0
  then show ?case by (subst claim_rounds.simps) simp
next
  case (Suc n)
  let ?w = "if fairness then wsconc else 0"
  obtain res st' where cl: "claim_next_queued_run owner lease lanes now fairness ?w st = (res, st')"
    by fastforce
  with claim_in_lanes [OF Suc.prems, of owner lease now fairness ?w]
    keyed_claim [OF Suc.prems(1), of owner lease lanes now fairness ?w]
  have st': "keyed st'" "get_run rid st' = Some r" by simp_all
  show ?case
  proof (cases "disp_stop d \<or> res = None")
    case True
    with cl st' Suc.prems(2) show ?thesis
      by (subst claim_rounds.simps) (auto simp: dispatch_claim_def Let_def)
  next
    case False
    then obtain run where run: "res = Some run" by auto
    have "n = disp_permits (spawn_worker run (sem_acquire d))"
      using Suc.hyps(2) by (simp add: spawn_worker_def sem_acquire_def)
    from Suc.hyps(1) [OF this st' Suc.prems(3)] False run cl Suc.hyps(2) show ?thesis
      by (subst claim_rounds.simps) (simp add: dispatch_claim_def Let_def)
  qed
qed

lemma claim_rounds_probe: "disp_probe (fst (snd (claim_rounds claim c d st))) = disp_probe d"
proof (induction claim c d st rule: claim_rounds.induct)
  case (1 claim c d st)
  then show ?case
    by (subst claim_rounds.simps)
      (auto simp: Let_def sem_acquire_def sem_release_def spawn_worker_def
        split: option.splits prod.splits)
qed

text \<open>
  The health gate. When the local providers are found unreachable, a claim cycle leaves
  every run outside the cloud and default lanes exactly as it is (queued local runs wait,
  none is failed or counted as an attempt), and the answer is remembered: for the next ten
  seconds the probe is not consulted and the gate stays shut whatever it would answer.
\<close>

theorem unreachable_local_lane_waits:
  assumes "keyed st" and "get_run rid st = Some r"
    and "lane_key r \<notin> {Some LANE_CLOUD, Some LANE_DEFAULT}"
    and "cached (disp_probe d) = None" and "cache_seconds (disp_probe d) = HEALTH_CACHE"
    and "claim_once now False lease fairness wsconc d st = (res, d', st')"
  shows "get_run rid st' = Some r
    \<and> (\<forall>t reachable. t < now + HEALTH_CACHE \<longrightarrow>
         claimable_lanes t reachable (disp_probe d') = (Some [LANE_CLOUD, LANE_DEFAULT], disp_probe d'))"
proof -
  let ?p = "(disp_probe d)\<lparr>cached := Some False, cached_at := now\<rparr>"
  have lp: "claimable_lanes now False (disp_probe d) = (Some [LANE_CLOUD, LANE_DEFAULT], ?p)"
    using assms(4) by (simp add: claimable_lanes_def local_available_def)
  have rounds: "claim_rounds (dispatch_claim (disp_owner_id d) lease (Some [LANE_CLOUD, LANE_DEFAULT])
      now fairness wsconc) False (d\<lparr>disp_probe := ?p\<rparr>) st = (res, d', st')"
    using assms(6) by (simp add: claim_once_def lp)
  have "\<not> lane_matches (Some [LANE_CLOUD, LANE_DEFAULT]) r"
    using assms(3) by (auto simp: lane_matches_def split: option.split)
  from claim_rounds_in_lanes [OF assms(1,2) this, of "disp_owner_id d" lease now fairness wsconc False
      "d\<lparr>disp_probe := ?p\<rparr>"]
  have "get_run rid st' = Some r" by (simp only: rounds snd_conv)
  moreover have "disp_probe d' = ?p"
    using claim_rounds_probe [of "dispatch_claim (disp_owner_id d) lease
      (Some [LANE_CLOUD, LANE_DEFAULT]) now fairness wsconc" False "d\<lparr>disp_probe := ?p\<rparr>" st]
    by (simp add: rounds)
  ultimately show ?thesis
    using assms(5) by (simp add: claimable_lanes_def local_available_def)
qed

text \<open>A local run waiting beside a cloud run.\<close>

definition laned_store :: run_store where
  "laned_store = \<lparr>rs_runs =
     [(''l'', (new_run ''l'' ''w'' ''s'' 1)\<lparr>lane_key := Some LANE_LOCAL\<rparr>),
      (''h'', (new_run ''h'' ''w'' ''s'' 2)\<lparr>lane_key := Some LANE_CLOUD\<rparr>)], rs_by_idempotency = []\<rparr>"

theorem unreachable_local_lane_waits_witness:
  "get_run ''l'' (snd (snd (claim_once 50 False 10 False 0
       (dispatcher_init ''p'' 8 (probe_init HEALTH_CACHE)) laned_store)))
     = Some ((new_run ''l'' ''w'' ''s'' 1)\<lparr>lane_key := Some LANE_LOCAL\<rparr>)
   \<and> map run_id (disp_workers (fst (snd (claim_once 50 False 10 False 0
       (dispatcher_init ''p'' 8 (probe_init HEALTH_CACHE)) laned_store)))) = [''h'']"
proof -
  let ?d = "dispatcher_init ''p'' 8 (probe_init HEALTH_CACHE)"
  let ?r = "(new_run ''l'' ''w'' ''s'' 1)\<lparr>lane_key := Some LANE_LOCAL\<rparr>"
  have k: "keyed laned_store" "get_run ''l'' laned_store = Some ?r"
    "lane_key ?r \<notin> {Some LANE_CLOUD, Some LANE_DEFAULT}"
    "cached (disp_probe ?d) = None" "cache_seconds (disp_probe ?d) = HEALTH_CACHE"
    by (simp_all add: keyed_def laned_store_def get_run_def new_run_def dispatcher_init_def
        probe_init_def LANE_LOCAL_def LANE_CLOUD_def LANE_DEFAULT_def)
  have "map run_id (disp_workers (fst (snd (claim_once 50 False 10 False 0 ?d laned_store)))) = [''h'']"
    by code_simp
  moreover obtain res d' st' where e: "claim_once 50 False 10 False 0 ?d laned_store = (res, d', st')"
    by (rule prod_cases3)
  ultimately show ?thesis using unreachable_local_lane_waits [OF k e] by simp
qed

section \<open>Keeping the lease\<close>

text \<open>The lease of a run: its wall-clock timeout plus the margin for the last write.\<close>

definition LEASE_MARGIN :: duration where "LEASE_MARGIN = seconds 30"

definition run_lease :: "duration \<Rightarrow> duration" where
  "run_lease timeout = timeout + LEASE_MARGIN"

lemma heartbeat_interval_bounds:
  assumes "seconds 1 < lease"
  shows "0 < heartbeat_interval lease" and "heartbeat_interval lease < lease"
  using assms by (auto simp: heartbeat_interval_def seconds_def)

definition holds_lease :: "string \<Rightarrow> string \<Rightarrow> instant \<Rightarrow> run_store \<Rightarrow> bool" where
  "holds_lease rid owner expiry st \<longleftrightarrow>
     (\<exists>r. get_run rid st = Some r \<and> status r = RUNNING \<and> owner_id r = Some owner
        \<and> lease_expires_at r = Some expiry)"

lemma renew_held_lease:
  assumes "holds_lease rid owner e st"
  shows "\<exists>st'. renew_lease rid owner lease now st = (True, st') \<and> holds_lease rid owner (now + lease) st'"
  using assms by (auto simp: holds_lease_def renew_lease_def get_run_def)

lemma heartbeat_keeps:
  assumes "seconds 1 < lease" and "now \<le> stop" and "holds_lease rid owner (now + lease) st"
  shows "\<exists>st' e. heartbeat rid owner lease stop now st = (stop, st') \<and> holds_lease rid owner e st'
    \<and> stop < e \<and> now + lease \<le> e \<and> e \<le> stop + lease"
  using assms(2,3)
proof (induction "nat (stop - now)" arbitrary: now st rule: less_induct)
  case less
  let ?beat = "now + heartbeat_interval lease"
  note bounds = heartbeat_interval_bounds [OF assms(1)]
  show ?case
  proof (cases "stop \<le> ?beat")
    case True
    then have "heartbeat rid owner lease stop now st = (stop, st)" by (subst heartbeat.simps) simp
    with True less.prems bounds show ?thesis by force
  next
    case False
    from renew_held_lease [OF less.prems(2), of lease ?beat] obtain st' where
      st': "renew_lease rid owner lease ?beat st = (True, st')" "holds_lease rid owner (?beat + lease) st'"
      by blast
    from False bounds have "nat (stop - ?beat) < nat (stop - now)" "?beat \<le> stop" by simp_all
    from less.hyps [OF this st'(2)] obtain st'' e where
      "heartbeat rid owner lease stop ?beat st' = (stop, st'')" "holds_lease rid owner e st''"
      "stop < e" "?beat + lease \<le> e" "e \<le> stop + lease" by blast
    moreover have "heartbeat rid owner lease stop now st = heartbeat rid owner lease stop ?beat st'"
      using False st'(1) by (subst heartbeat.simps) simp
    ultimately show ?thesis using bounds by force
  qed
qed

lemma reap_live_lease:
  assumes "holds_lease rid owner e st" and "t < e"
  shows "get_run rid (snd (requeue_expired_leases t lanes st)) = get_run rid st"
  using assms get_run_reap_live by (fastforce simp: holds_lease_def)

text \<open>
  A live worker keeps its run. A worker that claimed a run under the service's lease
  (timeout plus margin) and heartbeats until any later instant \<open>stop\<close> still holds it then,
  with the lease running on; no reaper pass takes the run away before the lease's end, which
  lies beyond \<open>stop\<close> and beyond the run's own wall-clock limit. Once the process is stopping
  the heartbeats cease, and a pass a whole lease later re-queues the run.
\<close>

theorem live_worker_keeps_its_run:
  assumes "seconds 1 < run_lease timeout" and "now \<le> stop"
    and "holds_lease rid owner (now + run_lease timeout) st"
  shows "\<exists>st' e. heartbeat rid owner (run_lease timeout) stop now st = (stop, st') \<and> holds_lease rid owner e st'
    \<and> stop < e \<and> now + timeout + LEASE_MARGIN \<le> e
    \<and> (\<forall>t lanes. t < e \<longrightarrow> get_run rid (snd (requeue_expired_leases t lanes st')) = get_run rid st')
    \<and> (\<forall>t. stop + run_lease timeout \<le> t \<longrightarrow>
         (\<exists>r. get_run rid (snd (requeue_expired_leases t None st')) = Some r \<and> status r = QUEUED))"
proof -
  from heartbeat_keeps [OF assms] obtain st' e where
    st': "heartbeat rid owner (run_lease timeout) stop now st = (stop, st')" "holds_lease rid owner e st'"
      "stop < e" "now + run_lease timeout \<le> e" "e \<le> stop + run_lease timeout" by blast
  have "\<exists>r. get_run rid (snd (requeue_expired_leases t None st')) = Some r \<and> status r = QUEUED"
    if "stop + run_lease timeout \<le> t" for t
  proof -
    from st'(2) obtain r where r: "get_run rid st' = Some r" "status r = RUNNING" "lease_expires_at r = Some e"
      by (auto simp: holds_lease_def)
    with that st'(5) have "lease_expired t None r" by (simp add: lease_expired_def lane_matches_def)
    with r show ?thesis by (simp add: get_run_requeue) (simp add: requeue_stamp_def)
  qed
  moreover have "get_run rid (snd (requeue_expired_leases t lanes st')) = get_run rid st'" if "t < e" for t lanes
    using reap_live_lease [OF st'(2) that] .
  ultimately show ?thesis using st' by (auto simp: run_lease_def)
qed

theorem live_worker_keeps_its_run_witness:
  "\<exists>st'. heartbeat ''c'' ''p'' (run_lease (seconds 300)) (seconds 1000) (100 - run_lease (seconds 300)) demo_store
      = (seconds 1000, st')
    \<and> get_run ''c'' (snd (requeue_expired_leases (seconds 900) None st')) = get_run ''c'' st'"
proof -
  have h: "seconds 1 < run_lease (seconds 300)" "100 - run_lease (seconds 300) \<le> seconds 1000"
    "holds_lease ''c'' ''p'' (100 - run_lease (seconds 300) + run_lease (seconds 300)) demo_store"
    by (simp_all add: run_lease_def LEASE_MARGIN_def seconds_def holds_lease_def demo_store_def
        get_run_def new_run_def)
  have "seconds 900 < seconds 1000" by (simp add: seconds_def)
  with live_worker_keeps_its_run [OF h] show ?thesis by (meson order.strict_trans)
qed

end
