(* ===== verification/WorkspaceQuota.thy ===== *)
theory WorkspaceQuota
  imports Prelude
begin

text \<open>
  The per-workspace admission gate (himmy/application/workspace_quota.py): a counter of
  outstanding runs per workspace with a cap, and the lazily created execution semaphores.
  The counters are the dictionary the code keeps; a semaphore is the number of permits it
  was created with. The abstract view of the counters is the bag of in-flight runs, one
  element per run, named by its workspace.
\<close>

datatype quota_exceeded =
  WorkspaceRunQuotaExceeded (wqe_workspace_id: string) (wqe_cap: int) (wqe_outstanding: int)

record workspace_quota =
  wq_concurrency :: int
  wq_max_outstanding :: int
  wq_semaphores :: "(string, int) dict"
  wq_outstanding :: "(string, int) dict"

definition workspace_quota_init :: "int \<Rightarrow> int \<Rightarrow> workspace_quota" where
  "workspace_quota_init concurrency max_outstanding =
     \<lparr>wq_concurrency = max 1 concurrency, wq_max_outstanding = max 0 max_outstanding,
      wq_semaphores = [], wq_outstanding = []\<rparr>"

definition set_max_outstanding :: "int \<Rightarrow> workspace_quota \<Rightarrow> workspace_quota" where
  "set_max_outstanding n q = q\<lparr>wq_max_outstanding := max 0 n\<rparr>"

definition outstanding :: "string \<Rightarrow> workspace_quota \<Rightarrow> int" where
  "outstanding ws q = (case map_of (wq_outstanding q) ws of None \<Rightarrow> 0 | Some n \<Rightarrow> n)"

definition admit :: "string \<Rightarrow> workspace_quota \<Rightarrow> quota_exceeded + workspace_quota" where
  "admit ws q =
     (if wq_max_outstanding q \<le> 0 then Inr q
      else
        (let current = outstanding ws q
         in if wq_max_outstanding q \<le> current
            then Inl (WorkspaceRunQuotaExceeded ws (wq_max_outstanding q) current)
            else Inr (q\<lparr>wq_outstanding := AList.update ws (current + 1) (wq_outstanding q)\<rparr>)))"

definition release :: "string \<Rightarrow> workspace_quota \<Rightarrow> workspace_quota" where
  "release ws q =
     (if wq_max_outstanding q \<le> 0 then q
      else
        (let current = outstanding ws q
         in if current \<le> 1
            then q\<lparr>wq_outstanding := AList.delete ws (wq_outstanding q)\<rparr>
            else q\<lparr>wq_outstanding := AList.update ws (current - 1) (wq_outstanding q)\<rparr>))"

definition semaphore :: "string \<Rightarrow> workspace_quota \<Rightarrow> int \<times> workspace_quota" where
  "semaphore ws q =
     (case map_of (wq_semaphores q) ws of
        None \<Rightarrow> (wq_concurrency q,
                 q\<lparr>wq_semaphores := AList.update ws (wq_concurrency q) (wq_semaphores q)\<rparr>)
      | Some sem \<Rightarrow> (sem, q))"

section \<open>The bag of in-flight runs\<close>

datatype gate_event = Admit string | Release string | GetSemaphore string

text \<open>One event; the answer tells whether it was accepted.\<close>

fun quota_event :: "gate_event \<Rightarrow> workspace_quota \<Rightarrow> bool \<times> workspace_quota" where
  "quota_event (Admit ws) q = (case admit ws q of Inl _ \<Rightarrow> (False, q) | Inr q' \<Rightarrow> (True, q'))"
| "quota_event (Release ws) q = (True, release ws q)"
| "quota_event (GetSemaphore ws) q = (True, snd (semaphore ws q))"

text \<open>The promise: at most \<open>cap\<close> elements of each workspace.\<close>

fun bag_event :: "int \<Rightarrow> gate_event \<Rightarrow> string multiset \<Rightarrow> bool \<times> string multiset" where
  "bag_event cap (Admit ws) B =
     (if int (count B ws) < cap then (True, add_mset ws B) else (False, B))"
| "bag_event cap (Release ws) B = (True, B - {#ws#})"
| "bag_event cap (GetSemaphore ws) B = (True, B)"

text \<open>
  The counters represent a bag: a key is present exactly when its workspace has a run in
  flight, and its value is their number.
\<close>

definition represents :: "workspace_quota \<Rightarrow> string multiset \<Rightarrow> bool" where
  "represents q B \<longleftrightarrow>
     dict_wf (wq_outstanding q)
     \<and> (\<forall>ws. map_of (wq_outstanding q) ws = (if ws \<in># B then Some (int (count B ws)) else None))"

lemma represents_outstanding: "represents q B \<Longrightarrow> outstanding ws q = int (count B ws)"
  by (simp add: represents_def outstanding_def not_in_iff)

lemma represents_cong:
  "wq_outstanding q' = wq_outstanding q \<Longrightarrow> represents q' B = represents q B"
  by (simp only: represents_def)

lemma represents_init: "represents (workspace_quota_init c m) {#}"
  by (simp add: represents_def workspace_quota_init_def)

lemma represents_step:
  assumes r: "represents q B" and pos: "0 < wq_max_outstanding q"
  shows "fst (quota_event e q) = fst (bag_event (wq_max_outstanding q) e B)"
    and "represents (snd (quota_event e q)) (snd (bag_event (wq_max_outstanding q) e B))"
    and "wq_max_outstanding (snd (quota_event e q)) = wq_max_outstanding q"
proof -
  note out = represents_outstanding [OF r]
  have "fst (quota_event e q) = fst (bag_event (wq_max_outstanding q) e B)
    \<and> represents (snd (quota_event e q)) (snd (bag_event (wq_max_outstanding q) e B))
    \<and> wq_max_outstanding (snd (quota_event e q)) = wq_max_outstanding q"
  proof (cases e)
    case (Admit ws)
    with r pos show ?thesis
      by (auto simp: admit_def out Let_def represents_def not_in_iff)
  next
    case (Release ws)
    have "count B ws \<le> 1 \<Longrightarrow> ws \<notin># B - {#ws#}" by (simp add: not_in_iff)
    moreover have "1 < count B ws \<Longrightarrow> ws \<in># B - {#ws#}"
      by (simp add: in_diff_count)
    moreover have "ws' \<noteq> ws \<Longrightarrow> ws' \<in># B - {#ws#} \<longleftrightarrow> ws' \<in># B" for ws'
      by (simp add: in_diff_count)
    ultimately show ?thesis using r pos Release
      by (cases "count B ws \<le> 1")
        (auto simp: release_def out Let_def represents_def dict_get_delete of_nat_diff)
  next
    case (GetSemaphore ws)
    have "represents (snd (semaphore ws q)) B = represents q B"
      by (rule represents_cong) (simp add: semaphore_def split: option.split)
    with r GetSemaphore show ?thesis by (simp add: semaphore_def split: option.split)
  qed
  then show "fst (quota_event e q) = fst (bag_event (wq_max_outstanding q) e B)"
    and "represents (snd (quota_event e q)) (snd (bag_event (wq_max_outstanding q) e B))"
    and "wq_max_outstanding (snd (quota_event e q)) = wq_max_outstanding q" by simp_all
qed

lemma represents_history:
  assumes "represents q B" and "0 < wq_max_outstanding q"
  shows "fst (thread_state quota_event es q) = fst (thread_state (bag_event (wq_max_outstanding q)) es B)
    \<and> represents (snd (thread_state quota_event es q))
        (snd (thread_state (bag_event (wq_max_outstanding q)) es B))"
  using assms
proof (induction es arbitrary: q B)
  case Nil
  then show ?case by simp
next
  case (Cons e es)
  note step = represents_step [OF Cons.prems, of e]
  from Cons.IH [OF step(2)] step(3) Cons.prems(2) show ?case by (simp add: step(1))
qed

lemma bag_bounded:
  assumes "0 < cap" and "\<forall>ws. int (count B ws) \<le> cap"
  shows "\<forall>ws. int (count (snd (thread_state (bag_event cap) es B)) ws) \<le> cap"
  using assms(2)
proof (induction es arbitrary: B)
  case Nil
  then show ?case by simp
next
  case (Cons e es)
  have "\<forall>ws. int (count (snd (bag_event cap e B)) ws) \<le> cap"
  proof (cases e)
    case (Release ws)
    have "int (count (B - {#ws#}) ws') \<le> cap" for ws'
      using Cons.prems [rule_format, of ws'] by simp
    with Release show ?thesis by simp
  qed (use Cons.prems in auto)
  then show ?case using Cons.IH by simp
qed

text \<open>
  The admission counters implement a bounded bag. For every history of admissions,
  releases and semaphore lookups under a positive cap, exactly the admissions succeed that
  find fewer than \<open>cap\<close> runs of their workspace in flight, the counter of each workspace
  is the number of its in-flight runs (a surplus release floors at zero), never above the
  cap, and a workspace with nothing in flight keeps no entry.
\<close>

theorem quota_implements_bag:
  assumes "0 < cap" and "q0 = workspace_quota_init conc cap"
  shows "fst (thread_state quota_event es q0) = fst (thread_state (bag_event cap) es {#})
    \<and> (\<forall>ws. outstanding ws (snd (thread_state quota_event es q0))
          = int (count (snd (thread_state (bag_event cap) es {#})) ws)
        \<and> outstanding ws (snd (thread_state quota_event es q0)) \<le> cap
        \<and> (outstanding ws (snd (thread_state quota_event es q0)) = 0
            \<longleftrightarrow> map_of (wq_outstanding (snd (thread_state quota_event es q0))) ws = None))"
proof -
  have cap: "wq_max_outstanding q0 = cap" using assms by (simp add: workspace_quota_init_def)
  have h: "fst (thread_state quota_event es q0) = fst (thread_state (bag_event cap) es {#})
    \<and> represents (snd (thread_state quota_event es q0)) (snd (thread_state (bag_event cap) es {#}))"
    using represents_history [of q0 "{#}" es] represents_init assms(1)
    unfolding cap by (simp add: assms(2))
  moreover have "int (count (snd (thread_state (bag_event cap) es {#})) ws) \<le> cap" for ws
    using bag_bounded [OF assms(1), of "{#}" es] assms(1) by simp
  moreover have "outstanding ws (snd (thread_state quota_event es q0)) = 0
      \<longleftrightarrow> map_of (wq_outstanding (snd (thread_state quota_event es q0))) ws = None" for ws
    using h by (simp add: represents_def outstanding_def not_in_iff)
  moreover note represents_outstanding [OF conjunct2 [OF h]]
  ultimately show ?thesis by metis
qed

theorem quota_implements_bag_witness:
  "fst (thread_state quota_event
      [Admit ''w'', Admit ''w'', Admit ''w'', Admit ''v'', Release ''w'', Admit ''w''] (workspace_quota_init 1 2))
    = [True, True, False, True, True, True]"
  using quota_implements_bag [of 2 "workspace_quota_init 1 2" 1
      "[Admit ''w'', Admit ''w'', Admit ''w'', Admit ''v'', Release ''w'', Admit ''w'']"]
  by simp

end
