(* ===== verification/RateLimit.thy ===== *)
theory RateLimit
  imports Prelude Complex_Main
begin

text \<open>
  The token-bucket limiter (himmy/api/ratelimit.py). Seconds and tokens are exact rationals
  where the code has floats; the clock is the argument \<open>now\<close>, and the request is
  represented by its key, the value of \<open>key_func\<close>. A 429 is the answer \<open>Some retry\<close>
  with its \<open>Retry-After\<close> seconds.
\<close>

record rate_limiter =
  refill_per_sec :: rat
  capacity :: rat
  buckets :: "(string, rat \<times> rat) dict"

datatype limiter_error = NotPositive

definition rate_limiter_init :: "rat \<Rightarrow> rat \<Rightarrow> rat \<Rightarrow> limiter_error + rate_limiter" where
  "rate_limiter_init rate cap window =
     (if rate \<le> 0 \<or> cap \<le> 0 \<or> window \<le> 0 then Inl NotPositive
      else Inr \<lparr>refill_per_sec = rate / window, capacity = cap, buckets = []\<rparr>)"

text \<open>The tokens a key holds at \<open>now\<close>, refilled.\<close>

definition level :: "string \<Rightarrow> rat \<Rightarrow> rate_limiter \<Rightarrow> rat" where
  "level key now rl =
     (let (tokens, seen) = (case map_of (buckets rl) key of None \<Rightarrow> (capacity rl, now) | Some b \<Rightarrow> b)
      in min (capacity rl) (tokens + (now - seen) * refill_per_sec rl))"

definition limiter_call :: "string \<Rightarrow> rat \<Rightarrow> rate_limiter \<Rightarrow> int option \<times> rate_limiter" where
  "limiter_call key now rl =
     (let tokens = level key now rl
      in if tokens < 1
         then (Some (max 1 \<lfloor>(1 - tokens) / refill_per_sec rl + 999 / 1000\<rfloor>),
               rl\<lparr>buckets := AList.update key (tokens, now) (buckets rl)\<rparr>)
         else (None, rl\<lparr>buckets := AList.update key (tokens - 1, now) (buckets rl)\<rparr>))"

text \<open>
  The environment's three variables, parsed. The burst defaults to the rate. \<open>None\<close> is an
  unset (or empty) \<open>HIMMY_RATE_LIMIT\<close>, which means no limiter.
\<close>

definition build_rate_limiter ::
  "rat option \<Rightarrow> rat option \<Rightarrow> rat option \<Rightarrow> (limiter_error + rate_limiter) option" where
  "build_rate_limiter raw window burst =
     (case raw of
        None \<Rightarrow> None
      | Some rate \<Rightarrow> Some (rate_limiter_init rate
          (case burst of None \<Rightarrow> rate | Some b \<Rightarrow> b) (case window of None \<Rightarrow> 1 | Some w \<Rightarrow> w)))"

text \<open>A history of calls, each a key and its instant.\<close>

abbreviation run_calls :: "(string \<times> rat) list \<Rightarrow> rate_limiter \<Rightarrow> int option list \<times> rate_limiter" where
  "run_calls \<equiv> thread_state (\<lambda>(key, now) rl. limiter_call key now rl)"

definition admitted :: "string \<Rightarrow> (string \<times> rat) list \<Rightarrow> rate_limiter \<Rightarrow> nat" where
  "admitted key calls rl =
     length (filter (\<lambda>((k, _), answer). k = key \<and> answer = None) (zip calls (fst (run_calls calls rl))))"

section \<open>The level of a bucket\<close>

definition limiter_ok :: "rat \<Rightarrow> rate_limiter \<Rightarrow> bool" where
  "limiter_ok now rl \<longleftrightarrow>
     0 < refill_per_sec rl \<and> 0 < capacity rl
     \<and> (\<forall>key tokens seen. map_of (buckets rl) key = Some (tokens, seen) \<longrightarrow>
          0 \<le> tokens \<and> tokens \<le> capacity rl \<and> seen \<le> now)"

lemma limiter_call_simps [simp]:
  "refill_per_sec (snd (limiter_call key now rl)) = refill_per_sec rl"
  "capacity (snd (limiter_call key now rl)) = capacity rl"
  "fst (limiter_call key now rl) = None \<longleftrightarrow> 1 \<le> level key now rl"
  by (auto simp: limiter_call_def Let_def)

lemma level_bounds:
  assumes "limiter_ok now rl" and "now \<le> t"
  shows "0 \<le> level key t rl" and "level key t rl \<le> capacity rl"
proof -
  have "0 \<le> tokens + (t - seen) * refill_per_sec rl"
    if "map_of (buckets rl) key = Some (tokens, seen)" for tokens seen
    using that assms by (force simp: limiter_ok_def intro!: add_nonneg_nonneg mult_nonneg_nonneg)
  then show "0 \<le> level key t rl" "level key t rl \<le> capacity rl"
    using assms by (auto simp: level_def limiter_ok_def split: option.split)
qed

lemma level_refill:
  assumes "limiter_ok now rl" and "t \<le> t'"
  shows "level key t' rl \<le> level key t rl + (t' - t) * refill_per_sec rl"
    and "min (capacity rl) (level key t rl + (t' - t) * refill_per_sec rl) \<le> level key t' rl"
proof -
  have "0 \<le> (t' - t) * refill_per_sec rl" using assms by (simp add: limiter_ok_def)
  then show "level key t' rl \<le> level key t rl + (t' - t) * refill_per_sec rl"
    and "min (capacity rl) (level key t rl + (t' - t) * refill_per_sec rl) \<le> level key t' rl"
    by (auto simp: level_def algebra_simps split: option.split prod.split)
qed

lemma level_after_call:
  assumes "limiter_ok now rl"
  shows "level key' t (snd (limiter_call key now rl)) =
    (if key' = key
     then min (capacity rl) (level key now rl - (if 1 \<le> level key now rl then 1 else 0)
            + (t - now) * refill_per_sec rl)
     else level key' t rl)"
  by (auto simp: limiter_call_def level_def Let_def split: option.split)

lemma limiter_ok_call:
  assumes "limiter_ok now rl" and "now \<le> t"
  shows "limiter_ok t (snd (limiter_call key t rl))"
  using assms level_bounds [OF assms, of key]
  by (auto simp: limiter_ok_def limiter_call_def Let_def intro: order_trans)

lemma limiter_ok_later: "limiter_ok now rl \<Longrightarrow> now \<le> t \<Longrightarrow> limiter_ok t rl"
  by (fastforce simp: limiter_ok_def)

lemma sorted_map_last: "sorted (map f xs) \<Longrightarrow> x \<in> set xs \<Longrightarrow> f x \<le> f (last xs)"
  by (induction xs) auto

text \<open>What a key was granted and what it still holds is paid for by the refill.\<close>

lemma admitted_budget:
  assumes "limiter_ok t0 rl" and "sorted (t0 # map snd calls @ [t1])"
  shows "limiter_ok t1 (snd (run_calls calls rl))"
    and "of_nat (admitted key calls rl) + level key t1 (snd (run_calls calls rl))
       \<le> level key t0 rl + (t1 - t0) * refill_per_sec rl"
  using assms
proof (induction calls arbitrary: t0 rl)
  case Nil
  {
    case 1
    then show ?case by (simp add: limiter_ok_later)
  next
    case 2
    then show ?case using level_refill(1) [of t0 rl t0 t1] by (simp add: admitted_def)
  }
next
  case (Cons c calls)
  obtain k t where c: "c = (k, t)" by fastforce
  {
    case 1
    let ?rl' = "snd (limiter_call k t rl)"
    from 1 c have "limiter_ok t ?rl'" using limiter_ok_call [of t0 rl t k] by simp
    with Cons.IH(1) [of t ?rl'] 1 c show ?case by simp
  next
    case 2
    let ?rl' = "snd (limiter_call k t rl)"
    from 2 c have ok: "limiter_ok t ?rl'" and okt: "limiter_ok t rl" and t: "t0 \<le> t"
      using limiter_ok_call [of t0 rl t k] limiter_ok_later [of t0 rl t] by simp_all
    have IH: "of_nat (admitted key calls ?rl') + level key t1 (snd (run_calls calls ?rl'))
        \<le> level key t ?rl' + (t1 - t) * refill_per_sec rl"
      using Cons.IH(2) [of t ?rl'] ok 2 c by simp
    have "level key t rl \<le> level key t0 rl + (t - t0) * refill_per_sec rl"
      using level_refill(1) [OF 2(1) t] .
    moreover have "of_nat (admitted key (c # calls) rl) + level key t ?rl'
        \<le> of_nat (admitted key calls ?rl') + level key t rl"
      using level_after_call [OF okt, of key t k] level_bounds(2) [OF okt, of t key] c
      by (auto simp: admitted_def)
    ultimately show ?case using IH c by (simp add: algebra_simps)
  }
qed

text \<open>
  The rate bound. Over any window of a history of calls in time order, the calls of one
  key that are let through number at most the burst capacity plus the refill of the time
  between the window's first and last call, whatever happened before and whatever the
  other callers do.
\<close>

theorem rate_is_bounded:
  assumes "rate_limiter_init rate cap window = Inr rl"
    and "sorted (map snd (before @ calls))" and "calls \<noteq> []"
  shows "of_nat (admitted key calls (snd (run_calls before rl)))
    \<le> cap + (snd (last calls) - snd (hd calls)) * (rate / window)"
proof -
  have rl: "limiter_ok t rl" "capacity rl = cap" "refill_per_sec rl = rate / window" for t
    using assms(1) by (auto simp: rate_limiter_init_def limiter_ok_def split: if_splits)
  let ?mid = "snd (run_calls before rl)"
  have cap: "capacity (snd (run_calls bs l)) = capacity l"
    "refill_per_sec (snd (run_calls bs l)) = refill_per_sec l" for bs l
    by (induction bs arbitrary: l) (auto split: prod.split)
  have s: "sorted (map snd before @ [snd (hd calls)])"
    using assms(2,3) by (cases calls) (auto simp: sorted_append)
  define t where "t = (case before of [] \<Rightarrow> snd (hd calls) | b # _ \<Rightarrow> snd b)"
  have "sorted (t # map snd before @ [snd (hd calls)])"
    using s by (cases before) (auto simp: t_def sorted_append)
  then have ok: "limiter_ok (snd (hd calls)) ?mid" by (rule admitted_budget(1) [OF rl(1)])
  have "sorted (snd (hd calls) # map snd calls @ [snd (last calls)])"
  proof -
    have "sorted (map snd calls)" using assms(2) by (simp add: sorted_append)
    moreover have "snd c \<le> snd (last calls)" if "c \<in> set calls" for c
      using that calculation by (rule sorted_map_last [rotated])
    ultimately show ?thesis using assms(3) by (cases calls) (auto simp: sorted_append)
  qed
  from admitted_budget(2) [OF ok this, where key = key] level_bounds(2) [OF ok order_refl, where key = key]
    level_bounds(1) [OF admitted_budget(1) [OF ok this] order_refl, where key = key]
  show ?thesis by (simp add: cap rl)
qed

theorem rate_is_bounded_witness:
  "\<exists>rl. rate_limiter_init 1 2 1 = Inr rl
     \<and> fst (run_calls [(''a'', 0), (''a'', 0), (''a'', 0), (''b'', 0), (''a'', 1)] rl)
         = [None, None, Some 1, None, None]
     \<and> of_nat (admitted ''a'' [(''a'', 0), (''b'', 0), (''a'', 1)]
         (snd (run_calls [(''a'', 0), (''a'', 0)] rl))) \<le> (2 :: rat) + (1 - 0) * (1 / 1)"
proof -
  let ?rl = "\<lparr>refill_per_sec = 1, capacity = 2, buckets = []\<rparr>"
  have init: "rate_limiter_init 1 2 1 = Inr ?rl" by (simp add: rate_limiter_init_def)
  have "fst (run_calls [(''a'', 0), (''a'', 0), (''a'', 0), (''b'', 0), (''a'', 1)] ?rl)
      = [None, None, Some 1, None, None]"
    by (simp add: limiter_call_def level_def)
  with init rate_is_bounded [OF init, of "[(''a'', 0), (''a'', 0)]"
      "[(''a'', 0), (''b'', 0), (''a'', 1)]" "''a''"]
  show ?thesis by (intro exI [where x = ?rl]) simp
qed

section \<open>Waiting and starving\<close>

lemma others_keep_level:
  assumes "limiter_ok now rl" and "sorted (now # map snd calls @ [t])"
    and "\<forall>(k, _) \<in> set calls. k \<noteq> key"
  shows "level key t (snd (run_calls calls rl)) = level key t rl"
  using assms
proof (induction calls arbitrary: now rl)
  case Nil
  then show ?case by simp
next
  case (Cons c calls)
  obtain k t0 where c: "c = (k, t0)" by fastforce
  with Cons.prems have "limiter_ok t0 (snd (limiter_call k t0 rl))" "limiter_ok t0 rl"
    using limiter_ok_call [of now rl t0 k] limiter_ok_later [of now rl t0] by simp_all
  with Cons.IH [of t0 "snd (limiter_call k t0 rl)"] Cons.prems c show ?case
    by (auto simp: level_after_call)
qed

text \<open>
  The advertised wait is enough. When a call is rejected with \<open>Retry-After\<close> of \<open>n\<close>
  seconds and the burst capacity is at least one, the caller's next call is let through
  once \<open>n\<close> seconds and one millisecond have passed, whatever other callers do meanwhile
  (the millisecond is what \<open>int(x + 0.999)\<close> can round away).
\<close>

theorem retry_after_suffices:
  assumes "limiter_ok now rl" and "limiter_call key now rl = (Some n, rl')" and "1 \<le> capacity rl"
    and "\<forall>(k, _) \<in> set others. k \<noteq> key" and "sorted (now # map snd others @ [t])"
    and "now + of_int n + 1 / 1000 \<le> t"
  shows "fst (limiter_call key t (snd (run_calls others rl'))) = None"
proof -
  let ?r = "refill_per_sec rl" and ?l = "level key now rl"
  have low: "?l < 1" and rl': "rl' = snd (limiter_call key now rl)"
    and n: "n = max 1 \<lfloor>(1 - ?l) / ?r + 999 / 1000\<rfloor>"
    using assms(2) by (auto simp: limiter_call_def Let_def split: if_splits)
  have r: "0 < ?r" using assms(1) by (simp add: limiter_ok_def)
  have "(1 - ?l) / ?r + 999 / 1000 < of_int n + 1"
    using n floor_less_iff [of "(1 - ?l) / ?r + 999 / 1000" "n + 1"] by simp
  then have "(1 - ?l) / ?r \<le> t - now" using assms(6) by simp
  then have "1 - ?l \<le> (t - now) * ?r" using r by (simp add: pos_divide_le_eq)
  moreover have ok: "limiter_ok now rl'"
    unfolding rl' using limiter_ok_call [OF assms(1) order_refl] .
  moreover have "level key t rl' = min (capacity rl) (?l + (t - now) * ?r)"
    using level_after_call [OF assms(1), of key t key] low by (simp add: rl')
  ultimately have "1 \<le> level key t rl'" using assms(3) by simp
  moreover have "level key t (snd (run_calls others rl')) = level key t rl'"
    using others_keep_level [OF ok assms(5,4)] .
  ultimately show ?thesis by simp
qed

theorem retry_after_suffices_witness:
  "fst (limiter_call ''a'' 2 (snd (run_calls [(''b'', 1)]
     (snd (limiter_call ''a'' 0 \<lparr>refill_per_sec = 1, capacity = 2, buckets = [(''a'', (0, 0))]\<rparr>))))) = None"
proof -
  let ?rl = "\<lparr>refill_per_sec = 1, capacity = 2, buckets = [(''a'', (0, 0))]\<rparr>"
  have "limiter_ok 0 ?rl" by (simp add: limiter_ok_def)
  moreover have "limiter_call ''a'' 0 ?rl = (Some 1, snd (limiter_call ''a'' 0 ?rl))"
    by (simp add: limiter_call_def level_def)
  ultimately show ?thesis
    by (rule retry_after_suffices) simp_all
qed

text \<open>
  A burst below one starves everybody: when the capacity is under one token (as
  \<open>build_rate_limiter\<close> sets it for a rate limit below one request per window and no
  explicit burst), every call of every key is rejected, at any time.
\<close>

theorem fractional_burst_starves:
  assumes "0 < rate" and "rate < 1" and "0 < window"
  shows "\<exists>rl. build_rate_limiter (Some rate) (Some window) None = Some (Inr rl)
    \<and> (\<forall>calls. None \<notin> set (fst (run_calls calls rl)))"
proof -
  let ?rl = "\<lparr>refill_per_sec = rate / window, capacity = rate, buckets = []\<rparr>"
  have "None \<notin> set (fst (run_calls calls rl))" if "capacity rl < 1" for calls rl
    using that
  proof (induction calls arbitrary: rl)
    case (Cons c calls)
    obtain k t where c: "c = (k, t)" by fastforce
    have "level k t rl \<le> capacity rl" by (simp add: level_def split: option.split prod.split)
    then have "fst (limiter_call k t rl) \<noteq> None" using Cons.prems by simp
    moreover have "None \<notin> set (fst (run_calls calls (snd (limiter_call k t rl))))"
      using Cons by simp
    ultimately show ?case using c by (auto simp del: limiter_call_simps(3))
  qed simp
  moreover have "build_rate_limiter (Some rate) (Some window) None = Some (Inr ?rl)"
    using assms by (simp add: build_rate_limiter_def rate_limiter_init_def)
  ultimately show ?thesis using assms(2) by (intro exI [where x = ?rl]) simp
qed

theorem fractional_burst_starves_witness:
  "\<exists>rl. build_rate_limiter (Some (1 / 2)) (Some 1) None = Some (Inr rl)
    \<and> None \<notin> set (fst (run_calls [(''a'', 0), (''a'', 1000)] rl))"
proof -
  have "0 < (1 / 2 :: rat)" "1 / 2 < (1 :: rat)" "0 < (1 :: rat)" by simp_all
  from fractional_burst_starves [OF this] show ?thesis by blast
qed

end
