(* ===== verification/AuxStores.thy ===== *)
theory AuxStores
  imports RunAdmission PyText
begin

text \<open>
  The small in-memory stores beside the run store (himmy/services/storage/inmemory.py):
  threads, context fields, agent definitions, recommendations, evaluation runs and the
  orchestration records. Each store is a record of the dictionaries its \<open>__init__\<close>
  creates. Chat threads, context snapshots, evidence and evaluation runs are opaque to their
  stores, which read only an id (and a tenant), so those parts are all the model keeps.
\<close>

section \<open>Threads\<close>

type_synonym 't thread_store = "(string, 't) dict"

definition save_thread :: "('t \<Rightarrow> string) \<Rightarrow> 't \<Rightarrow> 't thread_store \<Rightarrow> 't thread_store" where
  "save_thread thread_id_of thread st = AList.update (thread_id_of thread) thread st"

definition load_thread :: "string \<Rightarrow> 't thread_store \<Rightarrow> 't option" where
  "load_thread tid st = map_of st tid"

text \<open>The set of ids is iterated in some order, given as a list of distinct ids.\<close>

fun delete_threads :: "string list \<Rightarrow> 't thread_store \<Rightarrow> nat \<times> 't thread_store" where
  "delete_threads [] st = (0, st)"
| "delete_threads (tid # tids) st =
     (case map_of st tid of
        None \<Rightarrow> delete_threads tids st
      | Some _ \<Rightarrow> (case delete_threads tids (AList.delete tid st) of (n, st') \<Rightarrow> (Suc n, st')))"

section \<open>Context fields\<close>

record context_field =
  cf_key :: string
  cf_value :: json
  cf_source :: string
  cf_metadata :: json_dict

record ('snap, 'ev) context_store =
  cs_fields :: "(string \<times> string \<times> string, context_field) dict"
  cs_snapshots :: "(string, 'snap) dict"
  cs_evidence :: "'ev list"

definition empty_context_store :: "('snap, 'ev) context_store" where
  "empty_context_store = \<lparr>cs_fields = [], cs_snapshots = [], cs_evidence = []\<rparr>"

definition field_workspace :: "context_field \<Rightarrow> string" where
  "field_workspace f =
     (let ws = json_get ''workspace_id'' (JStr []) (cf_metadata f)
      in py_str (if json_truthy ws then ws else JStr []))"

definition field_subject :: "context_field \<Rightarrow> string" where
  "field_subject f = py_str (json_get ''subject_id'' (JStr []) (cf_metadata f))"

definition save_context_field ::
  "context_field \<Rightarrow> ('snap, 'ev) context_store \<Rightarrow> context_field \<times> ('snap, 'ev) context_store" where
  "save_context_field f st =
     (f, st\<lparr>cs_fields := AList.update (field_workspace f, field_subject f, cf_key f) f (cs_fields st)\<rparr>)"

definition get_context_field ::
  "string \<Rightarrow> string \<Rightarrow> string option \<Rightarrow> ('snap, 'ev) context_store \<Rightarrow> context_field option" where
  "get_context_field subject key ws st =
     (case ws of
        None \<Rightarrow> map_option snd (List.find (\<lambda>((_, sid, k), _). sid = subject \<and> k = key) (cs_fields st))
      | Some w \<Rightarrow> map_of (cs_fields st) (w, subject, key))"

definition list_context_fields :: "string \<Rightarrow> ('snap, 'ev) context_store \<Rightarrow> context_field list" where
  "list_context_fields subject st =
     map snd (filter (\<lambda>((_, sid, _), _). sid = subject) (cs_fields st))"

definition save_snapshot ::
  "('snap \<Rightarrow> string) \<Rightarrow> 'snap \<Rightarrow> ('snap, 'ev) context_store \<Rightarrow> ('snap, 'ev) context_store" where
  "save_snapshot snapshot_id_of snapshot st =
     st\<lparr>cs_snapshots := AList.update (snapshot_id_of snapshot) snapshot (cs_snapshots st)\<rparr>"

definition load_snapshot :: "string \<Rightarrow> ('snap, 'ev) context_store \<Rightarrow> 'snap option" where
  "load_snapshot sid st = map_of (cs_snapshots st) sid"

definition save_context_evidence :: "'ev \<Rightarrow> ('snap, 'ev) context_store \<Rightarrow> ('snap, 'ev) context_store" where
  "save_context_evidence ev st = st\<lparr>cs_evidence := cs_evidence st @ [ev]\<rparr>"

section \<open>Agent definitions\<close>

record agent_def_store =
  ad_defs :: "(string, agent_def_record) dict"
  ad_by_idempotency :: "(string \<times> string, string) dict"

definition empty_agent_def_store :: agent_def_store where
  "empty_agent_def_store = \<lparr>ad_defs = [], ad_by_idempotency = []\<rparr>"

definition index_def_idempotency :: "agent_def_record \<Rightarrow> agent_def_store \<Rightarrow> agent_def_store" where
  "index_def_idempotency rec st =
     (case def_idempotency_key rec of
        None \<Rightarrow> st
      | Some k \<Rightarrow> st\<lparr>ad_by_idempotency :=
          dict_setdefault (def_workspace_id rec, k) (agent_id rec) (ad_by_idempotency st)\<rparr>)"

definition save_agent_def ::
  "instant \<Rightarrow> agent_def_record \<Rightarrow> agent_def_store \<Rightarrow> agent_def_record \<times> agent_def_store" where
  "save_agent_def now rec st =
     (let rec' = rec\<lparr>def_updated_at := now\<rparr>;
          st' = index_def_idempotency rec' st
      in (rec', st'\<lparr>ad_defs := AList.update (agent_id rec') rec' (ad_defs st')\<rparr>))"

definition load_def_by_key :: "string \<Rightarrow> string \<Rightarrow> agent_def_store \<Rightarrow> agent_def_record option" where
  "load_def_by_key ws k st =
     (case map_of (ad_by_idempotency st) (ws, k) of
        None \<Rightarrow> None
      | Some existing_id \<Rightarrow> map_of (ad_defs st) existing_id)"

definition save_agent_def_if_absent ::
  "instant \<Rightarrow> agent_def_record \<Rightarrow> agent_def_store \<Rightarrow> (agent_def_record \<times> bool) \<times> agent_def_store" where
  "save_agent_def_if_absent now rec st =
     (case (case def_idempotency_key rec of
              None \<Rightarrow> None
            | Some k \<Rightarrow> load_def_by_key (def_workspace_id rec) k st) of
        Some existing \<Rightarrow> ((existing, False), st)
      | None \<Rightarrow> (case save_agent_def now rec st of (rec', st') \<Rightarrow> ((rec', True), st')))"

definition def_in_workspace :: "string option \<Rightarrow> agent_def_record \<Rightarrow> bool" where
  "def_in_workspace ws rec \<longleftrightarrow> ws = None \<or> ws = Some (def_workspace_id rec)"

definition get_agent_def :: "string \<Rightarrow> string option \<Rightarrow> agent_def_store \<Rightarrow> agent_def_record option" where
  "get_agent_def aid ws st =
     (case map_of (ad_defs st) aid of
        None \<Rightarrow> None
      | Some rec \<Rightarrow> if def_in_workspace ws rec then Some rec else None)"

definition list_agent_defs :: "string option \<Rightarrow> agent_def_store \<Rightarrow> agent_def_record list" where
  "list_agent_defs ws st =
     sort_key def_created_at (filter (def_in_workspace ws) (dict_values (ad_defs st)))"

definition delete_agent_def :: "string \<Rightarrow> string option \<Rightarrow> agent_def_store \<Rightarrow> bool \<times> agent_def_store" where
  "delete_agent_def aid ws st =
     (case map_of (ad_defs st) aid of
        None \<Rightarrow> (False, st)
      | Some rec \<Rightarrow>
          if \<not> def_in_workspace ws rec then (False, st)
          else (True,
            \<lparr>ad_defs = AList.delete aid (ad_defs st),
             ad_by_idempotency =
               (case def_idempotency_key rec of
                  None \<Rightarrow> ad_by_idempotency st
                | Some k \<Rightarrow> AList.delete (def_workspace_id rec, k) (ad_by_idempotency st))\<rparr>))"

section \<open>Recommendations\<close>

type_synonym recommendation_store = "(string, recommendation_item) dict"

definition save_recommendation ::
  "recommendation_item \<Rightarrow> recommendation_store \<Rightarrow> recommendation_item \<times> recommendation_store" where
  "save_recommendation item st = (item, AList.update (rec_id item) item st)"

definition delete_recommendations_by_subject ::
  "string \<Rightarrow> recommendation_store \<Rightarrow> nat \<times> recommendation_store" where
  "delete_recommendations_by_subject sub st =
     (let doomed = map fst (filter (\<lambda>(_, item). rec_subject_id item = sub) st)
      in (length doomed, dict_pop_all doomed st))"

text \<open>The rows of \<open>d\<close> whose key is in the victim set, popped.\<close>

definition pop_victims :: "'k set \<Rightarrow> ('k, 'v) dict \<Rightarrow> nat \<times> ('k, 'v) dict" where
  "pop_victims victims d =
     (let doomed = filter (\<lambda>k. k \<in> victims) (map fst d) in (length doomed, dict_pop_all doomed d))"

definition prune_recommendations ::
  "instant \<Rightarrow> duration option \<Rightarrow> int option \<Rightarrow> recommendation_store
     \<Rightarrow> prune_error + (nat \<times> recommendation_store)" where
  "prune_recommendations now older_than keep_last st =
     (if older_than = None \<and> keep_last = None then Inl ValueError
      else Inr (pop_victims (prune_victims_by_created_at now
             (map (\<lambda>(rid, i). (rid, Dated (rec_created_at i))) st) older_than keep_last) st))"

definition get_recommendation :: "string \<Rightarrow> recommendation_store \<Rightarrow> recommendation_item option" where
  "get_recommendation rid st = map_of st rid"

definition list_recommendations ::
  "string option \<Rightarrow> string option \<Rightarrow> string option \<Rightarrow> string option \<Rightarrow> recommendation_status option
     \<Rightarrow> recommendation_store \<Rightarrow> recommendation_item list" where
  "list_recommendations ws sub run knd stat st =
     filter (\<lambda>r. (ws = None \<or> ws = Some (rec_workspace_id r))
         \<and> (sub = None \<or> sub = Some (rec_subject_id r))
         \<and> (run = None \<or> run = Some (rec_run_id r))
         \<and> (knd = None \<or> knd = Some (rec_kind r))
         \<and> (stat = None \<or> stat = Some (rec_status r)))
       (dict_values st)"

definition update_recommendation ::
  "string \<Rightarrow> recommendation_status option \<Rightarrow> string option \<Rightarrow> recommendation_store
     \<Rightarrow> recommendation_item option \<times> recommendation_store" where
  "update_recommendation rid stat notes st =
     (case map_of st rid of
        None \<Rightarrow> (None, st)
      | Some item \<Rightarrow>
          (let item1 = (case stat of None \<Rightarrow> item | Some s \<Rightarrow> item\<lparr>rec_status := s\<rparr>);
               item2 = (case notes of None \<Rightarrow> item1 | Some n \<Rightarrow> item1\<lparr>rec_notes := Some n\<rparr>)
           in (Some item2, AList.update rid item2 st)))"

section \<open>Evaluation runs\<close>

text \<open>What the store reads of an \<open>EvaluationRun\<close>, beside its payload.\<close>

record evaluation_run =
  eval_run_id :: string
  eval_suite_id :: "string option"
  eval_workspace_id :: "string option"
  eval_payload :: json

type_synonym evaluation_store = "(string, evaluation_run) dict"

definition save_evaluation_run :: "evaluation_run \<Rightarrow> evaluation_store \<Rightarrow> evaluation_run \<times> evaluation_store" where
  "save_evaluation_run run st = (run, AList.update (eval_run_id run) run st)"

definition get_evaluation_run :: "string \<Rightarrow> string option \<Rightarrow> evaluation_store \<Rightarrow> evaluation_run option" where
  "get_evaluation_run rid ws st =
     (case map_of st rid of
        None \<Rightarrow> None
      | Some run \<Rightarrow> if ws \<noteq> None \<and> eval_workspace_id run \<noteq> ws then None else Some run)"

definition list_evaluation_runs ::
  "string option \<Rightarrow> string option \<Rightarrow> evaluation_store \<Rightarrow> evaluation_run list" where
  "list_evaluation_runs suite ws st =
     filter (\<lambda>r. (suite = None \<or> eval_suite_id r = suite) \<and> (ws = None \<or> eval_workspace_id r = ws))
       (dict_values st)"

section \<open>Orchestration records\<close>

record orchestration_store =
  os_memory :: "(string, memory_object) dict"
  os_episodic :: "(string, episodic_memory_object) dict"
  os_agent_states :: "(string, world_record) dict"
  os_actions :: "(string, world_record) dict"
  os_environment_states :: "(string, world_record) dict"

definition empty_orchestration_store :: orchestration_store where
  "empty_orchestration_store = \<lparr>os_memory = [], os_episodic = [], os_agent_states = [],
     os_actions = [], os_environment_states = []\<rparr>"

definition save_memory :: "memory_object \<Rightarrow> orchestration_store \<Rightarrow> orchestration_store" where
  "save_memory obj st = st\<lparr>os_memory := AList.update (memory_id obj) obj (os_memory st)\<rparr>"

definition get_memory :: "string \<Rightarrow> orchestration_store \<Rightarrow> memory_object option" where
  "get_memory mid st = map_of (os_memory st) mid"

definition list_memory :: "string option \<Rightarrow> orchestration_store \<Rightarrow> memory_object list" where
  "list_memory sub st = filter (\<lambda>m. sub = None \<or> mem_subject_id m = sub) (dict_values (os_memory st))"

definition save_episodic_memory :: "episodic_memory_object \<Rightarrow> orchestration_store \<Rightarrow> orchestration_store" where
  "save_episodic_memory obj st = st\<lparr>os_episodic := AList.update (episode_id obj) obj (os_episodic st)\<rparr>"

definition get_episodic_memory :: "string \<Rightarrow> orchestration_store \<Rightarrow> episodic_memory_object option" where
  "get_episodic_memory eid st = map_of (os_episodic st) eid"

definition list_episodic_memory :: "string option \<Rightarrow> orchestration_store \<Rightarrow> episodic_memory_object list" where
  "list_episodic_memory sub st =
     filter (\<lambda>m. sub = None \<or> epi_subject_id m = sub) (dict_values (os_episodic st))"

definition prune_memory ::
  "instant \<Rightarrow> duration option \<Rightarrow> int option \<Rightarrow> orchestration_store
     \<Rightarrow> prune_error + (nat \<times> orchestration_store)" where
  "prune_memory now older_than keep_last st =
     (if older_than = None \<and> keep_last = None then Inl ValueError
      else
        (let (n, mem) = pop_victims (prune_victims_by_created_at now
               (map (\<lambda>m. (memory_id m, Dated (mem_created_at m))) (dict_values (os_memory st)))
               older_than keep_last) (os_memory st);
             (m, epi) = pop_victims (prune_victims_by_created_at now
               (map (\<lambda>m. (episode_id m, Dated (epi_created_at m))) (dict_values (os_episodic st)))
               older_than keep_last) (os_episodic st)
         in Inr (n + m, st\<lparr>os_memory := mem, os_episodic := epi\<rparr>)))"

text \<open>The reads and writes the three world records share.\<close>

definition put_world :: "world_record \<Rightarrow> (string, world_record) dict \<Rightarrow> (string, world_record) dict" where
  "put_world rec d = AList.update (world_id rec) rec d"

definition list_world ::
  "string option \<Rightarrow> int option \<Rightarrow> (string, world_record) dict \<Rightarrow> world_record list" where
  "list_world env rnd d =
     filter (\<lambda>s. (env = None \<or> environment_name s = env) \<and> (rnd = None \<or> world_round s = rnd)) (dict_values d)"

definition save_agent_state :: "world_record \<Rightarrow> orchestration_store \<Rightarrow> orchestration_store" where
  "save_agent_state rec st = st\<lparr>os_agent_states := put_world rec (os_agent_states st)\<rparr>"

definition get_agent_state :: "string \<Rightarrow> orchestration_store \<Rightarrow> world_record option" where
  "get_agent_state wid st = map_of (os_agent_states st) wid"

definition list_agent_states ::
  "string option \<Rightarrow> int option \<Rightarrow> orchestration_store \<Rightarrow> world_record list" where
  "list_agent_states env rnd st = list_world env rnd (os_agent_states st)"

definition save_action :: "world_record \<Rightarrow> orchestration_store \<Rightarrow> orchestration_store" where
  "save_action rec st = st\<lparr>os_actions := put_world rec (os_actions st)\<rparr>"

definition get_action :: "string \<Rightarrow> orchestration_store \<Rightarrow> world_record option" where
  "get_action wid st = map_of (os_actions st) wid"

definition list_actions ::
  "string option \<Rightarrow> int option \<Rightarrow> orchestration_store \<Rightarrow> world_record list" where
  "list_actions env rnd st = list_world env rnd (os_actions st)"

definition save_environment_state :: "world_record \<Rightarrow> orchestration_store \<Rightarrow> orchestration_store" where
  "save_environment_state rec st = st\<lparr>os_environment_states := put_world rec (os_environment_states st)\<rparr>"

definition get_environment_state :: "string \<Rightarrow> orchestration_store \<Rightarrow> world_record option" where
  "get_environment_state wid st = map_of (os_environment_states st) wid"

definition list_environment_states ::
  "string option \<Rightarrow> int option \<Rightarrow> orchestration_store \<Rightarrow> world_record list" where
  "list_environment_states env rnd st = list_world env rnd (os_environment_states st)"

section \<open>Tenant partitions\<close>

lemma get_saved_field:
  "get_context_field sub key (Some w) (snd (save_context_field f st)) =
     (if field_workspace f = w \<and> field_subject f = sub \<and> cf_key f = key then Some f
      else get_context_field sub key (Some w) st)"
  by (simp add: get_context_field_def save_context_field_def)

text \<open>
  Context fields are partitioned by tenant: after any sequence of upserts, a read scoped
  to a workspace returns the last field written for that workspace, subject and key, and what
  was there before when there is none; the writes of other workspaces never show.
\<close>

theorem context_fields_partitioned:
  assumes "st' = fold (\<lambda>f st. snd (save_context_field f st)) fs st"
    and "mine = filter (\<lambda>f. field_workspace f = w \<and> field_subject f = sub \<and> cf_key f = key) fs"
  shows "get_context_field sub key (Some w) st' =
    (if mine = [] then get_context_field sub key (Some w) st else Some (last mine))"
  using assms
proof (induction fs arbitrary: st mine)
  case Nil
  then show ?case by simp
next
  case (Cons f fs)
  note IH = Cons.IH [OF _ refl, of "snd (save_context_field f st)"]
  from Cons.prems IH show ?case by (simp add: get_saved_field)
qed

definition demo_field :: "string \<Rightarrow> int \<Rightarrow> context_field" where
  "demo_field ws v = \<lparr>cf_key = ''income'', cf_value = JInt v, cf_source = ''storage'',
     cf_metadata = [(''subject_id'', JStr ''s''), (''workspace_id'', JStr ws)]\<rparr>"

theorem context_fields_partitioned_witness:
  "map_option cf_value (get_context_field ''s'' ''income'' (Some ''a'')
      (fold (\<lambda>f st. snd (save_context_field f st)) [demo_field ''a'' 1, demo_field ''b'' 2]
         (empty_context_store :: (unit, unit) context_store))) = Some (JInt 1)"
proof -
  have "filter (\<lambda>f. field_workspace f = ''a'' \<and> field_subject f = ''s'' \<and> cf_key f = ''income'')
      [demo_field ''a'' 1, demo_field ''b'' 2] = [demo_field ''a'' 1]"
    by (simp add: demo_field_def field_workspace_def field_subject_def json_get_def py_str_def)
  from context_fields_partitioned [OF refl this [symmetric], where st = "empty_context_store :: (unit, unit) context_store"]
  show ?thesis by (simp add: demo_field_def)
qed

section \<open>Agent definitions are created once per key\<close>

definition def_indexed :: "agent_def_store \<Rightarrow> bool" where
  "def_indexed st \<longleftrightarrow>
     (\<forall>ws k aid. map_of (ad_by_idempotency st) (ws, k) = Some aid \<longleftrightarrow>
        (\<exists>r. map_of (ad_defs st) aid = Some r \<and> def_workspace_id r = ws \<and> def_idempotency_key r = Some k))"

definition agent_def_store_wf :: "agent_def_store \<Rightarrow> bool" where
  "agent_def_store_wf st \<longleftrightarrow>
     dict_wf (ad_defs st) \<and> dict_wf (ad_by_idempotency st)
     \<and> (\<forall>aid r. map_of (ad_defs st) aid = Some r \<longrightarrow> agent_id r = aid) \<and> def_indexed st"

lemma empty_agent_def_store_wf: "agent_def_store_wf empty_agent_def_store"
  by (simp add: agent_def_store_wf_def empty_agent_def_store_def def_indexed_def)

lemma save_agent_def_simps [simp]:
  "fst (save_agent_def now rec st) = rec\<lparr>def_updated_at := now\<rparr>"
  "ad_defs (snd (save_agent_def now rec st)) = AList.update (agent_id rec) (rec\<lparr>def_updated_at := now\<rparr>) (ad_defs st)"
  "map_of (ad_by_idempotency (snd (save_agent_def now rec st))) (ws, k) =
     (if def_workspace_id rec = ws \<and> def_idempotency_key rec = Some k
         \<and> map_of (ad_by_idempotency st) (ws, k) = None
      then Some (agent_id rec) else map_of (ad_by_idempotency st) (ws, k))"
  by (auto simp: save_agent_def_def index_def_idempotency_def Let_def dict_get_setdefault split: option.split)

lemma load_def_None_index:
  assumes "agent_def_store_wf st"
  shows "load_def_by_key ws k st = None \<longleftrightarrow> map_of (ad_by_idempotency st) (ws, k) = None"
proof (cases "map_of (ad_by_idempotency st) (ws, k)")
  case None
  then show ?thesis by (simp add: load_def_by_key_def)
next
  case (Some aid)
  with assms obtain r where "map_of (ad_defs st) aid = Some r"
    unfolding agent_def_store_wf_def def_indexed_def by blast
  with Some show ?thesis by (simp add: load_def_by_key_def)
qed

lemma save_new_def_wf:
  assumes wf: "agent_def_store_wf st" and new: "map_of (ad_defs st) (agent_id rec) = None"
    and free: "\<And>k. def_idempotency_key rec = Some k \<Longrightarrow> load_def_by_key (def_workspace_id rec) k st = None"
  shows "agent_def_store_wf (snd (save_agent_def now rec st))"
proof -
  have d: "dict_wf (ad_by_idempotency (snd (save_agent_def now rec st)))"
    using wf by (simp add: save_agent_def_def index_def_idempotency_def Let_def agent_def_store_wf_def
        split: option.split)
  have idx: "map_of (ad_by_idempotency st) (ws, k) = Some aid \<longleftrightarrow>
      (\<exists>r. map_of (ad_defs st) aid = Some r \<and> def_workspace_id r = ws \<and> def_idempotency_key r = Some k)" for ws k aid
    using wf by (simp add: agent_def_store_wf_def def_indexed_def)
  have "def_indexed (snd (save_agent_def now rec st))"
    unfolding def_indexed_def
  proof (intro allI)
    fix ws k aid
    show "map_of (ad_by_idempotency (snd (save_agent_def now rec st))) (ws, k) = Some aid \<longleftrightarrow>
      (\<exists>r. map_of (ad_defs (snd (save_agent_def now rec st))) aid = Some r
         \<and> def_workspace_id r = ws \<and> def_idempotency_key r = Some k)"
    proof (cases "def_workspace_id rec = ws \<and> def_idempotency_key rec = Some k")
      case True
      with free wf have none: "map_of (ad_by_idempotency st) (ws, k) = None"
        by (simp add: load_def_None_index)
      with idx [of ws k aid] True show ?thesis by auto
    next
      case False
      with idx [of ws k aid] new show ?thesis by auto
    qed
  qed
  with wf d show ?thesis by (auto simp: agent_def_store_wf_def)
qed

lemma load_def_saved:
  assumes "agent_def_store_wf st" and "map_of (ad_defs st) (agent_id rec) = None"
    and "\<And>k. def_idempotency_key rec = Some k \<Longrightarrow> load_def_by_key (def_workspace_id rec) k st = None"
  shows "load_def_by_key ws k (snd (save_agent_def now rec st)) =
    (if def_workspace_id rec = ws \<and> def_idempotency_key rec = Some k
     then Some (rec\<lparr>def_updated_at := now\<rparr>) else load_def_by_key ws k st)"
proof -
  have "map_of (ad_by_idempotency st) (ws, k) \<noteq> Some (agent_id rec)"
    using assms(1,2) by (auto simp: agent_def_store_wf_def def_indexed_def)
  then show ?thesis
    using assms(3) load_def_None_index [OF assms(1)]
    by (auto simp: load_def_by_key_def split: option.split)
qed

interpretation def_creates: idempotent_store agent_def_store_wf
  "save_agent_def_if_absent now"
  "\<lambda>(ws, k). load_def_by_key ws k"
  "\<lambda>r :: agent_def_record. map_option (Pair (def_workspace_id r)) (def_idempotency_key r)"
  agent_id "\<lambda>i st. map_of (ad_defs st) i \<noteq> None" "\<lambda>r. r\<lparr>def_updated_at := now\<rparr>"
proof unfold_locales
  fix s :: agent_def_store and r :: agent_def_record and k e
  assume "agent_def_store_wf s" and "map_option (Pair (def_workspace_id r)) (def_idempotency_key r) = Some k"
    and "(case k of (ws, k) \<Rightarrow> load_def_by_key ws k) s = Some e"
  then show "save_agent_def_if_absent now r s = ((e, False), s)"
    by (auto simp: save_agent_def_if_absent_def)
next
  fix s :: agent_def_store and r :: agent_def_record
  assume wf: "agent_def_store_wf s" and new: "\<not> map_of (ad_defs s) (agent_id r) \<noteq> None"
    and free: "\<And>k. map_option (Pair (def_workspace_id r)) (def_idempotency_key r) = Some k \<Longrightarrow>
      (case k of (ws, k) \<Rightarrow> load_def_by_key ws k) s = None"
  let ?s' = "snd (save_agent_def now r s)"
  have free': "load_def_by_key (def_workspace_id r) k s = None" if "def_idempotency_key r = Some k" for k
    using that free [of "(def_workspace_id r, k)"] by simp
  have none: "map_of (ad_defs s) (agent_id r) = None" using new by simp
  have "save_agent_def_if_absent now r s = ((r\<lparr>def_updated_at := now\<rparr>, True), ?s')"
    using free' by (auto simp: save_agent_def_if_absent_def case_prod_unfold split: option.split)
  moreover have "agent_def_store_wf ?s'" using save_new_def_wf [OF wf none free'] .
  moreover have "(case k of (ws, k) \<Rightarrow> load_def_by_key ws k) ?s' =
      (if map_option (Pair (def_workspace_id r)) (def_idempotency_key r) = Some k
       then Some (r\<lparr>def_updated_at := now\<rparr>) else (case k of (ws, k) \<Rightarrow> load_def_by_key ws k) s)" for k
    using load_def_saved [OF wf none free'] by (auto split: prod.split)
  moreover have "map_of (ad_defs ?s') i \<noteq> None \<longleftrightarrow> i = agent_id r \<or> map_of (ad_defs s) i \<noteq> None" for i
    by auto
  ultimately show "\<exists>s'. save_agent_def_if_absent now r s = ((r\<lparr>def_updated_at := now\<rparr>, True), s')
      \<and> agent_def_store_wf s'
      \<and> (\<forall>k. (case k of (ws, k) \<Rightarrow> load_def_by_key ws k) s' =
          (if map_option (Pair (def_workspace_id r)) (def_idempotency_key r) = Some k
           then Some (r\<lparr>def_updated_at := now\<rparr>) else (case k of (ws, k) \<Rightarrow> load_def_by_key ws k) s))
      \<and> (\<forall>i. map_of (ad_defs s') i \<noteq> None \<longleftrightarrow> i = agent_id r \<or> map_of (ad_defs s) i \<noteq> None)"
    by blast
qed

text \<open>
  Agent definitions are created once per key: in any sequence of conditional creates with
  fresh ids, every submission under a (workspace, key) pair is answered with the definition
  the pair leads to at the end, and at most one of them creates it.
\<close>

theorem idempotent_agent_definitions:
  assumes "agent_def_store_wf st" and "distinct (map agent_id rs)"
    and "\<forall>r \<in> set rs. map_of (ad_defs st) (agent_id r) = None"
    and "thread_state (save_agent_def_if_absent now) rs st = (answers, st')"
  shows "(\<forall>(r, (e, _)) \<in> set (zip rs answers). def_workspace_id r = ws \<and> def_idempotency_key r = Some k \<longrightarrow>
            load_def_by_key ws k st' = Some e)
    \<and> length (filter (\<lambda>(r, (_, created)). def_idempotency_key r = Some k \<and> def_workspace_id r = ws \<and> created)
         (zip rs answers)) \<le> 1"
  using def_creates.submit_once [where s = st and rs = rs and k = "(ws, k)" and now = now] assms
  by (auto simp: conj_assoc)

definition demo_def :: "string \<Rightarrow> agent_def_record" where
  "demo_def aid = \<lparr>agent_id = aid, def_workspace_id = ''w'', def_name = ''n'', def_description = [],
     def_spec = [], def_idempotency_key = Some ''k'', def_metadata = [], def_created_at = 1, def_updated_at = 1\<rparr>"

theorem idempotent_agent_definitions_witness:
  "length (filter snd (fst (thread_state (save_agent_def_if_absent 5) [demo_def ''a'', demo_def ''b'']
     empty_agent_def_store))) \<le> 1"
proof -
  let ?rs = "[demo_def ''a'', demo_def ''b'']"
  let ?t = "thread_state (save_agent_def_if_absent 5) ?rs empty_agent_def_store"
  have "distinct (map agent_id ?rs)" "\<forall>r \<in> set ?rs. map_of (ad_defs empty_agent_def_store) (agent_id r) = None"
    by (simp_all add: demo_def_def empty_agent_def_store_def)
  from idempotent_agent_definitions [OF empty_agent_def_store_wf this prod.collapse [symmetric], of 5 "''w''" "''k''"]
  have "length (filter (\<lambda>(r, (_, created)). def_idempotency_key r = Some ''k'' \<and> def_workspace_id r = ''w'' \<and> created)
      (zip ?rs (fst ?t))) \<le> 1" by (rule conjunct2)
  then show ?thesis by (simp add: demo_def_def case_prod_unfold split: if_splits)
qed

end
