(* ===== verification/Rbac.thy ===== *)
theory Rbac
  imports Principals Canonical
begin

text \<open>
  Roles, permissions and token scopes of himmy/api/auth/rbac.py.
\<close>

section \<open>Permissions and policies\<close>

type_synonym perm = "string \<times> string"
type_synonym access_policy = "(string, perm set) dict"

definition STUDIO_READ_RESOURCES :: "string list" where
  "STUDIO_READ_RESOURCES =
    [''studio.console'', ''studio.runs'', ''studio.connections'', ''studio.google'',
     ''studio.approvals'', ''studio.models'', ''studio.modelcatalog'', ''studio.agents'',
     ''studio.tasks'', ''studio.chats'', ''studio.cookbook'', ''studio.notes'', ''studio.calendar'',
     ''studio.memory'', ''studio.knowledge'', ''studio.evals'', ''studio.workflows'', ''studio.files'',
     ''studio.mcp'', ''studio.eval'', ''studio.guardrails'', ''studio.kb'', ''studio.learning'',
     ''studio.lineage'', ''studio.missions'', ''studio.notify'', ''studio.privacy'',
     ''studio.projects'', ''studio.routines'', ''studio.seclog'', ''studio.teams'', ''studio.telegram'']"

definition STUDIO_GLOBAL_STORE_RESOURCES :: "string list" where
  "STUDIO_GLOBAL_STORE_RESOURCES =
    [''studio.memory'', ''studio.notes'', ''studio.tasks'', ''studio.chats'', ''studio.cookbook'',
     ''studio.calendar'', ''studio.knowledge'', ''studio.projects'', ''studio.files'',
     ''studio.seclog'', ''studio.lineage'', ''studio.privacy'', ''studio.connections'',
     ''studio.google'', ''studio.missions'', ''studio.notify'', ''studio.kb'', ''studio.telegram'',
     ''studio.mcp'', ''studio.approvals'', ''studio.models'', ''studio.routines'', ''studio.eval'',
     ''studio.evals'', ''studio.workflows'', ''studio.agents'', ''studio.teams'']"

definition STUDIO_READ_PERMS :: "string list" where
  "STUDIO_READ_PERMS =
     map (\<lambda>res. res @ '':read'') (filter (\<lambda>res. res \<notin> set STUDIO_GLOBAL_STORE_RESOURCES) STUDIO_READ_RESOURCES)"

definition DEFAULT_RBAC :: "(string \<times> string list) list" where
  "DEFAULT_RBAC =
   [(''viewer'',
     [''run:read'', ''recommendation:read'', ''context:read'', ''dashboard:read'', ''evaluation:read'',
     ''connector:read'', ''agent:read'', ''knowledge:read'', ''routine:read'', ''model:read'',
     ''diagnostics:read''] @ STUDIO_READ_PERMS),
    (''operator'',
     [''run:read'', ''run:write'', ''recommendation:read'', ''recommendation:write'', ''context:read'',
     ''context:write'', ''dashboard:read'', ''evaluation:read'', ''evaluation:write'', ''consent:read'',
     ''consent:write'', ''connector:read'', ''agent:read'', ''agent:write'', ''knowledge:read'',
     ''knowledge:write'', ''routine:read'', ''routine:write'', ''model:read'', ''model:write'',
     ''diagnostics:read'', ''tool:*''] @ STUDIO_READ_PERMS),
    (''auditor'',
     [''run:read'', ''recommendation:read'', ''context:read'', ''dashboard:read'', ''evaluation:read'',
     ''audit:read'', ''audit:run'', ''consent:read'', ''connector:read'', ''agent:read'',
     ''knowledge:read'', ''routine:read'', ''model:read'', ''diagnostics:read''] @ STUDIO_READ_PERMS),
    (''data_subject'',
     [''consent:read'']),
    (''admin'',
     [''*:*''])]"

text \<open>\<open>s.partition(":")\<close> when the separator occurs: what precedes and what follows its first occurrence.\<close>

definition split_colon :: "string \<Rightarrow> (string \<times> string) option" where
  "split_colon s =
     (if CHR '':'' \<in> set s
      then Some (takeWhile (\<lambda>c. c \<noteq> CHR '':'') s, tl (dropWhile (\<lambda>c. c \<noteq> CHR '':'') s)) else None)"

definition spec_resource :: "string \<Rightarrow> string" where
  "spec_resource spec = (case split_colon spec of Some (r, _) \<Rightarrow> r | None \<Rightarrow> spec)"

definition spec_action :: "string \<Rightarrow> string" where
  "spec_action spec = (case split_colon spec of Some (_, a) \<Rightarrow> a | None \<Rightarrow> [])"

definition BUILTIN_RESOURCES :: "string set" where
  "BUILTIN_RESOURCES =
     set (filter (\<lambda>r. r \<noteq> ''*'') (map spec_resource (concat (map snd DEFAULT_RBAC))))"

datatype perm_error = NotText | NoColon | EmptyHalf

datatype policy_error = NotAnObject | RoleNotList string | RolePerm string perm_error

definition parse_perm :: "json \<Rightarrow> perm_error + perm" where
  "parse_perm spec =
     (case spec of
        JStr s \<Rightarrow>
          (case split_colon s of
             None \<Rightarrow> Inl NoColon
           | Some (r, a) \<Rightarrow>
               (let resource = py_strip py_is_space r; action = py_strip py_is_space a
                in if resource = [] \<or> action = [] then Inl EmptyHalf else Inr (resource, action)))
      | _ \<Rightarrow> Inl NotText)"

text \<open>The permissions of one role: the first malformed entry is an error.\<close>

fun parse_perms :: "json list \<Rightarrow> perm_error + perm list" where
  "parse_perms [] = Inr []"
| "parse_perms (s # ss) =
     (case parse_perm s of
        Inl e \<Rightarrow> Inl e
      | Inr q \<Rightarrow> (case parse_perms ss of Inl e \<Rightarrow> Inl e | Inr qs \<Rightarrow> Inr (q # qs)))"

fun parse_roles :: "json_dict \<Rightarrow> access_policy \<Rightarrow> policy_error + access_policy" where
  "parse_roles [] acc = Inr acc"
| "parse_roles ((role, perms) # d) acc =
     (case perms of
        JList specs \<Rightarrow>
          (case parse_perms specs of
             Inl e \<Rightarrow> Inl (RolePerm role e)
           | Inr qs \<Rightarrow> parse_roles d (AList.update role (set qs) acc))
      | _ \<Rightarrow> Inl (RoleNotList role))"

definition from_mapping :: "json \<Rightarrow> policy_error + access_policy" where
  "from_mapping mapping = (case mapping of JObj d \<Rightarrow> parse_roles d [] | _ \<Rightarrow> Inl NotAnObject)"

definition default_mapping :: json where
  "default_mapping = JObj (map (\<lambda>(role, specs). (role, JList (map JStr specs))) DEFAULT_RBAC)"

definition DEFAULT_POLICY :: access_policy where
  "DEFAULT_POLICY = (case from_mapping default_mapping of Inr p \<Rightarrow> p | Inl _ \<Rightarrow> [])"

section \<open>Authorization\<close>

definition known_resources :: "access_policy \<Rightarrow> string set" where
  "known_resources policy =
     {r \<in> fst ` (\<Union>(role, perms) \<in> set policy. perms). r \<noteq> ''*''} \<union> BUILTIN_RESOURCES"

definition covers :: "perm set \<Rightarrow> string \<Rightarrow> string \<Rightarrow> bool" where
  "covers perms resource action \<longleftrightarrow>
     (\<exists>(r, a) \<in> perms. (r = resource \<or> r = ''*'') \<and> (a = action \<or> a = ''*''))"

definition scope_permissions :: "string set \<Rightarrow> string set \<Rightarrow> perm set" where
  "scope_permissions scopes known =
     (\<Union>scope \<in> scopes. case parse_perm (JStr scope) of
        Inl _ \<Rightarrow> {} | Inr (r, a) \<Rightarrow> if r \<in> known then {(r, a)} else {})"

definition granted_by_role :: "access_policy \<Rightarrow> string set \<Rightarrow> string \<Rightarrow> string \<Rightarrow> bool" where
  "granted_by_role policy roles resource action \<longleftrightarrow>
     (\<exists>role \<in> roles. case map_of policy role of None \<Rightarrow> False | Some perms \<Rightarrow> covers perms resource action)"

definition authorize :: "access_policy \<Rightarrow> principal \<Rightarrow> string \<Rightarrow> string \<Rightarrow> bool" where
  "authorize policy p resource action =
     (if \<not> granted_by_role policy (pr_roles p) resource action then False
      else (let scope_perms = scope_permissions (pr_scopes p) (known_resources policy)
            in if scope_perms = {} then True else covers scope_perms resource action))"

text \<open>The guard of a route: off without an authenticator, otherwise 403 unless authorized.\<close>

definition require_permission ::
  "bool \<Rightarrow> access_policy option \<Rightarrow> principal \<Rightarrow> string \<Rightarrow> string \<Rightarrow> http_error + unit" where
  "require_permission authenticator_configured app_policy p resource action =
     (if \<not> authenticator_configured then Inr ()
      else (let policy = (case app_policy of None \<Rightarrow> DEFAULT_POLICY | Some q \<Rightarrow> q)
            in if authorize policy p resource action then Inr ()
               else Inl (Http 403 (''permission denied: '' @ resource @ '':'' @ action))))"

section \<open>Linting\<close>

datatype policy_warning =
    EmptyPolicy
  | WildcardResource string string
  | UnknownResource string string string
  | UnknownAction string string string

definition known_tokens :: "string set \<times> string set" where
  "known_tokens =
     (let specs = concat (map snd DEFAULT_RBAC)
      in (set (map spec_resource specs), set (map spec_action specs)))"

definition role_warnings :: "bool \<Rightarrow> string \<Rightarrow> perm set \<Rightarrow> policy_warning list" where
  "role_warnings include_typos role perms =
     (let sorted_perms = sorted_list_of_set perms in
        (if role \<noteq> ''admin''
         then concat (map (\<lambda>(r, a). if r = ''*'' then [WildcardResource role a] else []) sorted_perms) else [])
        @ (if include_typos
           then concat (map (\<lambda>(r, a).
               (if r \<noteq> ''*'' \<and> r \<notin> fst known_tokens then [UnknownResource role r a] else [])
               @ (if a \<noteq> ''*'' \<and> a \<notin> snd known_tokens then [UnknownAction role r a] else []))
             sorted_perms) else []))"

definition policy_warnings :: "bool \<Rightarrow> access_policy \<Rightarrow> policy_warning list" where
  "policy_warnings include_typos rp =
     (if rp = [] then [EmptyPolicy] else [])
     @ concat (map (\<lambda>role. role_warnings include_typos role (the (map_of rp role))) (sort (map fst rp)))"

text \<open>All the errors of one role's list, and of the whole mapping.\<close>

fun lint_perms :: "json list \<Rightarrow> perm_error list \<times> perm list" where
  "lint_perms [] = ([], [])"
| "lint_perms (s # ss) =
     (case (parse_perm s, lint_perms ss) of
        (Inl e, (es, qs)) \<Rightarrow> (e # es, qs)
      | (Inr q, (es, qs)) \<Rightarrow> (es, q # qs))"

fun lint_roles :: "json_dict \<Rightarrow> access_policy \<Rightarrow> policy_error list \<times> access_policy" where
  "lint_roles [] acc = ([], acc)"
| "lint_roles ((role, perms) # d) acc =
     (case perms of
        JList specs \<Rightarrow>
          (case lint_perms specs of
             (es, qs) \<Rightarrow>
               (case lint_roles d (AList.update role (set qs) acc) of
                  (es', rp) \<Rightarrow> (map (RolePerm role) es @ es', rp)))
      | _ \<Rightarrow> (case lint_roles d acc of (es', rp) \<Rightarrow> (RoleNotList role # es', rp)))"

definition lint_policy :: "json \<Rightarrow> access_policy option \<times> policy_error list \<times> policy_warning list" where
  "lint_policy mapping =
     (case mapping of
        JObj d \<Rightarrow>
          (case lint_roles d [] of
             (errors, rp) \<Rightarrow> (if errors = [] then Some rp else None, errors, policy_warnings True rp))
      | _ \<Rightarrow> (None, [NotAnObject], []))"

section \<open>Strict parsing\<close>

lemma parse_perms_ok:
  "parse_perms specs = Inr qs \<longleftrightarrow> map parse_perm specs = map Inr qs"
  by (induction specs arbitrary: qs) (fastforce split: sum.splits)+

lemma lint_perms_first:
  "parse_perms specs = (case lint_perms specs of ([], qs) \<Rightarrow> Inr qs | (e # _, _) \<Rightarrow> Inl e)"
  by (induction specs) (auto split: sum.splits prod.splits list.splits)

lemma lint_roles_first:
  "parse_roles d acc = (case lint_roles d acc of ([], rp) \<Rightarrow> Inr rp | (e # _, _) \<Rightarrow> Inl e)"
proof (induction d acc rule: parse_roles.induct)
  case (2 role perms d acc)
  show ?case
  proof (cases perms)
    case (JList specs)
    obtain es qs where l: "lint_perms specs = (es, qs)" by fastforce
    show ?thesis
    proof (cases es)
      case Nil
      then have "parse_perms specs = Inr qs" using l by (simp add: lint_perms_first)
      from 2 [OF JList this] this show ?thesis using JList l Nil
        by (simp split: prod.splits list.splits)
    next
      case (Cons e es')
      then have "parse_perms specs = Inl e" using l by (simp add: lint_perms_first)
      then show ?thesis using JList l Cons by (simp split: prod.splits)
    qed
  qed (simp_all split: prod.splits)
qed simp

text \<open>
  The linter and the loader agree on every mapping: the linter builds a policy exactly
  when startup would accept the file, the same policy, and otherwise its first error is the
  one startup raises.
\<close>

theorem lint_agrees_with_startup:
  "from_mapping mapping =
     (case lint_policy mapping of
        (Some policy, _, _) \<Rightarrow> Inr policy
      | (None, errors, _) \<Rightarrow> Inl (hd errors))"
  by (cases mapping)
    (simp_all add: from_mapping_def lint_policy_def lint_roles_first split: prod.splits list.splits)

lemma split_colon_iff: "split_colon s = Some (x, y) \<longleftrightarrow> s = x @ CHR '':'' # y \<and> CHR '':'' \<notin> set x"
proof -
  have "s = x @ CHR '':'' # y \<and> CHR '':'' \<notin> set x"
    if "CHR '':'' \<in> set s" "x = takeWhile (\<lambda>c. c \<noteq> CHR '':'') s" "y = tl (dropWhile (\<lambda>c. c \<noteq> CHR '':'') s)"
  proof -
    from that(1) have "dropWhile (\<lambda>c. c \<noteq> CHR '':'') s \<noteq> []" by (simp add: dropWhile_eq_Nil_conv)
    moreover from this have "hd (dropWhile (\<lambda>c. c \<noteq> CHR '':'') s) = CHR '':''" using hd_dropWhile by blast
    ultimately have "dropWhile (\<lambda>c. c \<noteq> CHR '':'') s = CHR '':'' # y" by (cases "dropWhile (\<lambda>c. c \<noteq> CHR '':'') s") (auto simp: that)
    then show ?thesis using takeWhile_dropWhile_id [of "\<lambda>c. c \<noteq> CHR '':''" s] by (auto simp: that(2) dest: set_takeWhileD)
  qed
  moreover have "split_colon (x @ CHR '':'' # y) = Some (x, y)" if "CHR '':'' \<notin> set x"
    using that by (induction x) (auto simp: split_colon_def split: if_splits)
  ultimately show ?thesis by (auto simp: split_colon_def split: if_splits)
qed

lemma parse_perm_ok:
  "parse_perm spec = Inr (r, a) \<longleftrightarrow>
     (\<exists>x y. spec = JStr (x @ CHR '':'' # y) \<and> CHR '':'' \<notin> set x
       \<and> r = py_strip py_is_space x \<and> a = py_strip py_is_space y \<and> r \<noteq> [] \<and> a \<noteq> [])"
proof
  assume "parse_perm spec = Inr (r, a)"
  then obtain s x y where "spec = JStr s" "split_colon s = Some (x, y)"
    "r = py_strip py_is_space x" "a = py_strip py_is_space y" "r \<noteq> []" "a \<noteq> []"
    by (auto simp: parse_perm_def Let_def split: json.splits option.splits prod.splits if_splits)
  then show "\<exists>x y. spec = JStr (x @ CHR '':'' # y) \<and> CHR '':'' \<notin> set x
       \<and> r = py_strip py_is_space x \<and> a = py_strip py_is_space y \<and> r \<noteq> [] \<and> a \<noteq> []"
    by (auto simp: split_colon_iff)
next
  assume "\<exists>x y. spec = JStr (x @ CHR '':'' # y) \<and> CHR '':'' \<notin> set x
       \<and> r = py_strip py_is_space x \<and> a = py_strip py_is_space y \<and> r \<noteq> [] \<and> a \<noteq> []"
  then obtain x y where xy: "spec = JStr (x @ CHR '':'' # y)" "CHR '':'' \<notin> set x"
    "r = py_strip py_is_space x" "a = py_strip py_is_space y" "r \<noteq> []" "a \<noteq> []" by blast
  then have "split_colon (x @ CHR '':'' # y) = Some (x, y)" by (simp add: split_colon_iff)
  with xy show "parse_perm spec = Inr (r, a)" by (simp add: parse_perm_def Let_def)
qed

text \<open>What a role's value grants.\<close>

definition role_entry :: "json \<Rightarrow> perm set option" where
  "role_entry v =
     (case v of
        JList specs \<Rightarrow> (case parse_perms specs of Inr qs \<Rightarrow> Some (set qs) | Inl _ \<Rightarrow> None)
      | _ \<Rightarrow> None)"

lemma parse_roles_entry:
  "parse_roles d acc = Inr rp \<Longrightarrow>
     map_of rp role = (case map_of (rev d) role of None \<Rightarrow> map_of acc role | Some v \<Rightarrow> role_entry v)
     \<and> (\<forall>v \<in> snd ` set d. role_entry v \<noteq> None)"
proof (induction d acc rule: parse_roles.induct)
  case (2 r v d acc)
  from "2.prems" obtain specs qs where v: "v = JList specs" "parse_perms specs = Inr qs"
    by (auto split: json.splits sum.splits)
  with "2.prems" have "parse_roles d (AList.update r (set qs) acc) = Inr rp" by simp
  from "2.IH" [OF v this] v show ?case
    by (auto simp: map_add_def role_entry_def split: option.splits)
qed auto

lemma role_entry_iff:
  "role_entry v = Some perms \<longleftrightarrow>
     (\<exists>specs. v = JList specs \<and> (\<forall>s \<in> set specs. \<exists>q. parse_perm s = Inr q)
        \<and> perms = {q. \<exists>s \<in> set specs. parse_perm s = Inr q})"
proof (cases v)
  case (JList specs)
  show ?thesis
  proof (cases "parse_perms specs")
    case (Inl e)
    then have "\<not> (\<forall>s \<in> set specs. \<exists>q. parse_perm s = Inr q)"
      by (induction specs arbitrary: e) (auto split: sum.splits)
    then show ?thesis using JList Inl by (simp add: role_entry_def)
  next
    case (Inr qs)
    then have "map parse_perm specs = map Inr qs" by (simp add: parse_perms_ok)
    then have "parse_perm ` set specs = Inr ` set qs" by (metis set_map)
    then have "(\<forall>s \<in> set specs. \<exists>q. parse_perm s = Inr q)" "set qs = {q. \<exists>s \<in> set specs. parse_perm s = Inr q}"
      by (blast, (auto simp: set_eq_iff image_iff, metis sum.inject(2), metis sum.inject(2)))
    then show ?thesis using JList Inr by (auto simp: role_entry_def)
  qed
qed (simp_all add: role_entry_def)

lemma map_of_rev_wf: "dict_wf d \<Longrightarrow> map_of (rev d) = map_of d"
proof (induction d)
  case (Cons q d)
  then have "map_of d (fst q) = None" by (simp add: map_of_eq_None_iff)
  with Cons show ?case by (auto simp: map_add_def fun_eq_iff split: option.splits)
qed simp

lemma from_mapping_entry:
  "from_mapping (JObj d) = Inr policy \<Longrightarrow> dict_wf d \<Longrightarrow>
     map_of policy role = Option.bind (map_of d role) role_entry"
  using parse_roles_entry [of d "[]" policy role]
  by (auto simp: from_mapping_def map_of_rev_wf split: option.splits)

text \<open>
  A loaded policy grants what its text says and nothing more: a role's permissions are
  the stripped halves around the first colon of its entries, both halves non-empty, so a
  wildcard is granted only where the text has a literal asterisk; one malformed entry
  anywhere makes the load fail.
\<close>

theorem accepted_policy_grants_what_it_says:
  assumes "from_mapping (JObj d) = Inr policy" and "dict_wf d"
  shows "(\<forall>role perms. map_of policy role = Some perms \<longleftrightarrow>
      (\<exists>specs. map_of d role = Some (JList specs)
        \<and> perms = {(py_strip py_is_space x, py_strip py_is_space y) | x y.
             JStr (x @ CHR '':'' # y) \<in> set specs \<and> CHR '':'' \<notin> set x}))
    \<and> (\<forall>role specs spec. (role, JList specs) \<in> set d \<longrightarrow> spec \<in> set specs \<longrightarrow>
         (\<exists>x y. spec = JStr (x @ CHR '':'' # y) \<and> CHR '':'' \<notin> set x
           \<and> py_strip py_is_space x \<noteq> [] \<and> py_strip py_is_space y \<noteq> []))"
proof (intro conjI allI impI)
  have parses: "\<exists>q. parse_perm spec = Inr q"
    if e: "(role, JList specs) \<in> set d" "spec \<in> set specs" for role specs spec
  proof -
    have "role_entry (JList specs) \<noteq> None"
      using parse_roles_entry [of d "[]" policy] assms(1) e(1) by (force simp: from_mapping_def)
    then show ?thesis using e(2) by (auto simp: role_entry_iff)
  qed
  have ok: "\<exists>x y. spec = JStr (x @ CHR '':'' # y) \<and> CHR '':'' \<notin> set x
        \<and> py_strip py_is_space x \<noteq> [] \<and> py_strip py_is_space y \<noteq> []"
    if e: "(role, JList specs) \<in> set d" "spec \<in> set specs" for role specs spec
    using parses [OF e] by (auto simp: parse_perm_ok)
  then show "\<exists>x y. spec = JStr (x @ CHR '':'' # y) \<and> CHR '':'' \<notin> set x
        \<and> py_strip py_is_space x \<noteq> [] \<and> py_strip py_is_space y \<noteq> []"
    if "(role, JList specs) \<in> set d" "spec \<in> set specs" for role specs spec
    using that .
  have eq: "{q. \<exists>s \<in> set specs. parse_perm s = Inr q}
      = {(py_strip py_is_space x, py_strip py_is_space y) | x y.
           JStr (x @ CHR '':'' # y) \<in> set specs \<and> CHR '':'' \<notin> set x}"
    if "(role, JList specs) \<in> set d" for role specs
  proof -
    have "parse_perm (JStr (x @ CHR '':'' # y)) = Inr (py_strip py_is_space x, py_strip py_is_space y)"
      if xy: "JStr (x @ CHR '':'' # y) \<in> set specs" "CHR '':'' \<notin> set x" for x y
      using ok [OF \<open>(role, JList specs) \<in> set d\<close> xy(1)] xy(2)
      by (intro iffD2 [OF parse_perm_ok] exI [of _ x] exI [of _ y]) (auto simp: colon_free_prefix)
    moreover have "\<exists>x y. q = (py_strip py_is_space x, py_strip py_is_space y)
        \<and> JStr (x @ CHR '':'' # y) \<in> set specs \<and> CHR '':'' \<notin> set x"
      if s: "s \<in> set specs" "parse_perm s = Inr q" for s q
    proof -
      obtain x y where "s = JStr (x @ CHR '':'' # y)" "CHR '':'' \<notin> set x"
        "fst q = py_strip py_is_space x" "snd q = py_strip py_is_space y"
        using s(2) parse_perm_ok [of s "fst q" "snd q"] by auto
      then show ?thesis using s(1) by (intro exI [of _ x] exI [of _ y]) (auto simp: prod_eq_iff)
    qed
    ultimately show ?thesis by (intro set_eqI iffI; clarsimp) (metis+)
  qed
  show "map_of policy role = Some perms \<longleftrightarrow>
    (\<exists>specs. map_of d role = Some (JList specs)
      \<and> perms = {(py_strip py_is_space x, py_strip py_is_space y) | x y.
           JStr (x @ CHR '':'' # y) \<in> set specs \<and> CHR '':'' \<notin> set x})" for role perms
  proof (cases "map_of d role")
    case (Some v)
    then have "(role, v) \<in> set d" by (rule map_of_SomeD)
    then show ?thesis using Some eq parses
      by (cases v) (auto simp: from_mapping_entry [OF assms] role_entry_iff)
  qed (simp add: from_mapping_entry [OF assms])
qed

theorem accepted_policy_grants_what_it_says_witness:
  "\<exists>policy. from_mapping (JObj [(''reader'', JList [JStr '' run : read''])]) = Inr policy
    \<and> map_of policy ''reader'' = Some {(py_strip py_is_space x, py_strip py_is_space y) | x y.
         JStr (x @ CHR '':'' # y) \<in> {JStr '' run : read''} \<and> CHR '':'' \<notin> set x}"
proof -
  let ?d = "[(''reader'', JList [JStr '' run : read''])]"
  have "from_mapping (JObj ?d) = Inr [(''reader'', {(''run'', ''read'')})]" by code_simp
  note this and accepted_policy_grants_what_it_says [OF this, THEN conjunct1, rule_format, of "''reader''" "{(''run'', ''read'')}"]
  then show ?thesis by auto
qed

section \<open>Token scopes\<close>

lemma scope_permissions_iff:
  "(r, a) \<in> scope_permissions scopes known \<longleftrightarrow>
     r \<in> known \<and> (\<exists>scope \<in> scopes. parse_perm (JStr scope) = Inr (r, a))"
proof -
  have "(r, a) \<in> (case x of Inl _ \<Rightarrow> {} | Inr (r, a) \<Rightarrow> if r \<in> known then {(r, a)} else {})
      \<longleftrightarrow> r \<in> known \<and> x = Inr (r, a)" for x :: "perm_error + perm"
    by (cases x) (auto split: prod.splits)
  then show ?thesis by (auto simp: scope_permissions_def)
qed

lemma wildcard_unknown: "''*'' \<notin> known_resources policy"
  by (auto simp: known_resources_def BUILTIN_RESOURCES_def)

text \<open>
  C19: A token acts with a part of its bearer's authority. Scopes never add a right; once one
  scope names a resource the policy knows, every right left is named by such a scope, by the
  exact resource; and scopes of another vocabulary, which name no known resource, change
  nothing.
\<close>

theorem token_scopes_only_narrow:
  assumes "authorize policy p resource action"
  shows "authorize policy (p\<lparr>pr_scopes := {}\<rparr>) resource action
    \<and> (\<forall>scope r a. scope \<in> pr_scopes p \<longrightarrow> parse_perm (JStr scope) = Inr (r, a) \<longrightarrow> r \<in> known_resources policy \<longrightarrow>
         (\<exists>scope' \<in> pr_scopes p. \<exists>a'. parse_perm (JStr scope') = Inr (resource, a') \<and> a' \<in> {action, ''*''}))
    \<and> (\<forall>foreign. (\<forall>scope r a. scope \<in> foreign \<longrightarrow> parse_perm (JStr scope) = Inr (r, a) \<longrightarrow> r \<notin> known_resources policy) \<longrightarrow>
         authorize policy (p\<lparr>pr_scopes := pr_scopes p \<union> foreign\<rparr>) resource action)"
proof (intro conjI allI impI)
  have g: "granted_by_role policy (pr_roles p) resource action"
    and c: "scope_permissions (pr_scopes p) (known_resources policy) = {}
      \<or> covers (scope_permissions (pr_scopes p) (known_resources policy)) resource action"
    using assms by (auto simp: authorize_def Let_def split: if_splits)
  show "authorize policy (p\<lparr>pr_scopes := {}\<rparr>) resource action"
    using g by (simp add: authorize_def scope_permissions_def)
  show "\<exists>scope' \<in> pr_scopes p. \<exists>a'. parse_perm (JStr scope') = Inr (resource, a') \<and> a' \<in> {action, ''*''}"
    if s: "scope \<in> pr_scopes p" "parse_perm (JStr scope) = Inr (r, a)" "r \<in> known_resources policy" for scope r a
  proof -
    have "(r, a) \<in> scope_permissions (pr_scopes p) (known_resources policy)"
      using s by (auto simp: scope_permissions_iff)
    then have "covers (scope_permissions (pr_scopes p) (known_resources policy)) resource action"
      using c by blast
    then obtain r' a' where q: "(r', a') \<in> scope_permissions (pr_scopes p) (known_resources policy)"
      "r' = resource \<or> r' = ''*''" "a' = action \<or> a' = ''*''"
      by (auto simp: covers_def)
    from q(1) wildcard_unknown [of policy] have "r' \<noteq> ''*''" by (auto simp: scope_permissions_iff)
    with q show ?thesis by (auto simp: scope_permissions_iff)
  qed
  show "authorize policy (p\<lparr>pr_scopes := pr_scopes p \<union> foreign\<rparr>) resource action"
    if f: "\<forall>scope r a. scope \<in> foreign \<longrightarrow> parse_perm (JStr scope) = Inr (r, a) \<longrightarrow> r \<notin> known_resources policy" for foreign
  proof -
    have "scope_permissions (pr_scopes p \<union> foreign) (known_resources policy)
        = scope_permissions (pr_scopes p) (known_resources policy)"
      using f by (auto simp: set_eq_iff scope_permissions_iff)
    then show ?thesis using g c by (auto simp: authorize_def Let_def)
  qed
qed

definition demo_agent :: "string set \<Rightarrow> principal" where
  "demo_agent scopes = ANONYMOUS\<lparr>pr_roles := {''admin''}, pr_scopes := scopes\<rparr>"

lemma demo_agent_runs: "authorize [(''admin'', {(''*'', ''*'')})] (demo_agent {''run:read''}) ''run'' ''read''"
proof -
  have "''run'' \<in> BUILTIN_RESOURCES" unfolding BUILTIN_RESOURCES_def by code_simp
  moreover have "parse_perm (JStr ''run:read'') = Inr (''run'', ''read'')" by code_simp
  ultimately show ?thesis
    by (auto simp: authorize_def granted_by_role_def covers_def demo_agent_def scope_permissions_def
        known_resources_def)
qed

theorem token_scopes_only_narrow_witness:
  "authorize [(''admin'', {(''*'', ''*'')})] ((demo_agent {''run:read''})\<lparr>pr_scopes := {}\<rparr>) ''run'' ''read''"
  using token_scopes_only_narrow [OF demo_agent_runs] by blast

section \<open>The built-in roles\<close>

text \<open>The permissions of the built-in catalogue other than the administrator's, all parsed.\<close>

definition builtin_perm_ok :: "string \<Rightarrow> perm \<Rightarrow> bool" where
  "builtin_perm_ok role q \<longleftrightarrow> (case q of (r, a) \<Rightarrow>
     r \<noteq> ''*'' \<and> r \<notin> set STUDIO_GLOBAL_STORE_RESOURCES
     \<and> (r \<in> set STUDIO_READ_RESOURCES \<longrightarrow> a = ''read'')
     \<and> (a = ''read'' \<or> role = ''operator'' \<or> role = ''auditor'' \<and> q = (''audit'', ''run''))
     \<and> (a = ''*'' \<longrightarrow> r = ''tool''))"

lemma builtin_perms_checked:
  "list_all (\<lambda>(role, specs). role = ''admin'' \<or>
     list_all (\<lambda>s. case parse_perm (JStr s) of Inr q \<Rightarrow> builtin_perm_ok role q | Inl _ \<Rightarrow> False) specs) DEFAULT_RBAC"
  by code_simp

lemma default_mapping_wf: "dict_wf (map (\<lambda>(role, specs). (role, JList (map JStr specs))) DEFAULT_RBAC)"
  by code_simp

lemma default_policy_loads: "from_mapping default_mapping = Inr DEFAULT_POLICY"
proof -
  have "case from_mapping default_mapping of Inr _ \<Rightarrow> True | Inl _ \<Rightarrow> False" by code_simp
  then show ?thesis by (auto simp: DEFAULT_POLICY_def split: sum.splits)
qed

lemma default_policy_perm:
  assumes "map_of DEFAULT_POLICY role = Some perms" and "role \<noteq> ''admin''" and "q \<in> perms"
  shows "builtin_perm_ok role q"
proof -
  from trans [OF from_mapping_entry [OF default_policy_loads [unfolded default_mapping_def]
      default_mapping_wf, of role, symmetric] assms(1)]
  obtain v where v: "map_of (map (\<lambda>(role, specs). (role, JList (map JStr specs))) DEFAULT_RBAC) role = Some v"
    "role_entry v = Some perms" unfolding bind_eq_Some_conv by blast
  then obtain specs where s: "(role, specs) \<in> set DEFAULT_RBAC" "v = JList (map JStr specs)"
    by (auto dest!: map_of_SomeD)
  with v(2) assms(3) obtain t where "t \<in> set specs" "parse_perm (JStr t) = Inr q"
    by (auto simp: role_entry_iff)
  then show ?thesis using builtin_perms_checked s(1) assms(2) by (fastforce simp: list_all_iff)
qed

text \<open>
  Under the built-in roles only an administrator reaches the stores that have no tenant
  partition, whatever its scopes; everybody else reads the other Studio surfaces at most,
  and acts beyond reading only as an operator, or as an auditor running the privacy audit.
\<close>

theorem builtin_roles_are_contained:
  assumes "authorize DEFAULT_POLICY p resource action" and "''admin'' \<notin> pr_roles p"
  shows "resource \<notin> set STUDIO_GLOBAL_STORE_RESOURCES
    \<and> (resource \<in> set STUDIO_READ_RESOURCES \<longrightarrow> action = ''read'')
    \<and> (action \<noteq> ''read'' \<longrightarrow>
         ''operator'' \<in> pr_roles p \<or> ''auditor'' \<in> pr_roles p \<and> resource = ''audit'' \<and> action = ''run'')"
proof (intro conjI impI)
  from assms(1) have "granted_by_role DEFAULT_POLICY (pr_roles p) resource action"
    by (simp add: authorize_def split: if_splits)
  then obtain role perms r a where g: "role \<in> pr_roles p" "map_of DEFAULT_POLICY role = Some perms"
    "(r, a) \<in> perms" "r = resource \<or> r = ''*''" "a = action \<or> a = ''*''"
    by (auto simp: granted_by_role_def covers_def split: option.splits)
  have "role \<noteq> ''admin''" using g(1) assms(2) by auto
  from default_policy_perm [OF g(2) this g(3)] have ok: "builtin_perm_ok role (r, a)" .
  then have r: "r = resource" using g(4) by (simp add: builtin_perm_ok_def)
  show "resource \<notin> set STUDIO_GLOBAL_STORE_RESOURCES"
    using ok r by (simp add: builtin_perm_ok_def)
  have tool: "''tool'' \<notin> set STUDIO_READ_RESOURCES" by code_simp
  show "action = ''read''" if "resource \<in> set STUDIO_READ_RESOURCES"
    using that ok r g(5) tool by (auto simp: builtin_perm_ok_def)
  show "''operator'' \<in> pr_roles p \<or> ''auditor'' \<in> pr_roles p \<and> resource = ''audit'' \<and> action = ''run''"
    if "action \<noteq> ''read''"
    using that ok r g(1,5) by (auto simp: builtin_perm_ok_def)
qed

lemma demo_viewer_reads: "authorize DEFAULT_POLICY (demo_member ''bob'') ''run'' ''read''"
proof -
  have "case map_of DEFAULT_POLICY ''viewer'' of None \<Rightarrow> False | Some perms \<Rightarrow> covers perms ''run'' ''read''"
    by code_simp
  moreover have "pr_roles (demo_member ''bob'') = {''viewer''}" "pr_scopes (demo_member ''bob'') = {}"
    by (simp_all add: demo_member_def ANONYMOUS_def)
  ultimately show ?thesis by (simp add: authorize_def granted_by_role_def scope_permissions_def)
qed

theorem builtin_roles_are_contained_witness: "''run'' \<notin> set STUDIO_GLOBAL_STORE_RESOURCES"
  using builtin_roles_are_contained [OF demo_viewer_reads] by (simp add: demo_member_def)

section \<open>Fingerprint of a policy\<close>

text \<open>
  The digest logged when a policy is loaded, over the canonical text of the sorted grants.
  SHA-256 (hexadecimal) is a parameter.
\<close>

definition canonical_grants :: "access_policy \<Rightarrow> (string \<times> perm list) list" where
  "canonical_grants policy =
     sort_key fst (map (\<lambda>(role, perms). (role, sorted_list_of_set perms)) policy)"

definition policy_text :: "access_policy \<Rightarrow> string" where
  "policy_text policy = json_dumps (JList (map (\<lambda>(role, perms).
     JList [JStr role, JList (map (\<lambda>(r, a). JList [JStr r, JStr a]) perms)]) (canonical_grants policy)))"

definition policy_fingerprint :: "(string \<Rightarrow> string) \<Rightarrow> access_policy \<Rightarrow> string" where
  "policy_fingerprint sha policy = ''sha256:'' @ take 16 (sha (policy_text policy))"

definition policy_wf :: "access_policy \<Rightarrow> bool" where
  "policy_wf policy \<longleftrightarrow> dict_wf policy \<and> (\<forall>perms \<in> snd ` set policy. finite perms)"

lemma dict_lookup_ext:
  assumes "dict_wf d" and "dict_wf e"
  shows "map_of d = map_of e \<longleftrightarrow> set d = set e"
proof -
  have "set d = Map.graph (map_of d)" "set e = Map.graph (map_of e)"
    using assms by (simp_all add: graph_map_of_if_distinct_dom)
  then show ?thesis by (metis graph_domD ext in_graphD in_graphI map_of_eq_None_iff not_Some_eq)
qed

lemma sorted_dict:
  fixes d :: "('k :: linorder, 'v) dict"
  assumes "dict_wf d"
  shows "sort_key fst d = map (\<lambda>k. (k, the (map_of d k))) (sorted_list_of_set (fst ` set d))"
proof -
  let ?e = "sort_key fst d"
  have ks: "map fst ?e = sorted_list_of_set (fst ` set d)"
    using assms by (intro sorted_distinct_set_unique) (simp_all add: mset_eq_imp_distinct_iff [of "map fst ?e" "map fst d"])
  then have w: "dict_wf ?e" by simp
  then have "map_of ?e = map_of d" using assms by (simp add: dict_lookup_ext)
  moreover have "?e = map (\<lambda>k. (k, the (map_of ?e k))) (map fst ?e)"
  proof -
    have "(fst x, the (map_of ?e (fst x))) = x" if "x \<in> set ?e" for x
      using map_of_is_SomeI [OF w, of "fst x" "snd x"] that by (cases x) simp
    then have "map (\<lambda>x. (fst x, the (map_of ?e (fst x)))) ?e = ?e" by (intro map_idI)
    then show ?thesis by (simp add: comp_def)
  qed
  ultimately show ?thesis using ks by simp
qed

lemma sort_dict_eq_iff:
  fixes d e :: "('k :: linorder, 'v) dict"
  assumes "dict_wf d" and "dict_wf e"
  shows "sort_key fst d = sort_key fst e \<longleftrightarrow> map_of d = map_of e"
proof
  assume "sort_key fst d = sort_key fst e"
  then have "set (sort_key fst d) = set (sort_key fst e)" by simp
  then show "map_of d = map_of e" using assms by (simp add: dict_lookup_ext)
next
  assume eq: "map_of d = map_of e"
  then have "fst ` set d = fst ` set e" by (metis dom_map_of_conv_image_fst)
  then show "sort_key fst d = sort_key fst e" using eq by (simp add: sorted_dict assms)
qed

lemma canonical_grants_eq_iff:
  assumes "policy_wf p" and "policy_wf q"
  shows "canonical_grants p = canonical_grants q \<longleftrightarrow> map_of p = map_of q"
proof -
  let ?f = "map (\<lambda>(role, perms). (role, sorted_list_of_set perms))"
  have w: "dict_wf (?f p)" "dict_wf (?f q)"
    using assms by (simp_all add: policy_wf_def case_prod_unfold comp_def)
  have fin: "finite perms" if "map_of p role = Some perms \<or> map_of q role = Some perms" for role perms
    using that assms by (auto simp: policy_wf_def dest!: map_of_SomeD)
  have "(\<lambda>k. map_option sorted_list_of_set (map_of p k)) = (\<lambda>k. map_option sorted_list_of_set (map_of q k))
      \<longleftrightarrow> map_of p = map_of q"
  proof
    assume e: "(\<lambda>k. map_option sorted_list_of_set (map_of p k)) = (\<lambda>k. map_option sorted_list_of_set (map_of q k))"
    show "map_of p = map_of q"
    proof
      fix k
      show "map_of p k = map_of q k"
      proof (rule option.inj_map_strong [OF _ fun_cong [OF e, of k]])
        fix P Q
        assume "P \<in> set_option (map_of p k)" "Q \<in> set_option (map_of q k)"
          and "sorted_list_of_set P = sorted_list_of_set Q"
        then show "P = Q" using fin [of k P] fin [of k Q] by (metis elem_set set_sorted_list_of_set)
      qed
    qed
  qed simp
  then show ?thesis
    by (simp add: canonical_grants_def sort_dict_eq_iff [OF w] dict_get_map_values fun_eq_iff)
qed

lemma policy_text_eq_iff: "policy_text p = policy_text q \<longleftrightarrow> canonical_grants p = canonical_grants q"
proof -
  let ?pair = "\<lambda>(r, a). JList [JStr r, JStr a]"
  let ?role = "\<lambda>(role, perms). JList [JStr role, JList (map ?pair perms)]"
  have "inj ?pair" by (auto intro!: injI)
  then have "inj ?role" by (auto intro!: injI simp: inj_map_eq_map)
  moreover have norm: "json_norm (JList (map ?role gs)) = JList (map ?role gs)" for gs
    by (auto simp: comp_def)
  ultimately show ?thesis
    by (simp only: policy_text_def json_dumps_eq_iff norm json.inject inj_map_eq_map)
qed

text \<open>
  The logged fingerprint is a function of the grants alone: two policies that grant the
  same have the same fingerprint whatever the order of their files, and, as far as the
  truncated digest does not collide on the two texts, different grants have different ones.
\<close>

theorem fingerprint_tracks_policy:
  assumes "policy_wf p" and "policy_wf q"
    and "take 16 (sha (policy_text p)) = take 16 (sha (policy_text q)) \<Longrightarrow> policy_text p = policy_text q"
  shows "policy_fingerprint sha p = policy_fingerprint sha q \<longleftrightarrow> map_of p = map_of q"
proof -
  have "policy_fingerprint sha p = policy_fingerprint sha q \<longleftrightarrow> policy_text p = policy_text q"
    using assms(3) by (auto simp: policy_fingerprint_def)
  then show ?thesis by (simp add: policy_text_eq_iff canonical_grants_eq_iff assms(1,2))
qed

theorem fingerprint_tracks_policy_witness:
  "policy_fingerprint id [(''a'', {(''run'', ''read'')}), (''b'', {})]
     = policy_fingerprint id [(''b'', {}), (''a'', {(''run'', ''read'')})]
   \<and> policy_fingerprint id [(''b'', {(''run'', ''read'')})] \<noteq> policy_fingerprint id [(''b'', {})]"
proof -
  have short: "take 16 (policy_text [(''b'', {(''run'', ''read'')})]) \<noteq> take 16 (policy_text [(''b'', {})])"
    by code_simp
  have wf: "policy_wf [(''a'', {(''run'', ''read'')}), (''b'', {})]" "policy_wf [(''b'', {}), (''a'', {(''run'', ''read'')})]"
    "policy_wf [(''b'', {(''run'', ''read'')})]" "policy_wf [(''b'', {})]"
    by (simp_all add: policy_wf_def)
  have "policy_text [(''a'', {(''run'', ''read'')}), (''b'', {})] = policy_text [(''b'', {}), (''a'', {(''run'', ''read'')})]"
    by code_simp
  then show ?thesis
    using fingerprint_tracks_policy [OF wf(1,2), of id] fingerprint_tracks_policy [OF wf(3,4), of id] short
    by (auto simp: fun_eq_iff)
qed

end
