(* ===== verification/ToolGate.thy ===== *)
theory ToolGate
  imports Rbac ToolModels
begin

text \<open>
  The tool-capability gate: himmy/services/tools/capability.py (the authorizer of a run's
  principal) and himmy/services/tools/ambient.py (the authorizer that follows execution and
  how it combines with an explicit one). The context variable and the process flag are
  arguments.
\<close>

section \<open>The authorizer of a principal\<close>

record capability_authorizer =
  ca_enforce :: bool
  ca_roles :: "string set"
  ca_policy :: "access_policy option"
  ca_scopes :: "string set"

definition TOOL_RESOURCE :: string where "TOOL_RESOURCE = ''tool''"
definition INVOKE_ACTION :: string where "INVOKE_ACTION = ''invoke''"
definition WRITE_ACTION :: string where "WRITE_ACTION = ''write''"

definition not_enforcing :: capability_authorizer where
  "not_enforcing = \<lparr>ca_enforce = False, ca_roles = {}, ca_policy = None, ca_scopes = {}\<rparr>"

definition from_principal :: "principal option \<Rightarrow> access_policy option \<Rightarrow> capability_authorizer" where
  "from_principal po policy =
     (case po of
        None \<Rightarrow> not_enforcing
      | Some p \<Rightarrow>
          if pr_all_tenants p \<and> pr_scopes p = {} then not_enforcing
          else \<lparr>ca_enforce = True, ca_roles = pr_roles p, ca_policy = policy, ca_scopes = pr_scopes p\<rparr>)"

text \<open>\<open>frozenset(str(r) for r in (actor.get(key) or []))\<close>; None where the code raises (iterating a scalar).\<close>

definition text_set :: "json \<Rightarrow> string set option" where
  "text_set v =
     (if \<not> json_truthy v then Some {}
      else case v of
             JList vs \<Rightarrow> Some (set (map py_str vs))
           | JStr s \<Rightarrow> Some (set (map (\<lambda>c. [c]) s))
           | JObj d \<Rightarrow> Some (set (map fst d))
           | _ \<Rightarrow> None)"

definition from_actor :: "json_dict option \<Rightarrow> access_policy option \<Rightarrow> capability_authorizer option" where
  "from_actor actor policy =
     (case actor of
        None \<Rightarrow> Some not_enforcing
      | Some a \<Rightarrow>
          if a = [] \<or> \<not> json_truthy (json_get ''tool_authz_enforce'' JNull a) then Some not_enforcing
          else (case (text_set (json_get ''roles'' JNull a), text_set (json_get ''scopes'' JNull a)) of
                  (Some roles, Some scopes) \<Rightarrow>
                    Some \<lparr>ca_enforce = True, ca_roles = roles, ca_policy = policy, ca_scopes = scopes\<rparr>
                | _ \<Rightarrow> None))"

text \<open>\<open>from_request\<close>: the authenticator, the policy of the app, and the request's principal.\<close>

definition from_request :: "bool \<Rightarrow> access_policy option \<Rightarrow> principal \<Rightarrow> capability_authorizer option" where
  "from_request authenticator policy p =
     (if \<not> authenticator \<or> policy = None then None else Some (from_principal (Some p) policy))"

definition attenuate_capability :: "capability_authorizer \<Rightarrow> capability_authorizer" where
  "attenuate_capability ca = ca"

definition tool_grants :: "capability_authorizer \<Rightarrow> access_policy \<Rightarrow> string \<Rightarrow> string \<Rightarrow> bool" where
  "tool_grants ca policy name action =
     (let probe = principal_build ''__tool_authz__'' [] [] [] False ''anonymous'' None None False
      in authorize policy (probe\<lparr>pr_roles := ca_roles ca, pr_scopes := ca_scopes ca\<rparr>)
           TOOL_RESOURCE (name @ '':'' @ action))"

definition is_authorized :: "capability_authorizer \<Rightarrow> string \<Rightarrow> bool option \<Rightarrow> bool" where
  "is_authorized ca name read_only =
     (if \<not> ca_enforce ca then True
      else case ca_policy ca of
             None \<Rightarrow> False
           | Some policy \<Rightarrow>
               if \<not> tool_grants ca policy name INVOKE_ACTION then False
               else if read_only \<noteq> Some True \<and> \<not> tool_grants ca policy name WRITE_ACTION then False
               else True)"

definition authorize_capability :: "capability_authorizer \<Rightarrow> tool_definition \<Rightarrow> bool" where
  "authorize_capability ca d =
     is_authorized ca (td_name d)
       (if td_read_only d = Some True \<and> td_read_only_authoritative d then Some True else None)"

section \<open>The effective gate\<close>

datatype tool_gate =
    Capability capability_authorizer
  | DenyAll
  | Intersection tool_gate tool_gate

fun gate_enforce :: "tool_gate \<Rightarrow> bool" where
  "gate_enforce (Capability ca) = ca_enforce ca"
| "gate_enforce DenyAll = True"
| "gate_enforce (Intersection a b) = (gate_enforce a \<or> gate_enforce b)"

fun authorize_definition :: "tool_gate \<Rightarrow> tool_definition \<Rightarrow> bool" where
  "authorize_definition (Capability ca) d = authorize_capability ca d"
| "authorize_definition DenyAll d = False"
| "authorize_definition (Intersection a b) d = (authorize_definition a d \<and> authorize_definition b d)"

fun attenuate :: "tool_gate \<Rightarrow> tool_gate" where
  "attenuate (Capability ca) = Capability (attenuate_capability ca)"
| "attenuate DenyAll = DenyAll"
| "attenuate (Intersection a b) = Intersection (attenuate a) (attenuate b)"

text \<open>
  \<open>explicit is ambient\<close> is object identity; two equal authorizers decide alike, so the case
  is taken for equal ones.
\<close>

definition resolve_effective_authorizer ::
  "bool \<Rightarrow> capability_authorizer option \<Rightarrow> capability_authorizer option \<Rightarrow> tool_gate option" where
  "resolve_effective_authorizer auth_configured ambient explicit =
     (case (explicit, ambient) of
        (None, None) \<Rightarrow> if auth_configured then Some DenyAll else None
      | (None, Some a) \<Rightarrow> Some (Capability a)
      | (Some e, None) \<Rightarrow> Some (Capability e)
      | (Some e, Some a) \<Rightarrow> if e = a then Some (Capability e) else Some (Intersection (Capability e) (Capability a)))"

text \<open>Whether a tool passes the chokepoint: no gate passes everything.\<close>

definition gate_admits :: "tool_gate option \<Rightarrow> tool_definition \<Rightarrow> bool" where
  "gate_admits g d = (case g of None \<Rightarrow> True | Some a \<Rightarrow> authorize_definition a d)"

section \<open>Gates ordered by what they admit\<close>

instantiation tool_gate :: preorder
begin

definition less_eq_tool_gate :: "tool_gate \<Rightarrow> tool_gate \<Rightarrow> bool" where
  "a \<le> b \<longleftrightarrow> (\<forall>d. authorize_definition a d \<longrightarrow> authorize_definition b d)"

definition less_tool_gate :: "tool_gate \<Rightarrow> tool_gate \<Rightarrow> bool" where
  "a < b \<longleftrightarrow> a \<le> b \<and> \<not> b \<le> (a :: tool_gate)"

instance by standard (auto simp: less_eq_tool_gate_def less_tool_gate_def)

end

lemma attenuate_same [simp]: "authorize_definition (attenuate g) d = authorize_definition g d"
  by (induction g) (simp_all add: attenuate_capability_def)

lemma attenuate_pow [simp]: "authorize_definition ((attenuate ^^ n) g) d = authorize_definition g d"
  by (induction n) simp_all

lemma attenuate_le: "attenuate g \<le> (g :: tool_gate)"
  by (simp add: less_eq_tool_gate_def)

lemma resolve_le:
  assumes "resolve_effective_authorizer cfg ambient explicit = Some g"
  shows "explicit = Some e \<Longrightarrow> g \<le> Capability e" and "ambient = Some a \<Longrightarrow> g \<le> Capability a"
  using assms
  by (auto simp: resolve_effective_authorizer_def less_eq_tool_gate_def split: option.splits if_splits)

text \<open>
  Capability only shrinks along an execution: the gate a service enforces is below both
  the explicit and the ambient authorizer, a spawned agent's gate is below its parent's
  after any number of spawns, and once authentication is configured there is always a gate,
  which admits nothing when both authorizers were forgotten.
\<close>

theorem capability_never_amplifies:
  assumes "resolve_effective_authorizer cfg ambient explicit = g" and "gate_admits (map_option ((attenuate ^^ n)) g) d"
  shows "(\<forall>ca. explicit = Some ca \<or> ambient = Some ca \<longrightarrow> authorize_capability ca d)
    \<and> (cfg \<longrightarrow> (\<exists>ca. explicit = Some ca \<or> ambient = Some ca))"
proof -
  have "gate_admits g d" using assms(2) by (simp add: gate_admits_def split: option.splits)
  then show ?thesis
    unfolding assms(1) [symmetric]
    by (auto simp: gate_admits_def resolve_effective_authorizer_def split: option.splits if_splits)
qed

text \<open>
  The gate survives a process boundary: the authorizer a recovering process rebuilds
  from the actor descriptor a run was persisted with is the very one its live principal had,
  roles, scopes and offline bypass included.
\<close>

theorem rebuilt_gate_is_the_live_one:
  assumes "finite (pr_roles p)" and "finite (pr_scopes p)"
  shows "from_actor (Some (actor_metadata p)) policy = Some (from_principal (Some p) policy)"
proof -
  have s: "text_set (JList (map JStr (sorted_list_of_set X))) = Some X" if "finite X" for X
  proof (cases "X = {}")
    case False
    then have "sorted_list_of_set X \<noteq> []" using that by simp
    then show ?thesis using that by (simp add: text_set_def py_str_def image_image)
  qed (simp add: text_set_def)
  have "json_get ''roles'' JNull (actor_metadata p)
      = (if pr_roles p = {} then JNull else JList (map JStr (sorted_list_of_set (pr_roles p))))"
    and "json_get ''scopes'' JNull (actor_metadata p)
      = (if pr_scopes p = {} then JNull else JList (map JStr (sorted_list_of_set (pr_scopes p))))"
    and "json_get ''tool_authz_enforce'' JNull (actor_metadata p)
      = (if \<not> pr_all_tenants p \<or> pr_scopes p \<noteq> {} then JBool True else JNull)"
    by (auto simp: json_get_def actor_metadata_def split: option.splits)
  then have roles: "text_set (json_get ''roles'' JNull (actor_metadata p)) = Some (pr_roles p)"
    and scopes: "text_set (json_get ''scopes'' JNull (actor_metadata p)) = Some (pr_scopes p)"
    and enforce: "json_truthy (json_get ''tool_authz_enforce'' JNull (actor_metadata p))
      \<longleftrightarrow> \<not> (pr_all_tenants p \<and> pr_scopes p = {})"
    using s [OF assms(1)] s [OF assms(2)] by (simp_all add: text_set_def [of JNull])
  have "actor_metadata p \<noteq> []" by (simp add: actor_metadata_def)
  then show ?thesis by (simp add: from_actor_def from_principal_def roles scopes enforce)
qed

theorem rebuilt_gate_is_the_live_one_witness:
  "from_actor (Some (actor_metadata (demo_member ''bob''))) (Some DEFAULT_POLICY)
     = Some (from_principal (Some (demo_member ''bob'')) (Some DEFAULT_POLICY))"
  by (rule rebuilt_gate_is_the_live_one) (simp_all add: demo_member_def ANONYMOUS_def)

section \<open>Writing needs the write grant\<close>

text \<open>
  An enforcing gate lets a tool through only when the caller's roles, narrowed by its
  scopes, grant invoking that very tool, and unless the author asserted that it has no side
  effect also writing with it; with no policy it lets nothing through.
\<close>

theorem enforcing_gate_needs_grants:
  assumes "authorize_capability ca d" and "ca_enforce ca"
  shows "\<exists>policy. ca_policy ca = Some policy
    \<and> granted_by_role policy (ca_roles ca) ''tool'' (td_name d @ '':invoke'')
    \<and> (td_read_only d = Some True \<and> td_read_only_authoritative d
       \<or> granted_by_role policy (ca_roles ca) ''tool'' (td_name d @ '':write''))"
  using assms
  by (auto simp: authorize_capability_def is_authorized_def tool_grants_def authorize_def Let_def
      TOOL_RESOURCE_def INVOKE_ACTION_def WRITE_ACTION_def split: option.splits if_splits)

definition demo_tool :: "string \<Rightarrow> tool_definition" where
  "demo_tool name = \<lparr>td_name = name, td_kind = LOCAL, td_description = [], td_args_schema = [],
     td_output_schema = None, td_requires_approval = False, td_read_only = None,
     td_read_only_authoritative = False, td_timeout_seconds = None, td_retry_hints = [],
     td_sequential = False, td_http_config = None, td_sensitive_arg_names = [], td_metadata = []\<rparr>"

definition demo_policy :: access_policy where
  "demo_policy = [(''viewer'', {(''tool'', ''pay:invoke''), (''tool'', ''pay:write'')})]"

definition demo_gate :: capability_authorizer where
  "demo_gate = \<lparr>ca_enforce = True, ca_roles = {''viewer''}, ca_policy = Some demo_policy, ca_scopes = {}\<rparr>"

lemma demo_gate_pays: "authorize_capability demo_gate (demo_tool ''pay'')"
  by (simp add: authorize_capability_def is_authorized_def tool_grants_def authorize_def demo_gate_def
      demo_tool_def demo_policy_def granted_by_role_def covers_def scope_permissions_def
      TOOL_RESOURCE_def INVOKE_ACTION_def WRITE_ACTION_def)

theorem enforcing_gate_needs_grants_witness:
  "granted_by_role demo_policy {''viewer''} ''tool'' ''pay:write''"
proof -
  have "ca_enforce demo_gate" by (simp add: demo_gate_def)
  from enforcing_gate_needs_grants [OF demo_gate_pays this] show ?thesis
    by (simp add: demo_gate_def demo_tool_def)
qed

theorem capability_never_amplifies_witness:
  "authorize_capability demo_gate (demo_tool ''pay'')"
proof -
  have "resolve_effective_authorizer True (Some not_enforcing) (Some demo_gate)
      = Some (Intersection (Capability demo_gate) (Capability not_enforcing))"
    by (simp add: resolve_effective_authorizer_def demo_gate_def not_enforcing_def)
  moreover have "gate_admits (map_option ((attenuate ^^ 2))
      (Some (Intersection (Capability demo_gate) (Capability not_enforcing)))) (demo_tool ''pay'')"
    by (simp only: gate_admits_def option.map option.case attenuate_pow)
      (simp add: demo_gate_pays, simp add: authorize_capability_def is_authorized_def not_enforcing_def)
  ultimately show ?thesis by (rule capability_never_amplifies [THEN conjunct1, rule_format]) simp
qed

end
