(* ===== verification/ToolSchema.thy ===== *)
theory ToolSchema
  imports PyText
begin

text \<open>
  The offline JSON-schema validator of tool arguments and results
  (himmy/services/tools/validation.py) and the lenient argument repair that precedes it
  (himmy/services/tools/service.py). A schema is the JSON document the code walks; where the
  code would raise on a malformed schema the verdict is \<open>Raises\<close>. The optional
  \<open>jsonschema\<close> package, the regular-expression engine (\<open>re.search\<close>, \<open>None\<close> for a bad
  pattern) and the float literals that round-trip are parameters; numbers are integers.
\<close>

section \<open>Verdicts\<close>

datatype schema_error =
    NotConst | NotInEnum | OneOfMatches nat | NoAnyOf | AllOf schema_error
  | WrongType | TooShort | TooLong | NoPatternMatch
  | BelowMinimum | AboveMaximum | NotAboveExclusive | NotBelowExclusive
  | MissingProperty string | AtKey string schema_error | Unexpected "string list" | TooFewProperties
  | AtIndex nat schema_error | TooFewItems | TooManyItems | Reported string

datatype verdict = Valid | Invalid schema_error | Raises

text \<open>Checks in order; the first that does not pass decides.\<close>

fun first_fail :: "verdict list \<Rightarrow> verdict" where
  "first_fail [] = Valid"
| "first_fail (v # vs) = (if v = Valid then first_fail vs else v)"

definition wrap_error :: "(schema_error \<Rightarrow> schema_error) \<Rightarrow> verdict \<Rightarrow> verdict" where
  "wrap_error f v = (case v of Invalid e \<Rightarrow> Invalid (f e) | _ \<Rightarrow> v)"

definition check :: "bool \<Rightarrow> schema_error \<Rightarrow> verdict" where
  "check ok e = (if ok then Valid else Invalid e)"

text \<open>\<open>isinstance(x, int)\<close>, which a \<open>bool\<close> satisfies.\<close>

fun as_int :: "json \<Rightarrow> int option" where
  "as_int (JInt n) = Some n"
| "as_int (JBool b) = Some (if b then 1 else 0)"
| "as_int _ = None"

definition int_bound :: "json_dict \<Rightarrow> string \<Rightarrow> (int \<Rightarrow> bool) \<Rightarrow> schema_error \<Rightarrow> verdict" where
  "int_bound s k ok e =
     (case map_of s k of None \<Rightarrow> Valid
      | Some v \<Rightarrow> (case as_int v of None \<Rightarrow> Valid | Some n \<Rightarrow> check (ok n) e))"

text \<open>Keywords whose value is a list or an object; anything else counts as absent.\<close>

definition list_at :: "json_dict \<Rightarrow> string \<Rightarrow> json list option" where
  "list_at s k = (case map_of s k of Some (JList vs) \<Rightarrow> Some vs | _ \<Rightarrow> None)"

definition obj_at :: "json_dict \<Rightarrow> string \<Rightarrow> json_dict option" where
  "obj_at s k = (case map_of s k of Some (JObj d) \<Rightarrow> Some d | _ \<Rightarrow> None)"

definition is_obj :: "json \<Rightarrow> bool" where
  "is_obj v = (case v of JObj _ \<Rightarrow> True | _ \<Rightarrow> False)"

definition is_text :: "json \<Rightarrow> bool" where
  "is_text v = (case v of JStr _ \<Rightarrow> True | _ \<Rightarrow> False)"

lemma accessors:
  "list_at s k = Some vs \<longleftrightarrow> map_of s k = Some (JList vs)"
  "obj_at s k = Some d \<longleftrightarrow> map_of s k = Some (JObj d)"
  "is_obj v \<longleftrightarrow> (\<exists>d. v = JObj d)"
  "is_text v \<longleftrightarrow> (\<exists>t. v = JStr t)"
  by (simp_all add: list_at_def obj_at_def is_obj_def is_text_def split: option.split json.split)

section \<open>The checks of one schema\<close>

definition check_const :: "json_dict \<Rightarrow> json \<Rightarrow> verdict" where
  "check_const s value =
     (case map_of s ''const'' of None \<Rightarrow> Valid | Some c \<Rightarrow> check (json_eq value c) NotConst)"

text \<open>\<open>value not in enum\<close>, for every kind of \<open>enum\<close>.\<close>

definition check_enum :: "json_dict \<Rightarrow> json \<Rightarrow> verdict" where
  "check_enum s value =
     (case map_of s ''enum'' of
        None \<Rightarrow> Valid
      | Some JNull \<Rightarrow> Valid
      | Some (JList vs) \<Rightarrow> check (list_ex (json_eq value) vs) NotInEnum
      | Some (JStr t) \<Rightarrow> (case value of JStr v \<Rightarrow> check (py_in v t) NotInEnum | _ \<Rightarrow> Raises)
      | Some (JObj d) \<Rightarrow>
          (case value of JList _ \<Rightarrow> Raises | JObj _ \<Rightarrow> Raises
           | JStr v \<Rightarrow> check (v \<in> fst ` set d) NotInEnum | _ \<Rightarrow> Invalid NotInEnum)
      | Some _ \<Rightarrow> Raises)"

text \<open>\<open>_type_matches\<close> for one type keyword; an unhashable keyword raises.\<close>

definition type_matches :: "json \<Rightarrow> json \<Rightarrow> bool option" where
  "type_matches value expected =
     (case expected of
        JStr t \<Rightarrow> Some (
          if t = ''object'' then (case value of JObj _ \<Rightarrow> True | _ \<Rightarrow> False)
          else if t = ''array'' then (case value of JList _ \<Rightarrow> True | _ \<Rightarrow> False)
          else if t = ''string'' then (case value of JStr _ \<Rightarrow> True | _ \<Rightarrow> False)
          else if t = ''number'' \<or> t = ''integer'' then (case value of JInt _ \<Rightarrow> True | _ \<Rightarrow> False)
          else if t = ''boolean'' then (case value of JBool _ \<Rightarrow> True | _ \<Rightarrow> False)
          else if t = ''null'' then value = JNull
          else True)
      | JList _ \<Rightarrow> None
      | JObj _ \<Rightarrow> None
      | _ \<Rightarrow> Some True)"

text \<open>The first matching keyword of a union, in evaluation order.\<close>

fun first_type :: "json \<Rightarrow> json list \<Rightarrow> (json option) option" where
  "first_type value [] = Some None"
| "first_type value (t # ts) =
     (case type_matches value t of
        None \<Rightarrow> None
      | Some True \<Rightarrow> Some (Some t)
      | Some False \<Rightarrow> first_type value ts)"

definition check_type :: "json_dict \<Rightarrow> json \<Rightarrow> verdict" where
  "check_type s value =
     (case map_of s ''type'' of
        Some (JList ts) \<Rightarrow>
          (case first_type value ts of
             None \<Rightarrow> Raises | Some None \<Rightarrow> Invalid WrongType | Some (Some _) \<Rightarrow> Valid)
      | Some (JStr t) \<Rightarrow> check (type_matches value (JStr t) = Some True) WrongType
      | _ \<Rightarrow> Valid)"

text \<open>The type the keyword checks go by.\<close>

definition expected_type :: "json_dict \<Rightarrow> json \<Rightarrow> json" where
  "expected_type s value =
     (case map_of s ''type'' of
        Some (JList ts) \<Rightarrow> (case first_type value ts of Some (Some t) \<Rightarrow> t | _ \<Rightarrow> JNull)
      | Some t \<Rightarrow> t
      | None \<Rightarrow> JNull)"

definition pattern_check :: "(string \<Rightarrow> string \<Rightarrow> bool option) \<Rightarrow> json_dict \<Rightarrow> string \<Rightarrow> verdict" where
  "pattern_check rx s v =
     (case map_of s ''pattern'' of
        Some (JStr p) \<Rightarrow> check (rx p v \<noteq> Some False) NoPatternMatch
      | _ \<Rightarrow> Valid)"

definition string_checks :: "(string \<Rightarrow> string \<Rightarrow> bool option) \<Rightarrow> json_dict \<Rightarrow> json \<Rightarrow> verdict" where
  "string_checks rx s value =
     (case value of
        JStr v \<Rightarrow>
          if expected_type s value = JStr ''string''
          then first_fail
            [int_bound s ''minLength'' (\<lambda>n. n \<le> int (length v)) TooShort,
             int_bound s ''maxLength'' (\<lambda>n. int (length v) \<le> n) TooLong,
             pattern_check rx s v]
          else Valid
      | _ \<Rightarrow> Valid)"

definition numeric_checks :: "json_dict \<Rightarrow> json \<Rightarrow> verdict" where
  "numeric_checks s value =
     (case value of
        JInt v \<Rightarrow>
          if expected_type s value \<in> {JStr ''number'', JStr ''integer''}
          then first_fail
            [int_bound s ''minimum'' (\<lambda>n. n \<le> v) BelowMinimum,
             int_bound s ''maximum'' (\<lambda>n. v \<le> n) AboveMaximum,
             int_bound s ''exclusiveMinimum'' (\<lambda>n. n < v) NotAboveExclusive,
             int_bound s ''exclusiveMaximum'' (\<lambda>n. v < n) NotBelowExclusive]
          else Valid
      | _ \<Rightarrow> Valid)"

text \<open>\<open>for key in required: if key not in value\<close>; a text iterates over its characters.\<close>

fun check_required_keys :: "json list \<Rightarrow> json_dict \<Rightarrow> verdict" where
  "check_required_keys [] v = Valid"
| "check_required_keys (k # ks) v =
     (case k of
        JStr key \<Rightarrow> if key \<in> fst ` set v then check_required_keys ks v else Invalid (MissingProperty key)
      | JList _ \<Rightarrow> Raises
      | JObj _ \<Rightarrow> Raises
      | _ \<Rightarrow> Invalid (MissingProperty (py_repr k)))"

definition check_required :: "json_dict \<Rightarrow> json_dict \<Rightarrow> verdict" where
  "check_required s v =
     (case map_of s ''required'' of
        None \<Rightarrow> Valid
      | Some (JList ks) \<Rightarrow> check_required_keys ks v
      | Some (JStr t) \<Rightarrow> check_required_keys (map (\<lambda>c. JStr [c]) t) v
      | Some (JObj d) \<Rightarrow> check_required_keys (map (\<lambda>(k, _). JStr k) d) v
      | Some _ \<Rightarrow> Raises)"

definition schema_properties :: "json_dict \<Rightarrow> json_dict option" where
  "schema_properties s =
     (case map_of s ''properties'' of None \<Rightarrow> Some [] | Some (JObj d) \<Rightarrow> Some d | Some _ \<Rightarrow> None)"

definition one_of_verdict :: "verdict list \<Rightarrow> verdict" where
  "one_of_verdict vs =
     (if vs = [] then Valid
      else if Raises \<in> set vs then Raises
      else (let n = length (filter (\<lambda>v. v = Valid) vs) in check (n = 1) (OneOfMatches n)))"

fun any_valid :: "verdict list \<Rightarrow> verdict" where
  "any_valid [] = Invalid NoAnyOf"
| "any_valid (v # vs) = (case v of Valid \<Rightarrow> Valid | Raises \<Rightarrow> Raises | Invalid _ \<Rightarrow> any_valid vs)"

lemma size_map_of: "map_of s k = Some v \<Longrightarrow> size v < size (JObj s)"
  by (induction s) (auto split: if_splits)

lemma size_in_list: "v \<in> set vs \<Longrightarrow> size v < size (JList vs)"
  by (induction vs) auto

lemma size_in_obj: "(k, v) \<in> set d \<Longrightarrow> size v < size (JObj d)"
  by (induction d) auto

lemma size_list_at: "list_at s k = Some vs \<Longrightarrow> v \<in> set vs \<Longrightarrow> size v < size (JObj s)"
  by (force simp: accessors dest: size_map_of size_in_list)

lemma size_obj_at: "obj_at s k = Some d \<Longrightarrow> size (JObj d) < size (JObj s)"
  by (force simp: accessors dest: size_map_of)

lemma size_properties: "schema_properties s = Some d \<Longrightarrow> (k, v) \<in> set d \<Longrightarrow> size v < size (JObj s)"
  by (force simp: schema_properties_def dest: size_map_of size_in_obj split: option.splits json.splits)

section \<open>The validator\<close>

function (sequential) validate_subset :: "(string \<Rightarrow> string \<Rightarrow> bool option) \<Rightarrow> json \<Rightarrow> json \<Rightarrow> verdict" where
  "validate_subset rx value (JObj s) =
     first_fail
       [check_const s value, check_enum s value,
        (case list_at s ''oneOf'' of
           None \<Rightarrow> Valid | Some subs \<Rightarrow> one_of_verdict (map (validate_subset rx value) subs)),
        (case list_at s ''anyOf'' of
           None \<Rightarrow> Valid
         | Some subs \<Rightarrow> if subs = [] then Valid else any_valid (map (validate_subset rx value) subs)),
        (case list_at s ''allOf'' of
           None \<Rightarrow> Valid
         | Some subs \<Rightarrow> first_fail (map (\<lambda>sub. wrap_error AllOf (validate_subset rx value sub)) subs)),
        check_type s value, string_checks rx s value, numeric_checks s value,
        (case value of
           JObj v \<Rightarrow>
             if expected_type s value \<noteq> JStr ''object'' then Valid
             else first_fail
               [check_required s v,
                (case schema_properties s of
                   None \<Rightarrow> Raises
                 | Some props \<Rightarrow>
                     first_fail (map (\<lambda>(k, sub).
                       if k \<in> fst ` set v \<and> is_obj sub
                       then wrap_error (AtKey k) (validate_subset rx (the (map_of v k)) sub) else Valid) props)),
                (let props = fst ` set (the (schema_properties s))
                 in case obj_at s ''additionalProperties'' of
                      Some sub \<Rightarrow>
                        first_fail (map (\<lambda>(k, x). if k \<in> props then Valid
                          else wrap_error (AtKey k) (validate_subset rx x (JObj sub))) v)
                    | None \<Rightarrow>
                        if map_of s ''additionalProperties'' = Some (JBool False)
                        then (let extra = filter (\<lambda>k. k \<notin> props) (map fst v)
                              in check (extra = []) (Unexpected extra))
                        else Valid),
                int_bound s ''minProperties'' (\<lambda>n. n \<le> int (length v)) TooFewProperties]
         | JList vs \<Rightarrow>
             if expected_type s value \<noteq> JStr ''array'' then Valid
             else first_fail
               [(case obj_at s ''items'' of
                   None \<Rightarrow> Valid
                 | Some sub \<Rightarrow>
                     first_fail (map (\<lambda>(i, x). wrap_error (AtIndex i) (validate_subset rx x (JObj sub)))
                       (zip [0..<length vs] vs))),
                int_bound s ''minItems'' (\<lambda>n. n \<le> int (length vs)) TooFewItems,
                int_bound s ''maxItems'' (\<lambda>n. int (length vs) \<le> n) TooManyItems]
         | _ \<Rightarrow> Valid)]"
| "validate_subset rx value schema = Raises"
  by pat_completeness auto
termination
  by (relation "measure (\<lambda>(_, _, schema). size schema)")
    (auto dest: size_list_at size_obj_at size_properties)

declare validate_subset.simps(1) [simp del]

text \<open>
  The entry point: the \<open>jsonschema\<close> package first when it is installed and wanted; a schema
  it rejects falls back to the subset.
\<close>

datatype package_answer = Accepts | Rejects string | BadSchema

definition validate_against_schema ::
  "(json \<Rightarrow> json \<Rightarrow> package_answer) option \<Rightarrow> (string \<Rightarrow> string \<Rightarrow> bool option) \<Rightarrow> bool
     \<Rightarrow> json \<Rightarrow> json \<Rightarrow> verdict" where
  "validate_against_schema package rx use_jsonschema value schema =
     (case schema of
        JObj _ \<Rightarrow>
          (case package of
             None \<Rightarrow> validate_subset rx value schema
           | Some p \<Rightarrow>
               if \<not> use_jsonschema then validate_subset rx value schema
               else (case p value schema of
                       Accepts \<Rightarrow> Valid
                     | Rejects msg \<Rightarrow> Invalid (Reported msg)
                     | BadSchema \<Rightarrow> validate_subset rx value schema))
      | _ \<Rightarrow> Valid)"

section \<open>Lenient repair of arguments\<close>

definition scalar_types :: "json \<Rightarrow> string list" where
  "scalar_types prop =
     (case prop of
        JObj d \<Rightarrow>
          (case map_of d ''type'' of
             Some (JStr t) \<Rightarrow> filter (\<lambda>n. n = t) [''integer'', ''number'', ''boolean'']
           | Some (JList ts) \<Rightarrow> filter (\<lambda>n. JStr n \<in> set ts) [''integer'', ''number'', ''boolean'']
           | _ \<Rightarrow> [])
      | _ \<Rightarrow> [])"

text \<open>
  \<open>int(value)\<close> where \<open>str(int(value)) == value\<close>: the canonical decimal texts. More than
  4300 digits make \<open>int\<close> raise \<open>ValueError\<close>.
\<close>

definition is_digit :: "char \<Rightarrow> bool" where
  "is_digit c = (let n = of_char c :: nat in 48 \<le> n \<and> n \<le> 57)"

definition digits_value :: "string \<Rightarrow> int" where
  "digits_value ds = foldl (\<lambda>a c. 10 * a + int (of_char c - 48)) 0 ds"

definition canonical_int :: "string \<Rightarrow> int option" where
  "canonical_int value =
     (let neg = (case value of c # _ \<Rightarrow> c = CHR ''-'' | [] \<Rightarrow> False);
          ds = (if neg then tl value else value)
      in if ds \<noteq> [] \<and> list_all is_digit ds \<and> length ds \<le> 4300
            \<and> (hd ds = CHR ''0'' \<longrightarrow> length ds = 1 \<and> \<not> neg)
         then Some (if neg then - digits_value ds else digits_value ds) else None)"

definition coerce_scalar :: "(string \<Rightarrow> json option) \<Rightarrow> string \<Rightarrow> string list \<Rightarrow> bool \<times> json" where
  "coerce_scalar float_literal value targets =
     (if ''boolean'' \<in> set targets \<and> value \<in> {''true'', ''false''} then (True, JBool (value = ''true''))
      else case (if ''integer'' \<in> set targets then canonical_int value else None) of
        Some n \<Rightarrow> (True, JInt n)
      | None \<Rightarrow>
          (case (if ''number'' \<in> set targets then float_literal value else None) of
             Some x \<Rightarrow> (True, x)
           | None \<Rightarrow> (False, JStr value)))"

text \<open>\<open>set(schema.get("required") or [])\<close>, as far as string keys can be found in it.\<close>

definition required_keys :: "json_dict \<Rightarrow> string list option" where
  "required_keys s =
     (case map_of s ''required'' of
        None \<Rightarrow> Some []
      | Some r \<Rightarrow>
          if \<not> json_truthy r then Some []
          else (case r of
                  JList ks \<Rightarrow>
                    if list_ex (\<lambda>k. case k of JList _ \<Rightarrow> True | JObj _ \<Rightarrow> True | _ \<Rightarrow> False) ks then None
                    else Some (concat (map (\<lambda>k. case k of JStr t \<Rightarrow> [t] | _ \<Rightarrow> []) ks))
                | JStr t \<Rightarrow> Some (map (\<lambda>c. [c]) t)
                | JObj d \<Rightarrow> Some (map fst d)
                | _ \<Rightarrow> None))"

definition allows_null :: "json_dict \<Rightarrow> bool" where
  "allows_null prop =
     (case map_of prop ''type'' of
        Some (JStr t) \<Rightarrow> t = ''null'' | Some (JList ts) \<Rightarrow> JStr ''null'' \<in> set ts | _ \<Rightarrow> False)"

text \<open>One argument: dropped, kept (perhaps coerced), or the code raises.\<close>

datatype arg_fate = Dropped | Kept json | Coerced json | ArgRaises

definition lenient_arg ::
  "(string \<Rightarrow> json option) \<Rightarrow> json_dict \<Rightarrow> string list \<Rightarrow> bool \<Rightarrow> string \<Rightarrow> json \<Rightarrow> arg_fate" where
  "lenient_arg float_literal properties required extras_allowed key value =
     (case map_of properties key of
        None \<Rightarrow> if extras_allowed then Kept value else Dropped
      | Some JNull \<Rightarrow> if extras_allowed then Kept value else Dropped
      | Some prop \<Rightarrow>
          if value = JNull \<and> key \<notin> set required then
            (case prop of JObj p \<Rightarrow> if allows_null p then Kept value else Dropped | _ \<Rightarrow> ArgRaises)
          else
            (case value of
               JStr v \<Rightarrow>
                 if scalar_types prop = [] then Kept value
                 else (case coerce_scalar float_literal v (scalar_types prop) of
                         (True, x) \<Rightarrow> Coerced x | (False, _) \<Rightarrow> Kept value)
             | _ \<Rightarrow> Kept value))"

fun lenient_args ::
  "(string \<Rightarrow> json option) \<Rightarrow> json_dict \<Rightarrow> string list \<Rightarrow> bool \<Rightarrow> json_dict
     \<Rightarrow> (json_dict \<times> string list) option" where
  "lenient_args fl properties required extras [] = Some ([], [])"
| "lenient_args fl properties required extras ((k, v) # args) =
     (case lenient_arg fl properties required extras k v of
        ArgRaises \<Rightarrow> None
      | Dropped \<Rightarrow> lenient_args fl properties required extras args
      | Kept x \<Rightarrow> map_option (\<lambda>(c, ks). ((k, x) # c, ks)) (lenient_args fl properties required extras args)
      | Coerced x \<Rightarrow> map_option (\<lambda>(c, ks). ((k, x) # c, k # ks)) (lenient_args fl properties required extras args))"

definition coerce_lenient_args ::
  "(string \<Rightarrow> json option) \<Rightarrow> json_dict \<Rightarrow> json_dict \<Rightarrow> (json_dict \<times> string list) option" where
  "coerce_lenient_args float_literal args schema =
     (let props = json_get ''properties'' JNull schema;
          extras = (map_of schema ''additionalProperties'' \<noteq> Some (JBool False))
      in case (if json_truthy props then (case props of JObj d \<Rightarrow> Some d | _ \<Rightarrow> None) else Some []) of
           None \<Rightarrow> None
         | Some properties \<Rightarrow>
             (case required_keys schema of
                None \<Rightarrow> None
              | Some required \<Rightarrow> lenient_args float_literal properties required extras args))"

section \<open>Well-formed schemas never raise\<close>

text \<open>The shapes the keywords must have for the walk not to raise.\<close>

function (sequential) schema_wf :: "json \<Rightarrow> bool" where
  "schema_wf (JObj s) =
     ((map_of s ''enum'' = None \<or> map_of s ''enum'' = Some JNull \<or> list_at s ''enum'' \<noteq> None)
      \<and> (case list_at s ''type'' of None \<Rightarrow> True | Some ts \<Rightarrow> list_all is_text ts)
      \<and> (map_of s ''required'' = None
         \<or> (case list_at s ''required'' of None \<Rightarrow> False | Some ks \<Rightarrow> list_all is_text ks))
      \<and> (case schema_properties s of None \<Rightarrow> False | Some d \<Rightarrow> list_all (\<lambda>(_, sub). is_obj sub \<longrightarrow> schema_wf sub) d)
      \<and> (case obj_at s ''additionalProperties'' of None \<Rightarrow> True | Some d \<Rightarrow> schema_wf (JObj d))
      \<and> (case obj_at s ''items'' of None \<Rightarrow> True | Some d \<Rightarrow> schema_wf (JObj d))
      \<and> (case list_at s ''oneOf'' of None \<Rightarrow> True | Some subs \<Rightarrow> list_all schema_wf subs)
      \<and> (case list_at s ''anyOf'' of None \<Rightarrow> True | Some subs \<Rightarrow> list_all schema_wf subs)
      \<and> (case list_at s ''allOf'' of None \<Rightarrow> True | Some subs \<Rightarrow> list_all schema_wf subs))"
| "schema_wf _ = False"
  by pat_completeness auto
termination
  by (relation "measure size") (auto dest: size_list_at size_obj_at size_properties)

declare schema_wf.simps(1) [simp del]

lemma first_fail_raises: "first_fail vs = Raises \<Longrightarrow> Raises \<in> set vs"
  by (induction vs) (auto split: if_splits)

lemma first_fail_valid [simp]: "first_fail vs = Valid \<longleftrightarrow> (\<forall>v \<in> set vs. v = Valid)"
  by (induction vs) auto

lemma wrap_error_simps [simp]:
  "wrap_error f v = Raises \<longleftrightarrow> v = Raises" "wrap_error f v = Valid \<longleftrightarrow> v = Valid"
  by (simp_all add: wrap_error_def split: verdict.split)

lemma check_simps [simp]: "check b e \<noteq> Raises" "check b e = Valid \<longleftrightarrow> b"
  by (simp_all add: check_def)

lemma int_bound_raises [simp]: "int_bound s k ok e \<noteq> Raises"
  by (simp add: int_bound_def split: option.split)

lemma any_valid_raises: "any_valid vs = Raises \<Longrightarrow> Raises \<in> set vs"
  by (induction vs) (auto split: verdict.splits)

lemma one_of_raises: "one_of_verdict vs = Raises \<Longrightarrow> Raises \<in> set vs"
  by (auto simp: one_of_verdict_def Let_def split: if_splits)

lemma any_valid_not_raises: "Raises \<notin> set vs \<Longrightarrow> any_valid vs \<noteq> Raises"
  using any_valid_raises by blast

lemma one_of_not_raises: "Raises \<notin> set vs \<Longrightarrow> one_of_verdict vs \<noteq> Raises"
  using one_of_raises by blast

lemma first_fail_not_raises: "Raises \<notin> set vs \<Longrightarrow> first_fail vs \<noteq> Raises"
  using first_fail_raises by blast

lemma first_type_strings: "list_all is_text ts \<Longrightarrow> first_type value ts \<noteq> None"
proof (induction ts)
  case (Cons t ts)
  then obtain n where t: "t = JStr n" by (auto simp: accessors)
  obtain b where "type_matches value t = Some b" by (simp add: t type_matches_def)
  with Cons show ?case by (cases b) simp_all
qed simp

lemma check_required_strings: "list_all is_text ks \<Longrightarrow> check_required_keys ks v \<noteq> Raises"
  by (induction ks) (auto simp: accessors split: if_splits)

lemma leaf_checks_not_raise:
  "check_const s value \<noteq> Raises" "string_checks rx s value \<noteq> Raises" "numeric_checks s value \<noteq> Raises"
proof -
  show "check_const s value \<noteq> Raises" by (simp add: check_const_def split: option.split)
  have "pattern_check rx s v \<noteq> Raises" for v
    by (simp add: pattern_check_def split: option.split json.split)
  then show "string_checks rx s value \<noteq> Raises"
    by (cases "value") (auto simp: string_checks_def dest!: first_fail_raises)
  show "numeric_checks s value \<noteq> Raises"
    by (cases "value") (auto simp: numeric_checks_def dest!: first_fail_raises)
qed

lemma wf_checks_not_raise:
  assumes "schema_wf (JObj s)"
  shows "check_enum s value \<noteq> Raises" "check_type s value \<noteq> Raises" "check_required s v \<noteq> Raises"
proof -
  from assms show "check_enum s value \<noteq> Raises"
    by (auto simp: schema_wf.simps(1) check_enum_def accessors)
  show "check_type s value \<noteq> Raises"
  proof (cases "list_at s ''type''")
    case None
    then show ?thesis
      by (cases "map_of s ''type''") (auto simp: check_type_def list_at_def split: json.splits)
  next
    case (Some ts)
    with assms have "first_type value ts \<noteq> None" by (simp add: schema_wf.simps(1) first_type_strings)
    with Some show ?thesis by (auto simp: check_type_def accessors split: option.split)
  qed
  from assms show "check_required s v \<noteq> Raises"
    by (auto simp: schema_wf.simps(1) check_required_def accessors check_required_strings split: option.splits)
qed

lemma schema_wfD:
  assumes "schema_wf (JObj s)"
  shows "schema_properties s = Some d \<Longrightarrow> (k, sub) \<in> set d \<Longrightarrow> is_obj sub \<Longrightarrow> schema_wf sub"
    and "obj_at s ''additionalProperties'' = Some e \<Longrightarrow> schema_wf (JObj e)"
    and "obj_at s ''items'' = Some e \<Longrightarrow> schema_wf (JObj e)"
    and "list_at s ''oneOf'' = Some subs \<Longrightarrow> sub \<in> set subs \<Longrightarrow> schema_wf sub"
    and "list_at s ''anyOf'' = Some subs \<Longrightarrow> sub \<in> set subs \<Longrightarrow> schema_wf sub"
    and "list_at s ''allOf'' = Some subs \<Longrightarrow> sub \<in> set subs \<Longrightarrow> schema_wf sub"
    and "schema_properties s \<noteq> None"
  using iffD1 [OF schema_wf.simps(1) assms] by (auto simp: list_all_iff split: option.splits)

lemma mapped_not_raise:
  assumes "\<And>x. x \<in> set xs \<Longrightarrow> f x \<noteq> Raises"
  shows "first_fail (map f xs) \<noteq> Raises" "any_valid (map f xs) \<noteq> Raises" "one_of_verdict (map f xs) \<noteq> Raises"
proof -
  have "Raises \<notin> set (map f xs)"
  proof
    assume "Raises \<in> set (map f xs)"
    then obtain x where "x \<in> set xs" "Raises = f x" by auto
    with assms show False by metis
  qed
  then show "first_fail (map f xs) \<noteq> Raises" "any_valid (map f xs) \<noteq> Raises"
    "one_of_verdict (map f xs) \<noteq> Raises"
    using first_fail_raises any_valid_raises one_of_raises by blast+
qed

lemma if_not_raise:
  "(P \<Longrightarrow> a \<noteq> Raises) \<Longrightarrow> (\<not> P \<Longrightarrow> b \<noteq> Raises) \<Longrightarrow> (if P then a else b) \<noteq> Raises"
  by simp

lemma option_not_raise:
  "(\<And>x. opt = Some x \<Longrightarrow> f x \<noteq> Raises) \<Longrightarrow> z \<noteq> Raises \<Longrightarrow>
   (case opt of None \<Rightarrow> z | Some x \<Rightarrow> f x) \<noteq> Raises"
  by (simp split: option.split)

lemma first_fail_steps:
  "v \<noteq> Raises \<Longrightarrow> first_fail vs \<noteq> Raises \<Longrightarrow> first_fail (v # vs) \<noteq> Raises"
  "first_fail [] \<noteq> Raises"
  by simp_all

lemma validate_wf: "schema_wf schema \<Longrightarrow> validate_subset rx v0 schema \<noteq> Raises"
proof (induction rx v0 schema rule: validate_subset.induct)
  case (1 rx v0 s)
  note wf = schema_wfD [OF "1.prems"]
  have obj: "(case v0 of JObj v \<Rightarrow> f v | JList vs \<Rightarrow> g vs | _ \<Rightarrow> Valid) \<noteq> Raises"
    if "\<And>v. v0 = JObj v \<Longrightarrow> f v \<noteq> Raises" "\<And>vs. v0 = JList vs \<Longrightarrow> g vs \<noteq> Raises" for f g
    using that by (simp split: json.split)
  show ?case
  proof (subst validate_subset.simps(1), intro first_fail_steps leaf_checks_not_raise wf_checks_not_raise "1.prems" obj, goal_cases)
    case 1
    show ?case
    proof (intro option_not_raise mapped_not_raise)
      fix subs sub
      assume "list_at s ''oneOf'' = Some subs" "sub \<in> set subs"
      then show "validate_subset rx v0 sub \<noteq> Raises" using "1.IH"(1) wf(4) by blast
    qed simp
  next
    case 2
    show ?case
    proof (rule option_not_raise)
      fix subs
      assume subs: "list_at s ''anyOf'' = Some subs"
      show "(if subs = [] then Valid else any_valid (map (validate_subset rx v0) subs)) \<noteq> Raises"
      proof (cases "subs = []")
        case False
        have "any_valid (map (validate_subset rx v0) subs) \<noteq> Raises"
          by (rule mapped_not_raise) (rule "1.IH"(2) [OF subs False _ wf(5) [OF subs]])
        with False show ?thesis by simp
      qed simp
    qed simp
  next
    case 3
    show ?case
    proof (intro option_not_raise mapped_not_raise)
      fix subs sub
      assume "list_at s ''allOf'' = Some subs" "sub \<in> set subs"
      then show "wrap_error AllOf (validate_subset rx v0 sub) \<noteq> Raises" using "1.IH"(3) wf(6) by simp
    qed simp
  next
    case (4 v)
    note v = 4
    show ?case
    proof (intro if_not_raise first_fail_steps int_bound_raises, simp)
      assume e: "\<not> expected_type s v0 \<noteq> JStr ''object''"
      show "check_required s v \<noteq> Raises" using "1.prems" by (rule wf_checks_not_raise(3))
      show "(case schema_properties s of None \<Rightarrow> Raises
         | Some props \<Rightarrow> first_fail (map (\<lambda>(k, sub).
             if k \<in> fst ` set v \<and> is_obj sub
             then wrap_error (AtKey k) (validate_subset rx (the (map_of v k)) sub) else Valid) props)) \<noteq> Raises"
      proof -
        obtain props where props: "schema_properties s = Some props" using wf(7) by auto
        show ?thesis unfolding props option.case
        proof (rule mapped_not_raise)
          fix q
          assume "q \<in> set props"
          with "1.IH"(5) [OF v _ props] e wf(1) [OF props] v
          show "(case q of (k, sub) \<Rightarrow> if k \<in> fst ` set v \<and> is_obj sub
             then wrap_error (AtKey k) (validate_subset rx (the (map_of v k)) sub) else Valid) \<noteq> Raises"
            by (cases q) auto
        qed
      qed
      show "(let props = fst ` set (the (schema_properties s))
         in case obj_at s ''additionalProperties'' of
              None \<Rightarrow> if map_of s ''additionalProperties'' = Some (JBool False)
                then (let extra = filter (\<lambda>k. k \<notin> props) (map fst v) in check (extra = []) (Unexpected extra))
                else Valid
            | Some sub \<Rightarrow> first_fail (map (\<lambda>(k, x). if k \<in> props then Valid
                  else wrap_error (AtKey k) (validate_subset rx x (JObj sub))) v)) \<noteq> Raises"
        unfolding Let_def
      proof (intro option_not_raise mapped_not_raise)
        fix sub q
        assume "obj_at s ''additionalProperties'' = Some sub" "q \<in> set v"
        with "1.IH"(6) [OF v _ refl] e v wf(2)
        show "(case q of (k, x) \<Rightarrow> if k \<in> fst ` set (the (schema_properties s)) then Valid
                  else wrap_error (AtKey k) (validate_subset rx x (JObj sub))) \<noteq> Raises"
          by (cases q) auto
      qed simp
    qed
  next
    case (5 vs)
    note vs = 5
    show ?case
    proof (intro if_not_raise first_fail_steps int_bound_raises option_not_raise mapped_not_raise)
      fix sub q
      assume "\<not> expected_type s v0 \<noteq> JStr ''array''" "obj_at s ''items'' = Some sub" "q \<in> set (zip [0..<length vs] vs)"
      with "1.IH"(4) [OF vs] vs wf(3)
      show "(case q of (i, x) \<Rightarrow> wrap_error (AtIndex i) (validate_subset rx x (JObj sub))) \<noteq> Raises"
        by (cases q) auto
    qed simp_all
  qed
qed simp_all


definition demo_schema :: json_dict where
  "demo_schema = [(''type'', JStr ''object''),
     (''properties'', JObj [(''zip'', JObj [(''type'', JList [JStr ''string'', JStr ''integer'']),
                                         (''enum'', JList [JStr ''5'', JStr ''6''])])]),
     (''required'', JList [JStr ''zip'']), (''additionalProperties'', JBool False)]"

lemma demo_schema_wf: "schema_wf (JObj demo_schema)"
  by code_simp


text \<open>What an accepted object satisfies.\<close>

lemma accepted_object:
  assumes "validate_subset rx (JObj v) (JObj s) = Valid" and "map_of s ''type'' = Some (JStr ''object'')"
  shows "check_required s v = Valid"
    and "map_of s ''additionalProperties'' = Some (JBool False) \<Longrightarrow> schema_properties s = Some props \<Longrightarrow>
      fst ` set v \<subseteq> fst ` set props"
    and "schema_properties s = Some props \<Longrightarrow> (k, sub) \<in> set props \<Longrightarrow> is_obj sub \<Longrightarrow> map_of v k = Some x \<Longrightarrow>
      validate_subset rx x sub = Valid"
proof -
  have e: "expected_type s (JObj v) = JStr ''object''"
    by (simp add: expected_type_def assms(2))
  have parts: "check_required s v = Valid"
    "(case schema_properties s of None \<Rightarrow> Raises
      | Some props \<Rightarrow> first_fail (map (\<lambda>(k, sub).
          if k \<in> fst ` set v \<and> is_obj sub
          then wrap_error (AtKey k) (validate_subset rx (the (map_of v k)) sub) else Valid) props)) = Valid"
    "(let props = fst ` set (the (schema_properties s))
      in case obj_at s ''additionalProperties'' of
           None \<Rightarrow> if map_of s ''additionalProperties'' = Some (JBool False)
             then (let extra = filter (\<lambda>k. k \<notin> props) (map fst v) in check (extra = []) (Unexpected extra))
             else Valid
         | Some sub \<Rightarrow> first_fail (map (\<lambda>(k, x). if k \<in> props then Valid
               else wrap_error (AtKey k) (validate_subset rx x (JObj sub))) v)) = Valid"
    using trans [OF validate_subset.simps(1) [symmetric] assms(1)] e by (simp_all del: first_fail.simps)
  show "check_required s v = Valid" by (rule parts(1))
  show "fst ` set v \<subseteq> fst ` set props"
    if "map_of s ''additionalProperties'' = Some (JBool False)" "schema_properties s = Some props"
    using parts(3) that by (auto simp: obj_at_def Let_def filter_empty_conv)
  show "validate_subset rx x sub = Valid"
    if "schema_properties s = Some props" "(k, sub) \<in> set props" "is_obj sub" "map_of v k = Some x"
  proof -
    have k: "k \<in> fst ` set v" using that(4) by (force dest: map_of_SomeD)
    have "first_fail (map (\<lambda>(k, sub).
          if k \<in> fst ` set v \<and> is_obj sub
          then wrap_error (AtKey k) (validate_subset rx (the (map_of v k)) sub) else Valid) props) = Valid"
      using parts(2) that(1) by simp
    from bspec [OF iffD1 [OF first_fail_valid this], OF imageI [OF that(2), folded set_map]]
    show ?thesis using k that(3,4) by simp
  qed
qed

text \<open>
  The lenient repair can turn valid arguments into invalid ones: with a property declared
  as string or integer it rewrites the string "5" to the number 5 although the string is
  allowed as it is, and an enumeration of strings then rejects the call.
\<close>

theorem lenient_repair_breaks_valid_args:
  "validate_subset (\<lambda>_ _. None) (JObj [(''zip'', JStr ''5'')]) (JObj demo_schema) = Valid
   \<and> coerce_lenient_args (\<lambda>_. None) [(''zip'', JStr ''5'')] demo_schema = Some ([(''zip'', JInt 5)], [''zip''])
   \<and> validate_subset (\<lambda>_ _. None) (JObj [(''zip'', JInt 5)]) (JObj demo_schema)
      = Invalid (AtKey ''zip'' NotInEnum)"
proof (intro conjI)
  show "validate_subset (\<lambda>_ _. None) (JObj [(''zip'', JStr ''5'')]) (JObj demo_schema) = Valid" by code_simp
  show "coerce_lenient_args (\<lambda>_. None) [(''zip'', JStr ''5'')] demo_schema = Some ([(''zip'', JInt 5)], [''zip''])"
    by code_simp
  show "validate_subset (\<lambda>_ _. None) (JObj [(''zip'', JInt 5)]) (JObj demo_schema)
      = Invalid (AtKey ''zip'' NotInEnum)" by code_simp
qed

end
