(* ===== verification/ToolService.thy ===== *)
theory ToolService
  imports ToolGate ToolSchema ToolSecurity
begin

text \<open>
  The tool dispatcher, himmy/services/tools/service.py: the pipeline of one invocation
  (approval, capability, repair and validation of arguments, policy hook, timed and retried
  dispatch, post-hook, output validation), its retry policy, the exactly-once seam over an
  idempotency store, and the binding of tools for a model.

  The outside world is a value 'w that handlers, hooks and the HTTP connector transform.
  The state records, beside it, the events handed to the sink, every attempt at a backend
  with its outcome, and the pauses between attempts. None as the result of an execution
  means that an exception leaves \<open>execute\<close>. Latencies are left out; the wording of a schema
  error and the printing of seconds are parameters.
\<close>

section \<open>State and collaborators\<close>

record 'w tool_state =
  st_world :: 'w
  st_events :: "run_event list"
  st_attempts :: "(string \<times> json_dict \<times> attempt) list"
  st_sleeps :: "rat list"

record 'w tool_service =
  ts_registry :: "'w tool_registry"
  ts_pre_hook :: "(tool_invocation \<Rightarrow> tool_definition \<Rightarrow> 'w \<Rightarrow> (string + tool_policy_decision) \<times> 'w) option"
  ts_post_hook :: "(tool_result \<Rightarrow> tool_definition \<Rightarrow> 'w \<Rightarrow> (string + json option) \<times> 'w) option"
  ts_sink :: bool
  ts_default_timeout :: rat
  ts_lenient_args :: bool
  ts_workspace :: "string option"
  ts_authorizer :: "capability_authorizer option"
  ts_ambient :: "capability_authorizer option"
  ts_auth_configured :: bool
  ts_http :: "tool_definition \<Rightarrow> 'w handler"
  ts_package :: "(json \<Rightarrow> json \<Rightarrow> package_answer) option"
  ts_regex :: "string \<Rightarrow> string \<Rightarrow> bool option"
  ts_float :: "string \<Rightarrow> json option"
  ts_seconds :: "string \<Rightarrow> rat option"
  ts_error_text :: "schema_error \<Rightarrow> string"
  ts_seconds_text :: "rat \<Rightarrow> string"
  ts_stamp :: "nat \<Rightarrow> string \<times> instant"

definition SAFE_HTTP_METHODS :: "string set" where
  "SAFE_HTTP_METHODS = {''GET'', ''HEAD'', ''OPTIONS''}"

definition RETRYABLE_TOOL_CODES :: "tool_error_code set" where
  "RETRYABLE_TOOL_CODES = {RATE_LIMITED, TIMEOUT, PROVIDER_UNAVAILABLE}"

definition DEFAULT_TOOL_TIMEOUT :: rat where "DEFAULT_TOOL_TIMEOUT = 30"

section \<open>Retry policy\<close>

record retry_policy =
  rp_max_attempts :: int
  rp_base_delay :: rat
  rp_max_delay :: rat
  rp_multiplier :: rat

definition make_retry_policy :: "int \<Rightarrow> rat \<Rightarrow> rat \<Rightarrow> rat \<Rightarrow> retry_policy" where
  "make_retry_policy n base cap factor =
     \<lparr>rp_max_attempts = max 1 n, rp_base_delay = max 0 base, rp_max_delay = max 0 cap,
      rp_multiplier = max 1 factor\<rparr>"

text \<open>\<open>float(hints.get(key, default))\<close>, the default when that raises; \<open>int(x)\<close> drops the fraction.\<close>

definition hint_num :: "(string \<Rightarrow> rat option) \<Rightarrow> json_dict \<Rightarrow> string \<Rightarrow> rat \<Rightarrow> rat" where
  "hint_num seconds hints key dflt =
     (case map_of hints key of
        Some (JInt n) \<Rightarrow> of_int n
      | Some (JBool b) \<Rightarrow> (if b then 1 else 0)
      | Some (JStr s) \<Rightarrow> (case seconds s of Some x \<Rightarrow> x | None \<Rightarrow> dflt)
      | _ \<Rightarrow> dflt)"

definition py_int :: "rat \<Rightarrow> int" where
  "py_int x = (if 0 \<le> x then \<lfloor>x\<rfloor> else \<lceil>x\<rceil>)"

definition retry_from_hints :: "(string \<Rightarrow> rat option) \<Rightarrow> json_dict \<Rightarrow> retry_policy" where
  "retry_from_hints seconds hints =
     (if hints = [] then make_retry_policy 1 0 5 2
      else (let num = hint_num seconds hints;
                attempts = (if map_of hints ''max_attempts'' \<noteq> None then py_int (num ''max_attempts'' 1)
                            else if map_of hints ''max_retries'' \<noteq> None then py_int (num ''max_retries'' 0) + 1
                            else 1);
                base = num ''base_delay_seconds'' (num ''backoff_seconds'' 0)
            in make_retry_policy attempts base (num ''max_delay_seconds'' 5) (num ''backoff_multiplier'' 2)))"

definition delay_for :: "retry_policy \<Rightarrow> nat \<Rightarrow> rat" where
  "delay_for rp i =
     (if rp_base_delay rp \<le> 0 then 0 else min (rp_base_delay rp * rp_multiplier rp ^ i) (rp_max_delay rp))"

definition resolve_timeout :: "'w tool_service \<Rightarrow> tool_definition \<Rightarrow> rat" where
  "resolve_timeout svc d =
     (let own = (case td_timeout_seconds d of Some t \<Rightarrow> t | None \<Rightarrow> 0);
          cfg = (case td_http_config d of Some c \<Rightarrow> hc_timeout_seconds c | None \<Rightarrow> 0)
      in if own \<noteq> 0 then own else if cfg \<noteq> 0 then cfg else ts_default_timeout svc)"

text \<open>Whether the call carries an idempotency key: the configured argument is there and truthy.\<close>

definition has_idempotency_key :: "http_tool_config \<Rightarrow> json_dict \<Rightarrow> bool" where
  "has_idempotency_key cfg args =
     (case hc_idempotency_arg cfg of
        None \<Rightarrow> False
      | Some k \<Rightarrow> k \<noteq> [] \<and> json_truthy (json_get k JNull args))"

definition is_retry_safe :: "tool_definition \<Rightarrow> tool_error_code \<Rightarrow> json_dict \<Rightarrow> bool" where
  "is_retry_safe d code args =
     (case td_http_config d of
        None \<Rightarrow> True
      | Some cfg \<Rightarrow>
          if has_idempotency_key cfg args then True
          else if code = TIMEOUT then td_read_only_authoritative d \<and> td_read_only d = Some True
          else if py_upper (hc_method cfg) \<in> SAFE_HTTP_METHODS then True
          else code = RATE_LIMITED)"

section \<open>Events and results\<close>

definition emit :: "'w tool_service \<Rightarrow> event_type \<Rightarrow> string \<Rightarrow> json_dict \<Rightarrow> string option \<Rightarrow> 'w tool_state \<Rightarrow> 'w tool_state" where
  "emit svc kind call_id payload err s =
     (if \<not> ts_sink svc then s
      else (case ts_stamp svc (length (st_events s)) of (eid, now) \<Rightarrow>
        s\<lparr>st_events := st_events s @
          [\<lparr>event_id = eid, ev_type = kind, ev_trace_id = None, ev_thread_id = None, ev_agent_id = None,
            ev_workspace_id = ts_workspace svc, ev_request_id = None, ev_tool_call_id = Some call_id,
            ev_payload = payload, ev_error = err, ev_timestamp = now\<rparr>]\<rparr>))"

definition fail :: "'w tool_service \<Rightarrow> tool_invocation \<Rightarrow> tool_error_code \<Rightarrow> string \<Rightarrow> string
    \<Rightarrow> 'w tool_state \<Rightarrow> tool_result option \<times> 'w tool_state" where
  "fail svc call code msg outcome s =
     (Some \<lparr>tr_call_id = ti_call_id call, tr_name = ti_name call, tr_outcome = outcome, tr_result = JNull,
        tr_error_code = Some code, tr_error_message = Some msg, tr_metadata = []\<rparr>,
      emit svc TOOL_FAILED (ti_call_id call)
        [(''tool_name'', JStr (ti_name call)), (''error_code'', JStr (error_code_value code)),
         (''tool_outcome'', JStr outcome)] (Some msg) s)"

text \<open>The description of the expected arguments; None where it raises.\<close>

fun hint_type :: "json \<Rightarrow> string option" where
  "hint_type (JObj spec) =
     (case map_of spec ''type'' of
        None \<Rightarrow> Some ''any''
      | Some (JList ts) \<Rightarrow>
          if list_all (\<lambda>t. case t of JStr _ \<Rightarrow> True | _ \<Rightarrow> False) ts then Some (join_text ''|'' (map py_str ts)) else None
      | Some t \<Rightarrow> Some (py_str t))"
| "hint_type _ = None"

fun hint_parts :: "string list \<Rightarrow> json_dict \<Rightarrow> string list option" where
  "hint_parts required [] = Some []"
| "hint_parts required ((name, spec) # props) =
     (case (hint_type spec, hint_parts required props) of
        (Some t, Some ps) \<Rightarrow> Some ((name @ '' ('' @ t @ '')'' @ (if name \<in> set required then ''*'' else [])) # ps)
      | _ \<Rightarrow> None)"

definition schema_hint :: "json_dict \<Rightarrow> string option" where
  "schema_hint schema =
     (let props = json_get ''properties'' JNull schema
      in case required_keys schema of
           None \<Rightarrow> None
         | Some required \<Rightarrow>
             if \<not> json_truthy props then Some ''this tool takes no arguments.''
             else (case props of
                     JObj d \<Rightarrow>
                       map_option (\<lambda>ps. ''expected args: '' @ join_text '', '' ps @ '' (* = required).'') (hint_parts required d)
                   | _ \<Rightarrow> None))"

definition validated :: "'w tool_service \<Rightarrow> json \<Rightarrow> json_dict \<Rightarrow> verdict" where
  "validated svc value schema = validate_against_schema (ts_package svc) (ts_regex svc) True value (JObj schema)"

section \<open>Dispatch\<close>

definition dispatch_local :: "'w tool_service \<Rightarrow> tool_definition \<Rightarrow> 'w handler" where
  "dispatch_local svc d args w =
     (case handler_for (td_name d) (ts_registry svc) of
        None \<Rightarrow> (Refused EXECUTION_ERROR (''no local handler registered for '' @ repr_str (td_name d)), w)
      | Some h \<Rightarrow> h args w)"

definition dispatch :: "'w tool_service \<Rightarrow> tool_definition \<Rightarrow> 'w handler" where
  "dispatch svc d args w =
     (case td_kind d of LOCAL \<Rightarrow> dispatch_local svc d args w | HTTP \<Rightarrow> ts_http svc d args w)"

definition attempt_once :: "'w tool_service \<Rightarrow> tool_definition \<Rightarrow> json_dict \<Rightarrow> 'w tool_state
    \<Rightarrow> ((tool_error_code \<times> string) + json) \<times> 'w tool_state" where
  "attempt_once svc d args s =
     (case dispatch svc d args (st_world s) of (a, w) \<Rightarrow>
       (case a of
          Returned v \<Rightarrow> Inr v
        | Elapsed \<Rightarrow> Inl (TIMEOUT, ''tool '' @ repr_str (td_name d) @ '' exceeded ''
                           @ ts_seconds_text svc (resolve_timeout svc d) @ ''s timeout'')
        | Refused c m \<Rightarrow> Inl (c, m)
        | Raised m \<Rightarrow> Inl (EXECUTION_ERROR, m),
        s\<lparr>st_world := w, st_attempts := st_attempts s @ [(td_name d, args, a)]\<rparr>))"

text \<open>The loop with \<open>n\<close> attempts left after the present one.\<close>

fun dispatch_from :: "'w tool_service \<Rightarrow> tool_definition \<Rightarrow> json_dict \<Rightarrow> retry_policy \<Rightarrow> nat \<Rightarrow> 'w tool_state
    \<Rightarrow> ((tool_error_code \<times> string) + json) \<times> 'w tool_state" where
  "dispatch_from svc d args rp n s =
     (case attempt_once svc d args s of
        (Inr v, s') \<Rightarrow> (Inr v, s')
      | (Inl (code, msg), s') \<Rightarrow>
          (case n of
             0 \<Rightarrow> (Inl (code, msg), s')
           | Suc n' \<Rightarrow>
               if code \<in> RETRYABLE_TOOL_CODES \<and> is_retry_safe d code args
               then dispatch_from svc d args rp n'
                 (s'\<lparr>st_sleeps := st_sleeps s' @ [delay_for rp (nat (rp_max_attempts rp) - 1 - n)]\<rparr>)
               else (Inl (code, msg), s')))"

declare dispatch_from.simps [simp del]

definition run_dispatch :: "'w tool_service \<Rightarrow> tool_definition \<Rightarrow> json_dict \<Rightarrow> 'w tool_state
    \<Rightarrow> ((tool_error_code \<times> string) + json) \<times> 'w tool_state" where
  "run_dispatch svc d args s =
     (let rp = retry_from_hints (ts_seconds svc) (td_retry_hints d)
      in dispatch_from svc d args rp (nat (rp_max_attempts rp) - 1) s)"

section \<open>The pipeline of one invocation\<close>

definition object_schema :: "json_dict \<Rightarrow> bool" where
  "object_schema schema \<longleftrightarrow> map_of schema ''type'' = Some (JStr ''object'')"

text \<open>
  A stage either ends the invocation (left) or hands arguments on (right).
\<close>

type_synonym 'w stage = "(tool_result option \<times> 'w tool_state) + (json_dict \<times> 'w tool_state)"

text \<open>Repair and validation of the arguments; the second component names the repaired keys.\<close>

definition args_stage :: "'w tool_service \<Rightarrow> tool_definition \<Rightarrow> tool_invocation \<Rightarrow> 'w tool_state \<Rightarrow> 'w stage \<times> string list" where
  "args_stage svc d call s =
     (if \<not> object_schema (td_args_schema d) then (Inr (ti_args call, s), [])
      else (case (if ts_lenient_args svc then coerce_lenient_args (ts_float svc) (ti_args call) (td_args_schema d)
                  else Some (ti_args call, [])) of
              None \<Rightarrow> (Inl (None, s), [])
            | Some (args, coerced) \<Rightarrow>
                (case validated svc (JObj args) (td_args_schema d) of
                   Raises \<Rightarrow> (Inl (None, s), [])
                 | Valid \<Rightarrow> (Inr (args, s), coerced)
                 | Invalid e \<Rightarrow>
                     (case schema_hint (td_args_schema d) of
                        None \<Rightarrow> (Inl (None, s), [])
                      | Some hint \<Rightarrow>
                          (Inl (fail svc call INVALID_REQUEST
                             (''args failed schema validation: '' @ ts_error_text svc e @ ''. '' @ hint) ''failed'' s), [])))))"

definition policy_stage :: "'w tool_service \<Rightarrow> tool_definition \<Rightarrow> tool_invocation \<Rightarrow> json_dict \<Rightarrow> 'w tool_state \<Rightarrow> 'w stage" where
  "policy_stage svc d call args s =
     (case ts_pre_hook svc of
        None \<Rightarrow> Inr (args, s)
      | Some hook \<Rightarrow>
          (case hook call d (st_world s) of (answer, w) \<Rightarrow>
             (let s' = s\<lparr>st_world := w\<rparr>
              in case answer of
                   Inl msg \<Rightarrow> Inl (fail svc call EXECUTION_ERROR msg ''failed'' s')
                 | Inr dec \<Rightarrow>
                     if \<not> pd_allow dec then
                       Inl (fail svc call POLICY_BLOCKED
                         (case pd_reason dec of Some r \<Rightarrow> if r \<noteq> [] then r else ''blocked by policy''
                          | None \<Rightarrow> ''blocked by policy'') ''denied'' s')
                     else (case pd_transformed_args dec of
                             None \<Rightarrow> Inr (args, s')
                           | Some targs \<Rightarrow>
                               if \<not> object_schema (td_args_schema d) then Inr (targs, s')
                               else (case validated svc (JObj targs) (td_args_schema d) of
                                       Valid \<Rightarrow> Inr (targs, s')
                                     | Raises \<Rightarrow> Inl (None, s')
                                     | Invalid e \<Rightarrow>
                                         Inl (fail svc call INVALID_REQUEST
                                           (''transformed args failed schema validation: '' @ ts_error_text svc e)
                                           ''failed'' s'))))))"

text \<open>What follows a successful dispatch: the post-hook, then the validation of the output.\<close>

definition output_stage :: "'w tool_service \<Rightarrow> tool_definition \<Rightarrow> tool_invocation \<Rightarrow> string list \<Rightarrow> json
    \<Rightarrow> 'w tool_state \<Rightarrow> tool_result option \<times> 'w tool_state" where
  "output_stage svc d call coerced raw s =
     (let result = \<lparr>tr_call_id = ti_call_id call, tr_name = ti_name call, tr_outcome = ''success'', tr_result = raw,
            tr_error_code = None, tr_error_message = None,
            tr_metadata = (if coerced \<noteq> [] then [(''coerced_args'', JList (map JStr coerced))] else [])\<rparr>
      in case (case ts_post_hook svc of
                 None \<Rightarrow> (Inr None, st_world s)
               | Some hook \<Rightarrow> hook result d (st_world s)) of
           (Inl msg, w) \<Rightarrow>
             fail svc call EXECUTION_ERROR (''post-execution hook raised: '' @ msg) ''failed'' (s\<lparr>st_world := w\<rparr>)
         | (Inr reshaped, w) \<Rightarrow>
             (let s' = s\<lparr>st_world := w\<rparr>;
                  result' = (case reshaped of None \<Rightarrow> result | Some v \<Rightarrow> result\<lparr>tr_result := v\<rparr>);
                  completed = (Some result', emit svc TOOL_COMPLETED (ti_call_id call)
                    [(''tool_name'', JStr (ti_name call)), (''tool_outcome'', JStr ''success'')] None s')
              in case td_output_schema d of
                   None \<Rightarrow> completed
                 | Some schema \<Rightarrow>
                     (case validated svc (tr_result result') schema of
                        Valid \<Rightarrow> completed
                      | Raises \<Rightarrow> (None, s')
                      | Invalid e \<Rightarrow>
                          fail svc call OUTPUT_VALIDATION (''output failed schema validation: '' @ ts_error_text svc e)
                            ''failed'' s')))"

definition called :: "'w tool_service \<Rightarrow> tool_invocation \<Rightarrow> 'w tool_state \<Rightarrow> 'w tool_state" where
  "called svc call s =
     (let secret = (case tool_get (ti_name call) (ts_registry svc) of
                      Some d \<Rightarrow> td_sensitive_arg_names d | None \<Rightarrow> [])
      in emit svc TOOL_CALLED (ti_call_id call)
           [(''tool_name'', JStr (ti_name call)), (''args'', JObj (redact_mapping secret REDACTED (ti_args call)))]
           None s)"

definition approved :: "tool_invocation \<Rightarrow> bool" where
  "approved call \<longleftrightarrow> json_truthy (json_get ''approved'' JNull (ti_metadata call))"

definition effective_gate :: "'w tool_service \<Rightarrow> tool_gate option" where
  "effective_gate svc =
     resolve_effective_authorizer (ts_auth_configured svc) (ts_ambient svc) (ts_authorizer svc)"

definition execute_invocation :: "'w tool_service \<Rightarrow> tool_invocation \<Rightarrow> 'w tool_state \<Rightarrow> tool_result option \<times> 'w tool_state" where
  "execute_invocation svc call s =
     (let s1 = called svc call s
      in case tool_get (ti_name call) (ts_registry svc) of
           None \<Rightarrow> fail svc call NOT_FOUND (''tool '' @ repr_str (ti_name call) @ '' is not registered'') ''failed'' s1
         | Some d \<Rightarrow>
             if td_requires_approval d \<and> \<not> approved call then
               fail svc call POLICY_BLOCKED
                 (''tool '' @ repr_str (td_name d) @ '' requires approval (no approval granted)'') ''denied'' s1
             else if \<not> gate_admits (effective_gate svc) d then
               fail svc call CAPABILITY_DENIED
                 (''tool '' @ repr_str (td_name d) @ '' is not permitted for this caller (missing tool capability)'')
                 ''denied'' s1
             else (case args_stage svc d call s1 of
                     (Inl ended, _) \<Rightarrow> ended
                   | (Inr (args, s2), coerced) \<Rightarrow>
                       (case policy_stage svc d call args s2 of
                          Inl ended \<Rightarrow> ended
                        | Inr (args', s3) \<Rightarrow>
                            (case run_dispatch svc d args' s3 of
                               (Inl (code, msg), s4) \<Rightarrow> fail svc call code msg ''failed'' s4
                             | (Inr raw, s4) \<Rightarrow> output_stage svc d call coerced raw s4))))"

text \<open>
  The entry point with an idempotency store 'l: its \<open>get\<close> and \<open>put\<close> are arguments, and
  None is an exception of theirs.
\<close>

definition replayed :: "tool_result \<Rightarrow> tool_result" where
  "replayed r = r\<lparr>tr_metadata := AList.update ''idempotent_replay'' (JBool True) (tr_metadata r)\<rparr>"

definition idempotency_key :: "tool_invocation \<Rightarrow> string option" where
  "idempotency_key call =
     (case map_of (ti_metadata call) ''idempotency_key'' of
        Some (JStr k) \<Rightarrow> if k = [] then None else Some k | _ \<Rightarrow> None)"

type_synonym 'l ledger_get = "string \<Rightarrow> 'l \<Rightarrow> (tool_result option \<times> 'l) option"
type_synonym 'l ledger_put = "string \<Rightarrow> tool_result \<Rightarrow> 'l \<Rightarrow> 'l option"

definition execute :: "'l ledger_get \<Rightarrow> 'l ledger_put \<Rightarrow> 'w tool_service \<Rightarrow> tool_invocation
    \<Rightarrow> 'w tool_state \<times> 'l option \<Rightarrow> tool_result option \<times> 'w tool_state \<times> 'l option" where
  "execute get put svc call = (\<lambda>(s, store).
     case (store, idempotency_key call) of
       (Some l, Some key) \<Rightarrow>
         (case get key l of
            None \<Rightarrow> (None, s, store)
          | Some (Some cached, l1) \<Rightarrow> (Some (replayed cached), s, Some l1)
          | Some (None, l1) \<Rightarrow>
              (case execute_invocation svc call s of
                 (None, s') \<Rightarrow> (None, s', Some l1)
               | (Some r, s') \<Rightarrow>
                   if tr_outcome r = ''denied'' then (Some r, s', Some l1)
                   else (case put key r l1 of
                           None \<Rightarrow> (None, s', Some l1)
                         | Some l2 \<Rightarrow> (Some r, s', Some l2))))
     | _ \<Rightarrow> (case execute_invocation svc call s of (r, s') \<Rightarrow> (r, s', store)))"

section \<open>Binding tools for a model\<close>

record bound_tool =
  bt_name :: string
  bt_description :: string
  bt_args_schema :: json_dict
  bt_output_schema :: "json_dict option"
  bt_read_only :: "bool option"
  bt_read_only_authoritative :: bool
  bt_sequential :: bool

text \<open>A reputation provider is the score of a tool and whether it is unreliable.\<close>

definition annotated_description :: "tool_definition \<Rightarrow> ((string \<Rightarrow> rat) \<times> (string \<Rightarrow> bool)) option \<Rightarrow> string" where
  "annotated_description d provider =
     (case provider of
        Some (_, unreliable) \<Rightarrow>
          if unreliable (td_name d)
          then td_description d @ '' (note: this tool has failed frequently recently)'' else td_description d
      | None \<Rightarrow> td_description d)"

definition bound_tools :: "'w tool_registry \<Rightarrow> ((string \<Rightarrow> rat) \<times> (string \<Rightarrow> bool)) option \<Rightarrow> string list option \<Rightarrow> bound_tool list" where
  "bound_tools reg provider names =
     (let selected = (case names of
            None \<Rightarrow> tool_list reg
          | Some ns \<Rightarrow> concat (map (\<lambda>n. case tool_get n reg of None \<Rightarrow> [] | Some d \<Rightarrow> [d]) ns));
          ordered = (case provider of
            None \<Rightarrow> selected | Some (score, _) \<Rightarrow> sort_key (\<lambda>d. - score (td_name d)) selected)
      in map (\<lambda>d. \<lparr>bt_name = td_name d, bt_description = annotated_description d provider,
                   bt_args_schema = td_args_schema d, bt_output_schema = td_output_schema d,
                   bt_read_only = td_read_only d, bt_read_only_authoritative = td_read_only_authoritative d,
                   bt_sequential = td_sequential d\<rparr>) ordered)"

section \<open>What the stages leave alone\<close>

lemma emit_frame [simp]:
  "st_world (emit svc k c p e s) = st_world s" "st_attempts (emit svc k c p e s) = st_attempts s"
  by (simp_all add: emit_def Let_def split: prod.split)

lemma called_frame [simp]:
  "st_world (called svc call s) = st_world s" "st_attempts (called svc call s) = st_attempts s"
  by (simp_all add: called_def Let_def)

lemma fail_frame [simp]: "st_attempts (snd (fail svc call code msg outcome s)) = st_attempts s"
  by (simp add: fail_def)

text \<open>An invocation that ends before any dispatch: by an exception or by a failure.\<close>

definition ended_early :: "'w tool_service \<Rightarrow> tool_invocation \<Rightarrow> 'w tool_state \<Rightarrow> tool_result option \<times> 'w tool_state \<Rightarrow> bool" where
  "ended_early svc call s ended \<longleftrightarrow>
     (\<exists>s1. st_attempts s1 = st_attempts s \<and> st_events s1 = st_events s
       \<and> (ended = (None, s1) \<or> (\<exists>code msg outcome. ended = fail svc call code msg outcome s1 \<and> outcome \<noteq> ''success'')))"

lemma ended_earlyI [intro]:
  "st_attempts s1 = st_attempts s \<Longrightarrow> st_events s1 = st_events s \<Longrightarrow> ended_early svc call s (None, s1)"
  "st_attempts s1 = st_attempts s \<Longrightarrow> st_events s1 = st_events s \<Longrightarrow> outcome \<noteq> ''success'' \<Longrightarrow>
     ended_early svc call s (fail svc call code msg outcome s1)"
  by (auto simp: ended_early_def)

lemma ended_early_failed:
  "fail svc call code msg outcome s1 = ended \<Longrightarrow> outcome \<noteq> ''success'' \<Longrightarrow>
     ended_early svc call s1 ended"
  by (auto simp: ended_early_def)

lemma args_stage_Inl: "args_stage svc d call s = (Inl ended, co) \<Longrightarrow> ended_early svc call s ended"
  by (auto simp: args_stage_def split: if_splits option.splits prod.splits verdict.splits)

lemma args_stage_Inr:
  "args_stage svc d call s = (Inr (args, s2), co) \<Longrightarrow>
     s2 = s \<and> (object_schema (td_args_schema d) \<longrightarrow> validated svc (JObj args) (td_args_schema d) = Valid)"
  by (auto simp: args_stage_def split: if_splits option.splits prod.splits verdict.splits)

lemma policy_stage_Inl: "policy_stage svc d call args s = Inl ended \<Longrightarrow> ended_early svc call s ended"
  by (auto simp: policy_stage_def Let_def intro!: ended_earlyI
      split: if_splits option.splits prod.splits verdict.splits sum.splits)

definition hook_allows :: "'w tool_service \<Rightarrow> tool_definition \<Rightarrow> tool_invocation \<Rightarrow> bool" where
  "hook_allows svc d call \<longleftrightarrow>
     (case ts_pre_hook svc of None \<Rightarrow> True | Some hook \<Rightarrow> (\<exists>w dec w'. hook call d w = (Inr dec, w') \<and> pd_allow dec))"

lemma policy_stage_Inr:
  "policy_stage svc d call args s = Inr (args', s3) \<Longrightarrow>
   st_attempts s3 = st_attempts s \<and> st_events s3 = st_events s \<and> hook_allows svc d call
   \<and> (args' = args \<or> (object_schema (td_args_schema d) \<longrightarrow> validated svc (JObj args') (td_args_schema d) = Valid))"
  by (auto simp: policy_stage_def hook_allows_def Let_def
      split: if_splits option.splits prod.splits verdict.splits sum.splits)

lemma execute_invocation_cases:
  assumes "execute_invocation svc call s = (r, s')"
  obtains (early) "ended_early svc call (called svc call s) (r, s')"
  | (ran) d args coerced s3 out s4 where
      "tool_get (ti_name call) (ts_registry svc) = Some d"
      "td_requires_approval d \<Longrightarrow> approved call" "gate_admits (effective_gate svc) d" "hook_allows svc d call"
      "object_schema (td_args_schema d) \<Longrightarrow> validated svc (JObj args) (td_args_schema d) = Valid"
      "st_attempts s3 = st_attempts s" "st_events s3 = st_events (called svc call s)"
      "run_dispatch svc d args s3 = (out, s4)"
      "(r, s') = (case out of Inl (code, msg) \<Rightarrow> fail svc call code msg ''failed'' s4
         | Inr raw \<Rightarrow> output_stage svc d call coerced raw s4)"
proof (cases "tool_get (ti_name call) (ts_registry svc)")
  case None
  then have "ended_early svc call (called svc call s) (r, s')"
    using assms by (auto simp: execute_invocation_def Let_def dest: ended_early_failed)
  then show ?thesis by (rule early)
next
  case (Some d)
  show ?thesis
  proof (cases "td_requires_approval d \<and> \<not> approved call \<or> \<not> gate_admits (effective_gate svc) d")
    case True
    then have "ended_early svc call (called svc call s) (r, s')"
      using assms Some by (auto simp: execute_invocation_def Let_def split: if_splits dest: ended_early_failed)
    then show ?thesis by (rule early)
  next
    case ok: False
    obtain st coerced where a: "args_stage svc d call (called svc call s) = (st, coerced)" by fastforce
    show ?thesis
    proof (cases st)
      case (Inl ended)
      with assms Some ok a have "(r, s') = ended" by (auto simp: execute_invocation_def Let_def)
      then show ?thesis using args_stage_Inl [of svc d call "called svc call s" ended coerced] a Inl early by simp
    next
      case (Inr p)
      then obtain args1 s2 where p: "st = Inr (args1, s2)" by (cases p) simp
      note a1 = args_stage_Inr [of svc d call "called svc call s" args1 s2 coerced, OF a [unfolded p]]
      show ?thesis
      proof (cases "policy_stage svc d call args1 s2")
        case (Inl ended)
        with assms Some ok a p have "(r, s') = ended" by (auto simp: execute_invocation_def Let_def)
        then show ?thesis using policy_stage_Inl [OF Inl] a1 early by simp
      next
        case (Inr q)
        then obtain args s3 where q: "policy_stage svc d call args1 s2 = Inr (args, s3)" by (cases q) simp
        obtain out s4 where o: "run_dispatch svc d args s3 = (out, s4)" by fastforce
        show ?thesis
        proof (rule ran [OF Some _ _ _ _ _ _ o])
          show "(r, s') = (case out of Inl (code, msg) \<Rightarrow> fail svc call code msg ''failed'' s4
              | Inr raw \<Rightarrow> output_stage svc d call coerced raw s4)"
            using assms Some ok a p q o by (auto simp: execute_invocation_def Let_def split: sum.splits prod.splits)
        qed (use ok a1 policy_stage_Inr [OF q] in auto)
      qed
    qed
  qed
qed

section \<open>Attempts\<close>

fun attempt_code :: "attempt \<Rightarrow> tool_error_code option" where
  "attempt_code (Returned v) = None"
| "attempt_code Elapsed = Some TIMEOUT"
| "attempt_code (Refused c m) = Some c"
| "attempt_code (Raised m) = Some EXECUTION_ERROR"

definition refire_ok :: "tool_definition \<Rightarrow> json_dict \<Rightarrow> attempt \<Rightarrow> bool" where
  "refire_ok d args a \<longleftrightarrow> (\<exists>c. attempt_code a = Some c \<and> c \<in> RETRYABLE_TOOL_CODES \<and> is_retry_safe d c args)"

lemma attempt_once_result:
  "attempt_once svc d args s = (r, s') \<Longrightarrow>
     \<exists>a. st_attempts s' = st_attempts s @ [(td_name d, args, a)] \<and> st_events s' = st_events s
       \<and> (case r of Inr v \<Rightarrow> a = Returned v | Inl (c, _) \<Rightarrow> attempt_code a = Some c)"
  by (auto simp: attempt_once_def split: prod.splits attempt.splits)

lemma dispatch_from_trace:
  "dispatch_from svc d args rp n s = (r, s') \<Longrightarrow>
   \<exists>outs. st_attempts s' = st_attempts s @ map (\<lambda>a. (td_name d, args, a)) outs \<and> st_events s' = st_events s
     \<and> outs \<noteq> [] \<and> length outs \<le> Suc n \<and> (\<forall>a \<in> set (butlast outs). refire_ok d args a)
     \<and> (case r of Inr v \<Rightarrow> last outs = Returned v | Inl (c, _) \<Rightarrow> attempt_code (last outs) = Some c)"
proof (induction n arbitrary: s)
  case (0 s)
  then have "attempt_once svc d args s = (r, s')"
    by (auto simp: dispatch_from.simps [of _ _ _ _ 0] split: prod.splits sum.splits)
  from attempt_once_result [OF this] obtain a where
    "st_attempts s' = st_attempts s @ [(td_name d, args, a)]" "st_events s' = st_events s"
    "case r of Inr v \<Rightarrow> a = Returned v | Inl (c, _) \<Rightarrow> attempt_code a = Some c" by blast
  then show ?case by (intro exI [of _ "[a]"]) (simp split: sum.splits prod.splits)
next
  case (Suc n)
  obtain r1 s1 where o: "attempt_once svc d args s = (r1, s1)" by fastforce
  from attempt_once_result [OF this] obtain a where
    a: "st_attempts s1 = st_attempts s @ [(td_name d, args, a)]" "st_events s1 = st_events s"
      "case r1 of Inr v \<Rightarrow> a = Returned v | Inl (c, _) \<Rightarrow> attempt_code a = Some c" by blast
  show ?case
  proof (cases "\<exists>code msg. r1 = Inl (code, msg) \<and> code \<in> RETRYABLE_TOOL_CODES \<and> is_retry_safe d code args")
    case True
    then obtain code msg where c: "r1 = Inl (code, msg)" "code \<in> RETRYABLE_TOOL_CODES" "is_retry_safe d code args"
      by blast
    let ?s = "s1\<lparr>st_sleeps := st_sleeps s1 @ [delay_for rp (nat (rp_max_attempts rp) - 1 - Suc n)]\<rparr>"
    have "dispatch_from svc d args rp n ?s = (r, s')"
      using Suc.prems o c by (simp add: dispatch_from.simps [of _ _ _ _ "Suc n"])
    from Suc.IH [OF this] obtain outs where
      "st_attempts s' = st_attempts ?s @ map (\<lambda>a. (td_name d, args, a)) outs" "st_events s' = st_events ?s"
      "outs \<noteq> []" "length outs \<le> Suc n" "\<forall>a \<in> set (butlast outs). refire_ok d args a"
      "case r of Inr v \<Rightarrow> last outs = Returned v | Inl (c, _) \<Rightarrow> attempt_code (last outs) = Some c" by blast
    then show ?thesis using a c by (intro exI [of _ "a # outs"]) (auto simp: refire_ok_def split: sum.splits)
  next
    case False
    then have "(r, s') = (r1, s1)"
      using Suc.prems o by (auto simp: dispatch_from.simps [of _ _ _ _ "Suc n"] split: sum.splits prod.splits if_splits)
    then show ?thesis using a by (intro exI [of _ "[a]"]) (simp split: sum.splits prod.splits)
  qed
qed

definition max_attempts :: "'w tool_service \<Rightarrow> tool_definition \<Rightarrow> nat" where
  "max_attempts svc d = nat (rp_max_attempts (retry_from_hints (ts_seconds svc) (td_retry_hints d)))"

lemma max_attempts_pos: "1 \<le> rp_max_attempts (retry_from_hints f h)"
  by (simp add: retry_from_hints_def make_retry_policy_def Let_def)

lemma run_dispatch_trace:
  "run_dispatch svc d args s = (r, s') \<Longrightarrow>
   \<exists>outs. st_attempts s' = st_attempts s @ map (\<lambda>a. (td_name d, args, a)) outs \<and> st_events s' = st_events s
     \<and> outs \<noteq> [] \<and> length outs \<le> max_attempts svc d \<and> (\<forall>a \<in> set (butlast outs). refire_ok d args a)
     \<and> (case r of Inr v \<Rightarrow> last outs = Returned v | Inl (c, _) \<Rightarrow> attempt_code (last outs) = Some c)"
  using max_attempts_pos [of "ts_seconds svc" "td_retry_hints d"]
  by (fastforce simp: run_dispatch_def Let_def max_attempts_def dest!: dispatch_from_trace)

lemma output_stage_frame:
  "st_attempts (snd (output_stage svc d call co raw s)) = st_attempts s"
  by (auto simp: output_stage_def Let_def split: option.splits sum.splits prod.splits verdict.splits)

text \<open>Every invocation adds the attempts of one guarded dispatch, or none.\<close>

lemma execute_invocation_attempts:
  assumes "execute_invocation svc call s = (r, s')"
  obtains (none) "st_attempts s' = st_attempts s"
  | (some) d args outs where
      "st_attempts s' = st_attempts s @ map (\<lambda>a. (td_name d, args, a)) outs" "outs \<noteq> []"
      "tool_get (ti_name call) (ts_registry svc) = Some d"
      "td_requires_approval d \<Longrightarrow> approved call" "gate_admits (effective_gate svc) d" "hook_allows svc d call"
      "object_schema (td_args_schema d) \<Longrightarrow> validated svc (JObj args) (td_args_schema d) = Valid"
      "length outs \<le> max_attempts svc d" "\<forall>a \<in> set (butlast outs). refire_ok d args a"
  using assms
proof (cases rule: execute_invocation_cases)
  case early
  then have "st_attempts s' = st_attempts s"
    by (auto simp: ended_early_def dest!: arg_cong [where f = "\<lambda>p. st_attempts (snd p)"])
  then show ?thesis by (rule none)
next
  case (ran d args coerced s3 out s4)
  from run_dispatch_trace [OF ran(8)] obtain outs where o:
    "st_attempts s4 = st_attempts s3 @ map (\<lambda>a. (td_name d, args, a)) outs" "outs \<noteq> []"
    "length outs \<le> max_attempts svc d" "\<forall>a \<in> set (butlast outs). refire_ok d args a" by blast
  have "st_attempts s' = st_attempts s4"
    using arg_cong [OF ran(9), of "\<lambda>p. st_attempts (snd p)"]
    by (simp add: output_stage_frame split: sum.splits prod.splits)
  then show ?thesis using o ran(1-6) by (intro some [of d args outs]) simp_all
qed

text \<open>
  C16: Nothing reaches a handler or an upstream unless the tool is registered, approved where
  it asks for approval, admitted by the effective capability gate, allowed by the policy
  hook, and called with arguments that satisfy its object schema; otherwise no attempt is
  made at all. This holds for the arguments as they are sent, after repair and transformation.
\<close>

theorem dispatch_is_guarded:
  assumes "execute_invocation svc call s = (r, s')" and "(name, args, outcome) \<in> set (drop (length (st_attempts s)) (st_attempts s'))"
  shows "\<exists>d. tool_get (ti_name call) (ts_registry svc) = Some d \<and> name = td_name d
    \<and> (td_requires_approval d \<longrightarrow> approved call)
    \<and> gate_admits (effective_gate svc) d
    \<and> hook_allows svc d call
    \<and> (object_schema (td_args_schema d) \<longrightarrow> validated svc (JObj args) (td_args_schema d) = Valid)"
  using assms(1)
proof (cases rule: execute_invocation_attempts)
  case none
  then show ?thesis using assms(2) by simp
next
  case (some d args' outs)
  then show ?thesis using assms(2) by auto
qed

text \<open>
  C17: A call is attempted at most as often as its retry hints allow, once without hints; and
  a side-effecting HTTP call sent without an idempotency key is sent again only after the
  upstream refused it with a rate limit, never after a timeout or an outage.
\<close>

theorem unsafe_calls_are_not_refired:
  assumes "execute_invocation svc call s = (r, s')"
  shows "\<exists>name args outs. st_attempts s' = st_attempts s @ map (\<lambda>a. (name, args, a)) outs
    \<and> (\<forall>d. tool_get (ti_name call) (ts_registry svc) = Some d \<longrightarrow> length outs \<le> max_attempts svc d
        \<and> (\<forall>cfg. td_http_config d = Some cfg \<and> py_upper (hc_method cfg) \<notin> SAFE_HTTP_METHODS
             \<and> \<not> has_idempotency_key cfg args \<and> \<not> (td_read_only_authoritative d \<and> td_read_only d = Some True) \<longrightarrow>
             (\<forall>a \<in> set (butlast outs). attempt_code a = Some RATE_LIMITED)))"
  using assms
proof (cases rule: execute_invocation_attempts)
  case none
  then show ?thesis by (intro exI [of _ "[]"]) simp
next
  case (some d args outs)
  have "attempt_code a = Some RATE_LIMITED"
    if "td_http_config d = Some cfg" "py_upper (hc_method cfg) \<notin> SAFE_HTTP_METHODS" "\<not> has_idempotency_key cfg args"
      "\<not> (td_read_only_authoritative d \<and> td_read_only d = Some True)" "a \<in> set (butlast outs)" for cfg a
    using some(9) that by (auto simp: refire_ok_def is_retry_safe_def split: if_splits)
  then show ?thesis using some by (intro exI [of _ "td_name d"] exI [of _ args] exI [of _ outs]) auto
qed

section \<open>Events\<close>

lemma emit_events:
  "ts_sink svc \<Longrightarrow> \<exists>e. st_events (emit svc k c p err s) = st_events s @ [e]
     \<and> ev_type e = k \<and> ev_tool_call_id e = Some c \<and> ev_payload e = p"
  by (cases "ts_stamp svc (length (st_events s))") (simp add: emit_def)

lemma fail_events:
  assumes "ts_sink svc" and "(Some res, s') = fail svc call code msg outcome s"
  shows "\<exists>e. st_events s' = st_events s @ [e] \<and> ev_type e = TOOL_FAILED \<and> ev_tool_call_id e = Some (ti_call_id call)
    \<and> tr_outcome res = outcome \<and> tr_call_id res = ti_call_id call"
  using assms emit_events [OF assms(1)] by (fastforce simp: fail_def)

definition output_ok :: "'w tool_service \<Rightarrow> tool_definition \<Rightarrow> tool_result \<Rightarrow> bool" where
  "output_ok svc d res \<longleftrightarrow>
     (case td_output_schema d of None \<Rightarrow> True | Some schema \<Rightarrow> validated svc (tr_result res) schema = Valid)"

lemma output_stage_cases:
  assumes "(Some res, s') = output_stage svc d call co raw s"
  obtains (failed) code msg s1 where "(Some res, s') = fail svc call code msg ''failed'' s1" "st_events s1 = st_events s"
  | (completed) s1 payload where "tr_outcome res = ''success''" "tr_call_id res = ti_call_id call" "output_ok svc d res"
      "ts_post_hook svc = None \<Longrightarrow> tr_result res = raw"
      "s' = emit svc TOOL_COMPLETED (ti_call_id call) payload None s1" "st_events s1 = st_events s"
proof -
  obtain answer w where h: "(case ts_post_hook svc of None \<Rightarrow> (Inr None, st_world s)
      | Some hook \<Rightarrow> hook \<lparr>tr_call_id = ti_call_id call, tr_name = ti_name call, tr_outcome = ''success'',
            tr_result = raw, tr_error_code = None, tr_error_message = None,
            tr_metadata = (if co \<noteq> [] then [(''coerced_args'', JList (map JStr co))] else [])\<rparr> d (st_world s))
      = (answer, w)" by fastforce
  show thesis
  proof (cases answer)
    case (Inl msg)
    then have "(Some res, s') = fail svc call EXECUTION_ERROR (''post-execution hook raised: '' @ msg) ''failed'' (s\<lparr>st_world := w\<rparr>)"
      using assms h by (auto simp: output_stage_def Let_def)
    then show thesis by (rule failed) simp
  next
    case (Inr reshaped)
    let ?r = "\<lparr>tr_call_id = ti_call_id call, tr_name = ti_name call, tr_outcome = ''success'',
            tr_result = raw, tr_error_code = None, tr_error_message = None,
            tr_metadata = (if co \<noteq> [] then [(''coerced_args'', JList (map JStr co))] else [])\<rparr>"
    let ?r' = "case reshaped of None \<Rightarrow> ?r | Some v \<Rightarrow> ?r\<lparr>tr_result := v\<rparr>"
    let ?s = "s\<lparr>st_world := w\<rparr>"
    show thesis
    proof (cases "output_ok svc d ?r'")
      case True
      then have r: "res = ?r'"
        and e: "s' = emit svc TOOL_COMPLETED (ti_call_id call)
          [(''tool_name'', JStr (ti_name call)), (''tool_outcome'', JStr ''success'')] None ?s"
        using assms h Inr by (auto simp: output_stage_def Let_def output_ok_def split: option.splits)
      have n: "ts_post_hook svc = None \<Longrightarrow> reshaped = None" using h Inr by simp
      show thesis
        by (rule completed [OF _ _ _ _ e]) (use True n in \<open>auto simp: r split: option.splits\<close>)
    next
      case False
      then have "\<exists>msg. (Some res, s') = fail svc call OUTPUT_VALIDATION msg ''failed'' ?s"
        using assms h Inr by (auto simp: output_stage_def Let_def output_ok_def split: option.splits verdict.splits)
      then obtain msg where "(Some res, s') = fail svc call OUTPUT_VALIDATION msg ''failed'' ?s" ..
      then show thesis by (rule failed) simp
    qed
  qed
qed

text \<open>
  Every invocation that returns leaves exactly two events: the call, with the values of
  its secret arguments redacted, and its conclusion under the same call id, a completion
  precisely when the result is a success.
\<close>

theorem calls_are_announced_and_concluded:
  assumes "execute_invocation svc call s = (Some res, s')" and "ts_sink svc"
  shows "\<exists>e1 e2. st_events s' = st_events s @ [e1, e2]
    \<and> ev_type e1 = TOOL_CALLED
    \<and> map_of (ev_payload e1) ''args'' = Some (JObj (redact_mapping
        (case tool_get (ti_name call) (ts_registry svc) of Some d \<Rightarrow> td_sensitive_arg_names d | None \<Rightarrow> [])
        REDACTED (ti_args call)))
    \<and> ev_type e2 = (if tr_outcome res = ''success'' then TOOL_COMPLETED else TOOL_FAILED)
    \<and> ev_tool_call_id e1 = Some (ti_call_id call) \<and> ev_tool_call_id e2 = Some (ti_call_id call)"
proof -
  obtain e1 where e1: "st_events (called svc call s) = st_events s @ [e1]" "ev_type e1 = TOOL_CALLED"
    "ev_tool_call_id e1 = Some (ti_call_id call)"
    "map_of (ev_payload e1) ''args'' = Some (JObj (redact_mapping
        (case tool_get (ti_name call) (ts_registry svc) of Some d \<Rightarrow> td_sensitive_arg_names d | None \<Rightarrow> [])
        REDACTED (ti_args call)))"
    using emit_events [OF assms(2)] unfolding called_def Let_def by fastforce
  have "\<exists>e2. st_events s' = st_events (called svc call s) @ [e2]
      \<and> ev_type e2 = (if tr_outcome res = ''success'' then TOOL_COMPLETED else TOOL_FAILED)
      \<and> ev_tool_call_id e2 = Some (ti_call_id call)"
    using assms(1)
  proof (cases rule: execute_invocation_cases)
    case early
    then show ?thesis using fail_events [OF assms(2)] by (fastforce simp: ended_early_def)
  next
    case (ran d args coerced s3 out s4)
    have e4: "st_events s4 = st_events (called svc call s)"
      using run_dispatch_trace [OF ran(8)] ran(7) by auto
    show ?thesis
    proof (cases out)
      case (Inl p)
      then show ?thesis using ran(9) e4 fail_events [OF assms(2)] by (cases p) fastforce
    next
      case (Inr raw)
      with ran(9) have "(Some res, s') = output_stage svc d call coerced raw s4" by simp
      then show ?thesis
      proof (cases rule: output_stage_cases)
        case (failed code msg s1)
        then show ?thesis using fail_events [OF assms(2) failed(1)] e4 by auto
      next
        case (completed s1 payload)
        then show ?thesis using emit_events [OF assms(2), of TOOL_COMPLETED "ti_call_id call" payload None s1] e4 by auto
      qed
    qed
  qed
  with e1 show ?thesis by auto
qed

text \<open>
  A success is the value the last attempt returned, reshaped by the post-hook at most,
  and whatever was reshaped satisfies the output schema of the tool.
\<close>

theorem success_is_validated:
  assumes "execute_invocation svc call s = (Some res, s')" and "tr_outcome res = ''success''"
  shows "\<exists>d args v. tool_get (ti_name call) (ts_registry svc) = Some d
    \<and> output_ok svc d res
    \<and> st_attempts s' \<noteq> [] \<and> last (st_attempts s') = (td_name d, args, Returned v)
    \<and> (ts_post_hook svc = None \<longrightarrow> tr_result res = v)"
  using assms(1)
proof (cases rule: execute_invocation_cases)
  case early
  then show ?thesis using assms(2) by (auto simp: ended_early_def fail_def)
next
  case (ran d args coerced s3 out s4)
  then obtain raw where o: "out = Inr raw" "(Some res, s') = output_stage svc d call coerced raw s4"
    using assms(2) by (auto simp: fail_def split: sum.splits prod.splits)
  from run_dispatch_trace [OF ran(8)] o(1) obtain outs where
    outs: "st_attempts s4 = st_attempts s3 @ map (\<lambda>a. (td_name d, args, a)) outs" "outs \<noteq> []" "last outs = Returned raw"
    by auto
  have "st_attempts s' = st_attempts s4"
    using arg_cong [OF o(2), of "\<lambda>p. st_attempts (snd p)"] by (simp add: output_stage_frame)
  with outs have a: "st_attempts s' \<noteq> []" "last (st_attempts s') = (td_name d, args, Returned raw)"
    by (simp_all add: last_map)
  from o(2) show ?thesis
  proof (cases rule: output_stage_cases)
    case (failed code msg s1)
    then show ?thesis using assms(2) by (simp add: fail_def)
  next
    case (completed s1 payload)
    then show ?thesis using ran(1) a
      by (intro exI [of _ d] exI [of _ args] exI [of _ raw]) simp
  qed
qed

section \<open>At most once per key\<close>

lemma attempted_not_denied:
  assumes "execute_invocation svc call s = (Some r, s')" and "st_attempts s' \<noteq> st_attempts s"
  shows "tr_outcome r \<noteq> ''denied''"
  using assms(1)
proof (cases rule: execute_invocation_cases)
  case early
  then have "st_attempts s' = st_attempts s"
    by (auto simp: ended_early_def dest!: arg_cong [where f = "\<lambda>p. st_attempts (snd p)"])
  then show ?thesis using assms(2) by simp
next
  case (ran d args coerced s3 out s4)
  show ?thesis
  proof (cases out)
    case (Inl p)
    then show ?thesis using ran(9) by (cases p) (simp add: fail_def)
  next
    case (Inr raw)
    with ran(9) have "(Some r, s') = output_stage svc d call coerced raw s4" by simp
    then show ?thesis by (cases rule: output_stage_cases) (simp_all add: fail_def)
  qed
qed

text \<open>
  A sequence of executions against one ledger, ended by the first that raises: each call,
  its result, and the number of attempts it added; and the state after it.
\<close>

fun run_invocations :: "'l ledger_get \<Rightarrow> 'l ledger_put \<Rightarrow> 'w tool_service \<Rightarrow> tool_invocation list
    \<Rightarrow> 'w tool_state \<times> 'l option
    \<Rightarrow> (tool_invocation \<times> tool_result option \<times> nat) list \<times> ('w tool_state \<times> 'l option)" where
  "run_invocations get put svc [] st = ([], st)"
| "run_invocations get put svc (c # cs) st =
     (case execute get put svc c st of (r, st') \<Rightarrow>
        (case (if r = None then ([], st') else run_invocations get put svc cs st') of (trail, st'') \<Rightarrow>
           ((c, r, length (st_attempts (fst st')) - length (st_attempts (fst st))) # trail, st'')))"

definition fired :: "string \<Rightarrow> (tool_invocation \<times> tool_result option \<times> nat) list \<Rightarrow> nat" where
  "fired key trail = length (filter (\<lambda>(c, _, n). idempotency_key c = Some key \<and> 0 < n) trail)"

lemma fired_append [simp]: "fired key (xs @ ys) = fired key xs + fired key ys"
  by (simp add: fired_def)

definition all_returned :: "(tool_invocation \<times> tool_result option \<times> nat) list \<Rightarrow> bool" where
  "all_returned trail \<longleftrightarrow> (\<forall>(c, r, n) \<in> set trail. r \<noteq> None)"

text \<open>
  What the service asks of an idempotency store: it implements a map from keys to results,
  which looking up leaves as it is and recording extends.
\<close>

locale tool_ledger =
  fixes get :: "'l ledger_get"
    and put :: "'l ledger_put"
    and ledger_ok :: "'l \<Rightarrow> bool"
    and recorded :: "'l \<Rightarrow> string \<Rightarrow> tool_result option"
  assumes get_looks_up: "ledger_ok l \<Longrightarrow>
      \<exists>l'. get k l = Some (recorded l k, l') \<and> ledger_ok l' \<and> recorded l' = recorded l"
    and put_records: "ledger_ok l \<Longrightarrow>
      \<exists>l'. put k r l = Some l' \<and> ledger_ok l' \<and> recorded l' = (recorded l)(k \<mapsto> r)"
begin

text \<open>One execution: a replay, or an execution whose result is recorded unless it was denied.\<close>

lemma execute_cases:
  assumes "execute get put svc call (s, Some l) = (r, s', store)" and "ledger_ok l"
  obtains (unkeyed) "idempotency_key call = None" "store = Some l" "execute_invocation svc call s = (r, s')"
  | (replay) key v l' where "idempotency_key call = Some key" "recorded l key = Some v" "r = Some (replayed v)" "s' = s"
      "store = Some l'" "ledger_ok l'" "recorded l' = recorded l"
  | (fresh) key l' where "idempotency_key call = Some key" "recorded l key = None" "execute_invocation svc call s = (r, s')"
      "store = Some l'" "ledger_ok l'"
      "recorded l' = (case r of Some v \<Rightarrow> if tr_outcome v \<noteq> ''denied'' then (recorded l)(key \<mapsto> v) else recorded l
         | None \<Rightarrow> recorded l)"
proof (cases "idempotency_key call")
  case None
  then show ?thesis using assms(1) by (intro unkeyed) (auto simp: execute_def split: prod.splits)
next
  case (Some key)
  obtain l1 where g: "get key l = Some (recorded l key, l1)" and l1: "ledger_ok l1" "recorded l1 = recorded l"
    using get_looks_up [OF assms(2)] by blast
  show ?thesis
  proof (cases "recorded l key")
    case None
    obtain r1 s1 where e: "execute_invocation svc call s = (r1, s1)" by fastforce
    show ?thesis
    proof (cases "\<exists>res. r1 = Some res \<and> tr_outcome res \<noteq> ''denied''")
      case False
      then show ?thesis using assms(1) Some g l1 None e
        by (intro fresh [OF Some None, of l1]) (auto simp: execute_def split: option.splits if_splits)
    next
      case True
      then obtain res where res: "r1 = Some res" "tr_outcome res \<noteq> ''denied''" by blast
      from put_records [OF l1(1)] obtain l2 where
        "put key res l1 = Some l2" "ledger_ok l2" "recorded l2 = (recorded l1)(key \<mapsto> res)" by blast
      then show ?thesis using assms(1) Some g l1 None e res
        by (intro fresh [OF Some None, of l2]) (auto simp: execute_def)
    qed
  next
    case cached: (Some res)
    then show ?thesis using assms(1) Some g l1 by (intro replay [OF Some cached, of l1]) (auto simp: execute_def)
  qed
qed

text \<open>Whatever happens in a sequence, the ledger stays in order.\<close>

lemma run_invocations_keeps:
  "run_invocations get put svc calls (s, Some l) = (trail, s', store) \<Longrightarrow> ledger_ok l \<Longrightarrow> \<exists>l'. store = Some l' \<and> ledger_ok l'"
proof (induction calls arbitrary: s l trail)
  case (Cons c cs)
  obtain r s1 store1 where e: "execute get put svc c (s, Some l) = (r, s1, store1)" by (metis prod_cases3)
  then obtain l1 where l1: "store1 = Some l1" "ledger_ok l1" using Cons.prems(2)
    by (cases rule: execute_cases) (use Cons.prems(2) in auto)
  show ?case
  proof (cases r)
    case None
    then show ?thesis using Cons.prems(1) e l1 by auto
  next
    case (Some v)
    obtain trail' where "run_invocations get put svc cs (s1, Some l1) = (trail', s', store)"
      using Cons.prems(1) e Some l1 by (auto split: prod.splits)
    from Cons.IH [OF this l1(2)] show ?thesis .
  qed
qed auto

text \<open>Across a sequence that returns, a key fires at most once, and never when it was recorded before.\<close>

lemma fires_at_most_once:
  assumes "run_invocations get put svc calls (s, Some l) = (trail, s', store)" and "ledger_ok l" and "all_returned trail"
  shows "\<exists>l'. store = Some l' \<and> ledger_ok l' \<and> (\<forall>k v. recorded l k = Some v \<longrightarrow> recorded l' k = Some v)
    \<and> (\<forall>key. fired key trail \<le> (if recorded l key = None \<and> recorded l' key \<noteq> None then 1 else 0))"
  using assms
proof (induction calls arbitrary: s l trail)
  case Nil
  then show ?case by (auto simp: fired_def)
next
  case (Cons c cs)
  obtain r s1 store1 where e: "execute get put svc c (s, Some l) = (r, s1, store1)"
    by (metis prod_cases3)
  have some: "r \<noteq> None" using Cons.prems(1,3) e by (auto simp: all_returned_def split: prod.splits)
  then obtain trail' where t: "run_invocations get put svc cs (s1, store1) = (trail', s', store)"
    "trail = (c, r, length (st_attempts s1) - length (st_attempts s)) # trail'"
    using Cons.prems(1) e by (auto split: prod.splits)
  have ret: "all_returned trail'" "r \<noteq> None"
    using Cons.prems(3) t(2) some by (auto simp: all_returned_def)
  have "\<exists>l1. store1 = Some l1 \<and> ledger_ok l1 \<and> (\<forall>k v. recorded l k = Some v \<longrightarrow> recorded l1 k = Some v)
      \<and> (\<forall>key. fired key [(c, r, length (st_attempts s1) - length (st_attempts s))]
           \<le> (if recorded l key = None \<and> recorded l1 key \<noteq> None then 1 else 0))"
    using e Cons.prems(2)
  proof (cases rule: execute_cases)
    case unkeyed
    then show ?thesis using Cons.prems(2) by (simp add: fired_def)
  next
    case (replay key v l')
    then show ?thesis by (simp add: fired_def)
  next
    case (fresh key l')
    from ret(2) obtain v where v: "r = Some v" by blast
    have "st_attempts s1 = st_attempts s \<or> tr_outcome v \<noteq> ''denied''"
      using attempted_not_denied [of svc c s v s1] fresh(3) v by auto
    then show ?thesis using fresh v by (auto simp: fired_def)
  qed
  then obtain l1 where l1: "store1 = Some l1" "ledger_ok l1" "\<forall>k v. recorded l k = Some v \<longrightarrow> recorded l1 k = Some v"
    and f1: "\<And>key. fired key [(c, r, length (st_attempts s1) - length (st_attempts s))]
           \<le> (if recorded l key = None \<and> recorded l1 key \<noteq> None then 1 else 0)" by blast
  from Cons.IH [OF t(1) [unfolded l1(1)] l1(2) ret(1)] obtain l' where l': "store = Some l'" "ledger_ok l'"
    "\<forall>k v. recorded l1 k = Some v \<longrightarrow> recorded l' k = Some v"
    "\<And>key. fired key trail' \<le> (if recorded l1 key = None \<and> recorded l' key \<noteq> None then 1 else 0)" by blast
  have "fired key trail \<le> (if recorded l key = None \<and> recorded l' key \<noteq> None then 1 else 0)" for key
  proof -
    have "fired key trail = fired key [(c, r, length (st_attempts s1) - length (st_attempts s))] + fired key trail'"
      unfolding t(2) by (metis append_Cons append_Nil fired_append)
    then show ?thesis using f1 [of key] l'(4) [of key] l1(3) l'(3)
      by (cases "recorded l key"; cases "recorded l1 key"; cases "recorded l' key") auto
  qed
  then show ?case using l' l1 by blast
qed

end

section \<open>A concrete service\<close>

text \<open>
  A local tool that answers, and a payment endpoint that is rate-limited once; the world
  counts the requests sent.
\<close>

definition demo_schema_args :: json_dict where
  "demo_schema_args = [(''type'', JStr ''object''),
     (''properties'', JObj [(''to'', JObj [(''type'', JStr ''string'')])]), (''required'', JList [JStr ''to''])]"

definition demo_http :: http_tool_config where
  "demo_http = \<lparr>hc_base_url_env_var = [], hc_base_url = ''https://api.example'', hc_method = ''post'',
     hc_path_template = ''/pay'', hc_auth = \<lparr>au_mode = AuthNone, au_env_var = None, au_header_name = None,
       au_query_param = None, au_username = None\<rparr>, hc_query_arg_names = [], hc_body_arg_names = [''to''],
     hc_header_arg_names = [], hc_timeout_seconds = 15, hc_egress_allow_hosts = [], hc_allow_private_hosts = False,
     hc_static_query = [], hc_pagination = \<lparr>pg_mode = PagesNone, pg_items_path = [], pg_cursor_path = [],
       pg_cursor_param = ''cursor'', pg_page_param = ''page'', pg_max_pages = 20\<rparr>, hc_idempotency_arg = Some ''key''\<rparr>"

definition demo_payment :: tool_definition where
  "demo_payment = (demo_tool ''pay'')\<lparr>td_kind := HTTP, td_http_config := Some demo_http,
     td_args_schema := demo_schema_args, td_retry_hints := [(''max_attempts'', JInt 3)],
     td_requires_approval := True, td_sensitive_arg_names := [''to'']\<rparr>"

definition demo_upstream :: "nat handler" where
  "demo_upstream args n = (if n = 0 then Refused RATE_LIMITED ''upstream returned 429'' else Returned (JStr ''paid''), n + 1)"

definition demo_service :: "nat tool_service" where
  "demo_service = \<lparr>ts_registry = tool_register demo_payment None empty_tool_registry, ts_pre_hook = None,
     ts_post_hook = None, ts_sink = True, ts_default_timeout = DEFAULT_TOOL_TIMEOUT, ts_lenient_args = True,
     ts_workspace = None, ts_authorizer = None, ts_ambient = None, ts_auth_configured = False,
     ts_http = (\<lambda>_. demo_upstream), ts_package = None, ts_regex = (\<lambda>_ _. None), ts_float = (\<lambda>_. None),
     ts_seconds = (\<lambda>_. None), ts_error_text = (\<lambda>_. ''invalid''), ts_seconds_text = (\<lambda>_. ''30.0''),
     ts_stamp = (\<lambda>n. (''e'', int n))\<rparr>"

definition demo_call :: tool_invocation where
  "demo_call = \<lparr>ti_call_id = ''c1'', ti_name = ''pay'', ti_args = [(''to'', JStr ''bob'')],
     ti_metadata = [(''approved'', JBool True), (''idempotency_key'', JStr ''k1'')]\<rparr>"

definition demo_start :: "nat tool_state" where
  "demo_start = \<lparr>st_world = 0, st_events = [], st_attempts = [], st_sleeps = []\<rparr>"

lemma demo_attempts:
  "st_attempts (snd (execute_invocation demo_service demo_call demo_start))
     = [(''pay'', [(''to'', JStr ''bob'')], Refused RATE_LIMITED ''upstream returned 429''),
        (''pay'', [(''to'', JStr ''bob'')], Returned (JStr ''paid''))]"
  by code_simp

lemma demo_result:
  "fst (execute_invocation demo_service demo_call demo_start)
     = Some \<lparr>tr_call_id = ''c1'', tr_name = ''pay'', tr_outcome = ''success'', tr_result = JStr ''paid'',
         tr_error_code = None, tr_error_message = None, tr_metadata = []\<rparr>"
  by code_simp

lemma demo_run:
  "execute_invocation demo_service demo_call demo_start =
     (Some \<lparr>tr_call_id = ''c1'', tr_name = ''pay'', tr_outcome = ''success'', tr_result = JStr ''paid'',
         tr_error_code = None, tr_error_message = None, tr_metadata = []\<rparr>,
      snd (execute_invocation demo_service demo_call demo_start))"
  by (rule prod_eqI) (simp_all add: demo_result)

theorem dispatch_is_guarded_witness:
  "\<exists>d. tool_get ''pay'' (ts_registry demo_service) = Some d \<and> (td_requires_approval d \<longrightarrow> approved demo_call)"
proof -
  have "(''pay'', [(''to'', JStr ''bob'')], Returned (JStr ''paid''))
      \<in> set (drop (length (st_attempts demo_start)) (st_attempts (snd (execute_invocation demo_service demo_call demo_start))))"
    by (simp add: demo_attempts) (simp add: demo_start_def)
  from dispatch_is_guarded [OF demo_run this] show ?thesis by (auto simp: demo_call_def)
qed

theorem unsafe_calls_are_not_refired_witness:
  "\<exists>name args outs. [(''pay'', [(''to'', JStr ''bob'')], Refused RATE_LIMITED ''upstream returned 429''),
        (''pay'', [(''to'', JStr ''bob'')], Returned (JStr ''paid''))] = map (\<lambda>a. (name, args, a)) outs
     \<and> length outs \<le> max_attempts demo_service demo_payment"
proof -
  have "tool_get (ti_name demo_call) (ts_registry demo_service) = Some demo_payment"
    by (simp add: tool_get_def demo_call_def demo_service_def tool_register_def demo_payment_def demo_tool_def empty_tool_registry_def)
  with unsafe_calls_are_not_refired [OF demo_run] show ?thesis
    by (force simp: demo_attempts demo_start_def [THEN arg_cong [where f = st_attempts]])
qed

theorem calls_are_announced_and_concluded_witness:
  "\<exists>e1 e2. st_events (snd (execute_invocation demo_service demo_call demo_start)) = [e1, e2]
     \<and> map_of (ev_payload e1) ''args'' = Some (JObj [(''to'', JStr REDACTED)])"
proof -
  have s: "ts_sink demo_service" "st_events demo_start = []" by (simp_all add: demo_service_def demo_start_def)
  have "redact_mapping (case tool_get (ti_name demo_call) (ts_registry demo_service) of
      Some d \<Rightarrow> td_sensitive_arg_names d | None \<Rightarrow> []) REDACTED (ti_args demo_call) = [(''to'', JStr REDACTED)]"
    by code_simp
  with calls_are_announced_and_concluded [OF demo_run s(1)] s(2) show ?thesis by auto
qed

theorem success_is_validated_witness:
  "st_attempts (snd (execute_invocation demo_service demo_call demo_start)) \<noteq> []"
  using success_is_validated [OF demo_run] by auto

section \<open>A schema that makes a failing call raise\<close>

text \<open>
  A property schema may be a boolean in JSON Schema, and the validator accepts one; but
  a call that fails validation against such a schema does not return an INVALID_REQUEST
  result: composing the hint raises, after the call was announced.
\<close>

theorem boolean_property_schema_escapes:
  fixes schema defines "schema \<equiv> [(''type'', JStr ''object''),
      (''properties'', JObj [(''to'', JBool True)]), (''required'', JList [JStr ''to''])]"
  shows "validate_subset (\<lambda>_ _. None) (JObj [(''to'', JInt 1)]) (JObj schema) = Valid
    \<and> (let svc = demo_service\<lparr>ts_registry := tool_register (demo_payment\<lparr>td_args_schema := schema\<rparr>) None empty_tool_registry\<rparr>;
           out = execute_invocation svc (demo_call\<lparr>ti_args := []\<rparr>) demo_start
       in fst out = None \<and> map ev_type (st_events (snd out)) = [TOOL_CALLED])"
  unfolding assms by (intro conjI; code_simp)

end
