(* ===== verification/HitlResume.thy ===== *)
theory HitlResume
  imports ToolService Checkpoints
begin

text \<open>
  Resuming a run that a human decided on: the idempotency ledger kept in the checkpoint
  (himmy/runtime/single_agent.py), the detection of calls that await an approval, and the
  body of a resume up to the resolving save (himmy/runtime/resume.py). The conversation
  turns that follow belong to the agent loop, which is not modelled; the thread messages are
  represented by the tool returns they carry.

  The stores are the operations of a \<open>checkpoint_store\<close>. A resume may be cut short after
  any number of executed calls, which is a crash of its process.
\<close>

section \<open>Pausing\<close>

record tool_return =
  rr_call_id :: string
  rr_name :: string
  rr_content :: json
  rr_outcome :: string
  rr_metadata :: json_dict

text \<open>
  How a turn executes a tool: without a store and without metadata, under the id of the
  call (\<open>cid\<close>); the latency is left out.
\<close>

definition tool_executor :: "'w tool_service \<Rightarrow> string \<Rightarrow> string \<Rightarrow> json_dict \<Rightarrow> 'w tool_state
    \<Rightarrow> tool_return option \<times> 'w tool_state" where
  "tool_executor svc cid name args s =
     (case execute_invocation svc \<lparr>ti_call_id = cid, ti_name = name, ti_args = args, ti_metadata = []\<rparr> s of
        (r, s') \<Rightarrow>
          (map_option (\<lambda>res. \<lparr>rr_call_id = tr_call_id res, rr_name = tr_name res, rr_content = tr_result res,
             rr_outcome = tr_outcome res,
             rr_metadata = [(''error_code'', case tr_error_code res of None \<Rightarrow> JNull | Some c \<Rightarrow> JStr (error_code_value c)),
               (''error_message'', case tr_error_message res of None \<Rightarrow> JNull | Some m \<Rightarrow> JStr m)]\<rparr>) r, s'))"

text \<open>The calls of a turn that were denied for lack of an approval.\<close>

definition pending_approvals :: "pending_tool_call list \<Rightarrow> tool_return list \<Rightarrow> pending_tool_call list" where
  "pending_approvals calls returns =
     (let denied = set (map rr_call_id (filter (\<lambda>r. rr_outcome r = ''denied''
            \<and> map_of (rr_metadata r) ''error_code'' = Some (JStr ''POLICY_BLOCKED'')) returns))
      in filter (\<lambda>c. pc_call_id c \<in> denied) calls)"

definition save_checkpoint :: "(agent_checkpoint \<Rightarrow> 's \<Rightarrow> 's) \<Rightarrow> string \<Rightarrow> string \<Rightarrow> json_dict \<Rightarrow> json_dict \<Rightarrow> json_dict
    \<Rightarrow> json_dict \<Rightarrow> json_dict option \<Rightarrow> int \<Rightarrow> int \<Rightarrow> pending_tool_call list \<Rightarrow> 's \<Rightarrow> agent_checkpoint \<times> 's" where
  "save_checkpoint save cid now persona task thread ctx llm turns completed pending s =
     (let c = (new_checkpoint cid now)\<lparr>cp_persona := persona, cp_task := task, cp_thread := thread, cp_ctx := ctx,
            cp_llm_config := llm, cp_max_turns := turns, cp_turns_completed := completed, cp_pending := pending\<rparr>
      in (c, save c s))"

section \<open>The ledger\<close>

text \<open>\<open>ToolExecutionResult\<close> as a document and back.\<close>

definition dump_result :: "tool_result \<Rightarrow> json_dict" where
  "dump_result r =
     [(''tool_call_id'', JStr (tr_call_id r)), (''tool_name'', JStr (tr_name r)), (''outcome'', JStr (tr_outcome r)),
      (''result'', tr_result r), (''error_code'', dump_opt (\<lambda>c. JStr (error_code_value c)) (tr_error_code r)),
      (''error_message'', dump_opt JStr (tr_error_message r)), (''metadata'', JObj (tr_metadata r))]"

definition error_code_of :: "json \<Rightarrow> tool_error_code option" where
  "error_code_of v = Option.bind (str_of v) (map_of (map (\<lambda>c. (error_code_value c, c))
     [NOT_FOUND, POLICY_BLOCKED, CAPABILITY_DENIED, TIMEOUT, RATE_LIMITED, PROVIDER_UNAVAILABLE, INVALID_REQUEST,
      OUTPUT_VALIDATION, EXECUTION_ERROR, UNKNOWN]))"

definition validate_result :: "json_dict \<Rightarrow> tool_result option" where
  "validate_result d =
     Option.bind (field str_of ''tool_call_id'' None d) (\<lambda>cid.
     Option.bind (field str_of ''tool_name'' None d) (\<lambda>name.
     Option.bind (field str_of ''outcome'' None d) (\<lambda>outcome.
     Option.bind (field Some ''result'' (Some JNull) d) (\<lambda>result.
     Option.bind (field (opt_of error_code_of) ''error_code'' (Some None) d) (\<lambda>code.
     Option.bind (field (opt_of str_of) ''error_message'' (Some None) d) (\<lambda>msg.
     Option.bind (field obj_of ''metadata'' (Some []) d) (\<lambda>meta.
     Some \<lparr>tr_call_id = cid, tr_name = name, tr_outcome = outcome, tr_result = result, tr_error_code = code,
       tr_error_message = msg, tr_metadata = meta\<rparr>)))))))"

text \<open>
  The working copy of the checkpoint and the store. A lookup prefers the stored ledger, and
  an empty entry counts as none.
\<close>

type_synonym 's ledger = "agent_checkpoint \<times> 's"
type_synonym 's checkpoint_load = "string \<Rightarrow> 's \<Rightarrow> string + agent_checkpoint option"

definition ledger_get :: "'s checkpoint_load \<Rightarrow> 's ledger ledger_get" where
  "ledger_get load key = (\<lambda>(own, s).
     case load (cp_id own) s of
       Inl _ \<Rightarrow> None
     | Inr latest \<Rightarrow>
         (let stored = (case latest of Some c \<Rightarrow> cp_executed c | None \<Rightarrow> cp_executed own);
              raw = (case map_of stored key of
                       Some d \<Rightarrow> if d \<noteq> [] then Some d else map_of (cp_executed own) key
                     | None \<Rightarrow> map_of (cp_executed own) key)
          in case raw of
               None \<Rightarrow> Some (None, own, s)
             | Some d \<Rightarrow>
                 map_option (\<lambda>r. (Some r, own\<lparr>cp_executed := dict_setdefault key d (cp_executed own)\<rparr>, s))
                   (validate_result d)))"

definition ledger_put :: "(agent_checkpoint \<Rightarrow> 's \<Rightarrow> 's) \<Rightarrow> 's checkpoint_load \<Rightarrow> 's ledger ledger_put" where
  "ledger_put save load key r = (\<lambda>(own, s).
     case load (cp_id own) s of
       Inl _ \<Rightarrow> None
     | Inr latest \<Rightarrow>
         (let merged = (case latest of
                          None \<Rightarrow> cp_executed own
                        | Some c \<Rightarrow> fold (\<lambda>(k, v). dict_setdefault k v) (cp_executed c) (cp_executed own));
              own' = own\<lparr>cp_executed := AList.update key (dump_result r) merged\<rparr>
          in Some (own', save own' s)))"

section \<open>Resuming\<close>

definition HARD_MAX_TURNS :: int where "HARD_MAX_TURNS = 100"

definition validate_max_turns :: "int \<Rightarrow> string \<Rightarrow> string option" where
  "validate_max_turns n entry =
     (if n < 1 then Some (entry @ '' requires max_turns >= 1.'')
      else if n > HARD_MAX_TURNS then
        Some (entry @ '' requires max_turns <= '' @ int_str HARD_MAX_TURNS @ '' (got '' @ int_str n
          @ ''): the runtime enforces a hard turn ceiling.'')
      else None)"

text \<open>
  The runtime a resume runs on: its tools, and whether the stored persona, task, thread and
  context can be rebuilt (None) or not (the error).
\<close>

record 'w runtime =
  rt_tools :: "'w tool_service option"
  rt_rehydrate :: "agent_checkpoint \<Rightarrow> string option"

definition resume_invocation :: "pending_tool_call \<Rightarrow> tool_invocation" where
  "resume_invocation p =
     \<lparr>ti_call_id = pc_call_id p, ti_name = pc_name p, ti_args = pc_args p,
      ti_metadata = [(''approved'', JBool True), (''idempotency_key'', JStr (pc_call_id p))]\<rparr>"

definition granted_return :: "string \<Rightarrow> pending_tool_call \<Rightarrow> tool_result \<Rightarrow> tool_return" where
  "granted_return actor p r =
     \<lparr>rr_call_id = pc_call_id p, rr_name = pc_name p, rr_content = tr_result r, rr_outcome = tr_outcome r,
      rr_metadata = [(''approved_by'', JStr actor),
        (''error_code'', dump_opt (\<lambda>c. JStr (error_code_value c)) (tr_error_code r))]\<rparr>"

definition rejected_return :: "string \<Rightarrow> pending_tool_call \<Rightarrow> tool_return" where
  "rejected_return actor p =
     \<lparr>rr_call_id = pc_call_id p, rr_name = pc_name p,
      rr_content = JObj [(''rejected'', JBool True), (''reason'', JStr ''rejected by human'')],
      rr_outcome = ''rejected'', rr_metadata = [(''approved_by'', JStr actor)]\<rparr>"

text \<open>The approval event of a call, without the latency of the decision.\<close>

definition approval_event :: "bool \<Rightarrow> string \<Rightarrow> string \<Rightarrow> json \<Rightarrow> pending_tool_call \<Rightarrow> event_type \<times> string \<times> json_dict" where
  "approval_event yes cid actor agent_name p =
     (if yes then APPROVAL_GRANTED else APPROVAL_REJECTED, pc_call_id p,
      [(''checkpoint_id'', JStr cid), (''tool_name'', JStr (pc_name p)),
       (''decision'', JStr (if yes then ''granted'' else ''rejected'')), (''agent_name'', agent_name),
       (''actor'', JStr actor)])"

type_synonym call_trail = "(tool_invocation \<times> tool_result option \<times> nat) list"
type_synonym decided = "tool_return list \<times> (event_type \<times> string \<times> json_dict) list"

text \<open>
  The decision applied to a claimed and reloaded checkpoint: an error or what the thread and
  the event sink receive, the calls executed, and the state left. \<open>Some n\<close> is a process that
  dies after \<open>n\<close> of the calls.
\<close>

definition apply_decision :: "nat option \<Rightarrow> (agent_checkpoint \<Rightarrow> 's \<Rightarrow> 's) \<Rightarrow> 's checkpoint_load \<Rightarrow> 'w runtime
    \<Rightarrow> bool \<Rightarrow> string \<Rightarrow> agent_checkpoint \<Rightarrow> 'w tool_state \<times> 's \<Rightarrow> (string + decided) \<times> call_trail \<times> 'w tool_state \<times> 's" where
  "apply_decision crash save load rt yes actor c = (\<lambda>(w, s).
     let calls = (case crash of None \<Rightarrow> cp_pending c | Some n \<Rightarrow> take n (cp_pending c));
         events = map (approval_event yes (cp_id c) actor (json_get ''name'' JNull (cp_persona c))) calls
     in if \<not> yes then
          (Inr (map (rejected_return actor) calls, events), [], w,
           if crash = None then save (c\<lparr>cp_status := CP_REJECTED\<rparr>) s else s)
        else (case rt_tools rt of
                None \<Rightarrow> (Inl ''cannot resume approved: no tool_service to execute the action.'', [], w, s)
              | Some svc \<Rightarrow>
                  (case run_invocations (ledger_get load) (ledger_put save load) svc (map resume_invocation calls) (w, Some (c, s)) of
                     (trail, w', Some (own, s')) \<Rightarrow>
                       if \<not> all_returned trail then (Inl ''exception'', trail, w', s')
                       else (Inr (map (\<lambda>(p, _, r, _). granted_return actor p (the r)) (zip calls trail), events), trail, w',
                             if crash = None then save (own\<lparr>cp_status := CP_APPROVED\<rparr>) s' else s')
                   | (trail, w', None) \<Rightarrow> (Inl ''exception'', trail, w', s))))"

definition resume_until :: "nat option \<Rightarrow> (agent_checkpoint \<Rightarrow> 's \<Rightarrow> 's) \<Rightarrow> 's checkpoint_load \<Rightarrow> (string \<Rightarrow> 's \<Rightarrow> bool \<times> 's)
    \<Rightarrow> 'w runtime \<Rightarrow> string \<Rightarrow> bool \<Rightarrow> string \<Rightarrow> 'w tool_state \<times> 's \<Rightarrow> (string + decided) \<times> call_trail \<times> 'w tool_state \<times> 's" where
  "resume_until crash save load claim rt cid yes actor = (\<lambda>(w, s).
     case claim cid s of
       (False, s1) \<Rightarrow>
         (case load cid s1 of
            Inl e \<Rightarrow> (Inl e, [], w, s1)
          | Inr current \<Rightarrow>
              (Inl (''checkpoint '' @ repr_str cid @ '' already resolved (''
                 @ (case current of Some c \<Rightarrow> cp_status c | None \<Rightarrow> ''unknown'') @ '').''), [], w, s1))
     | (True, s1) \<Rightarrow>
         (case load cid s1 of
            Inl e \<Rightarrow> (Inl e, [], w, s1)
          | Inr None \<Rightarrow> (Inl (''unknown checkpoint '' @ repr_str cid @ ''.''), [], w, s1)
          | Inr (Some c) \<Rightarrow>
              (case validate_max_turns (cp_max_turns c) ''resume_agent_loop'' of
                 Some e \<Rightarrow> (Inl e, [], w, s1)
               | None \<Rightarrow>
                   if yes \<and> rt_tools rt = None then
                     (Inl ''cannot resume approved: no tool_service to execute the action.'', [], w, s1)
                   else (case rt_rehydrate rt c of
                           Some e \<Rightarrow> (Inl e, [], w, s1)
                         | None \<Rightarrow> apply_decision crash save load rt yes actor c (w, s1)))))"

definition resume_agent_loop_locked :: "(agent_checkpoint \<Rightarrow> 's \<Rightarrow> 's) \<Rightarrow> 's checkpoint_load \<Rightarrow> (string \<Rightarrow> 's \<Rightarrow> bool \<times> 's)
    \<Rightarrow> 'w runtime \<Rightarrow> string \<Rightarrow> bool \<Rightarrow> string \<Rightarrow> 'w tool_state \<times> 's \<Rightarrow> (string + decided) \<times> call_trail \<times> 'w tool_state \<times> 's" where
  "resume_agent_loop_locked = resume_until None"

text \<open>The public entry point; None stands for a runtime without a store.\<close>

definition resume_agent_loop :: "(agent_checkpoint \<Rightarrow> 's \<Rightarrow> 's) \<Rightarrow> 's checkpoint_load \<Rightarrow> (string \<Rightarrow> 's \<Rightarrow> bool \<times> 's)
    \<Rightarrow> 'w runtime \<Rightarrow> string \<Rightarrow> bool \<Rightarrow> string \<Rightarrow> 'w tool_state \<times> 's option
    \<Rightarrow> (string + decided) \<times> call_trail \<times> 'w tool_state \<times> 's option" where
  "resume_agent_loop save load claim rt cid yes actor = (\<lambda>(w, store).
     case store of
       None \<Rightarrow> (Inl ''resume_agent_loop requires a checkpoint_store.'', [], w, None)
     | Some s \<Rightarrow>
         (case load cid s of
            Inl e \<Rightarrow> (Inl e, [], w, store)
          | Inr None \<Rightarrow> (Inl (''unknown checkpoint '' @ repr_str cid @ ''.''), [], w, store)
          | Inr (Some _) \<Rightarrow>
              (case resume_agent_loop_locked save load claim rt cid yes actor (w, s) of
                 (out, trail, w', s') \<Rightarrow> (out, trail, w', Some s'))))"

text \<open>The final answer of a resumed member, written once the loop that follows has ended.\<close>

definition record_resume_final_output :: "(agent_checkpoint \<Rightarrow> 's \<Rightarrow> 's) \<Rightarrow> 's checkpoint_load \<Rightarrow> string
    \<Rightarrow> string \<Rightarrow> bool \<Rightarrow> string option \<Rightarrow> 's \<Rightarrow> string option \<times> 's" where
  "record_resume_final_output save load cid stopped has_turns output s =
     (if stopped = ''awaiting_approval'' then (None, s)
      else (case load cid s of
              Inl e \<Rightarrow> (Some e, s)
            | Inr None \<Rightarrow> (None, s)
            | Inr (Some latest) \<Rightarrow>
                (None, save (latest\<lparr>cp_final_output :=
                   Some (if has_turns then (case output of Some t \<Rightarrow> t | None \<Rightarrow> []) else [])\<rparr>) s)))"

section \<open>The ledger keeps its contract\<close>

lemma error_code_roundtrip: "opt_of error_code_of (dump_opt (\<lambda>c. JStr (error_code_value c)) x) = Some x"
proof (cases x)
  case (Some c)
  then show ?thesis by (cases c) (simp_all add: opt_of_def dump_opt_def error_code_of_def)
qed (simp add: opt_of_def dump_opt_def)

lemma result_roundtrip [simp]: "validate_result (dump_result r) = Some r"
  by (simp add: validate_result_def dump_result_def field_def error_code_roundtrip)

lemma dump_result_not_empty [simp]: "dump_result r \<noteq> []"
  by (simp add: dump_result_def)

lemma merge_known: "(\<forall>k \<in> fst ` set stored. map_of own k \<noteq> None) \<Longrightarrow> fold (\<lambda>(k, v). dict_setdefault k v) stored own = own"
  by (induction stored) (auto simp: dict_setdefault_def)

text \<open>A ledger whose entries are results, and the result it holds for a key.\<close>

definition sound_ledger :: "(string, json_dict) dict \<Rightarrow> bool" where
  "sound_ledger e \<longleftrightarrow> (\<forall>k d. map_of e k = Some d \<longrightarrow> (\<exists>r. d = dump_result r))"

definition recorded_results :: "agent_checkpoint \<Rightarrow> string \<Rightarrow> tool_result option" where
  "recorded_results c k = Option.bind (map_of (cp_executed c) k) validate_result"

lemma recorded_sound:
  assumes "sound_ledger (cp_executed c)"
  obtains (absent) "map_of (cp_executed c) k = None" "recorded_results c k = None"
  | (present) r where "map_of (cp_executed c) k = Some (dump_result r)" "recorded_results c k = Some r"
proof (cases "map_of (cp_executed c) k")
  case (Some d)
  with assms obtain r where "d = dump_result r" by (auto simp: sound_ledger_def)
  with Some show ?thesis by (intro present) (simp_all add: recorded_results_def)
qed (simp add: absent recorded_results_def)

lemma recorded_None_iff: "sound_ledger (cp_executed c) \<Longrightarrow> recorded_results c k = None \<longleftrightarrow> map_of (cp_executed c) k = None"
  by (cases rule: recorded_sound [of c k]) simp_all

text \<open>
  The working copy and the stored row of one checkpoint agree but for the order of their
  ledgers; the other rows are as they were.
\<close>

definition working_ledger :: "('s \<Rightarrow> bool) \<Rightarrow> ('s \<Rightarrow> checkpoint_map) \<Rightarrow> agent_checkpoint \<Rightarrow> checkpoint_map \<Rightarrow> 's ledger \<Rightarrow> bool" where
  "working_ledger store_ok rows c m = (\<lambda>(own, s).
     store_ok s \<and> cp_version c = CHECKPOINT_SCHEMA_VERSION \<and> sound_ledger (cp_executed own)
     \<and> own = c\<lparr>cp_executed := cp_executed own\<rparr>
     \<and> (\<exists>d. rows s = m(cp_id c \<mapsto> c\<lparr>cp_executed := d\<rparr>) \<and> map_of d = map_of (cp_executed own)))"

sublocale checkpoint_store \<subseteq> ledger: tool_ledger "ledger_get load" "ledger_put save load"
  "working_ledger store_ok rows c m" "\<lambda>l. recorded_results (fst l)" for c m
proof
  fix l :: "'s ledger" and k and r :: tool_result
  assume ok: "working_ledger store_ok rows c m l"
  obtain own s where l: "l = (own, s)" by fastforce
  from ok l have s: "store_ok s" "cp_version c = CHECKPOINT_SCHEMA_VERSION" "sound_ledger (cp_executed own)"
    and own: "own = c\<lparr>cp_executed := cp_executed own\<rparr>" by (auto simp: working_ledger_def)
  from ok l obtain d where d: "rows s = m(cp_id c \<mapsto> c\<lparr>cp_executed := d\<rparr>)" "map_of d = map_of (cp_executed own)"
    by (auto simp: working_ledger_def)
  from own obtain e where e: "own = c\<lparr>cp_executed := e\<rparr>" by blast
  have ids: "cp_id own = cp_id c" "cp_version own = cp_version c" by (simp_all add: e)
  have load: "load (cp_id own) s = Inr (Some (c\<lparr>cp_executed := d\<rparr>))"
    using load_row [OF s(1)] d(1) ids by simp
  show "\<exists>l'. ledger_get load k l = Some (recorded_results (fst l) k, l') \<and> working_ledger store_ok rows c m l'
      \<and> recorded_results (fst l') = recorded_results (fst l)"
    using s(3) by (cases rule: recorded_sound [of own k])
      (use ok l load d(2) in \<open>simp_all add: ledger_get_def dict_setdefault_def\<close>)
  let ?own = "own\<lparr>cp_executed := AList.update k (dump_result r) (cp_executed own)\<rparr>"
  have merged: "fold (\<lambda>(k, v). dict_setdefault k v) d (cp_executed own) = cp_executed own"
    by (rule merge_known) (metis d(2) map_of_eq_None_iff)
  have put: "ledger_put save load k r l = Some (?own, save ?own s)"
    using l load merged by (simp add: ledger_put_def Let_def)
  have sound: "sound_ledger (AList.update k (dump_result r) (cp_executed own))"
    using s(3) by (auto simp: sound_ledger_def)
  have "store_ok (save ?own s)" "rows (save ?own s) = (rows s)(cp_id c \<mapsto> ?own)"
    using save_row [OF s(1), of ?own] s(2) ids by simp_all
  moreover have eq: "?own = c\<lparr>cp_executed := AList.update k (dump_result r) (cp_executed own)\<rparr>"
    by (simp add: e)
  ultimately have st: "store_ok (save ?own s)"
    "rows (save ?own s) = m(cp_id c \<mapsto> c\<lparr>cp_executed := AList.update k (dump_result r) (cp_executed own)\<rparr>)"
    using d(1) by (simp_all add: e)
  have "working_ledger store_ok rows c m (?own, save ?own s)"
    unfolding working_ledger_def prod.case
  proof (intro conjI exI)
    show "?own = c\<lparr>cp_executed := cp_executed ?own\<rparr>" by (simp add: e)
  qed (rule st(1) s(2) st(2) | simp add: sound)+
  moreover have "recorded_results ?own = (recorded_results own)(k \<mapsto> r)"
    by (rule ext) (simp add: recorded_results_def)
  ultimately show "\<exists>l'. ledger_put save load k r l = Some l' \<and> working_ledger store_ok rows c m l'
      \<and> recorded_results (fst l') = (recorded_results (fst l))(k \<mapsto> r)"
    using put l by auto
qed

section \<open>What a resume does to the checkpoints\<close>

text \<open>
  Every row's ledger holds results only. A resume leaves the other rows alone, changes
  nothing but the status and the ledger of its own, and the ledger only grows.
\<close>

definition sound_rows :: "checkpoint_map \<Rightarrow> bool" where
  "sound_rows m \<longleftrightarrow> (\<forall>k c. m k = Some c \<longrightarrow> sound_ledger (cp_executed c))"

definition ledger_grows :: "agent_checkpoint \<Rightarrow> call_trail \<Rightarrow> agent_checkpoint \<Rightarrow> bool" where
  "ledger_grows c trail c' \<longleftrightarrow>
     (\<forall>key. (map_of (cp_executed c) key \<noteq> None \<longrightarrow> map_of (cp_executed c') key \<noteq> None)
       \<and> fired key trail \<le> (if map_of (cp_executed c) key = None \<and> map_of (cp_executed c') key \<noteq> None then 1 else 0))"

definition resumed_row :: "agent_checkpoint \<Rightarrow> call_trail \<Rightarrow> agent_checkpoint \<Rightarrow> bool" where
  "resumed_row c trail c' \<longleftrightarrow> sound_ledger (cp_executed c') \<and> (\<exists>st e. c' = c\<lparr>cp_status := st, cp_executed := e\<rparr>)
     \<and> (all_returned trail \<longrightarrow> ledger_grows c trail c')"

lemma ledger_grows_same [simp]: "cp_executed c' = cp_executed c \<Longrightarrow> ledger_grows c [] c'"
  by (simp add: ledger_grows_def fired_def)

lemma all_returned_Nil [simp]: "all_returned []"
  by (simp add: all_returned_def)

context checkpoint_store
begin

lemma working_start:
  assumes "store_ok s" and "rows s k = Some c" and "sound_ledger (cp_executed c)"
  shows "working_ledger store_ok rows c (rows s) (c, s)"
  using assms row_current [OF assms(1,2)]
  by (auto simp: working_ledger_def fun_eq_iff intro!: exI [of _ "cp_executed c"])

text \<open>The calls of one resume, on the claimed row.\<close>

lemma calls_effect:
  assumes "run_invocations (ledger_get load) (ledger_put save load) svc calls (w, Some (c, s)) = (trail, w', l)"
    and "store_ok s" and "rows s k = Some c" and "sound_ledger (cp_executed c)"
  obtains e s' d where "l = Some (c\<lparr>cp_executed := e\<rparr>, s')" "store_ok s'" "sound_ledger e"
    "rows s' = (rows s)(k \<mapsto> c\<lparr>cp_executed := d\<rparr>)" "map_of d = map_of e"
    "all_returned trail \<Longrightarrow> ledger_grows c trail (c\<lparr>cp_executed := e\<rparr>)"
proof -
  note start = working_start [OF assms(2-4)]
  obtain l1 where l1: "l = Some l1" "working_ledger store_ok rows c (rows s) l1"
    using ledger.run_invocations_keeps [OF assms(1) start] by blast
  have k: "cp_id c = k" using row_current [OF assms(2,3)] by simp
  from l1(2) obtain e s' d where p: "l1 = (c\<lparr>cp_executed := e\<rparr>, s')"
    and d: "rows s' = (rows s)(k \<mapsto> c\<lparr>cp_executed := d\<rparr>)" "map_of d = map_of e"
    and ok: "store_ok s'" "sound_ledger e"
    by (cases l1) (auto simp: working_ledger_def k)
  have "ledger_grows c trail (c\<lparr>cp_executed := e\<rparr>)" if ret: "all_returned trail"
  proof -
    let ?own = "c\<lparr>cp_executed := e\<rparr>"
    from ledger.fires_at_most_once [OF assms(1) start ret] l1(1) p
    have keep: "\<forall>key v. recorded_results c key = Some v \<longrightarrow> recorded_results ?own key = Some v"
      and count: "\<forall>key. fired key trail \<le> (if recorded_results c key = None \<and> recorded_results ?own key \<noteq> None then 1 else 0)"
      by auto
    have iff: "map_of (cp_executed c) key = None \<longleftrightarrow> recorded_results c key = None"
      "map_of (cp_executed ?own) key = None \<longleftrightarrow> recorded_results ?own key = None" for key
      using recorded_None_iff assms(4) ok(2) by simp_all
    show ?thesis unfolding ledger_grows_def iff using keep count by blast
  qed
  with that l1(1) p d ok show ?thesis by blast
qed

lemma apply_decision_effect:
  assumes "apply_decision crash save load rt yes actor c (w, s) = (out, trail, w', s')"
    and "store_ok s" and "rows s k = Some c" and "sound_ledger (cp_executed c)"
  shows "store_ok s' \<and> (\<exists>c'. rows s' = (rows s)(k \<mapsto> c') \<and> resumed_row c trail c')"
proof -
  have k: "cp_id c = k" "cp_version c = CHECKPOINT_SCHEMA_VERSION" using row_current [OF assms(2,3)] by simp_all
  have saved: "store_ok (save c' t) \<and> rows (save c' t) = (rows t)(k \<mapsto> c')"
    if "store_ok t" "cp_id c' = k" "cp_version c' = CHECKPOINT_SCHEMA_VERSION" for c' t
    using save_row [OF that(1,3)] that(2) by simp
  have idle: ?thesis if "s' = s" "trail = []"
  proof -
    have "resumed_row c [] c" using assms(4) by (auto simp: resumed_row_def intro!: exI [of _ "cp_status c"] exI [of _ "cp_executed c"])
    then show ?thesis using that assms(2,3) by (metis fun_upd_triv)
  qed
  show ?thesis
  proof (cases "yes \<and> rt_tools rt \<noteq> None")
    case False
    then consider "s' = s" "trail = []" | "s' = save (c\<lparr>cp_status := CP_REJECTED\<rparr>) s" "trail = []"
      using assms(1) by (auto simp: apply_decision_def Let_def split: if_splits option.splits)
    then show ?thesis
    proof cases
      case 2
      have "resumed_row c [] (c\<lparr>cp_status := CP_REJECTED\<rparr>)"
        using assms(4) by (auto simp: resumed_row_def intro!: exI [of _ CP_REJECTED] exI [of _ "cp_executed c"])
      then show ?thesis using 2 saved [OF assms(2)] k by auto
    qed (rule idle)
  next
    case True
    then obtain svc where svc: "rt_tools rt = Some svc" by blast
    define calls where "calls = (case crash of None \<Rightarrow> cp_pending c | Some n \<Rightarrow> take n (cp_pending c))"
    obtain t w1 l where r: "run_invocations (ledger_get load) (ledger_put save load) svc (map resume_invocation calls)
        (w, Some (c, s)) = (t, w1, l)" by (metis prod_cases3)
    from calls_effect [OF r assms(2-4)] obtain e s1 d where
      l: "l = Some (c\<lparr>cp_executed := e\<rparr>, s1)" "store_ok s1" "sound_ledger e"
        "rows s1 = (rows s)(k \<mapsto> c\<lparr>cp_executed := d\<rparr>)" "map_of d = map_of e"
      and grows: "all_returned t \<Longrightarrow> ledger_grows c t (c\<lparr>cp_executed := e\<rparr>)" by blast
    have trail: "trail = t"
      and s': "s' = s1 \<or> all_returned t \<and> s' = save (c\<lparr>cp_executed := e, cp_status := CP_APPROVED\<rparr>) s1"
      using assms(1) True svc r l(1) by (auto simp: apply_decision_def calls_def Let_def split: if_splits)
    from s' show ?thesis
    proof (elim disjE conjE)
      assume "s' = s1"
      moreover have "resumed_row c t (c\<lparr>cp_executed := d\<rparr>)"
        unfolding resumed_row_def using l(3,5) grows
        by (auto simp: sound_ledger_def ledger_grows_def intro!: exI [of _ "cp_status c"] exI [of _ d])
      ultimately show ?thesis using l(2,4) trail by blast
    next
      let ?c = "c\<lparr>cp_executed := e, cp_status := CP_APPROVED\<rparr>"
      assume s': "s' = save ?c s1" and ret: "all_returned t"
      have "resumed_row c t ?c"
        unfolding resumed_row_def using l(3) grows [OF ret]
        by (auto simp: ledger_grows_def intro!: exI [of _ CP_APPROVED] exI [of _ e])
      moreover have "store_ok s' \<and> rows s' = (rows s1)(k \<mapsto> ?c)"
        unfolding s' by (rule saved) (use l(2) k in simp_all)
      ultimately show ?thesis using l(4) trail by auto
    qed
  qed
qed

text \<open>A whole resume: refused without an effect on the rows, or the effect above on a claimed row.\<close>

lemma resume_effect:
  assumes "resume_until crash save load claim rt cid yes actor (w, s) = (out, trail, w', s')"
    and "store_ok s" and "sound_rows (rows s)"
  shows "store_ok s' \<and> (if claimable (rows s cid)
     then \<exists>c c'. rows s cid = Some c \<and> rows s' = (rows s)(cid \<mapsto> c') \<and> resumed_row c trail c'
     else rows s' = rows s \<and> trail = [] \<and> isl out)"
proof -
  obtain won s1 where cl: "claim cid s = (won, s1)" by fastforce
  note c1 = claim_decides [OF assms(2), of cid] claim_marks [OF assms(2), of cid]
  have s1: "store_ok s1" "rows s1 = (rows s)(cid := claim_row (rows s cid))" "won = claimable (rows s cid)"
    using c1 cl by simp_all
  show ?thesis
  proof (cases "claimable (rows s cid)")
    case False
    then have "rows s1 = rows s" using s1(2) by (simp add: claim_row_def fun_upd_idem)
    then show ?thesis using False assms(1) cl s1 load_row [OF s1(1), of cid]
      by (auto simp: resume_until_def split: option.splits)
  next
    case True
    then obtain c where c: "rows s cid = Some c" by (cases "rows s cid") simp_all
    let ?c = "c\<lparr>cp_status := CP_RESOLVING\<rparr>"
    have row: "rows s1 = (rows s)(cid \<mapsto> ?c)" using True c s1(2) by (simp add: claim_row_def)
    have sound: "sound_ledger (cp_executed c)" using assms(3) c by (auto simp: sound_rows_def)
    have idle: "resumed_row c [] ?c"
      using sound by (auto simp: resumed_row_def intro!: exI [of _ CP_RESOLVING] exI [of _ "cp_executed c"])
    have lift: "resumed_row ?c trail c' \<Longrightarrow> resumed_row c trail c'" for c'
      by (auto simp: resumed_row_def ledger_grows_def)
    have load: "load cid s1 = Inr (Some ?c)" using load_row [OF s1(1), of cid] row by simp
    consider "s' = s1" "trail = []" | "apply_decision crash save load rt yes actor ?c (w, s1) = (out, trail, w', s')"
      using assms(1) cl s1(3) True load by (auto simp: resume_until_def split: option.splits if_splits)
    then have "store_ok s' \<and> (\<exists>c'. rows s' = (rows s1)(cid \<mapsto> c') \<and> resumed_row c trail c')"
    proof cases
      case 1
      then show ?thesis using s1(1) row idle by auto
    next
      case 2
      from apply_decision_effect [OF 2 s1(1), of cid] row sound lift show ?thesis by auto
    qed
    then show ?thesis using True c row by auto
  qed
qed

end


section \<open>Histories of pauses, resumes and crashes\<close>

text \<open>
  What may happen to a store of checkpoints: a run pauses under a new id, a resume of any
  checkpoint on any runtime completes, fails or dies, a final output is recorded, and the
  rest of the system moves on. The trail keeps the executed calls with their checkpoint.
\<close>

type_synonym tagged_trail = "(string \<times> tool_invocation \<times> tool_result option \<times> nat) list"

inductive hitl_step :: "(agent_checkpoint \<Rightarrow> 's \<Rightarrow> 's) \<Rightarrow> 's checkpoint_load \<Rightarrow> (string \<Rightarrow> 's \<Rightarrow> bool \<times> 's)
    \<Rightarrow> 'w tool_state \<times> 's \<times> tagged_trail \<Rightarrow> 'w tool_state \<times> 's \<times> tagged_trail \<Rightarrow> bool" for save load claim where
  pause: "load cid s = Inr None \<Longrightarrow>
    save_checkpoint save cid now persona task thread ctx llm turns completed pending s = (c, s') \<Longrightarrow>
    hitl_step save load claim (w, s, tr) (w, s', tr)"
| resume: "resume_until crash save load claim rt cid yes actor (w, s) = (out, trail, w', s') \<Longrightarrow>
    hitl_step save load claim (w, s, tr) (w', s', tr @ map (Pair cid) trail)"
| finish: "record_resume_final_output save load cid stopped has_turns output s = (err, s') \<Longrightarrow>
    hitl_step save load claim (w, s, tr) (w, s', tr)"
| other: "hitl_step save load claim (w, s, tr) (w', s, tr)"

inductive_cases hitl_stepE: "hitl_step save load claim (w, s, tr) (w', s', tr')"

lemmas hitl_step_cases = hitl_stepE [consumes 1, case_names pause resume finish other]

lemmas history_induct = rtranclp_induct [of _ "(w, s, t)" "(w', s', t')", split_rule, consumes 1, case_names refl step]
  for w s t w' s' t'

definition trail_of :: "string \<Rightarrow> tagged_trail \<Rightarrow> call_trail" where
  "trail_of cid tr = map snd (filter (\<lambda>(i, _). i = cid) tr)"

lemma fired_Nil [simp]: "fired key [] = 0"
  by (simp add: fired_def)

lemma trail_of_append [simp]: "trail_of cid (tr @ tr') = trail_of cid tr @ trail_of cid tr'"
  by (simp add: trail_of_def)

lemma trail_of_tagged [simp]: "trail_of i (map (Pair cid) trail) = (if i = cid then trail else [])"
  by (auto simp: trail_of_def filter_map comp_def)

text \<open>A call fired for a checkpoint is in its ledger, unless an execution raised.\<close>

definition ledger_bound :: "checkpoint_map \<Rightarrow> string \<Rightarrow> string \<Rightarrow> nat" where
  "ledger_bound m cid key =
     (case m cid of None \<Rightarrow> 0 | Some c \<Rightarrow> if map_of (cp_executed c) key = None then 0 else 1)"

definition fired_recorded :: "checkpoint_map \<Rightarrow> tagged_trail \<Rightarrow> bool" where
  "fired_recorded m tr \<longleftrightarrow>
     (all_returned (map snd tr) \<longrightarrow> (\<forall>cid key. fired key (trail_of cid tr) \<le> ledger_bound m cid key))"

lemma ledger_bound_le: "ledger_bound m cid key \<le> 1"
  by (simp add: ledger_bound_def split: option.split)

text \<open>A resolved checkpoint keeps its decision, its calls and its trail.\<close>

definition same_decision :: "agent_checkpoint \<Rightarrow> agent_checkpoint \<Rightarrow> bool" where
  "same_decision c c' \<longleftrightarrow> cp_status c' = cp_status c \<and> cp_pending c' = cp_pending c \<and> cp_executed c' = cp_executed c"

lemma same_decision_trans: "same_decision c c' \<Longrightarrow> same_decision c' c'' \<Longrightarrow> same_decision c c''"
  by (simp add: same_decision_def)

context checkpoint_store
begin

text \<open>The effect of a step on the rows, one case each.\<close>

lemma hitl_step_rows:
  assumes "hitl_step save load claim (w, s, tr) (w', s', tr')" and "store_ok s" and "sound_rows (rows s)"
  obtains (pause) cid c where "store_ok s'" "rows s cid = None" "rows s' = (rows s)(cid \<mapsto> c)" "cp_executed c = []" "tr' = tr"
  | (resume) cid c c' trail where "store_ok s'" "rows s cid = Some c" "claimable_status (cp_status c)"
      "rows s' = (rows s)(cid \<mapsto> c')" "resumed_row c trail c'" "tr' = tr @ map (Pair cid) trail"
  | (finish) cid c c' where "store_ok s'" "rows s cid = Some c" "rows s' = (rows s)(cid \<mapsto> c')" "same_decision c c'" "tr' = tr"
  | (idle) "store_ok s'" "rows s' = rows s" "tr' = tr"
  using assms(1)
proof (cases rule: hitl_step_cases)
  case (pause cid now persona task thread ctx llm turns completed pending c)
  have "rows s cid = None" using pause load_row [OF assms(2), of cid] by simp
  moreover have c: "c = (new_checkpoint cid now)\<lparr>cp_persona := persona, cp_task := task, cp_thread := thread, cp_ctx := ctx,
            cp_llm_config := llm, cp_max_turns := turns, cp_turns_completed := completed, cp_pending := pending\<rparr>" "s' = save c s"
    using pause by (auto simp: save_checkpoint_def Let_def)
  moreover have "store_ok s' \<and> rows s' = (rows s)(cid \<mapsto> c)"
    using save_row [OF assms(2), of c] c by (simp add: new_checkpoint_def)
  ultimately show ?thesis using that(1) pause by (simp add: new_checkpoint_def)
next
  case (resume crash rt cid yes actor out trail)
  show ?thesis
  proof (cases "claimable (rows s cid)")
    case True
    with resume_effect [OF resume(2) assms(2,3)] obtain c c' where
      "store_ok s'" "rows s cid = Some c" "rows s' = (rows s)(cid \<mapsto> c')" "resumed_row c trail c'" by auto
    with True resume(1) that(2) show ?thesis by simp
  next
    case False
    with resume_effect [OF resume(2) assms(2,3)] resume(1) that(4) show ?thesis by simp
  qed
next
  case (finish cid stopped has_turns answer err)
  show ?thesis
  proof (cases "stopped \<noteq> ''awaiting_approval'' \<and> rows s cid \<noteq> None")
    case True
    then obtain c where c: "rows s cid = Some c" by blast
    then obtain t where "s' = save (c\<lparr>cp_final_output := t\<rparr>) s"
      using True finish load_row [OF assms(2), of cid] by (auto simp: record_resume_final_output_def)
    then show ?thesis using save_row [OF assms(2), of "c\<lparr>cp_final_output := t\<rparr>"] row_current [OF assms(2) c] c finish
      by (intro that(3) [of cid c "c\<lparr>cp_final_output := t\<rparr>"]) (simp_all add: same_decision_def)
  next
    case False
    then have "s' = s" using finish load_row [OF assms(2), of cid]
      by (auto simp: record_resume_final_output_def split: if_splits)
    then show ?thesis using that(4) assms(2) finish by simp
  qed
qed (use that(4) assms(2) in simp)

lemma hitl_step_sound:
  assumes "hitl_step save load claim (w, s, tr) (w', s', tr')" and "store_ok s" and "sound_rows (rows s)"
  shows "store_ok s' \<and> sound_rows (rows s')"
  using assms by (cases rule: hitl_step_rows)
    (use assms(3) in \<open>auto simp: sound_rows_def resumed_row_def same_decision_def sound_ledger_def\<close>)

lemma hitl_step_fired:
  assumes "hitl_step save load claim (w, s, tr) (w', s', tr')" and "store_ok s" and "sound_rows (rows s)"
    and "fired_recorded (rows s) tr"
  shows "fired_recorded (rows s') tr'"
  using assms(1-3)
proof (cases rule: hitl_step_rows)
  case (pause cid c)
  then have "ledger_bound (rows s') = ledger_bound (rows s)" by (intro ext) (simp add: ledger_bound_def)
  then show ?thesis using assms(4) pause(5) by (simp add: fired_recorded_def)
next
  case (finish cid c c')
  then have "ledger_bound (rows s') = ledger_bound (rows s)"
    by (intro ext) (simp add: ledger_bound_def same_decision_def)
  then show ?thesis using assms(4) finish(5) by (simp add: fired_recorded_def)
next
  case idle
  then show ?thesis using assms(4) by simp
next
  case (resume cid c c' trail)
  show ?thesis unfolding fired_recorded_def
  proof (intro impI allI)
    fix i key
    assume "all_returned (map snd tr')"
    then have ret: "all_returned (map snd tr)" "all_returned trail"
      by (auto simp: resume(6) all_returned_def)
    have old: "fired key (trail_of i tr) \<le> ledger_bound (rows s) i key"
      using assms(4) ret(1) by (auto simp: fired_recorded_def)
    have "ledger_grows c trail c'" using resume(5) ret(2) by (simp add: resumed_row_def)
    then have "(map_of (cp_executed c) key \<noteq> None \<longrightarrow> map_of (cp_executed c') key \<noteq> None)
        \<and> fired key trail \<le> (if map_of (cp_executed c) key = None \<and> map_of (cp_executed c') key \<noteq> None then 1 else 0)"
      by (simp add: ledger_grows_def)
    with old show "fired key (trail_of i tr') \<le> ledger_bound (rows s') i key"
      by (auto simp: ledger_bound_def resume(2,4,6) split: if_splits)
  qed
qed

lemma hitl_step_final:
  assumes "hitl_step save load claim (w, s, tr) (w', s', tr')" and "store_ok s" and "sound_rows (rows s)"
    and "rows s cid = Some c" and "\<not> claimable_status (cp_status c)"
  shows "\<exists>c'. rows s' cid = Some c' \<and> same_decision c c' \<and> trail_of cid tr' = trail_of cid tr"
  using assms(1-3) by (cases rule: hitl_step_rows) (use assms(4,5) in \<open>auto simp: same_decision_def\<close>)

text \<open>Along a whole history.\<close>

lemma hitl_history:
  assumes "rtranclp (hitl_step save load claim) (w, s, tr) (w', s', tr')" and "store_ok s" and "sound_rows (rows s)"
  shows "store_ok s' \<and> sound_rows (rows s') \<and> (fired_recorded (rows s) tr \<longrightarrow> fired_recorded (rows s') tr')"
    and "rows s cid = Some c \<Longrightarrow> \<not> claimable_status (cp_status c) \<Longrightarrow>
      \<exists>c'. rows s' cid = Some c' \<and> same_decision c c' \<and> trail_of cid tr' = trail_of cid tr"
proof -
  have "store_ok s' \<and> sound_rows (rows s') \<and> (fired_recorded (rows s) tr \<longrightarrow> fired_recorded (rows s') tr')
    \<and> (rows s cid = Some c \<longrightarrow> \<not> claimable_status (cp_status c) \<longrightarrow>
      (\<exists>c'. rows s' cid = Some c' \<and> same_decision c c' \<and> trail_of cid tr' = trail_of cid tr))"
    using assms(1)
  proof (induction rule: history_induct)
    case refl
    then show ?case using assms(2,3) by (auto simp: same_decision_def)
  next
    case (step w1 s1 tr1 w2 s2 tr2)
    from step.IH have ok: "store_ok s1" "sound_rows (rows s1)" by simp_all
    have "\<exists>c2. rows s2 cid = Some c2 \<and> same_decision c c2 \<and> trail_of cid tr2 = trail_of cid tr"
      if "rows s cid = Some c" "\<not> claimable_status (cp_status c)"
    proof -
      from step.IH that obtain c1 where c1: "rows s1 cid = Some c1" "same_decision c c1" "trail_of cid tr1 = trail_of cid tr"
        by blast
      then have "\<not> claimable_status (cp_status c1)" using that(2) by (simp add: same_decision_def)
      from hitl_step_final [OF step.hyps(2) ok c1(1) this] c1 show ?thesis
        by (metis same_decision_trans)
    qed
    then show ?case
      using hitl_step_sound [OF step.hyps(2) ok] hitl_step_fired [OF step.hyps(2) ok] step.IH by blast
  qed
  then show "store_ok s' \<and> sound_rows (rows s') \<and> (fired_recorded (rows s) tr \<longrightarrow> fired_recorded (rows s') tr')"
    "rows s cid = Some c \<Longrightarrow> \<not> claimable_status (cp_status c) \<Longrightarrow>
      \<exists>c'. rows s' cid = Some c' \<and> same_decision c c' \<and> trail_of cid tr' = trail_of cid tr" by blast+
qed

end


section \<open>Exactly once, and once decided\<close>



lemma run_invocations_length:
  "run_invocations get put svc calls st = (trail, st') \<Longrightarrow> all_returned trail \<Longrightarrow> length trail = length calls"
proof (induction calls arbitrary: st trail)
  case (Cons c cs)
  obtain r st1 where e: "execute get put svc c st = (r, st1)" by (cases "execute get put svc c st")
  obtain trail1 where t: "(if r = None then ([], st1) else run_invocations get put svc cs st1) = (trail1, st')"
    "trail = (c, r, length (st_attempts (fst st1)) - length (st_attempts (fst st))) # trail1"
    using Cons.prems(1) e by (auto split: prod.splits)
  with Cons.prems(2) have "r \<noteq> None" "all_returned trail1" by (auto simp: all_returned_def)
  with Cons.IH t show ?case by simp
qed simp

lemma granted_return_ids:
  "length trail = length ps \<Longrightarrow>
     map rr_call_id (map (\<lambda>(p, _, r, _). granted_return actor p (the r)) (zip ps trail)) = map pc_call_id ps"
  by (induction trail ps rule: list_induct2) (auto simp: granted_return_def)

text \<open>
  C6: What a returned resume did: the checkpoint was open and is now approved or rejected as
  decided; the thread received one tool return and the event sink one approval event per
  pending call, in order; and a rejection executed nothing.
\<close>

theorem resume_applies_the_decision:
  assumes "resume_agent_loop_locked sqlite_save (sqlite_load z) sqlite_claim rt cid yes actor (w, t)
      = (Inr (returns, events), trail, w', t')"
    and "sqlite_ok t" and "sound_rows (sqlite_rows z t)"
  shows "\<exists>c c'. sqlite_rows z t cid = Some c \<and> claimable (Some c)
    \<and> sqlite_rows z t' cid = Some c' \<and> cp_status c' = (if yes then CP_APPROVED else CP_REJECTED)
    \<and> cp_pending c' = cp_pending c
    \<and> map rr_call_id returns = map pc_call_id (cp_pending c)
    \<and> map (\<lambda>(kind, i, _). (kind, i)) events
        = map (\<lambda>p. (if yes then APPROVAL_GRANTED else APPROVAL_REJECTED, pc_call_id p)) (cp_pending c)
    \<and> (\<not> yes \<longrightarrow> trail = [] \<and> w' = w)"
proof -
  have r: "resume_until None sqlite_save (sqlite_load z) sqlite_claim rt cid yes actor (w, t)
      = (Inr (returns, events), trail, w', t')"
    using assms(1) by (simp add: resume_agent_loop_locked_def)
  from sqlite_checkpoints.resume_effect [OF r assms(2,3)] have opn: "claimable (sqlite_rows z t cid)"
    by (auto split: if_splits)
  then obtain c where c: "sqlite_rows z t cid = Some c" by (cases "sqlite_rows z t cid") simp_all
  let ?c = "c\<lparr>cp_status := CP_RESOLVING\<rparr>"
  obtain won s1 where cl: "sqlite_claim cid t = (won, s1)" by fastforce
  have s1: "won" "sqlite_ok s1" "sqlite_rows z s1 = (sqlite_rows z t)(cid \<mapsto> ?c)"
    using sqlite_checkpoints.claim_decides [OF assms(2), of cid z] sqlite_checkpoints.claim_marks [OF assms(2), of cid z]
      opn c cl by (simp_all add: claim_row_def)
  have row: "sqlite_rows z s1 cid = Some ?c" "sound_ledger (cp_executed ?c)"
    using s1(3) assms(3) c by (auto simp: sound_rows_def)
  have load: "sqlite_load z cid s1 = Inr (Some ?c)"
    using sqlite_checkpoints.load_row [OF s1(2), of z cid] row(1) by simp
  have app: "apply_decision None sqlite_save (sqlite_load z) rt yes actor ?c (w, s1) = (Inr (returns, events), trail, w', t')"
    using r cl s1(1) load by (auto simp: resume_until_def split: option.splits if_splits)
  have current: "cp_id c = cid" "cp_version c = CHECKPOINT_SCHEMA_VERSION"
    using sqlite_checkpoints.row_current [OF assms(2) c] by simp_all
  have saved: "sqlite_rows z (sqlite_save d s) cid = Some d"
    if "sqlite_ok s" "cp_id d = cid" "cp_version d = CHECKPOINT_SCHEMA_VERSION" for d s
    using sqlite_checkpoints.save_row [OF that(1,3), of z] that(2) by simp
  show ?thesis
  proof (cases yes)
    case False
    then have "t' = sqlite_save (?c\<lparr>cp_status := CP_REJECTED\<rparr>) s1" "trail = []" "w' = w"
      "returns = map (rejected_return actor) (cp_pending c)"
      "events = map (approval_event False cid actor (json_get ''name'' JNull (cp_persona c))) (cp_pending c)"
      using app current by (auto simp: apply_decision_def Let_def)
    then show ?thesis using False c opn saved [OF s1(2), of "?c\<lparr>cp_status := CP_REJECTED\<rparr>"] current
      by (auto simp: rejected_return_def approval_event_def comp_def)
  next
    case True
    obtain svc where svc: "rt_tools rt = Some svc"
      using app True by (cases "rt_tools rt") (auto simp: apply_decision_def Let_def)
    obtain tr w1 l where run: "run_invocations (ledger_get (sqlite_load z)) (ledger_put sqlite_save (sqlite_load z)) svc
        (map resume_invocation (cp_pending ?c)) (w, Some (?c, s1)) = (tr, w1, l)" by (metis prod_cases3)
    obtain e s2 d where l: "l = Some (?c\<lparr>cp_executed := e\<rparr>, s2)" "sqlite_ok s2"
      by (rule sqlite_checkpoints.calls_effect [OF run s1(2) row]) blast
    have fin: "all_returned tr" "trail = tr" "t' = sqlite_save (?c\<lparr>cp_executed := e, cp_status := CP_APPROVED\<rparr>) s2"
      "returns = map (\<lambda>(p, _, r, _). granted_return actor p (the r)) (zip (cp_pending c) tr)"
      "events = map (approval_event True cid actor (json_get ''name'' JNull (cp_persona c))) (cp_pending c)"
      using app True svc run l(1) current by (auto simp: apply_decision_def Let_def split: if_splits)
    have "length tr = length (cp_pending c)" using run_invocations_length [OF run fin(1)] by simp
    then have "map rr_call_id returns = map pc_call_id (cp_pending c)"
      unfolding fin(4) by (rule granted_return_ids)
    then show ?thesis using True c opn fin saved [OF l(2), of "?c\<lparr>cp_executed := e, cp_status := CP_APPROVED\<rparr>"] current
      by (auto simp: approval_event_def comp_def)
  qed
qed

section \<open>Two processes\<close>

text \<open>
  C40: The claim alone does not keep a second process out. On an open checkpoint a second
  claim, made before the first resume has resolved it, is won too, and both processes then
  look a call up in vain: nothing but the in-process lock, which another process does not
  share, stops both from executing it.
\<close>

theorem second_claim_is_won_too:
  assumes "sqlite_ok t" and "sqlite_rows z t cid = Some c" and "claimable_status (cp_status c)"
    and "map_of (cp_executed c) key = None"
  shows "let (won1, t1) = sqlite_claim cid t; (won2, t2) = sqlite_claim cid t1; own = c\<lparr>cp_status := CP_RESOLVING\<rparr>
    in won1 \<and> won2 \<and> sqlite_load z cid t1 = Inr (Some own) \<and> sqlite_load z cid t2 = Inr (Some own)
      \<and> ledger_get (sqlite_load z) key (own, t2) = Some (None, own, t2)"
proof -
  let ?own = "c\<lparr>cp_status := CP_RESOLVING\<rparr>"
  obtain won1 t1 where c1: "sqlite_claim cid t = (won1, t1)" by fastforce
  obtain won2 t2 where c2: "sqlite_claim cid t1 = (won2, t2)" by fastforce
  have t1: "won1" "sqlite_ok t1" "sqlite_rows z t1 cid = Some ?own"
    using sqlite_checkpoints.claim_decides [OF assms(1), of cid z] sqlite_checkpoints.claim_marks [OF assms(1), of cid z]
      assms(2,3) c1 by (simp_all add: claim_row_def)
  have t2: "won2" "sqlite_ok t2" "sqlite_rows z t2 cid = Some ?own"
    using sqlite_checkpoints.claim_decides [OF t1(2), of cid z] sqlite_checkpoints.claim_marks [OF t1(2), of cid z]
      t1(3) c2 by (simp_all add: claim_row_def claimable_status_def)
  have "cp_id c = cid" using sqlite_checkpoints.row_current [OF assms(1,2)] by simp
  moreover have "sqlite_load z cid t1 = Inr (Some ?own)" "sqlite_load z cid t2 = Inr (Some ?own)"
    using sqlite_checkpoints.load_row [OF t1(2), of z cid] sqlite_checkpoints.load_row [OF t2(2), of z cid] t1(3) t2(3)
    by simp_all
  ultimately show ?thesis using c1 c2 t1(1) t2(1) assms(4) by (simp add: ledger_get_def)
qed


section \<open>A denial that no approval can lift\<close>

definition demo_deny_hook :: "tool_invocation \<Rightarrow> tool_definition \<Rightarrow> nat \<Rightarrow> (string + tool_policy_decision) \<times> nat" where
  "demo_deny_hook call d w = (Inr \<lparr>pd_allow = False, pd_reason = None, pd_transformed_args = None\<rparr>, w)"

definition demo_strict_service :: "nat tool_service" where
  "demo_strict_service = demo_service
     \<lparr>ts_registry := tool_register (demo_payment\<lparr>td_requires_approval := False\<rparr>) None empty_tool_registry,
      ts_pre_hook := Some demo_deny_hook\<rparr>"

definition demo_pending :: pending_tool_call where
  "demo_pending = \<lparr>pc_call_id = ''k1'', pc_name = ''pay'', pc_args = [(''to'', JStr ''bob'')]\<rparr>"

text \<open>
  A call that the policy hook denies carries the same outcome and error code as one that
  lacks a human approval, so the run pauses and asks for one although the tool requires
  none; and the approved call is denied again.
\<close>

theorem policy_denial_is_taken_for_an_approval:
  "let (ret, s) = tool_executor demo_strict_service ''k1'' ''pay'' [(''to'', JStr ''bob'')] demo_start;
       (again, s') = execute_invocation demo_strict_service (resume_invocation demo_pending) s
   in pending_approvals [demo_pending] [the ret] = [demo_pending]
     \<and> map_option td_requires_approval (tool_get ''pay'' (ts_registry demo_strict_service)) = Some False
     \<and> map_option (\<lambda>r. (tr_outcome r, tr_error_code r)) again = Some (''denied'', Some POLICY_BLOCKED)
     \<and> st_attempts s' = []"
  by code_simp

section \<open>A crashed and retried resume\<close>

definition demo_runtime :: "nat runtime" where
  "demo_runtime = \<lparr>rt_tools = Some demo_service, rt_rehydrate = (\<lambda>_. None)\<rparr>"

definition demo_paused :: checkpoint_table where
  "demo_paused = snd (save_checkpoint sqlite_save ''cp1'' ''2026-01-01T00:00:00+00:00'' [] [] [] [] None 6 0 [demo_pending] [])"

text \<open>The process dies after the call; another one retries.\<close>

definition demo_crashed :: "(string + decided) \<times> call_trail \<times> nat tool_state \<times> checkpoint_table" where
  "demo_crashed = resume_until (Some 1) sqlite_save (sqlite_load demo_checkpoint) sqlite_claim demo_runtime ''cp1'' True ''ann''
     (demo_start, demo_paused)"

definition demo_retried :: "(string + decided) \<times> call_trail \<times> nat tool_state \<times> checkpoint_table" where
  "demo_retried = resume_until None sqlite_save (sqlite_load demo_checkpoint) sqlite_claim demo_runtime ''cp1'' True ''ann''
     (snd (snd demo_crashed))"

definition demo_trail :: tagged_trail where
  "demo_trail = map (Pair ''cp1'') (fst (snd demo_crashed)) @ map (Pair ''cp1'') (fst (snd demo_retried))"

lemma demo_history:
  "rtranclp (hitl_step sqlite_save (sqlite_load demo_checkpoint) sqlite_claim) (demo_start, [], [])
     (fst (snd (snd demo_retried)), snd (snd (snd demo_retried)), demo_trail)"
proof -
  let ?step = "hitl_step sqlite_save (sqlite_load demo_checkpoint) sqlite_claim"
  have "?step (demo_start, [], []) (demo_start, demo_paused, [])"
    unfolding demo_paused_def by (rule pause [OF _ prod.collapse [symmetric]]) (simp add: sqlite_load_def)
  moreover have "?step (demo_start, demo_paused, [])
      (fst (snd (snd demo_crashed)), snd (snd (snd demo_crashed)), [] @ map (Pair ''cp1'') (fst (snd demo_crashed)))"
    by (rule resume [where crash = "Some 1" and rt = demo_runtime and yes = True and actor = "''ann''" and out = "fst demo_crashed"])
      (simp add: demo_crashed_def)
  moreover have "?step (fst (snd (snd demo_crashed)), snd (snd (snd demo_crashed)), [] @ map (Pair ''cp1'') (fst (snd demo_crashed)))
      (fst (snd (snd demo_retried)), snd (snd (snd demo_retried)),
       ([] @ map (Pair ''cp1'') (fst (snd demo_crashed))) @ map (Pair ''cp1'') (fst (snd demo_retried)))"
    by (rule resume [where crash = None and rt = demo_runtime and yes = True and actor = "''ann''" and out = "fst demo_retried"])
      (simp add: demo_retried_def)
  ultimately show ?thesis unfolding demo_trail_def by (simp add: rtranclp.rtrancl_into_rtrancl)
qed

lemma demo_trail_facts:
  "all_returned (map snd demo_trail)" "map (\<lambda>(_, _, _, n). n) demo_trail = [2, 0]"
  by code_simp+


lemma demo_decided:
  "sqlite_ok (sqlite_save (demo_checkpoint\<lparr>cp_status := CP_APPROVED\<rparr>) [])"
  "sqlite_rows z (sqlite_save (demo_checkpoint\<lparr>cp_status := CP_APPROVED\<rparr>) []) = [''cp1'' \<mapsto> demo_checkpoint\<lparr>cp_status := CP_APPROVED\<rparr>]"
proof -
  have "sqlite_ok []" "sqlite_rows z [] = Map.empty" "cp_version demo_checkpoint = CHECKPOINT_SCHEMA_VERSION"
    "cp_id demo_checkpoint = ''cp1''"
    by (simp_all add: sqlite_ok_def sqlite_rows_def fun_eq_iff sqlite_load_def demo_checkpoint_def new_checkpoint_def)
  with sqlite_checkpoints.save_row [of "[]" "demo_checkpoint\<lparr>cp_status := CP_APPROVED\<rparr>" z]
  show "sqlite_ok (sqlite_save (demo_checkpoint\<lparr>cp_status := CP_APPROVED\<rparr>) [])"
    "sqlite_rows z (sqlite_save (demo_checkpoint\<lparr>cp_status := CP_APPROVED\<rparr>) []) = [''cp1'' \<mapsto> demo_checkpoint\<lparr>cp_status := CP_APPROVED\<rparr>]"
    by simp_all
qed


lemma demo_rejected:
  "fst (resume_agent_loop_locked sqlite_save (sqlite_load demo_checkpoint) sqlite_claim demo_runtime ''cp1'' False ''ann''
     (demo_start, demo_paused))
   = Inr (map (rejected_return ''ann'') [demo_pending], map (approval_event False ''cp1'' ''ann'' JNull) [demo_pending])"
  by code_simp

lemma demo_paused_ok:
  "sqlite_ok demo_paused" "sound_rows (sqlite_rows z demo_paused)"
proof -
  let ?c = "fst (save_checkpoint sqlite_save ''cp1'' ''2026-01-01T00:00:00+00:00'' [] [] [] [] None 6 0 [demo_pending] [])"
  have "demo_paused = sqlite_save ?c []" "cp_version ?c = CHECKPOINT_SCHEMA_VERSION" "cp_executed ?c = []"
    by (simp_all add: demo_paused_def save_checkpoint_def new_checkpoint_def Let_def)
  moreover have "sqlite_ok []" "sqlite_rows z [] = Map.empty"
    by (simp_all add: sqlite_ok_def sqlite_rows_def fun_eq_iff sqlite_load_def)
  ultimately show "sqlite_ok demo_paused" "sound_rows (sqlite_rows z demo_paused)"
    using sqlite_checkpoints.save_row [of "[]" ?c z] by (simp_all add: sound_rows_def sound_ledger_def)
qed

theorem resume_applies_the_decision_witness:
  "\<exists>c. sqlite_rows demo_checkpoint (snd (snd (snd (resume_agent_loop_locked sqlite_save (sqlite_load demo_checkpoint) sqlite_claim
     demo_runtime ''cp1'' False ''ann'' (demo_start, demo_paused))))) ''cp1'' = Some c \<and> cp_status c = CP_REJECTED"
  using resume_applies_the_decision [OF _ demo_paused_ok, of demo_checkpoint demo_runtime "''cp1''" False "''ann''" demo_start]
    demo_rejected by (metis prod.collapse)

theorem second_claim_is_won_too_witness:
  "fst (sqlite_claim ''cp1'' (snd (sqlite_claim ''cp1'' (sqlite_save demo_checkpoint []))))"
proof -
  have "claimable_status (cp_status demo_checkpoint)" "map_of (cp_executed demo_checkpoint) ''k1'' = None"
    by (simp_all add: claimable_status_def demo_checkpoint_def new_checkpoint_def)
  from second_claim_is_won_too [OF demo_table(1) demo_table(2) [of demo_checkpoint] this] show ?thesis
    by (auto simp: Let_def split: prod.splits)
qed

end
