(* ===== verification/Authn.thy ===== *)
theory Authn
  imports ToolGate
begin

text \<open>
  Authentication: the client address of himmy/api/auth/base.py, the hashed API keys with their
  expiry and live revocation file of himmy/api/auth/apikey.py, the choice of the authenticator
  and the request's identity of himmy/api/auth/context.py, the truth of environment flags of
  himmy/config/flags.py, the service principals of himmy/api/auth/service_principal.py, and the
  key of the rate limiter.

  SHA-256, HMAC, \<open>datetime.fromisoformat\<close>, the file system and the secrets provider are
  parameters. Seconds are exact rationals. Logging is left out.
\<close>

section \<open>Flags and comma lists\<close>

definition TRUTHY_TOKENS :: "string list" where
  "TRUTHY_TOKENS = [''1'', ''true'', ''yes'', ''on'', ''y'']"

definition FALSY_TOKENS :: "string list" where
  "FALSY_TOKENS = [''0'', ''false'', ''no'', ''off'', ''n'']"

definition truthy :: "string option \<Rightarrow> bool \<Rightarrow> bool" where
  "truthy v dflt =
     (case v of
        None \<Rightarrow> dflt
      | Some s \<Rightarrow> (let token = py_lower (py_strip py_is_space s)
                   in if token = [] then dflt else token \<in> set TRUTHY_TOKENS))"

definition falsy :: "string option \<Rightarrow> bool" where
  "falsy v = (case v of None \<Rightarrow> False | Some s \<Rightarrow> py_lower (py_strip py_is_space s) \<in> set FALSY_TOKENS)"

type_synonym environment = "string \<Rightarrow> string option"

definition env_truthy :: "environment \<Rightarrow> string \<Rightarrow> bool" where
  "env_truthy env name = truthy (env name) False"

definition env_falsy :: "environment \<Rightarrow> string \<Rightarrow> bool" where
  "env_falsy env name = falsy (env name)"

text \<open>\<open>s.split(c)\<close> of one character, and the stripped non-empty parts of a comma list.\<close>

fun split_char :: "char \<Rightarrow> string \<Rightarrow> string list" where
  "split_char c [] = [[]]"
| "split_char c (x # xs) =
     (if x = c then [] # split_char c xs
      else case split_char c xs of [] \<Rightarrow> [[x]] | w # ws \<Rightarrow> (x # w) # ws)"

definition comma_list :: "string \<Rightarrow> string list" where
  "comma_list s = filter (\<lambda>t. t \<noteq> []) (map (py_strip py_is_space) (split_char (CHR '','') s))"

definition text_or_empty :: "string option \<Rightarrow> string" where
  "text_or_empty v = (case v of None \<Rightarrow> [] | Some s \<Rightarrow> s)"

section \<open>The client address\<close>

text \<open>A request: its headers under lower-case names, and the address of the transport peer.\<close>

record http_request =
  rq_headers :: "(string, string) dict"
  rq_client :: "string option"

definition rq_header :: "http_request \<Rightarrow> string \<Rightarrow> string option" where
  "rq_header rq name = map_of (rq_headers rq) (py_lower name)"

definition trusted_proxies :: "environment \<Rightarrow> string list" where
  "trusted_proxies env = comma_list (text_or_empty (env ''HIMMY_TRUSTED_PROXIES''))"

definition peer_ip :: "http_request \<Rightarrow> string option" where
  "peer_ip rq = rq_client rq"

definition client_ip :: "environment \<Rightarrow> http_request \<Rightarrow> string option" where
  "client_ip env rq =
     (let trusted = set (trusted_proxies env)
      in case peer_ip rq of
           None \<Rightarrow> None
         | Some peer \<Rightarrow>
             if peer \<in> trusted then
               (case rq_header rq ''x-forwarded-for'' of
                  None \<Rightarrow> Some peer
                | Some forwarded \<Rightarrow>
                    if forwarded = [] then Some peer
                    else (case find (\<lambda>t. t \<notin> trusted) (rev (comma_list forwarded)) of
                            Some t \<Rightarrow> Some t
                          | None \<Rightarrow> Some peer))
             else Some peer)"

definition default_key :: "environment \<Rightarrow> http_request \<Rightarrow> principal \<Rightarrow> string" where
  "default_key env rq p =
     (if (\<not> pr_all_tenants p \<or> pr_auth_method p \<noteq> ''anonymous'') \<and> pr_subject p \<noteq> [] \<and> pr_subject p \<noteq> ''anonymous''
      then ''sub:'' @ pr_subject p
      else ''ip:'' @ (case client_ip env rq of Some ip \<Rightarrow> if ip = [] then ''unknown'' else ip | None \<Rightarrow> ''unknown''))"

section \<open>Keys\<close>

datatype auth_failure = AuthError string | ServerError string

text \<open>The digests, over the texts whose bytes they read, and the parser of ISO timestamps: wall-clock seconds and offset.\<close>

record key_crypto =
  kc_hmac :: "string \<Rightarrow> string \<Rightarrow> string"
  kc_sha :: "string \<Rightarrow> string"
  kc_iso :: "string \<Rightarrow> (rat \<times> rat option) option"

definition DEFAULT_HEADER :: string where "DEFAULT_HEADER = ''x-himmy-internal-key''"
definition DEMOTED_SHARED_KEY_ROLES :: "string list" where "DEMOTED_SHARED_KEY_ROLES = [''operator'']"

text \<open>\<open>pepper\<close> is the value of the memo, resolved once per process.\<close>

definition hash_key :: "key_crypto \<Rightarrow> string \<Rightarrow> string \<Rightarrow> string" where
  "hash_key kc pepper secret = (if pepper \<noteq> [] then kc_hmac kc pepper secret else kc_sha kc secret)"

definition fingerprint :: "key_crypto \<Rightarrow> string \<Rightarrow> string" where
  "fingerprint kc key = take 12 (kc_sha kc key)"

text \<open>
  \<open>text.isdigit()\<close> holds of the superscript digits of Latin-1 too, which \<open>float\<close> refuses.
\<close>

definition is_digit_char :: "char \<Rightarrow> bool" where
  "is_digit_char c = (let n = of_char c :: nat in 48 \<le> n \<and> n \<le> 57)"

definition is_superscript :: "char \<Rightarrow> bool" where
  "is_superscript c = (let n = of_char c :: nat in n = 178 \<or> n = 179 \<or> n = 185)"

definition digits_value :: "string \<Rightarrow> nat" where
  "digits_value s = foldl (\<lambda>n c. 10 * n + (of_char c - 48)) 0 s"

definition parse_expiry :: "key_crypto \<Rightarrow> json \<Rightarrow> auth_failure + rat option" where
  "parse_expiry kc v =
     (if v = JNull \<or> v = JStr [] then Inr None
      else case v of
             JBool b \<Rightarrow> Inr (Some (if b then 1 else 0))
           | JInt n \<Rightarrow> Inr (Some (of_int n))
           | _ \<Rightarrow>
               (let t = py_strip py_is_space (py_str v)
                in if t \<noteq> [] \<and> (\<forall>c \<in> set t. is_digit_char c \<or> is_superscript c) then
                     (if \<exists>c \<in> set t. is_superscript c then Inl (ServerError ''ValueError'')
                      else Inr (Some (of_nat (digits_value t))))
                   else (let iso = (if t \<noteq> [] \<and> last t = CHR ''Z'' then butlast t @ ''+00:00'' else t)
                         in case kc_iso kc iso of
                              None \<Rightarrow> Inl (ServerError ''ValueError'')
                            | Some (wall, offset) \<Rightarrow> Inr (Some (wall - (case offset of Some d \<Rightarrow> d | None \<Rightarrow> 0))))))"

record key_record =
  kr_key_id :: string
  kr_key_hash :: string
  kr_principal :: principal
  kr_created_at :: rat
  kr_expires_at :: "rat option"
  kr_disabled :: bool

definition is_expired :: "key_record \<Rightarrow> rat \<Rightarrow> bool" where
  "is_expired r now = (case kr_expires_at r of None \<Rightarrow> False | Some t \<Rightarrow> now \<ge> t)"

definition from_secret :: "key_crypto \<Rightarrow> string \<Rightarrow> rat \<Rightarrow> string \<Rightarrow> principal \<Rightarrow> rat option \<Rightarrow> bool \<Rightarrow> key_record" where
  "from_secret kc pepper now secret p expires_at disabled =
     \<lparr>kr_key_id = fingerprint kc secret, kr_key_hash = hash_key kc pepper secret, kr_principal = p,
      kr_created_at = now, kr_expires_at = expires_at, kr_disabled = disabled\<rparr>"

section \<open>The revocation list\<close>

text \<open>What a probe of the file finds: the stat fingerprint and the parsed content, or errors.\<close>

record revocation_file =
  rf_stat :: "string + int \<times> int \<times> int"
  rf_read :: "string + json"

record revocation_list =
  rl_path :: "string option"
  rl_stat_interval :: rat
  rl_fingerprint :: "(int \<times> int \<times> int) option"
  rl_revoked :: "string set"
  rl_ever_loaded :: bool
  rl_last_error :: "string option"
  rl_last_stat_at :: rat

definition new_revocation_list :: "string option \<Rightarrow> rat \<Rightarrow> revocation_list" where
  "new_revocation_list path interval =
     \<lparr>rl_path = (if path = Some [] then None else path), rl_stat_interval = interval, rl_fingerprint = None,
      rl_revoked = {}, rl_ever_loaded = False, rl_last_error = None, rl_last_stat_at = 0\<rparr>"

definition on_failure :: "string \<Rightarrow> revocation_list \<Rightarrow> bool \<times> revocation_list" where
  "on_failure message rl = (False, rl\<lparr>rl_last_error := Some message\<rparr>)"

text \<open>The ids a parsed revocation file names; any other shape names none.\<close>

definition revoked_ids :: "json \<Rightarrow> string set" where
  "revoked_ids raw =
     (let listed = (case raw of JObj d \<Rightarrow> json_get ''revoked'' (JList []) d | _ \<Rightarrow> raw)
      in case listed of JList vs \<Rightarrow> set (map py_str vs) | _ \<Rightarrow> {})"

definition refresh :: "rat \<Rightarrow> revocation_file \<Rightarrow> revocation_list \<Rightarrow> bool \<times> revocation_list" where
  "refresh now file rl =
     (if rl_stat_interval rl > 0 \<and> rl_ever_loaded rl \<and> rl_last_error rl = None
          \<and> now - rl_last_stat_at rl < rl_stat_interval rl then (True, rl)
      else (let rl1 = rl\<lparr>rl_last_stat_at := now\<rparr>; path = text_or_empty (rl_path rl)
            in case rf_stat file of
                 Inl e \<Rightarrow> on_failure (''cannot stat revocation file '' @ path @ '': '' @ e) rl1
               | Inr fp \<Rightarrow>
                   if Some fp = rl_fingerprint rl \<and> rl_ever_loaded rl then (True, rl1)
                   else (case rf_read file of
                           Inl e \<Rightarrow> on_failure (''cannot read/parse revocation file '' @ path @ '': '' @ e) rl1
                         | Inr raw \<Rightarrow>
                             (True, rl1\<lparr>rl_revoked := revoked_ids raw, rl_fingerprint := Some fp,
                                rl_ever_loaded := True, rl_last_error := None\<rparr>))))"

definition is_revoked :: "bool \<Rightarrow> rat \<Rightarrow> revocation_file \<Rightarrow> string \<Rightarrow> revocation_list
    \<Rightarrow> (auth_failure + bool) \<times> revocation_list" where
  "is_revoked fail_closed now file key_id rl =
     (if rl_path rl = None then (Inr False, rl)
      else case refresh now file rl of
             (trusted, rl1) \<Rightarrow>
               if \<not> trusted \<and> fail_closed then (Inl (AuthError ''revocation list unavailable''), rl1)
               else (Inr (key_id \<in> rl_revoked rl1), rl1))"

section \<open>The authenticator\<close>

record api_key_authenticator =
  au_header :: string
  au_records :: "key_record list"
  au_mapped_present :: bool
  au_revocations :: revocation_list

text \<open>
  The process the authenticator lives in: environment, pepper, digests, and the fail-closed
  switch read from the environment.
\<close>

record auth_host =
  ah_env :: environment
  ah_pepper :: string
  ah_crypto :: key_crypto

definition REVOCATION_FILE_ENV :: string where "REVOCATION_FILE_ENV = ''HIMMY_API_KEY_REVOCATION_FILE''"
definition REVOCATION_FAIL_CLOSED_ENV :: string where
  "REVOCATION_FAIL_CLOSED_ENV = ''HIMMY_API_KEY_REVOCATION_FAIL_CLOSED''"

definition shared_principal :: "auth_host \<Rightarrow> string list option \<Rightarrow> string \<Rightarrow> principal" where
  "shared_principal h roles key =
     principal_build (''apikey:'' @ fingerprint (ah_crypto h) key) []
       (case roles of Some rs \<Rightarrow> rs | None \<Rightarrow> [''admin'']) [] (roles = None) ''apikey'' None None False"

text \<open>
  \<open>shared\<close> is the set of shared keys in its iteration order, \<open>mapped\<close> the dictionary of key
  principals, \<open>records\<close> the prepared records.
\<close>

definition new_authenticator :: "auth_host \<Rightarrow> rat \<Rightarrow> string list \<Rightarrow> (string \<times> principal) list \<Rightarrow> string
    \<Rightarrow> string list option \<Rightarrow> key_record list \<Rightarrow> string option \<Rightarrow> rat \<Rightarrow> auth_failure + api_key_authenticator" where
  "new_authenticator h now shared mapped header roles records revocation_path interval =
     (let make = (\<lambda>key p. from_secret (ah_crypto h) (ah_pepper h) now key p None False);
          all_records = records @ map (\<lambda>(key, p). make key p) mapped
            @ map (\<lambda>key. make key (shared_principal h roles key)) shared;
          path = (case revocation_path of None \<Rightarrow> ah_env h REVOCATION_FILE_ENV | Some p \<Rightarrow> Some p)
      in if all_records = [] then Inl (AuthError ''ApiKeyAuthenticator needs at least one configured key'')
         else Inr \<lparr>au_header = header, au_records = all_records, au_mapped_present = (mapped \<noteq> [] \<or> records \<noteq> []),
                au_revocations = new_revocation_list path interval\<rparr>)"

definition binds_tenants :: "api_key_authenticator \<Rightarrow> bool" where
  "binds_tenants au = au_mapped_present au"

definition binds_concrete_tenants :: "api_key_authenticator \<Rightarrow> bool" where
  "binds_concrete_tenants au =
     list_ex (\<lambda>r. \<not> pr_all_tenants (kr_principal r) \<and> pr_tenant_ids (kr_principal r) \<noteq> {}) (au_records au)"

definition with_ip :: "principal \<Rightarrow> string option \<Rightarrow> principal" where
  "with_ip p ip = (if ip = None \<or> pr_source_ip p = ip then p else p\<lparr>pr_source_ip := ip\<rparr>)"

text \<open>What a request meets: the wall clock, the monotonic clock and the revocation file.\<close>

record auth_moment =
  am_now :: rat
  am_monotonic :: rat
  am_file :: revocation_file

definition authenticate :: "auth_host \<Rightarrow> auth_moment \<Rightarrow> http_request \<Rightarrow> api_key_authenticator
    \<Rightarrow> (auth_failure + principal) \<times> api_key_authenticator" where
  "authenticate h m rq au =
     (let provided = text_or_empty (rq_header rq (au_header au))
      in if provided = [] then (Inl (AuthError ''missing api key''), au)
         else case find (\<lambda>r. kr_key_hash r = hash_key (ah_crypto h) (ah_pepper h) provided) (au_records au) of
                None \<Rightarrow> (Inl (AuthError ''invalid api key''), au)
              | Some r \<Rightarrow>
                  if kr_disabled r then (Inl (AuthError ''api key disabled''), au)
                  else if is_expired r (am_now m) then (Inl (AuthError ''api key expired''), au)
                  else (case is_revoked (env_truthy (ah_env h) REVOCATION_FAIL_CLOSED_ENV) (am_monotonic m) (am_file m)
                               (kr_key_id r) (au_revocations au) of
                          (Inl e, rl) \<Rightarrow> (Inl e, au\<lparr>au_revocations := rl\<rparr>)
                        | (Inr True, rl) \<Rightarrow> (Inl (AuthError ''api key revoked''), au\<lparr>au_revocations := rl\<rparr>)
                        | (Inr False, rl) \<Rightarrow>
                            (Inr (with_ip (kr_principal r) (client_ip (ah_env h) rq)), au\<lparr>au_revocations := rl\<rparr>)))"

section \<open>The key file\<close>

text \<open>\<open>[str(x) for x in (v or [])]\<close>; iterating a number raises.\<close>

definition text_items :: "json \<Rightarrow> auth_failure + string list" where
  "text_items v =
     (if \<not> json_truthy v then Inr []
      else case v of
             JList vs \<Rightarrow> Inr (map py_str vs)
           | JStr s \<Rightarrow> Inr (map (\<lambda>c. [c]) s)
           | JObj d \<Rightarrow> Inr (map fst d)
           | _ \<Rightarrow> Inl (ServerError ''TypeError''))"

type_synonym key_spec = "principal \<times> rat option \<times> bool"

definition load_spec :: "key_crypto \<Rightarrow> string \<Rightarrow> json_dict \<Rightarrow> auth_failure + key_spec" where
  "load_spec kc key spec =
     (let get = (\<lambda>k. json_get k JNull spec);
          subject = (if json_truthy (get ''subject'') then py_str (get ''subject'') else ''apikey:'' @ fingerprint kc key)
      in case text_items (get ''tenant_ids'') of
           Inl e \<Rightarrow> Inl e
         | Inr tenants \<Rightarrow>
             (case text_items (get ''roles'') of
                Inl e \<Rightarrow> Inl e
              | Inr roles \<Rightarrow>
                  (case text_items (get ''scopes'') of
                     Inl e \<Rightarrow> Inl e
                   | Inr scopes \<Rightarrow>
                       (case parse_expiry kc (get ''expires_at'') of
                          Inl e \<Rightarrow> Inl e
                        | Inr expires \<Rightarrow>
                            Inr (principal_build subject tenants roles scopes (json_truthy (get ''all_tenants'')) ''apikey''
                                   None None (json_truthy (get ''subject_scoped'')),
                                 expires, json_truthy (get ''disabled''))))))"

fun load_specs :: "key_crypto \<Rightarrow> json_dict \<Rightarrow> auth_failure + (string \<times> key_spec) list" where
  "load_specs kc [] = Inr []"
| "load_specs kc ((key, raw) # d) =
     (case (if json_truthy raw then raw else JObj []) of
        JObj spec \<Rightarrow>
          (case load_spec kc key spec of
             Inl e \<Rightarrow> Inl e
           | Inr k \<Rightarrow> map_sum id (\<lambda>ks. (key, k) # ks) (load_specs kc d))
      | _ \<Rightarrow> Inl (ServerError ''AttributeError''))"

text \<open>A file is its parsed content, or the name of the exception reading it raises.\<close>

definition load_records :: "key_crypto \<Rightarrow> string \<Rightarrow> string + json \<Rightarrow> auth_failure + (string \<times> key_spec) list" where
  "load_records kc path content =
     (case content of
        Inl e \<Rightarrow> Inl (ServerError e)
      | Inr (JObj d) \<Rightarrow> load_specs kc d
      | Inr _ \<Rightarrow> Inl (AuthError (''api-keys file '' @ path @ '' must be a JSON object'')))"

definition load_key_principals :: "key_crypto \<Rightarrow> string \<Rightarrow> string + json \<Rightarrow> auth_failure + (string \<times> principal) list" where
  "load_key_principals kc path content = map_sum id (map (\<lambda>(key, p, _). (key, p))) (load_records kc path content)"

definition load_key_records :: "auth_host \<Rightarrow> rat \<Rightarrow> string \<Rightarrow> string + json \<Rightarrow> auth_failure + key_record list" where
  "load_key_records h now path content =
     map_sum id (map (\<lambda>(key, p, expires, disabled). from_secret (ah_crypto h) (ah_pepper h) now key p expires disabled))
       (load_records (ah_crypto h) path content)"

section \<open>The identity of a request\<close>

definition is_multi_tenant :: "environment \<Rightarrow> bool" where
  "is_multi_tenant env \<longleftrightarrow> env_truthy env ''HIMMY_MULTI_TENANT''
     \<or> py_lower (text_or_empty (env ''HIMMY_AUTH_MODE'')) \<notin> {[], ''none''}"

text \<open>The OpenID authenticator, built elsewhere, is a function of the request.\<close>

datatype authenticator =
    Oidc "http_request \<Rightarrow> auth_failure + principal"
  | ApiKeys api_key_authenticator

text \<open>
  \<open>secret\<close> is the secrets provider, \<open>files\<close> the content of the key file at a path. The shared keys
  are a set; the order of the list they come from stands for its iteration order.
\<close>

definition build_authenticator :: "auth_host \<Rightarrow> rat \<Rightarrow> (string \<Rightarrow> string option) \<Rightarrow> (string \<Rightarrow> string + json)
    \<Rightarrow> (http_request \<Rightarrow> auth_failure + principal) \<Rightarrow> auth_failure + authenticator option" where
  "build_authenticator h now secret files oidc =
     (let env = ah_env h
      in if py_lower (text_or_empty (env ''HIMMY_AUTH_MODE'')) = ''oidc'' then Inr (Some (Oidc oidc))
         else (let header = (case env ''HIMMY_INTERNAL_HEADER'' of None \<Rightarrow> DEFAULT_HEADER | Some name \<Rightarrow> name);
                   shared = remdups (comma_list (text_or_empty (secret ''HIMMY_INTERNAL_API_KEY'')));
                   keys_file = text_or_empty (env ''HIMMY_API_KEYS_FILE'')
               in case (if keys_file = [] then Inr [] else load_key_records h now keys_file (files keys_file)) of
                    Inl e \<Rightarrow> Inl e
                  | Inr records \<Rightarrow>
                      if shared = [] \<and> records = [] then Inr None
                      else map_sum id (\<lambda>au. Some (ApiKeys au))
                             (new_authenticator h now shared [] header
                                (if is_multi_tenant env \<or> records \<noteq> [] then Some DEMOTED_SHARED_KEY_ROLES else None)
                                records None 0)))"

text \<open>The dependency of every route: the principal, 401, or an internal error.\<close>

definition principal_dependency :: "auth_host \<Rightarrow> auth_moment \<Rightarrow> http_request \<Rightarrow> authenticator option
    \<Rightarrow> (http_error + principal) \<times> authenticator option" where
  "principal_dependency h m rq auth =
     (let answer = (\<lambda>a. case a of
            Inr p \<Rightarrow> Inr p
          | Inl (AuthError detail) \<Rightarrow> Inl (Http 401 detail)
          | Inl (ServerError e) \<Rightarrow> Inl (Http 500 e))
      in case auth of
           None \<Rightarrow> (Inr ANONYMOUS, auth)
         | Some (Oidc f) \<Rightarrow> (answer (f rq), auth)
         | Some (ApiKeys au) \<Rightarrow> (case authenticate h m rq au of (a, au') \<Rightarrow> (answer a, Some (ApiKeys au'))))"

section \<open>Service principals\<close>

definition CONNECTOR_SERVICE_SUBJECT :: string where "CONNECTOR_SERVICE_SUBJECT = ''service:connector-inbound''"
definition ROUTINE_SERVICE_SUBJECT :: string where "ROUTINE_SERVICE_SUBJECT = ''service:routine''"
definition DEFAULT_SERVICE_ROLES :: "string list" where "DEFAULT_SERVICE_ROLES = [''operator'']"

definition connector_service_principal :: "string \<Rightarrow> string list \<Rightarrow> principal" where
  "connector_service_principal ws roles =
     \<lparr>pr_subject = CONNECTOR_SERVICE_SUBJECT, pr_tenant_ids = {ws}, pr_roles = set roles, pr_scopes = {},
      pr_all_tenants = False, pr_auth_method = ''service'', pr_source_ip = None, pr_claims = [], pr_subject_scoped = False\<rparr>"

definition routine_service_principal :: "string \<Rightarrow> string list \<Rightarrow> principal" where
  "routine_service_principal ws roles =
     \<lparr>pr_subject = ROUTINE_SERVICE_SUBJECT, pr_tenant_ids = {ws}, pr_roles = set roles, pr_scopes = {},
      pr_all_tenants = False, pr_auth_method = ''service'', pr_source_ip = None, pr_claims = [], pr_subject_scoped = False\<rparr>"

text \<open>The ambient authorizer inside the block: the outer one is put back on exit.\<close>

definition bind_service_authorizer :: "principal \<Rightarrow> access_policy option \<Rightarrow> capability_authorizer option \<Rightarrow> capability_authorizer option" where
  "bind_service_authorizer p policy outer = (case policy of None \<Rightarrow> outer | Some q \<Rightarrow> Some (from_principal (Some p) (Some q)))"

definition require_no_capability_amplification :: "access_policy option \<Rightarrow> principal \<Rightarrow> string \<Rightarrow> string list \<Rightarrow> http_error + unit" where
  "require_no_capability_amplification app_policy p resource service_roles =
     (if pr_all_tenants p then Inr ()
      else (let policy = (case app_policy of Some q \<Rightarrow> q | None \<Rightarrow> DEFAULT_POLICY);
                perms = (\<Union>role \<in> set service_roles. case map_of policy role of None \<Rightarrow> {} | Some ps \<Rightarrow> ps)
            in if \<forall>(r, a) \<in> perms. authorize policy p r a then Inr ()
               else Inl (Http 403 (resource @ '' denied: it would run with broader authority than you hold (capability amplification)''))))"

section \<open>The client address cannot be forged\<close>

lemma split_char_not_Nil [simp]: "split_char c s \<noteq> []"
  by (induction s) (auto split: list.split)

lemma split_char_append: "split_char c (a @ c # b) = split_char c a @ split_char c b"
  by (induction a) (auto split: list.split)

lemma comma_list_append: "comma_list (a @ CHR '','' # b) = comma_list a @ comma_list b"
  by (simp add: comma_list_def split_char_append)

lemma find_none_append: "(\<forall>x \<in> set xs. \<not> P x) \<Longrightarrow> find P (xs @ ys) = find P ys"
  by (induction xs) auto

text \<open>
  Behind a trusted proxy the client address is the last hop the proxies do not vouch for:
  whatever the client writes in front of it, a chain in which trusted proxies appended the
  client's real address and then only their own gives that address; a peer that is not a
  trusted proxy is taken as it is, its header ignored.
\<close>

theorem client_ip_cannot_be_forged:
  assumes "rq_client rq = Some peer"
    and "peer \<in> set (trusted_proxies env) \<longrightarrow>
      rq_header rq ''x-forwarded-for'' = Some (forged @ CHR '','' # appended)
      \<and> comma_list appended = client # hops \<and> client \<notin> set (trusted_proxies env) \<and> set hops \<subseteq> set (trusted_proxies env)"
  shows "client_ip env rq = Some (if peer \<in> set (trusted_proxies env) then client else peer)"
proof (cases "peer \<in> set (trusted_proxies env)")
  case True
  with assms(2) have h: "rq_header rq ''x-forwarded-for'' = Some (forged @ CHR '','' # appended)"
      "comma_list appended = client # hops" "client \<notin> set (trusted_proxies env)" "set hops \<subseteq> set (trusted_proxies env)"
    by auto
  have "find (\<lambda>t. t \<notin> set (trusted_proxies env)) (rev hops @ client # rev (comma_list forged)) = Some client"
    by (subst find_none_append) (use h in auto)
  then show ?thesis using True assms(1) h(1,2) by (simp add: client_ip_def peer_ip_def comma_list_append)
next
  case False
  then show ?thesis using assms(1) by (simp add: client_ip_def peer_ip_def)
qed

section \<open>The service identity never exceeds its launcher\<close>

lemma covers_trans:
  assumes "covers ps r a" and "r = x \<or> r = ''*''" and "a = y \<or> a = ''*''"
  shows "covers ps x y"
proof -
  obtain r' a' where "(r', a') \<in> ps" "r' = r \<or> r' = ''*''" "a' = a \<or> a' = ''*''" using assms(1) by (auto simp: covers_def)
  with assms(2,3) have "(r', a') \<in> ps" "r' = x \<or> r' = ''*''" "a' = y \<or> a' = ''*''" by auto
  then show ?thesis unfolding covers_def by blast
qed

lemma granted_by_role_iff:
  "granted_by_role policy roles r a \<longleftrightarrow> (\<exists>role \<in> roles. \<exists>ps. map_of policy role = Some ps \<and> covers ps r a)"
  by (auto simp: granted_by_role_def split: option.splits)

lemma authorize_iff:
  "authorize policy p r a \<longleftrightarrow> granted_by_role policy (pr_roles p) r a
     \<and> (scope_permissions (pr_scopes p) (known_resources policy) = {}
        \<or> covers (scope_permissions (pr_scopes p) (known_resources policy)) r a)"
  by (simp add: authorize_def Let_def)

lemma authorize_covered:
  assumes "authorize policy p r a" and "r = x \<or> r = ''*''" and "a = y \<or> a = ''*''"
  shows "authorize policy p x y"
  using assms(1) covers_trans [OF _ assms(2,3)] unfolding authorize_iff granted_by_role_iff by blast

lemma authorize_same: "pr_roles p = pr_roles q \<Longrightarrow> pr_scopes p = pr_scopes q \<Longrightarrow> authorize policy p r a = authorize policy q r a"
  by (simp add: authorize_iff)

lemma amplification_excluded:
  assumes "require_no_capability_amplification app_policy p resource roles = Inr ()" and "\<not> pr_all_tenants p"
    and "policy = (case app_policy of Some q \<Rightarrow> q | None \<Rightarrow> DEFAULT_POLICY)"
    and "authorize policy (routine_service_principal ws roles) x y"
  shows "authorize policy p x y"
proof -
  let ?perms = "\<Union>role \<in> set roles. case map_of policy role of None \<Rightarrow> {} | Some ps \<Rightarrow> ps"
  have all: "\<forall>(r, a) \<in> ?perms. authorize policy p r a"
    using assms(1,2) by (simp add: require_no_capability_amplification_def assms(3) Let_def split: if_splits)
  obtain role ps r a where g: "role \<in> set roles" "map_of policy role = Some ps" "(r, a) \<in> ps"
      and c: "r = x \<or> r = ''*''" "a = y \<or> a = ''*''"
    using assms(4) by (auto simp: authorize_iff granted_by_role_iff covers_def routine_service_principal_def)
  from g have "(r, a) \<in> ?perms" by (intro UN_I [of role]) auto
  with all have "authorize policy p r a" by blast
  then show ?thesis by (rule authorize_covered [OF _ c])
qed

text \<open>
  C22: Launching a routine or a mission never amplifies authority: when the launch gate lets a
  tenant-bound caller start a run under the service roles, every tool the run's bound gate
  admits is a tool the caller's own gate admits, under the same policy.
\<close>

theorem launch_never_amplifies:
  assumes "require_no_capability_amplification (Some policy) p resource roles = Inr ()" and "\<not> pr_all_tenants p"
    and "bind_service_authorizer (routine_service_principal ws roles) (Some policy) outer = Some run_gate"
    and "authorize_definition (Capability run_gate) d"
  shows "authorize_definition (Capability (from_principal (Some p) (Some policy))) d"
proof -
  let ?run = "routine_service_principal ws roles"
  have run: "run_gate = from_principal (Some ?run) (Some policy)" using assms(3) by (simp add: bind_service_authorizer_def)
  have grants: "tool_grants (from_principal (Some q) (Some policy)) policy name action = authorize policy q TOOL_RESOURCE (name @ '':'' @ action)"
    if "\<not> pr_all_tenants q" for q name action
  proof -
    let ?probe = "(principal_build ''__tool_authz__'' [] [] [] False ''anonymous'' None None False)\<lparr>pr_roles := pr_roles q, pr_scopes := pr_scopes q\<rparr>"
    have "authorize policy ?probe TOOL_RESOURCE (name @ '':'' @ action) = authorize policy q TOOL_RESOURCE (name @ '':'' @ action)"
      by (rule authorize_same) simp_all
    then show ?thesis using that by (simp add: tool_grants_def from_principal_def Let_def)
  qed
  have all: "\<not> pr_all_tenants ?run" by (simp add: routine_service_principal_def)
  have le: "tool_grants run_gate policy name action \<longrightarrow> tool_grants (from_principal (Some p) (Some policy)) policy name action" for name action
    unfolding run grants [OF all] grants [OF assms(2)] using amplification_excluded [OF assms(1,2) _, of policy ws] by simp
  have enforced: "ca_enforce run_gate" "ca_policy run_gate = Some policy"
      "ca_enforce (from_principal (Some p) (Some policy))" "ca_policy (from_principal (Some p) (Some policy)) = Some policy"
    using all assms(2) by (simp_all add: run from_principal_def)
  show ?thesis using assms(4) le by (auto simp: authorize_capability_def is_authorized_def enforced split: if_splits)
qed

section \<open>Revocation\<close>

text \<open>
  The specification: the ids named by the last content that could be read. A probe is good when
  the file can be stat'ed, read and parsed.
\<close>

definition good_probe :: "revocation_file \<Rightarrow> json option" where
  "good_probe file = (case (rf_stat file, rf_read file) of (Inr _, Inr raw) \<Rightarrow> Some raw | _ \<Rightarrow> None)"

definition last_known :: "revocation_file list \<Rightarrow> string set" where
  "last_known files = fold (\<lambda>file prev. case good_probe file of Some raw \<Rightarrow> revoked_ids raw | None \<Rightarrow> prev) files {}"

lemma last_known_snoc [simp]:
  "last_known [] = {}"
  "last_known (files @ [f]) = (case good_probe f of Some raw \<Rightarrow> revoked_ids raw | None \<Rightarrow> last_known files)"
  by (simp_all add: last_known_def split: option.split)

text \<open>Equal fingerprints mean equal contents.\<close>

definition fingerprints_faithful :: "revocation_file list \<Rightarrow> bool" where
  "fingerprints_faithful files \<longleftrightarrow>
     (\<forall>f \<in> set files. \<forall>g \<in> set files. \<forall>fp. rf_stat f = Inr fp \<longrightarrow> rf_stat g = Inr fp \<longrightarrow> rf_read f = rf_read g)"

lemma fingerprints_faithfulD:
  "fingerprints_faithful files \<Longrightarrow> f \<in> set files \<Longrightarrow> g \<in> set files \<Longrightarrow> rf_stat f = Inr x \<Longrightarrow> rf_stat g = Inr x \<Longrightarrow>
     rf_read f = rf_read g"
  unfolding fingerprints_faithful_def by metis

text \<open>What the list holds after the probes it has made.\<close>

definition loaded_from :: "revocation_file list \<Rightarrow> (int \<times> int \<times> int) option \<Rightarrow> string set \<Rightarrow> bool" where
  "loaded_from files fp ids \<longleftrightarrow>
     (\<exists>f \<in> set files. \<exists>raw. (\<exists>x. fp = Some x \<and> rf_stat f = Inr x) \<and> rf_read f = Inr raw \<and> ids = revoked_ids raw)"

definition tracks :: "revocation_file list \<Rightarrow> revocation_list \<Rightarrow> bool" where
  "tracks files rl \<longleftrightarrow> rl_path rl \<noteq> None \<and> rl_stat_interval rl = 0 \<and> rl_revoked rl = last_known files
     \<and> (rl_ever_loaded rl \<longrightarrow> loaded_from files (rl_fingerprint rl) (rl_revoked rl))"

lemma loaded_from_more: "loaded_from files fp ids \<Longrightarrow> loaded_from (files @ [f]) fp ids"
  unfolding loaded_from_def by auto

lemma loaded_from_last: "rf_stat f = Inr x \<Longrightarrow> rf_read f = Inr raw \<Longrightarrow> loaded_from (files @ [f]) (Some x) (revoked_ids raw)"
  unfolding loaded_from_def by auto

lemma tracks_new: "path \<noteq> [] \<Longrightarrow> tracks [] (new_revocation_list (Some path) 0)"
  by (simp add: tracks_def new_revocation_list_def)

lemma tracks_refresh:
  assumes t: "tracks files rl" and f: "fingerprints_faithful (files @ [file])"
  shows "fst (refresh now file rl) = (good_probe file \<noteq> None) \<and> tracks (files @ [file]) (snd (refresh now file rl))"
proof -
  have keep: "rl_ever_loaded rl \<Longrightarrow> loaded_from (files @ [file]) (rl_fingerprint rl) (last_known files)"
    using t loaded_from_more unfolding tracks_def by metis
  show ?thesis
proof (cases "rf_stat file")
    case (Inl e)
    then show ?thesis using t keep
      by (simp add: refresh_def tracks_def Let_def on_failure_def good_probe_def)
  next
    case (Inr fp)
    show ?thesis
    proof (cases "Some fp = rl_fingerprint rl \<and> rl_ever_loaded rl")
      case True
      with t obtain g raw where g: "g \<in> set files" "rf_stat g = Inr fp" "rf_read g = Inr raw" "rl_revoked rl = revoked_ids raw"
        unfolding tracks_def loaded_from_def by auto
      with fingerprints_faithfulD [OF f, of g "file" fp] Inr have "rf_read file = Inr raw" by simp
      then show ?thesis using True t Inr g(4) keep
        by (simp add: refresh_def tracks_def Let_def good_probe_def)
    next
      case new: False
      show ?thesis
      proof (cases "rf_read file")
        case (Inl e)
        then show ?thesis using new t Inr keep
          by (auto simp: refresh_def tracks_def Let_def on_failure_def good_probe_def)
      next
        case read: (Inr raw)
        then show ?thesis using new t Inr loaded_from_last [OF Inr read, of files]
          by (auto simp: refresh_def tracks_def Let_def good_probe_def)
      qed
    qed
  qed
qed

lemma fingerprints_faithful_sub: "fingerprints_faithful files \<Longrightarrow> set files' \<subseteq> set files \<Longrightarrow> fingerprints_faithful files'"
  unfolding fingerprints_faithful_def by blast

lemma tracks_is_revoked:
  assumes "tracks files rl" and "fingerprints_faithful (files @ [file])"
  shows "is_revoked fail_closed now file k rl =
    (if good_probe file = None \<and> fail_closed then Inl (AuthError ''revocation list unavailable'')
     else Inr (k \<in> last_known (files @ [file])), snd (refresh now file rl))"
proof -
  obtain ok rl1 where r: "refresh now file rl = (ok, rl1)" by fastforce
  with tracks_refresh [OF assms, of now] have "ok = (good_probe file \<noteq> None)" "tracks (files @ [file]) rl1" by simp_all
  moreover obtain q where "rl_path rl = Some q" using assms(1) by (auto simp: tracks_def)
  ultimately show ?thesis by (simp add: is_revoked_def r tracks_def del: last_known_snoc)
qed

definition consult :: "bool \<Rightarrow> rat \<times> revocation_file \<times> string \<Rightarrow> revocation_list \<Rightarrow> revocation_list" where
  "consult fail_closed = (\<lambda>(now, file, k) rl. snd (is_revoked fail_closed now file k rl))"

lemma consult_simp [simp]: "consult fail_closed (now, f, k) rl = snd (is_revoked fail_closed now f k rl)"
  by (simp add: consult_def)

definition probes :: "(rat \<times> revocation_file \<times> string) list \<Rightarrow> revocation_file list" where
  "probes hist = map (\<lambda>(_, f, _). f) hist"

lemma probes_simps [simp]: "probes [] = []" "probes (hist @ [(now, f, k)]) = probes hist @ [f]"
  by (simp_all add: probes_def)

lemma tracks_history:
  "fingerprints_faithful (probes hist) \<Longrightarrow> path \<noteq> [] \<Longrightarrow>
     tracks (probes hist) (fold (consult fail_closed) hist (new_revocation_list (Some path) 0))"
proof (induction hist rule: rev_induct)
  case Nil
  then show ?case by (simp add: tracks_new)
next
  case (snoc x hist)
  obtain now f k where x: "x = (now, f, k)" by (cases x)
  let ?files = "probes hist"
  have f: "fingerprints_faithful (?files @ [f])" using snoc.prems(1) by (simp add: x)
  then have "fingerprints_faithful ?files" by (rule fingerprints_faithful_sub) auto
  from tracks_refresh [OF snoc.IH [OF this snoc.prems(2)] f, of now] tracks_is_revoked [OF snoc.IH [OF \<open>fingerprints_faithful ?files\<close> snoc.prems(2)] f, of fail_closed now k]
  show ?case by (simp add: x del: last_known_snoc)
qed


section \<open>Shared keys under a multi-tenant posture\<close>

lemma new_authenticator_records:
  assumes "new_authenticator h now shared [] header roles records path interval = Inr au"
  shows "au_header au = header \<and> binds_tenants au = (records \<noteq> []) \<and>
    au_records au = records @ map (\<lambda>key. from_secret (ah_crypto h) (ah_pepper h) now key (shared_principal h roles key) None False) shared"
  using assms by (auto simp: new_authenticator_def Let_def binds_tenants_def split: if_splits)

definition keys_path :: "auth_host \<Rightarrow> string" where
  "keys_path h = text_or_empty (ah_env h ''HIMMY_API_KEYS_FILE'')"

lemma build_authenticator_keys:
  assumes "build_authenticator h now secret files oidc = Inr (Some (ApiKeys au))"
  obtains header shared specs records where
    "keys_path h = [] \<and> specs = [] \<or> keys_path h \<noteq> [] \<and> load_records (ah_crypto h) (keys_path h) (files (keys_path h)) = Inr specs"
    "records = map (\<lambda>(key, p, expires, disabled). from_secret (ah_crypto h) (ah_pepper h) now key p expires disabled) specs"
    "new_authenticator h now shared [] header
       (if is_multi_tenant (ah_env h) \<or> records \<noteq> [] then Some DEMOTED_SHARED_KEY_ROLES else None) records None 0 = Inr au"
proof -
  define shared where "shared = remdups (comma_list (text_or_empty (secret ''HIMMY_INTERNAL_API_KEY'')))"
  define header where "header = (case ah_env h ''HIMMY_INTERNAL_HEADER'' of None \<Rightarrow> DEFAULT_HEADER | Some name \<Rightarrow> name)"
  let ?load = "if keys_path h = [] then Inr [] else load_key_records h now (keys_path h) (files (keys_path h))"
  let ?make = "\<lambda>records. new_authenticator h now shared [] header
    (if is_multi_tenant (ah_env h) \<or> records \<noteq> [] then Some DEMOTED_SHARED_KEY_ROLES else None) records None 0"
  have build: "(case ?load of Inl e \<Rightarrow> Inl e
      | Inr records \<Rightarrow> if shared = [] \<and> records = [] then Inr None else map_sum id (\<lambda>au. Some (ApiKeys au)) (?make records))
      = Inr (Some (ApiKeys au))"
    using assms unfolding build_authenticator_def keys_path_def [symmetric] shared_def [symmetric] header_def [symmetric] Let_def
    by (cases "py_lower (text_or_empty (ah_env h ''HIMMY_AUTH_MODE'')) = ''oidc''") simp_all
  then obtain records where r: "?load = Inr records" by (cases ?load) simp_all
  with build have n: "map_sum id (\<lambda>au. Some (ApiKeys au)) (?make records) = (Inr (Some (ApiKeys au)) :: auth_failure + authenticator option)"
    by (cases "shared = [] \<and> records = []") simp_all
  from n have "new_authenticator h now shared [] header
       (if is_multi_tenant (ah_env h) \<or> records \<noteq> [] then Some DEMOTED_SHARED_KEY_ROLES else None) records None 0 = Inr au"
    by (auto simp: map_sum_def split: sum.splits)
  moreover from r obtain specs where
    "keys_path h = [] \<and> specs = [] \<or> keys_path h \<noteq> [] \<and> load_records (ah_crypto h) (keys_path h) (files (keys_path h)) = Inr specs"
    "records = map (\<lambda>(key, p, expires, disabled). from_secret (ah_crypto h) (ah_pepper h) now key p expires disabled) specs"
    by (auto simp: load_key_records_def map_sum_def split: if_splits sum.splits)
  ultimately show ?thesis using that by blast
qed

text \<open>Authentication only changes what is known of the revocation file.\<close>

definition auth_round :: "auth_host \<Rightarrow> auth_moment \<times> http_request \<Rightarrow> api_key_authenticator \<Rightarrow> api_key_authenticator" where
  "auth_round h = (\<lambda>(m, rq) au. snd (authenticate h m rq au))"

lemma authenticate_keeps:
  "au_records (snd (authenticate h m rq au)) = au_records au \<and> au_header (snd (authenticate h m rq au)) = au_header au"
  by (simp add: authenticate_def Let_def split: option.split prod.split sum.split bool.split)

lemma auth_rounds_keep:
  "au_records (fold (auth_round h) hist au) = au_records au \<and> au_header (fold (auth_round h) hist au) = au_header au"
  by (induction hist arbitrary: au) (auto simp: auth_round_def authenticate_keeps split: prod.split)

lemma find_Some_iff: "find P xs = Some x \<Longrightarrow> x \<in> set xs \<and> P x"
  by (induction xs) (auto split: if_splits)

lemma authenticate_accepts:
  assumes "authenticate h m rq au = (Inr p, au')"
  obtains key r where "rq_header rq (au_header au) = Some key" "key \<noteq> []" "r \<in> set (au_records au)"
    "kr_key_hash r = hash_key (ah_crypto h) (ah_pepper h) key" "p = with_ip (kr_principal r) (client_ip (ah_env h) rq)"
proof -
  let ?key = "text_or_empty (rq_header rq (au_header au))"
  have ne: "?key \<noteq> []" using assms by (auto simp: authenticate_def Let_def)
  then have k: "rq_header rq (au_header au) = Some ?key" by (auto simp: text_or_empty_def split: option.splits)
  obtain r where f: "find (\<lambda>r. kr_key_hash r = hash_key (ah_crypto h) (ah_pepper h) ?key) (au_records au) = Some r"
    using assms ne by (auto simp: authenticate_def Let_def split: option.splits)
  have "p = with_ip (kr_principal r) (client_ip (ah_env h) rq)"
    using assms ne by (auto simp: authenticate_def Let_def f split: if_splits prod.splits sum.splits bool.splits)
  then show ?thesis using that [OF k ne] find_Some_iff [OF f] by blast
qed

lemma with_ip_same [simp]:
  "pr_tenant_ids (with_ip p ip) = pr_tenant_ids p" "pr_all_tenants (with_ip p ip) = pr_all_tenants p"
  "pr_roles (with_ip p ip) = pr_roles p" "pr_subject (with_ip p ip) = pr_subject p"
  by (simp_all add: with_ip_def)


section \<open>Examples\<close>

definition plain_crypto :: key_crypto where
  "plain_crypto = \<lparr>kc_hmac = (\<lambda>_ s. s), kc_sha = (\<lambda>s. s), kc_iso = (\<lambda>_. None)\<rparr>"

definition demo_auth_host :: auth_host where
  "demo_auth_host = \<lparr>ah_env = (\<lambda>name. if name = ''HIMMY_API_KEYS_FILE'' then Some ''keys.json''
      else if name = ''HIMMY_TRUSTED_PROXIES'' then Some ''10.0.0.1, 10.0.0.2'' else None),
     ah_pepper = [], ah_crypto = plain_crypto\<rparr>"

definition demo_key_files :: "string \<Rightarrow> string + json" where
  "demo_key_files path = Inr (JObj [(''acme-key'', JObj [(''tenant_ids'', JList [JStr ''acme''])])])"

definition demo_secrets :: "string \<Rightarrow> string option" where
  "demo_secrets name = (if name = ''HIMMY_INTERNAL_API_KEY'' then Some ''ops-key, other'' else None)"

definition demo_key_request :: "string \<Rightarrow> http_request" where
  "demo_key_request key = \<lparr>rq_headers = [(''x-himmy-internal-key'', key)], rq_client = Some ''10.9.9.9''\<rparr>"

definition quiet_moment :: auth_moment where
  "quiet_moment = \<lparr>am_now = 0, am_monotonic = 0, am_file = \<lparr>rf_stat = Inl ''absent'', rf_read = Inl ''absent''\<rparr>\<rparr>"

definition demo_authenticator :: api_key_authenticator where
  "demo_authenticator = (case build_authenticator demo_auth_host 0 demo_secrets demo_key_files (\<lambda>_. Inl (AuthError [])) of
     Inr (Some (ApiKeys au)) \<Rightarrow> au | _ \<Rightarrow> undefined)"

lemma demo_authenticator_built:
  "(case build_authenticator demo_auth_host 0 demo_secrets demo_key_files (\<lambda>_. Inl (AuthError [])) of
      Inr (Some (ApiKeys au)) \<Rightarrow> binds_tenants au | _ \<Rightarrow> False)"
  "\<not> isl (fst (authenticate demo_auth_host quiet_moment (demo_key_request ''ops-key'') demo_authenticator))"
  "rq_header (demo_key_request ''ops-key'') (au_header demo_authenticator) = Some ''ops-key''"
  "load_records plain_crypto ''keys.json'' (demo_key_files ''keys.json'')
     = Inr [(''acme-key'', principal_build ''apikey:acme-key'' [''acme''] [] [] False ''apikey'' None None False, None, False)]"
  by code_simp+

theorem client_ip_cannot_be_forged_witness:
  "client_ip (ah_env demo_auth_host) \<lparr>rq_headers = [(''x-forwarded-for'', ''1.2.3.4, 10.0.0.1,203.0.113.7, 10.0.0.2'')],
     rq_client = Some ''10.0.0.1''\<rparr> = Some ''203.0.113.7''"
proof -
  let ?env = "ah_env demo_auth_host"
  let ?rq = "\<lparr>rq_headers = [(''x-forwarded-for'', ''1.2.3.4, 10.0.0.1'' @ CHR '','' # ''203.0.113.7, 10.0.0.2'')], rq_client = Some ''10.0.0.1''\<rparr>"
  have c: "comma_list ''203.0.113.7, 10.0.0.2'' = ''203.0.113.7'' # [''10.0.0.2'']"
      "trusted_proxies ?env = [''10.0.0.1'', ''10.0.0.2'']" "py_lower ''x-forwarded-for'' = ''x-forwarded-for''"
    by code_simp+
  have "client_ip ?env ?rq = Some (if ''10.0.0.1'' \<in> set (trusted_proxies ?env) then ''203.0.113.7'' else ''10.0.0.1'')"
    by (rule client_ip_cannot_be_forged [where forged = "''1.2.3.4, 10.0.0.1''" and appended = "''203.0.113.7, 10.0.0.2''" and hops = "[''10.0.0.2'']"])
      (simp_all add: c rq_header_def)
  then show ?thesis by (simp add: c)
qed

definition demo_launcher :: principal where
  "demo_launcher = principal_build ''alice'' [''acme''] [''dev''] [] False ''apikey'' None None False"

definition demo_launch_policy :: access_policy where
  "demo_launch_policy = [(''dev'', {(''tool'', ''*''), (''run'', ''read'')}), (''operator'', {(''tool'', ''*'')})]"

theorem launch_never_amplifies_witness:
  "authorize_definition (Capability (from_principal (Some demo_launcher) (Some demo_launch_policy))) (demo_tool ''pay'')"
proof -
  have "require_no_capability_amplification (Some demo_launch_policy) demo_launcher ''routine'' DEFAULT_SERVICE_ROLES = Inr ()"
    by (simp add: require_no_capability_amplification_def demo_launcher_def demo_launch_policy_def principal_build_def
        DEFAULT_SERVICE_ROLES_def Let_def authorize_iff granted_by_role_iff covers_def scope_permissions_def)
  moreover have "\<not> pr_all_tenants demo_launcher" by (simp add: demo_launcher_def principal_build_def)
  moreover have "bind_service_authorizer (routine_service_principal ''acme'' DEFAULT_SERVICE_ROLES) (Some demo_launch_policy) None
      = Some (from_principal (Some (routine_service_principal ''acme'' DEFAULT_SERVICE_ROLES)) (Some demo_launch_policy))"
    by (simp add: bind_service_authorizer_def)
  moreover have "authorize_definition (Capability (from_principal (Some (routine_service_principal ''acme'' DEFAULT_SERVICE_ROLES)) (Some demo_launch_policy))) (demo_tool ''pay'')"
    by (simp add: authorize_capability_def is_authorized_def tool_grants_def from_principal_def routine_service_principal_def
        Let_def authorize_iff granted_by_role_iff covers_def scope_permissions_def DEFAULT_SERVICE_ROLES_def demo_launch_policy_def TOOL_RESOURCE_def)
  ultimately show ?thesis by (rule launch_never_amplifies)
qed

definition listing :: "json \<Rightarrow> int \<Rightarrow> revocation_file" where
  "listing raw n = \<lparr>rf_stat = Inr (n, n, n), rf_read = Inr raw\<rparr>"

definition vanished :: revocation_file where
  "vanished = \<lparr>rf_stat = Inl ''No such file'', rf_read = Inl ''No such file''\<rparr>"


text \<open>A readable file whose content is no list, here a text, revokes nothing: the list is dropped, and trusted.\<close>

lemma other_shape_unrevokes:
  "fst (is_revoked True 2 (listing (JStr ''leaked'') 6) ''leaked'' (fold (consult True) [(1, listing (JList [JStr ''leaked'']) 5, ''k'')]
     (new_revocation_list (Some ''revoked.json'') 0))) = Inr False"
  by code_simp


end
