(* ===== verification/KeyVault.thy ===== *)
theory KeyVault
  imports Registry
begin

text \<open>
  Right to erasure: the per-subject keys, their destruction and the shredding of a tenant
  (\<open>SubjectKeyVault\<close> of himmy/services/governance/retention.py, with the gate of the
  workspace key provider of himmy/services/storage/encryption.py), and the erasure of a subject
  across every store with its certificate (\<open>RetentionService\<close>).

  A key and its wrapped form are texts. Wrapping and unwrapping of a key-encryption key, the
  random keys and the clock are parameters; a failed unwrap is None. Error messages are abridged. The table is one value
  shared by the processes that open it; each process has its own cache.
\<close>

section \<open>Keys and rows\<close>

record kek =
  kek_wrap :: "string \<Rightarrow> string \<times> string"
  kek_unwrap :: "string \<Rightarrow> string \<Rightarrow> string option"

definition RAW_KEY_VERSION :: string where "RAW_KEY_VERSION = ''RAW''"

record subject_key_row =
  sk_wrapped :: "string option"
  sk_version :: string
  sk_created_at :: string
  sk_shredded_at :: "string option"
  sk_workspace :: "string option"

record vault_db =
  vd_keys :: "(string, subject_key_row) dict"
  vd_disabled :: "(string, string) dict"

text \<open>The providers of one process: the meta key, and the key of a workspace.\<close>

record vault_config =
  vc_meta :: "kek option"
  vc_workspace :: "(string \<Rightarrow> kek) option"

record key_vault =
  kv_db :: vault_db
  kv_cache :: "(string, string) dict"

datatype vault_error = WorkspaceShredded string | VaultError string | VaultKeyError string

definition open_vault :: "vault_db \<Rightarrow> key_vault" where
  "open_vault db = \<lparr>kv_db = db, kv_cache = []\<rparr>"

definition key_row :: "string \<Rightarrow> key_vault \<Rightarrow> subject_key_row option" where
  "key_row sid v = map_of (vd_keys (kv_db v)) sid"

definition put_row :: "string \<Rightarrow> subject_key_row \<Rightarrow> key_vault \<Rightarrow> key_vault" where
  "put_row sid row v = v\<lparr>kv_db := (kv_db v)\<lparr>vd_keys := AList.update sid row (vd_keys (kv_db v))\<rparr>\<rparr>"

definition put_cache :: "string \<Rightarrow> string \<Rightarrow> key_vault \<Rightarrow> key_vault" where
  "put_cache sid key v = v\<lparr>kv_cache := AList.update sid key (kv_cache v)\<rparr>"

definition pop_cache :: "string \<Rightarrow> key_vault \<Rightarrow> key_vault" where
  "pop_cache sid v = v\<lparr>kv_cache := AList.delete sid (kv_cache v)\<rparr>"

definition row_live :: "subject_key_row \<Rightarrow> bool" where
  "row_live row \<longleftrightarrow> sk_shredded_at row = None \<and> sk_wrapped row \<noteq> None"

section \<open>Wrapping\<close>

definition is_workspace_shredded :: "string \<Rightarrow> key_vault \<Rightarrow> bool" where
  "is_workspace_shredded ws v \<longleftrightarrow> map_of (vd_disabled (kv_db v)) ws \<noteq> None"

definition mark_workspace_disabled :: "string \<Rightarrow> string \<Rightarrow> key_vault \<Rightarrow> key_vault" where
  "mark_workspace_disabled ws now v =
     (if map_of (vd_disabled (kv_db v)) ws \<noteq> None then v
      else v\<lparr>kv_db := (kv_db v)\<lparr>vd_disabled := vd_disabled (kv_db v) @ [(ws, now)]\<rparr>\<rparr>)"

definition for_workspace :: "(string \<Rightarrow> kek) \<Rightarrow> string \<Rightarrow> key_vault \<Rightarrow> vault_error + kek" where
  "for_workspace provider ws v =
     (if is_workspace_shredded ws v then Inl (WorkspaceShredded ws) else Inr (provider ws))"

definition workspace_kek_for :: "vault_config \<Rightarrow> string option \<Rightarrow> key_vault \<Rightarrow> vault_error + kek option" where
  "workspace_kek_for cfg ws v =
     (case (vc_workspace cfg, ws) of
        (Some provider, Some w) \<Rightarrow> map_sum id Some (for_workspace provider w v)
      | _ \<Rightarrow> Inr None)"

definition wrap :: "vault_config \<Rightarrow> string \<Rightarrow> string option \<Rightarrow> key_vault \<Rightarrow> vault_error + string \<times> string" where
  "wrap cfg key ws v =
     (case workspace_kek_for cfg ws v of
        Inl e \<Rightarrow> Inl e
      | Inr (Some provider) \<Rightarrow> Inr (kek_wrap provider key)
      | Inr None \<Rightarrow> (case vc_meta cfg of None \<Rightarrow> Inr (key, RAW_KEY_VERSION) | Some meta \<Rightarrow> Inr (kek_wrap meta key)))"

definition unwrap_with :: "kek \<Rightarrow> string \<Rightarrow> string \<Rightarrow> vault_error + string" where
  "unwrap_with provider wrapped version =
     (case kek_unwrap provider wrapped version of Some key \<Rightarrow> Inr key | None \<Rightarrow> Inl (VaultError ''unwrap failed''))"

definition unwrap :: "vault_config \<Rightarrow> string \<Rightarrow> string \<Rightarrow> string option \<Rightarrow> key_vault \<Rightarrow> vault_error + string" where
  "unwrap cfg wrapped version ws v =
     (if version = RAW_KEY_VERSION then Inr wrapped
      else case workspace_kek_for cfg ws v of
             Inl e \<Rightarrow> Inl e
           | Inr (Some provider) \<Rightarrow> unwrap_with provider wrapped version
           | Inr None \<Rightarrow>
               (case vc_meta cfg of
                  None \<Rightarrow> Inl (VaultError (''subject key was wrapped under meta-KEK version '' @ version @ '' but no meta-KEK is configured''))
                | Some meta \<Rightarrow> unwrap_with meta wrapped version))"

section \<open>Operations\<close>

definition assert_same_workspace :: "string \<Rightarrow> string option \<Rightarrow> string option \<Rightarrow> vault_error option" where
  "assert_same_workspace sid stored requested =
     (case (requested, stored) of
        (Some r, Some s) \<Rightarrow> if r \<noteq> s then Some (VaultError (''subject '' @ sid @ '' is bound to workspace '' @ s)) else None
      | _ \<Rightarrow> None)"

definition workspace_of :: "string \<Rightarrow> key_vault \<Rightarrow> string option" where
  "workspace_of sid v = (case key_row sid v of Some row \<Rightarrow> sk_workspace row | None \<Rightarrow> None)"

text \<open>A fresh key wrapped into a row, for a new or an erased subject.\<close>

definition mint :: "vault_config \<Rightarrow> string \<Rightarrow> string \<Rightarrow> string \<Rightarrow> string option \<Rightarrow> key_vault
    \<Rightarrow> (vault_error + string) \<times> key_vault" where
  "mint cfg fresh now sid ws v =
     (case wrap cfg fresh ws v of
        Inl e \<Rightarrow> (Inl e, v)
      | Inr (wrapped, version) \<Rightarrow>
          (Inr fresh, put_cache sid fresh (put_row sid
             \<lparr>sk_wrapped = Some wrapped, sk_version = version, sk_created_at = now, sk_shredded_at = None, sk_workspace = ws\<rparr> v)))"

definition key_for :: "vault_config \<Rightarrow> string \<Rightarrow> string \<Rightarrow> string \<Rightarrow> string option \<Rightarrow> key_vault
    \<Rightarrow> (vault_error + string) \<times> key_vault" where
  "key_for cfg fresh now sid ws v =
     (case map_of (kv_cache v) sid of
        Some key \<Rightarrow>
          (case (if ws = None then None else assert_same_workspace sid (workspace_of sid v) ws) of
             Some e \<Rightarrow> (Inl e, v)
           | None \<Rightarrow> (Inr key, v))
      | None \<Rightarrow>
          (case key_row sid v of
             None \<Rightarrow> mint cfg fresh now sid ws v
           | Some row \<Rightarrow>
               (case assert_same_workspace sid (sk_workspace row) ws of
                  Some e \<Rightarrow> (Inl e, v)
                | None \<Rightarrow>
                    (case sk_wrapped row of
                       None \<Rightarrow> mint cfg fresh now sid (case ws of Some (c # cs) \<Rightarrow> ws | _ \<Rightarrow> sk_workspace row) v
                     | Some wrapped \<Rightarrow>
                         if sk_shredded_at row \<noteq> None
                         then mint cfg fresh now sid (case ws of Some (c # cs) \<Rightarrow> ws | _ \<Rightarrow> sk_workspace row) v
                         else (case unwrap cfg wrapped (sk_version row) (sk_workspace row) v of
                                 Inl e \<Rightarrow> (Inl e, v)
                               | Inr key \<Rightarrow> (Inr key, put_cache sid key v))))))"

definition has_key :: "string \<Rightarrow> key_vault \<Rightarrow> bool" where
  "has_key sid v \<longleftrightarrow> map_of (kv_cache v) sid \<noteq> None \<or> (case key_row sid v of None \<Rightarrow> False | Some row \<Rightarrow> row_live row)"

definition key_version_of :: "string \<Rightarrow> key_vault \<Rightarrow> string option" where
  "key_version_of sid v = (case key_row sid v of None \<Rightarrow> None | Some row \<Rightarrow> if row_live row then Some (sk_version row) else None)"

definition erasure_state :: "string \<Rightarrow> key_vault \<Rightarrow> string option \<times> bool" where
  "erasure_state sid v =
     (case key_row sid v of None \<Rightarrow> (None, False) | Some row \<Rightarrow> (Some (sk_version row), sk_shredded_at row \<noteq> None))"

definition shred_row :: "string \<Rightarrow> subject_key_row \<Rightarrow> subject_key_row" where
  "shred_row now row = row\<lparr>sk_wrapped := None, sk_shredded_at := Some now\<rparr>"

definition destroy :: "string \<Rightarrow> string \<Rightarrow> string option \<Rightarrow> key_vault \<Rightarrow> bool \<times> key_vault" where
  "destroy now sid ws v =
     (case key_row sid v of
        None \<Rightarrow> (False, v)
      | Some row \<Rightarrow>
          if \<not> row_live row then (False, v)
          else if ws \<noteq> None \<and> sk_workspace row \<noteq> ws then (False, v)
          else (True, pop_cache sid (put_row sid (shred_row now row) v)))"

definition supports_workspace_shred :: "vault_config \<Rightarrow> bool" where
  "supports_workspace_shred cfg \<longleftrightarrow> vc_workspace cfg \<noteq> None"

definition subjects_in_workspace :: "string \<Rightarrow> key_vault \<Rightarrow> string list" where
  "subjects_in_workspace ws v =
     map fst (filter (\<lambda>(_, row). sk_workspace row = Some ws \<and> row_live row) (vd_keys (kv_db v)))"

definition shred_subject :: "string \<Rightarrow> string \<Rightarrow> key_vault \<Rightarrow> key_vault" where
  "shred_subject now sid v =
     (case key_row sid v of None \<Rightarrow> pop_cache sid v | Some row \<Rightarrow> put_row sid (shred_row now row) (pop_cache sid v))"

definition shred_workspace :: "vault_config \<Rightarrow> string \<Rightarrow> string \<Rightarrow> key_vault \<Rightarrow> (vault_error + nat) \<times> key_vault" where
  "shred_workspace cfg now ws v =
     (if vc_workspace cfg = None then (Inl (VaultError ''shred_workspace requires a per-workspace KEK provider''), v)
      else (let v1 = mark_workspace_disabled ws now v; sids = subjects_in_workspace ws v1
            in (Inr (length sids), fold (shred_subject now) sids v1)))"

text \<open>Rotation: each token goes through the caller's re-wrapping under the subject's key.\<close>

definition rotate_subject_key :: "vault_config \<Rightarrow> (string \<Rightarrow> string \<Rightarrow> string) \<Rightarrow> string \<Rightarrow> string \<Rightarrow> string \<Rightarrow> string list \<Rightarrow> key_vault
    \<Rightarrow> (vault_error + string list) \<times> key_vault" where
  "rotate_subject_key cfg rewrap fresh now sid tokens v =
     (if \<not> has_key sid v then (Inl (VaultKeyError sid), v)
      else case key_for cfg fresh now sid None v of
             (Inl e, v1) \<Rightarrow> (Inl e, v1)
           | (Inr key, v1) \<Rightarrow> (Inr (map (rewrap key) tokens), v1))"

section \<open>Erasing a subject\<close>

record store_erasure_result =
  se_store :: string
  se_action :: string
  se_deleted :: int
  se_ok :: bool
  se_error :: string

text \<open>A wired store: its name and its delete, which answers a count or fails.\<close>

type_synonym 'w eraser = "string \<times> (string \<Rightarrow> 'w \<Rightarrow> (string + int) \<times> 'w)"

definition safe_delete :: "'w eraser \<Rightarrow> string \<Rightarrow> 'w \<Rightarrow> store_erasure_result \<times> 'w" where
  "safe_delete = (\<lambda>(store, f) sid w.
     case f sid w of
       (Inl e, w') \<Rightarrow> (\<lparr>se_store = store, se_action = ''delete'', se_deleted = 0, se_ok = False, se_error = e\<rparr>, w')
     | (Inr n, w') \<Rightarrow> (\<lparr>se_store = store, se_action = ''delete'', se_deleted = n, se_ok = True, se_error = []\<rparr>, w'))"

text \<open>The reach map: the four possible stores, wired or not.\<close>

record 'w reach_map =
  rm_memory :: "(string \<Rightarrow> 'w \<Rightarrow> (string + int) \<times> 'w) option"
  rm_conversations :: "(string \<Rightarrow> 'w \<Rightarrow> (string + int) \<times> 'w) option"
  rm_spine :: "(string \<Rightarrow> 'w \<Rightarrow> (string + int) \<times> 'w) option"
  rm_knowledge :: "(string \<Rightarrow> 'w \<Rightarrow> (string + int) \<times> 'w) option"

definition wired_stores :: "'w reach_map \<Rightarrow> 'w eraser list" where
  "wired_stores rm =
     (case rm_memory rm of None \<Rightarrow> [] | Some f \<Rightarrow> [(''memory'', f)])
     @ (case rm_conversations rm of None \<Rightarrow> [] | Some f \<Rightarrow> [(''conversations'', f)])
     @ (case rm_spine rm of None \<Rightarrow> [] | Some f \<Rightarrow> [(''spine_storage'', f)])
     @ (case rm_knowledge rm of None \<Rightarrow> [] | Some f \<Rightarrow> [(''knowledge'', f)])"

fun erase_all :: "'w eraser list \<Rightarrow> string \<Rightarrow> 'w \<Rightarrow> store_erasure_result list \<times> 'w" where
  "erase_all [] sid w = ([], w)"
| "erase_all (s # ss) sid w =
     (case safe_delete s sid w of (r, w1) \<Rightarrow> (case erase_all ss sid w1 of (rs, w2) \<Rightarrow> (r # rs, w2)))"

definition reach_erase :: "'w reach_map \<Rightarrow> string \<Rightarrow> 'w \<Rightarrow> store_erasure_result list \<times> 'w" where
  "reach_erase rm sid w = erase_all (wired_stores rm) sid w"

record deletion_certificate =
  dc_subject_id :: string
  dc_reason :: string
  dc_crypto_shredded :: bool
  dc_key_version :: "string option"
  dc_erased_at :: string
  dc_per_store :: "store_erasure_result list"

definition certificate_complete :: "deletion_certificate \<Rightarrow> bool" where
  "certificate_complete c = list_all se_ok (dc_per_store c)"

definition text_json :: "string option \<Rightarrow> json" where
  "text_json t = (case t of None \<Rightarrow> JNull | Some s \<Rightarrow> JStr s)"

definition certificate_payload :: "deletion_certificate \<Rightarrow> json_dict" where
  "certificate_payload c =
     [(''subject_id'', JStr (dc_subject_id c)), (''reason'', JStr (dc_reason c)),
      (''crypto_shredded'', JBool (dc_crypto_shredded c)), (''key_version'', text_json (dc_key_version c)),
      (''erased_at'', JStr (dc_erased_at c)), (''complete'', JBool (certificate_complete c)),
      (''per_store'', JList (map (\<lambda>r. JObj
         [(''store'', JStr (se_store r)), (''action'', JStr (se_action r)), (''deleted'', JInt (se_deleted r)),
          (''ok'', JBool (se_ok r)), (''error'', JStr (se_error r))]) (dc_per_store c)))]"

definition ERASURE_KIND :: string where "ERASURE_KIND = ''erasure_tombstone''"
definition DELETION_CERTIFICATE_KIND :: string where "DELETION_CERTIFICATE_KIND = ''deletion_certificate''"

text \<open>The service: the registry, the vault when there is one, the stores when they are wired.\<close>

record 'w retention =
  rt_registry :: entity_registry
  rt_vault :: "key_vault option"
  rt_reach :: "'w reach_map option"
  rt_world :: 'w

text \<open>What one erasure takes from outside: the clock (texts and the record's instant), and two new ids.\<close>

record erasure_stamp =
  es_now :: string
  es_instant :: instant
  es_tombstone_id :: string
  es_certificate_id :: string

definition retention_workspace_of :: "string \<Rightarrow> 'w retention \<Rightarrow> string option" where
  "retention_workspace_of sid rt = (case rt_vault rt of None \<Rightarrow> None | Some v \<Rightarrow> workspace_of sid v)"

definition shred_key :: "string \<Rightarrow> string \<Rightarrow> string option \<Rightarrow> key_vault option \<Rightarrow> (bool \<times> string option) \<times> key_vault option" where
  "shred_key now sid ws vault =
     (case vault of
        None \<Rightarrow> ((False, None), None)
      | Some v \<Rightarrow>
          (case (erasure_state sid v, destroy now sid ws v) of
             ((version, already), (shredded_now, v1)) \<Rightarrow>
               (if shredded_now \<or> already then (True, version) else (False, None), Some v1)))"

definition erase_subject :: "(string \<Rightarrow> string) \<Rightarrow> erasure_stamp \<Rightarrow> string \<Rightarrow> string \<Rightarrow> string option \<Rightarrow> 'w retention
    \<Rightarrow> (registry_error + deletion_certificate) \<times> 'w retention" where
  "erase_subject uuid5 stamp sid reason ws rt =
     (case shred_key (es_now stamp) sid ws (rt_vault rt) of
        ((shredded, version), vault1) \<Rightarrow>
          (case (case rt_reach rt of None \<Rightarrow> ([], rt_world rt) | Some rm \<Rightarrow> reach_erase rm sid (rt_world rt)) of
             (per_store, world1) \<Rightarrow>
               (let rt1 = rt\<lparr>rt_vault := vault1, rt_world := world1\<rparr>;
                    tombstone = entity_record_create uuid5 (es_tombstone_id stamp) 1 ERASURE_KIND
                      (Some [(''subject_id'', JStr sid), (''reason'', JStr reason), (''crypto_shredded'', JBool shredded),
                             (''erased_at'', JStr (es_now stamp))]) None (es_instant stamp)
                in case register tombstone (rt_registry rt) of
                     (Inl e, reg1) \<Rightarrow> (Inl e, rt1\<lparr>rt_registry := reg1\<rparr>)
                   | (Inr _, reg1) \<Rightarrow>
                       (let cert = \<lparr>dc_subject_id = sid, dc_reason = reason, dc_crypto_shredded = shredded,
                              dc_key_version = version, dc_erased_at = es_now stamp, dc_per_store = per_store\<rparr>;
                            r = entity_record_create uuid5 (es_certificate_id stamp) 1 DELETION_CERTIFICATE_KIND
                              (Some (certificate_payload cert)) None (es_instant stamp)
                        in case register r reg1 of
                             (Inl e, reg2) \<Rightarrow> (Inl e, rt1\<lparr>rt_registry := reg2\<rparr>)
                           | (Inr _, reg2) \<Rightarrow> (Inr cert, rt1\<lparr>rt_registry := reg2\<rparr>)))))"

text \<open>The age rule: \<open>stamp\<close> reads a creation stamp as an instant, None where it is no timestamp.\<close>

definition expired_records :: "('r \<Rightarrow> string option) \<Rightarrow> (string \<Rightarrow> instant option) \<Rightarrow> int \<Rightarrow> instant \<Rightarrow> 'r list \<Rightarrow> 'r list" where
  "expired_records created stamp max_age now_epoch records =
     filter (\<lambda>r. case created r of
        None \<Rightarrow> False
      | Some t \<Rightarrow> t \<noteq> [] \<and> (case stamp t of None \<Rightarrow> False | Some s \<Rightarrow> now_epoch - s > max_age)) records"

section \<open>The vault as a map\<close>

lemma key_row_simps [simp]:
  "key_row s (put_row sid row v) = (if s = sid then Some row else key_row s v)"
  "key_row s (put_cache sid key v) = key_row s v" "key_row s (pop_cache sid v) = key_row s v"
  "key_row s (mark_workspace_disabled ws now v) = key_row s v"
  by (simp_all add: key_row_def put_row_def put_cache_def pop_cache_def mark_workspace_disabled_def update_conv')

lemma cache_simps [simp]:
  "map_of (kv_cache (put_row sid row v)) s = map_of (kv_cache v) s"
  "map_of (kv_cache (put_cache sid key v)) s = (if s = sid then Some key else map_of (kv_cache v) s)"
  "map_of (kv_cache (pop_cache sid v)) s = (if s = sid then None else map_of (kv_cache v) s)"
  "map_of (kv_cache (mark_workspace_disabled ws now v)) s = map_of (kv_cache v) s"
  by (simp_all add: put_row_def put_cache_def pop_cache_def mark_workspace_disabled_def update_conv' delete_conv')

lemma disabled_simps [simp]:
  "is_workspace_shredded w (put_row sid row v) = is_workspace_shredded w v"
  "is_workspace_shredded w (put_cache sid key v) = is_workspace_shredded w v"
  "is_workspace_shredded w (pop_cache sid v) = is_workspace_shredded w v"
  "is_workspace_shredded w (mark_workspace_disabled ws now v) = (w = ws \<or> is_workspace_shredded w v)"
  by (auto simp: is_workspace_shredded_def put_row_def put_cache_def pop_cache_def mark_workspace_disabled_def map_add_def
      split: option.split)

lemma shred_subject_simps [simp]:
  "key_row s (shred_subject now sid v) = (if s = sid then map_option (shred_row now) (key_row s v) else key_row s v)"
  "map_of (kv_cache (shred_subject now sid v)) s = (if s = sid then None else map_of (kv_cache v) s)"
  "is_workspace_shredded w (shred_subject now sid v) = is_workspace_shredded w v"
  by (auto simp: shred_subject_def split: option.split)

lemma shred_row_simps [simp]:
  "sk_wrapped (shred_row now row) = None" "sk_workspace (shred_row now row) = sk_workspace row"
  "sk_shredded_at (shred_row now row) = Some now" "sk_version (shred_row now row) = sk_version row"
  "\<not> row_live (shred_row now row)"
  by (simp_all add: shred_row_def row_live_def)

lemma shred_row_twice [simp]: "map_option (shred_row now) (map_option (shred_row now) r) = map_option (shred_row now) r"
  by (cases r) (simp_all add: shred_row_def)

lemma shred_subjects:
  "key_row s (fold (shred_subject now) sids v) = (if s \<in> set sids then map_option (shred_row now) (key_row s v) else key_row s v)"
  "map_of (kv_cache (fold (shred_subject now) sids v)) s = (if s \<in> set sids then None else map_of (kv_cache v) s)"
  "is_workspace_shredded w (fold (shred_subject now) sids v) = is_workspace_shredded w v"
  by (induction sids arbitrary: v) (simp_all del: option.map_comp)

text \<open>Operations of one process over the table.\<close>

datatype vault_op =
    KeyFor string string string "string option"
  | Destroy string string "string option"
  | ShredWorkspace string string

fun run_vault_op :: "vault_config \<Rightarrow> vault_op \<Rightarrow> key_vault \<Rightarrow> key_vault" where
  "run_vault_op cfg (KeyFor fresh now sid ws) v = snd (key_for cfg fresh now sid ws v)"
| "run_vault_op cfg (Destroy now sid ws) v = snd (destroy now sid ws v)"
| "run_vault_op cfg (ShredWorkspace now ws) v = snd (shred_workspace cfg now ws v)"

definition fresh_key_of :: "vault_op \<Rightarrow> string option" where
  "fresh_key_of op = (case op of KeyFor fresh _ _ _ \<Rightarrow> Some fresh | _ \<Rightarrow> None)"

section \<open>What an erased key leaves behind\<close>

definition kek_ok :: "kek \<Rightarrow> bool" where
  "kek_ok p \<longleftrightarrow> (\<forall>key. snd (kek_wrap p key) \<noteq> RAW_KEY_VERSION \<and> kek_unwrap p (fst (kek_wrap p key)) (snd (kek_wrap p key)) = Some key)"

lemma kek_okD: "kek_ok p \<Longrightarrow> kek_wrap p key = (w, ver) \<Longrightarrow> ver \<noteq> RAW_KEY_VERSION \<and> kek_unwrap p w ver = Some key"
  unfolding kek_ok_def by (metis fst_conv snd_conv)

definition config_ok :: "vault_config \<Rightarrow> bool" where
  "config_ok cfg \<longleftrightarrow> (\<forall>m. vc_meta cfg = Some m \<longrightarrow> kek_ok m) \<and> (\<forall>p w. vc_workspace cfg = Some p \<longrightarrow> kek_ok (p w))"

text \<open>The key a row yields to a holder of every key-encryption key, disabled or not.\<close>

definition kek_of_row :: "vault_config \<Rightarrow> subject_key_row \<Rightarrow> kek option" where
  "kek_of_row cfg row =
     (case (vc_workspace cfg, sk_workspace row) of (Some p, Some w) \<Rightarrow> Some (p w) | _ \<Rightarrow> vc_meta cfg)"

definition opened :: "vault_config \<Rightarrow> subject_key_row \<Rightarrow> string option" where
  "opened cfg row =
     (case sk_wrapped row of
        None \<Rightarrow> None
      | Some w \<Rightarrow>
          if sk_version row = RAW_KEY_VERSION then Some w
          else (case kek_of_row cfg row of None \<Rightarrow> None | Some p \<Rightarrow> kek_unwrap p w (sk_version row)))"

definition exposed_at :: "vault_config \<Rightarrow> key_vault \<Rightarrow> string \<Rightarrow> string \<Rightarrow> bool" where
  "exposed_at cfg v sid key \<longleftrightarrow> map_of (kv_cache v) sid = Some key
     \<or> (\<exists>row. key_row sid v = Some row \<and> opened cfg row = Some key)"

lemma wrap_opens:
  assumes "config_ok cfg" and "wrap cfg key ws v = Inr (wrapped, version)"
  shows "opened cfg \<lparr>sk_wrapped = Some wrapped, sk_version = version, sk_created_at = t, sk_shredded_at = None, sk_workspace = ws\<rparr> = Some key"
proof -
  let ?row = "\<lparr>sk_wrapped = Some wrapped, sk_version = version, sk_created_at = t, sk_shredded_at = None, sk_workspace = ws\<rparr>"
  have k: "(case kek_of_row cfg ?row of None \<Rightarrow> (key, RAW_KEY_VERSION) | Some p \<Rightarrow> kek_wrap p key) = (wrapped, version)"
    using assms(2) by (auto simp: wrap_def workspace_kek_for_def for_workspace_def kek_of_row_def split: option.splits if_splits)
  show ?thesis
  proof (cases "kek_of_row cfg ?row")
    case None
    with k show ?thesis by (simp add: opened_def)
  next
    case (Some p)
    then have "kek_ok p" using assms(1) by (auto simp: config_ok_def kek_of_row_def split: option.splits)
    from kek_okD [OF this] Some k show ?thesis by (simp add: opened_def)
  qed
qed

lemma unwrap_opened:
  "unwrap cfg wrapped (sk_version row) (sk_workspace row) v = Inr key \<Longrightarrow> sk_wrapped row = Some wrapped \<Longrightarrow> opened cfg row = Some key"
  by (auto simp: unwrap_def opened_def kek_of_row_def workspace_kek_for_def for_workspace_def unwrap_with_def
      split: if_splits option.splits)

lemma mint_result:
  assumes "mint cfg fresh now sid ws v = (out, v')"
  obtains (failed) e where "out = Inl e" "v' = v" "wrap cfg fresh ws v = Inl e"
  | (wrapped) wrapped version where "out = Inr fresh" "wrap cfg fresh ws v = Inr (wrapped, version)"
      "v' = put_cache sid fresh (put_row sid
         \<lparr>sk_wrapped = Some wrapped, sk_version = version, sk_created_at = now, sk_shredded_at = None, sk_workspace = ws\<rparr> v)"
proof (cases "wrap cfg fresh ws v")
  case (Inl e)
  with assms have "out = Inl e" "v' = v" by (simp_all add: mint_def)
  then show ?thesis using Inl by (rule failed)
next
  case (Inr p)
  obtain w ver where "p = (w, ver)" by fastforce
  with assms Inr show ?thesis by (intro wrapped) (auto simp: mint_def)
qed

text \<open>How a request for a key ends: it is refused, served from the cache or the row, or mints one.\<close>

lemma key_for_cases:
  assumes "key_for cfg fresh now sid ws v = (out, v')"
  obtains (refused) e where "out = Inl e" "v' = v"
  | (cached) key where "out = Inr key" "map_of (kv_cache v) sid = Some key" "v' = v"
  | (stored) row wrapped key where "out = Inr key" "map_of (kv_cache v) sid = None" "key_row sid v = Some row" "sk_wrapped row = Some wrapped"
      "sk_shredded_at row = None" "unwrap cfg wrapped (sk_version row) (sk_workspace row) v = Inr key" "v' = put_cache sid key v"
  | (minted) ws' wrapped version where "out = Inr fresh" "wrap cfg fresh ws' v = Inr (wrapped, version)"
      "v' = put_cache sid fresh (put_row sid
         \<lparr>sk_wrapped = Some wrapped, sk_version = version, sk_created_at = now, sk_shredded_at = None, sk_workspace = ws'\<rparr> v)"
      "\<And>row w. key_row sid v = Some row \<Longrightarrow> sk_workspace row = Some w \<Longrightarrow> ws' = Some w"
proof (cases "map_of (kv_cache v) sid")
  case (Some key)
  show ?thesis
  proof (cases "(if ws = None then None else assert_same_workspace sid (workspace_of sid v) ws)")
    case None
    with assms Some have "out = Inr key" "v' = v" by (simp_all add: key_for_def)
    then show ?thesis using Some by (intro cached)
  next
    case (Some e)
    with assms \<open>map_of (kv_cache v) sid = Some key\<close> have "out = Inl e" "v' = v" by (simp_all add: key_for_def)
    then show ?thesis by (rule refused)
  qed
next
  case miss: None
  show ?thesis
  proof (cases "key_row sid v")
    case None
    then have "mint cfg fresh now sid ws v = (out, v')" using assms miss by (simp add: key_for_def)
    then show ?thesis
    proof (cases rule: mint_result)
      case (failed e)
      then show ?thesis by (intro refused)
    next
      case (wrapped wrapped version)
      then show ?thesis by (rule minted) (simp add: None)
    qed
  next
    case (Some row)
    show ?thesis
    proof (cases "assert_same_workspace sid (sk_workspace row) ws")
      case (Some e)
      with assms miss \<open>key_row sid v = Some row\<close> have "out = Inl e" "v' = v" by (simp_all add: key_for_def)
      then show ?thesis by (rule refused)
    next
      case same: None
      let ?ws = "case ws of Some (c # cs) \<Rightarrow> ws | _ \<Rightarrow> sk_workspace row"
      have bound: "?ws = Some w" if "sk_workspace row = Some w" for w
        using same that by (auto simp: assert_same_workspace_def split: option.splits if_splits list.splits)
      show ?thesis
      proof (cases "row_live row")
        case True
        then obtain wrapped where w: "sk_wrapped row = Some wrapped" "sk_shredded_at row = None" by (auto simp: row_live_def)
        show ?thesis
        proof (cases "unwrap cfg wrapped (sk_version row) (sk_workspace row) v")
          case (Inl e)
          with assms miss Some same w have "out = Inl e" "v' = v" by (simp_all add: key_for_def)
          then show ?thesis by (rule refused)
        next
          case (Inr key)
          with assms miss Some same w have "out = Inr key" "v' = put_cache sid key v" by (simp_all add: key_for_def)
          then show ?thesis using miss Some w Inr by (intro stored)
        qed
      next
        case False
        then have "mint cfg fresh now sid ?ws v = (out, v')"
          using assms miss Some same by (auto simp: key_for_def row_live_def split: option.splits)
        then show ?thesis
        proof (cases rule: mint_result)
          case (failed e)
          then show ?thesis by (intro refused)
        next
          case (wrapped wrapped version)
          then show ?thesis by (rule minted) (simp add: Some bound)
        qed
      qed
    qed
  qed
qed

text \<open>Who is exposed after an operation was exposed before, or holds the freshly minted key.\<close>

lemma key_for_exposed:
  assumes "config_ok cfg" and "key_for cfg fresh now sid ws v = (out, v')"
  shows "(exposed_at cfg v' s key \<longrightarrow> exposed_at cfg v s key \<or> s = sid \<and> key = fresh)
    \<and> (out = Inr key \<longrightarrow> exposed_at cfg v sid key \<or> key = fresh)"
  using assms(2)
proof (cases rule: key_for_cases)
  case (refused e)
  then show ?thesis by simp
next
  case (cached k)
  then show ?thesis by (auto simp: exposed_at_def)
next
  case (stored row wrapped k)
  then have "opened cfg row = Some k" by (intro unwrap_opened)
  with stored show ?thesis by (auto simp: exposed_at_def split: if_splits)
next
  case (minted ws' wrapped version)
  from wrap_opens [OF assms(1) minted(2)] minted(1,3) show ?thesis by (auto simp: exposed_at_def split: if_splits)
qed

lemma opened_shred [simp]: "opened cfg (shred_row now row) = None"
  by (simp add: opened_def)

lemma destroy_exposed: "exposed_at cfg (snd (destroy now sid ws v)) s key \<Longrightarrow> exposed_at cfg v s key"
  by (auto simp: destroy_def exposed_at_def split: option.splits if_splits)

lemma shred_workspace_exposed: "exposed_at cfg (snd (shred_workspace cfg now ws v)) s key \<Longrightarrow> exposed_at cfg v s key"
  by (auto simp: shred_workspace_def Let_def exposed_at_def shred_subjects split: if_splits)

lemma vault_op_exposed:
  assumes "config_ok cfg" and "exposed_at cfg (run_vault_op cfg op v) s key"
  shows "exposed_at cfg v s key \<or> fresh_key_of op = Some key"
proof (cases op)
  case (KeyFor fresh now sid ws)
  obtain out v' where "key_for cfg fresh now sid ws v = (out, v')" by fastforce
  with key_for_exposed [OF assms(1) this, of s key] assms(2) show ?thesis by (auto simp: KeyFor fresh_key_of_def)
next
  case (Destroy now sid ws)
  with assms(2) show ?thesis using destroy_exposed [of cfg now sid ws v s key] by simp
next
  case (ShredWorkspace now ws)
  with assms(2) show ?thesis using shred_workspace_exposed [of cfg now ws v s key] by simp
qed

lemma vault_history_exposed:
  "config_ok cfg \<Longrightarrow> exposed_at cfg (fold (run_vault_op cfg) ops v) s key \<Longrightarrow>
     exposed_at cfg v s key \<or> (\<exists>op \<in> set ops. fresh_key_of op = Some key)"
proof (induction ops arbitrary: v)
  case (Cons op ops)
  from Cons.IH [OF Cons.prems(1), of "run_vault_op cfg op v"] Cons.prems vault_op_exposed [OF Cons.prems(1), of op v s key]
  show ?case by auto
qed simp

text \<open>
  C23: Crypto-shredding is final: once a subject's key is destroyed, and as long as the random source does
  not repeat it, no later operation of the vault yields it again and neither the cache nor any
  row lets it be unwrapped, also by a holder of every key-encryption key; the subject may come
  back, with a new key.
\<close>

theorem erased_key_is_unrecoverable:
  assumes "config_ok cfg" and "\<And>s. s \<noteq> sid \<Longrightarrow> \<not> exposed_at cfg v s key"
    and "destroy now sid ws v = (True, v1)" and "\<And>op. op \<in> set ops \<Longrightarrow> fresh_key_of op \<noteq> Some key" and "fresh \<noteq> key"
  shows "\<not> exposed_at cfg (fold (run_vault_op cfg) ops v1) s key
    \<and> fst (key_for cfg fresh t s' ws' (fold (run_vault_op cfg) ops v1)) \<noteq> Inr key"
proof -
  have gone: "\<not> exposed_at cfg v1 s key" for s
    using assms(2) [of s] assms(3) by (auto simp: destroy_def exposed_at_def split: option.splits if_splits)
  have never: "\<not> exposed_at cfg (fold (run_vault_op cfg) ops v1) s key" for s
    using vault_history_exposed [OF assms(1)] gone assms(4) by blast
  obtain out v2 where k: "key_for cfg fresh t s' ws' (fold (run_vault_op cfg) ops v1) = (out, v2)" by fastforce
  with key_for_exposed [OF assms(1) k, of s' key] never assms(5) show ?thesis by auto
qed

section \<open>A shredded tenant\<close>

definition row_ok :: "subject_key_row \<Rightarrow> bool" where
  "row_ok row \<longleftrightarrow> (sk_shredded_at row \<noteq> None \<longrightarrow> sk_wrapped row = None)"

definition table_ok :: "vault_db \<Rightarrow> bool" where
  "table_ok db \<longleftrightarrow> dict_wf (vd_keys db) \<and> (\<forall>sid row. map_of (vd_keys db) sid = Some row \<longrightarrow> row_ok row)"

definition vault_wf :: "key_vault \<Rightarrow> bool" where
  "vault_wf v \<longleftrightarrow> dict_wf (vd_keys (kv_db v)) \<and> (\<forall>sid row. key_row sid v = Some row \<longrightarrow> row_ok row)
     \<and> (\<forall>sid key. map_of (kv_cache v) sid = Some key \<longrightarrow> (\<exists>row. key_row sid v = Some row \<and> row_live row))"

lemma dict_wf_keys [simp]:
  "dict_wf (vd_keys (kv_db v)) \<Longrightarrow> dict_wf (vd_keys (kv_db (put_row sid row v)))"
  "vd_keys (kv_db (put_cache sid key v)) = vd_keys (kv_db v)" "vd_keys (kv_db (pop_cache sid v)) = vd_keys (kv_db v)"
  "vd_keys (kv_db (mark_workspace_disabled ws now v)) = vd_keys (kv_db v)"
  by (simp_all add: put_row_def put_cache_def pop_cache_def mark_workspace_disabled_def)

lemma dict_wf_shred [simp]: "dict_wf (vd_keys (kv_db v)) \<Longrightarrow> dict_wf (vd_keys (kv_db (shred_subject now sid v)))"
  by (simp add: shred_subject_def split: option.split)

lemma dict_wf_shreds: "dict_wf (vd_keys (kv_db v)) \<Longrightarrow> dict_wf (vd_keys (kv_db (fold (shred_subject now) sids v)))"
  by (induction sids arbitrary: v) simp_all

lemma row_ok_simps [simp]:
  "row_ok (shred_row now row)" "sk_shredded_at row = None \<Longrightarrow> row_ok row"
  by (simp_all add: row_ok_def)

lemma open_vault_wf: "table_ok db \<Longrightarrow> vault_wf (open_vault db)"
  by (simp add: vault_wf_def table_ok_def open_vault_def key_row_def)

lemma vault_op_wf: "vault_wf v \<Longrightarrow> vault_wf (run_vault_op cfg op v)"
proof (cases op)
  case (KeyFor fresh now sid ws)
  assume wf: "vault_wf v"
  obtain out v' where k: "key_for cfg fresh now sid ws v = (out, v')" by fastforce
  then have "vault_wf v'"
  proof (cases rule: key_for_cases)
    case (stored row wrapped key)
    then have "row_live row" by (simp add: row_live_def)
    with stored wf show ?thesis by (auto simp: vault_wf_def)
  next
    case (minted ws' wrapped version)
    with wf show ?thesis by (auto simp: vault_wf_def row_live_def)
  qed (use wf in auto)
  with k KeyFor show ?thesis by simp
next
  case (Destroy now sid ws)
  assume "vault_wf v"
  then show ?thesis by (auto simp: Destroy destroy_def vault_wf_def split: option.split)
next
  case (ShredWorkspace now ws)
  assume "vault_wf v"
  then show ?thesis
    by (auto simp: ShredWorkspace shred_workspace_def Let_def vault_wf_def shred_subjects dict_wf_shreds split: if_splits)
qed

lemma vault_history_wf: "vault_wf v \<Longrightarrow> vault_wf (fold (run_vault_op cfg) ops v)"
  by (induction ops arbitrary: v) (simp_all add: vault_op_wf)

text \<open>The state of a shredded tenant, and that every operation keeps it.\<close>

definition dark :: "string \<Rightarrow> key_vault \<Rightarrow> bool" where
  "dark ws v \<longleftrightarrow> is_workspace_shredded ws v
     \<and> (\<forall>sid row. key_row sid v = Some row \<longrightarrow> sk_workspace row = Some ws \<longrightarrow> sk_wrapped row = None \<and> map_of (kv_cache v) sid = None)"

lemma wrap_dark: "dark ws v \<Longrightarrow> vc_workspace cfg \<noteq> None \<Longrightarrow> wrap cfg key (Some ws) v = Inl (WorkspaceShredded ws)"
  by (auto simp: dark_def wrap_def workspace_kek_for_def for_workspace_def)

lemma dark_op:
  assumes "dark ws v" and "vc_workspace cfg \<noteq> None"
  shows "dark ws (run_vault_op cfg op v)"
proof (cases op)
  case (KeyFor fresh now sid w)
  obtain out v' where k: "key_for cfg fresh now sid w v = (out, v')" by fastforce
  then have "dark ws v'"
  proof (cases rule: key_for_cases)
    case (stored row wrapped key)
    with assms(1) show ?thesis by (auto simp: dark_def)
  next
    case (minted ws' wrapped version)
    then have "ws' \<noteq> Some ws" using wrap_dark [OF assms, of fresh] by auto
    with minted assms(1) show ?thesis by (auto simp: dark_def)
  qed (use assms(1) in auto)
  with k KeyFor show ?thesis by simp
next
  case (Destroy now sid w)
  with assms(1) show ?thesis by (auto simp: destroy_def dark_def split: option.split)
next
  case (ShredWorkspace now w)
  with assms(1) show ?thesis
    by (auto simp: shred_workspace_def Let_def dark_def shred_subjects split: if_splits)
qed

lemma dark_history: "dark ws v \<Longrightarrow> vc_workspace cfg \<noteq> None \<Longrightarrow> dark ws (fold (run_vault_op cfg) ops v)"
  by (induction ops arbitrary: v) (simp_all add: dark_op)

lemma subjects_in_workspace_iff:
  "dict_wf (vd_keys (kv_db v)) \<Longrightarrow> sid \<in> set (subjects_in_workspace ws v) \<longleftrightarrow>
     (\<exists>row. key_row sid v = Some row \<and> sk_workspace row = Some ws \<and> row_live row)"
  by (force simp: subjects_in_workspace_def key_row_def dict_get_iff)

lemma key_for_dark:
  assumes "dark ws v" and "vc_workspace cfg \<noteq> None" and "workspace_of sid v = Some ws"
  shows "isl (fst (key_for cfg fresh now sid w v))"
proof -
  obtain row where row: "key_row sid v = Some row" "sk_workspace row = Some ws"
    using assms(3) by (auto simp: workspace_of_def split: option.splits)
  with assms(1) have dead: "sk_wrapped row = None" "map_of (kv_cache v) sid = None" by (auto simp: dark_def)
  obtain out v' where k: "key_for cfg fresh now sid w v = (out, v')" by fastforce
  then have "isl out"
    by (cases rule: key_for_cases) (use row dead wrap_dark [OF assms(1,2), of fresh] in auto)
  then show ?thesis by (simp add: k)
qed

text \<open>
  C24: Shredding a tenant is complete, final and confined to it: whatever the vault did before and does after,
  no subject bound to the shredded workspace has a key or can be given one, while the subjects
  of the other workspaces keep their rows and their cached keys.
\<close>

theorem shredded_tenant_stays_dark:
  assumes "table_ok db" and "v = fold (run_vault_op cfg) before (open_vault db)"
    and "shred_workspace cfg now ws v = (Inr n, v1)" and "v2 = fold (run_vault_op cfg) later v1"
  shows "(\<forall>sid fresh t w. workspace_of sid v2 = Some ws \<longrightarrow> \<not> has_key sid v2 \<and> isl (fst (key_for cfg fresh t sid w v2)))
    \<and> (\<forall>sid. workspace_of sid v \<noteq> Some ws \<longrightarrow> key_row sid v1 = key_row sid v \<and> map_of (kv_cache v1) sid = map_of (kv_cache v) sid)"
proof -
  have wf: "vault_wf v" by (simp add: assms(2) vault_history_wf open_vault_wf assms(1))
  then have d: "dict_wf (vd_keys (kv_db v))" by (simp add: vault_wf_def)
  have c: "vc_workspace cfg \<noteq> None" using assms(3) by (auto simp: shred_workspace_def split: if_splits)
  let ?m = "mark_workspace_disabled ws now v"
  have v1: "v1 = fold (shred_subject now) (subjects_in_workspace ws ?m) ?m"
    using assms(3) c by (simp add: shred_workspace_def Let_def)
  have sids: "sid \<in> set (subjects_in_workspace ws ?m) \<longleftrightarrow> (\<exists>row. key_row sid v = Some row \<and> sk_workspace row = Some ws \<and> row_live row)" for sid
    using subjects_in_workspace_iff [of ?m sid ws] d by simp
  have "dark ws v1"
    unfolding dark_def
  proof (intro conjI allI impI)
    show "is_workspace_shredded ws v1" by (simp add: v1 shred_subjects)
    fix sid row
    assume r: "key_row sid v1 = Some row" and w: "sk_workspace row = Some ws"
    then show "sk_wrapped row = None" and "map_of (kv_cache v1) sid = None"
      using wf sids [of sid] by (fastforce simp: v1 shred_subjects vault_wf_def row_live_def row_ok_def split: if_splits)+
  qed
  then have dark2: "dark ws v2" unfolding assms(4) by (rule dark_history [OF _ c])
  have "\<not> has_key sid v2" if "workspace_of sid v2 = Some ws" for sid
    using dark2 that by (auto simp: has_key_def workspace_of_def dark_def row_live_def split: option.splits)
  moreover have "key_row sid v1 = key_row sid v \<and> map_of (kv_cache v1) sid = map_of (kv_cache v) sid" if "workspace_of sid v \<noteq> Some ws" for sid
    using that sids [of sid] by (auto simp: v1 shred_subjects workspace_of_def)
  ultimately show ?thesis using key_for_dark [OF dark2 c] by blast
qed

section \<open>The certificate of an erasure\<close>

lemma erase_all_stores: "map se_store (fst (erase_all ss sid w)) = map fst ss"
proof (induction ss arbitrary: w)
  case (Cons s ss)
  obtain r w1 rs w2 where e: "safe_delete s sid w = (r, w1)" "erase_all ss sid w1 = (rs, w2)" by fastforce
  then have "se_store r = fst s" by (auto simp: safe_delete_def split: prod.splits sum.splits)
  with e Cons.IH [of w1] show ?case by simp
qed simp

lemma shred_key_result:
  assumes "shred_key now sid ws vault = ((shredded, version), vault1)"
  shows "(shredded \<longleftrightarrow> (\<exists>v row. vault1 = Some v \<and> key_row sid v = Some row \<and> sk_shredded_at row \<noteq> None))
    \<and> (shredded \<longrightarrow> (\<exists>v row v1 row1. vault = Some v \<and> key_row sid v = Some row \<and> version = Some (sk_version row)
        \<and> vault1 = Some v1 \<and> key_row sid v1 = Some row1 \<and> sk_version row1 = sk_version row))"
proof (cases vault)
  case None
  then show ?thesis using assms by (simp add: shred_key_def)
next
  case (Some v)
  show ?thesis
  proof (cases "key_row sid v")
    case None
    then show ?thesis using assms Some by (auto simp: shred_key_def erasure_state_def destroy_def)
  next
    case row: (Some row)
    show ?thesis
    proof (cases "row_live row \<and> \<not> (ws \<noteq> None \<and> sk_workspace row \<noteq> ws)")
      case True
      then have "shredded \<and> version = Some (sk_version row) \<and> vault1 = Some (pop_cache sid (put_row sid (shred_row now row) v))"
        using assms Some row by (auto simp: shred_key_def erasure_state_def destroy_def)
      then show ?thesis using Some row by auto
    next
      case False
      then have "vault1 = Some v \<and> shredded = (sk_shredded_at row \<noteq> None) \<and> version = (if shredded then Some (sk_version row) else None)"
        using assms Some row by (auto simp: shred_key_def erasure_state_def destroy_def split: if_splits)
      then show ?thesis using Some row by auto
    qed
  qed
qed

lemma registered_content:
  "register r reg = (Inr x, reg') \<Longrightarrow> \<exists>y. get_record (er_record_id r) reg' = Some y \<and> dict_eq (er_payload y) (er_payload r)"
  by (auto simp: register_def get_record_def same_content_def Let_def split: option.splits if_splits)

lemma created_payload [simp]: "er_payload (entity_record_create uuid5 sid ver kind (Some p) meta now) = p"
  by (simp add: entity_record_create_def EntityRecord_def)

lemma erase_subject_parts:
  assumes "erase_subject uuid5 st sid why w q = (Inr c, q1)"
  shows "\<exists>r x reg1. shred_key (es_now st) sid w (rt_vault q) = ((dc_crypto_shredded c, dc_key_version c), rt_vault q1)
    \<and> dc_per_store c = (case rt_reach q of None \<Rightarrow> [] | Some rm \<Rightarrow> fst (reach_erase rm sid (rt_world q)))
    \<and> register r reg1 = (Inr x, rt_registry q1) \<and> er_payload r = certificate_payload c"
proof -
  obtain shredded version vault1 where k: "shred_key (es_now st) sid w (rt_vault q) = ((shredded, version), vault1)"
    by (metis prod.collapse)
  obtain per_store world1 where p: "(case rt_reach q of None \<Rightarrow> ([], rt_world q) | Some rm \<Rightarrow> reach_erase rm sid (rt_world q)) = (per_store, world1)"
    by fastforce
  then have per: "per_store = (case rt_reach q of None \<Rightarrow> [] | Some rm \<Rightarrow> fst (reach_erase rm sid (rt_world q)))"
    by (auto split: option.splits)
  define cert where "cert = \<lparr>dc_subject_id = sid, dc_reason = why, dc_crypto_shredded = shredded,
    dc_key_version = version, dc_erased_at = es_now st, dc_per_store = per_store\<rparr>"
  define t where "t = entity_record_create uuid5 (es_tombstone_id st) 1 ERASURE_KIND
    (Some [(''subject_id'', JStr sid), (''reason'', JStr why), (''crypto_shredded'', JBool shredded), (''erased_at'', JStr (es_now st))])
    None (es_instant st)"
  define r where "r = entity_record_create uuid5 (es_certificate_id st) 1 DELETION_CERTIFICATE_KIND
    (Some (certificate_payload cert)) None (es_instant st)"
  obtain a reg1 b reg2 where regs: "register t (rt_registry q) = (a, reg1)" "register r reg1 = (b, reg2)" by fastforce
  have e: "(case a of Inl e \<Rightarrow> (Inl e, q\<lparr>rt_vault := vault1, rt_world := world1, rt_registry := reg1\<rparr>)
      | Inr _ \<Rightarrow> (case b of Inl e \<Rightarrow> (Inl e, q\<lparr>rt_vault := vault1, rt_world := world1, rt_registry := reg2\<rparr>)
          | Inr _ \<Rightarrow> (Inr cert, q\<lparr>rt_vault := vault1, rt_world := world1, rt_registry := reg2\<rparr>))) = (Inr c, q1)"
    using assms unfolding erase_subject_def k p prod.case Let_def cert_def [symmetric] t_def [symmetric] regs(1)
    unfolding r_def [symmetric] regs(2) by (simp split: sum.splits)
  then obtain x where x: "b = Inr x" "c = cert" "q1 = q\<lparr>rt_vault := vault1, rt_world := world1, rt_registry := reg2\<rparr>"
    by (auto split: sum.splits)
  then show ?thesis using k per regs(2) by (intro exI [of _ r] exI [of _ x] exI [of _ reg1]) (simp add: cert_def r_def)
qed

text \<open>
  C25: A deletion certificate says what happened: it claims the crypto-shred exactly when the subject's row is
  shredded afterwards, then with the key version the row had; it lists every wired store, also
  those after a store that failed; it is on the audit spine with this content; and erasing again
  repeats the claim and the version.
\<close>

theorem deletion_certificate_is_truthful:
  assumes "erase_subject uuid5 stamp sid reason ws rt = (Inr cert, rt1)"
  shows "(dc_crypto_shredded cert \<longleftrightarrow> (\<exists>v row. rt_vault rt1 = Some v \<and> key_row sid v = Some row \<and> sk_shredded_at row \<noteq> None))
    \<and> (dc_crypto_shredded cert \<longrightarrow> (\<exists>v row. rt_vault rt = Some v \<and> key_row sid v = Some row \<and> dc_key_version cert = Some (sk_version row)))
    \<and> map se_store (dc_per_store cert) = (case rt_reach rt of None \<Rightarrow> [] | Some rm \<Rightarrow> map fst (wired_stores rm))
    \<and> (\<exists>rid x. get_record rid (rt_registry rt1) = Some x \<and> dict_eq (er_payload x) (certificate_payload cert))
    \<and> (\<forall>stamp' reason' ws' cert' rt2. erase_subject uuid5 stamp' sid reason' ws' rt1 = (Inr cert', rt2) \<longrightarrow> dc_crypto_shredded cert \<longrightarrow>
         dc_crypto_shredded cert' \<and> dc_key_version cert' = dc_key_version cert)"
proof -
  from erase_subject_parts [OF assms] obtain r x reg1 where c:
    "shred_key (es_now stamp) sid ws (rt_vault rt) = ((dc_crypto_shredded cert, dc_key_version cert), rt_vault rt1)"
    "dc_per_store cert = (case rt_reach rt of None \<Rightarrow> [] | Some rm \<Rightarrow> fst (reach_erase rm sid (rt_world rt)))"
    "register r reg1 = (Inr x, rt_registry rt1)" "er_payload r = certificate_payload cert"
    by blast
  note k = shred_key_result [OF c(1)]
  have "dc_crypto_shredded cert' \<and> dc_key_version cert' = dc_key_version cert"
    if e: "erase_subject uuid5 stamp' sid reason' ws' rt1 = (Inr cert', rt2)" and s: "dc_crypto_shredded cert"
    for stamp' reason' ws' cert' rt2
  proof -
    from k s obtain v1 row1 where v1: "rt_vault rt1 = Some v1" "key_row sid v1 = Some row1" "sk_shredded_at row1 \<noteq> None"
      "dc_key_version cert = Some (sk_version row1)" by auto
    from erase_subject_parts [OF e] obtain vault2 where
      "shred_key (es_now stamp') sid ws' (rt_vault rt1) = ((dc_crypto_shredded cert', dc_key_version cert'), vault2)" by blast
    with v1 show ?thesis by (auto simp: shred_key_def erasure_state_def destroy_def row_live_def)
  qed
  moreover have "\<exists>rid y. get_record rid (rt_registry rt1) = Some y \<and> dict_eq (er_payload y) (certificate_payload cert)"
    using registered_content [OF c(3)] c(4) by auto
  moreover have "map se_store (dc_per_store cert) = (case rt_reach rt of None \<Rightarrow> [] | Some rm \<Rightarrow> map fst (wired_stores rm))"
    by (simp add: c(2) reach_erase_def erase_all_stores split: option.split)
  ultimately show ?thesis using k by auto
qed

section \<open>Examples\<close>

definition demo_kek :: "string \<Rightarrow> kek" where
  "demo_kek tag = \<lparr>kek_wrap = (\<lambda>k. (tag @ k, ''v1'')), kek_unwrap = (\<lambda>w _. Some (drop (length tag) w))\<rparr>"

definition demo_vault_config :: vault_config where
  "demo_vault_config = \<lparr>vc_meta = None, vc_workspace = Some demo_kek\<rparr>"

definition empty_vault_db :: vault_db where
  "empty_vault_db = \<lparr>vd_keys = [], vd_disabled = []\<rparr>"

definition demo_vault :: key_vault where
  "demo_vault = fold (run_vault_op demo_vault_config)
     [KeyFor ''K1'' ''t1'' ''ann'' (Some ''acme''), KeyFor ''K2'' ''t2'' ''bob'' None] (open_vault empty_vault_db)"

lemma demo_config_ok: "config_ok demo_vault_config"
  by (simp add: config_ok_def demo_vault_config_def kek_ok_def demo_kek_def RAW_KEY_VERSION_def)

lemma demo_vault_rows:
  "vd_keys (kv_db demo_vault) = [(''ann'', \<lparr>sk_wrapped = Some ''acmeK1'', sk_version = ''v1'', sk_created_at = ''t1'', sk_shredded_at = None, sk_workspace = Some ''acme''\<rparr>),
     (''bob'', \<lparr>sk_wrapped = Some ''K2'', sk_version = ''RAW'', sk_created_at = ''t2'', sk_shredded_at = None, sk_workspace = None\<rparr>)]"
  "kv_cache demo_vault = [(''ann'', ''K1''), (''bob'', ''K2'')]" "fst (destroy ''t3'' ''ann'' None demo_vault)"
  "\<not> isl (fst (shred_workspace demo_vault_config ''t3'' ''acme'' demo_vault))"
  by code_simp+

lemma demo_only_ann: "s \<noteq> ''ann'' \<Longrightarrow> \<not> exposed_at demo_vault_config demo_vault s ''K1''"
  by (simp add: exposed_at_def key_row_def demo_vault_rows opened_def RAW_KEY_VERSION_def)

theorem erased_key_is_unrecoverable_witness:
  "fst (key_for demo_vault_config ''K4'' ''t5'' ''ann'' None (fold (run_vault_op demo_vault_config) [KeyFor ''K3'' ''t4'' ''ann'' (Some ''acme'')]
     (snd (destroy ''t3'' ''ann'' None demo_vault)))) \<noteq> Inr ''K1''"
proof -
  have d: "destroy ''t3'' ''ann'' None demo_vault = (True, snd (destroy ''t3'' ''ann'' None demo_vault))"
    using demo_vault_rows(3) by (simp add: prod_eq_iff)
  let ?later = "fold (run_vault_op demo_vault_config) [KeyFor ''K3'' ''t4'' ''ann'' (Some ''acme'')] (snd (destroy ''t3'' ''ann'' None demo_vault))"
  have "\<not> exposed_at demo_vault_config ?later ''ann'' ''K1'' \<and> fst (key_for demo_vault_config ''K4'' ''t5'' ''ann'' None ?later) \<noteq> Inr ''K1''"
    by (rule erased_key_is_unrecoverable [OF demo_config_ok demo_only_ann d]) (auto simp: fresh_key_of_def)
  then show ?thesis by (rule conjunct2)
qed

theorem shredded_tenant_stays_dark_witness:
  "key_row ''bob'' (snd (shred_workspace demo_vault_config ''t3'' ''acme'' demo_vault)) = key_row ''bob'' demo_vault"
proof -
  let ?s = "shred_workspace demo_vault_config ''t3'' ''acme'' demo_vault"
  obtain n where s: "?s = (Inr n, snd ?s)" using demo_vault_rows(4) by (cases ?s; cases "fst ?s") auto
  have "table_ok empty_vault_db" by (simp add: table_ok_def empty_vault_db_def)
  note shredded_tenant_stays_dark [OF this demo_vault_def s, where later = "[]", OF refl]
  moreover have "workspace_of ''bob'' demo_vault \<noteq> Some ''acme''"
    by (simp add: workspace_of_def key_row_def demo_vault_rows)
  ultimately show ?thesis by blast
qed

definition demo_reach :: "nat reach_map" where
  "demo_reach = \<lparr>rm_memory = Some (\<lambda>_ w. (Inl ''locked'', w)), rm_conversations = Some (\<lambda>_ w. (Inr 2, w + 2)), rm_spine = None, rm_knowledge = None\<rparr>"

definition demo_retention :: "nat retention" where
  "demo_retention = \<lparr>rt_registry = empty_registry, rt_vault = Some demo_vault, rt_reach = Some demo_reach, rt_world = 0\<rparr>"

definition demo_stamp :: erasure_stamp where
  "demo_stamp = \<lparr>es_now = ''t3'', es_instant = 3, es_tombstone_id = ''u1'', es_certificate_id = ''u2''\<rparr>"

theorem deletion_certificate_is_truthful_witness:
  "(case erase_subject id demo_stamp ''ann'' ''asked'' None demo_retention of
      (Inr cert, _) \<Rightarrow> map se_store (dc_per_store cert) = [''memory'', ''conversations''] | _ \<Rightarrow> False)"
proof -
  have "\<not> isl (fst (erase_subject id demo_stamp ''ann'' ''asked'' None demo_retention))" by code_simp
  then obtain cert rt1 where e: "erase_subject id demo_stamp ''ann'' ''asked'' None demo_retention = (Inr cert, rt1)"
    by (cases "erase_subject id demo_stamp ''ann'' ''asked'' None demo_retention";
        cases "fst (erase_subject id demo_stamp ''ann'' ''asked'' None demo_retention)") auto
  have "rt_reach demo_retention = Some demo_reach" "map fst (wired_stores demo_reach) = [''memory'', ''conversations'']"
    by (simp_all add: demo_retention_def demo_reach_def wired_stores_def)
  with deletion_certificate_is_truthful [OF e] show ?thesis by (simp add: e)
qed

text \<open>
  The cache of another process is not told: after process one destroys a key, process two, which had
  served it before, still holds and returns it.
\<close>

lemma cached_key_outlives_a_foreign_destroy:
  "(let one = demo_vault; two = demo_vault;
        one' = snd (destroy ''t3'' ''ann'' None one);
        two' = two\<lparr>kv_db := kv_db one'\<rparr>
    in fst (key_for demo_vault_config ''K9'' ''t4'' ''ann'' None two') = Inr ''K1'' \<and> has_key ''ann'' two')"
  by code_simp

text \<open>A refused shred still empties the stores: the tenant guard covers the key only.\<close>

lemma refused_shred_still_deletes_rows:
  "(let (out, rt) = erase_subject id demo_stamp ''ann'' ''asked'' (Some ''rival'') demo_retention
    in (case out of Inr cert \<Rightarrow> \<not> dc_crypto_shredded cert | Inl _ \<Rightarrow> False) \<and> rt_world rt = 2)"
  by code_simp

end
