(* ===== verification/Consent.thy ===== *)
theory Consent
  imports KeyVault
begin

text \<open>
  Consent and purpose limitation: the pure decision of himmy/services/governance/consent.py and
  the ledger of himmy/services/governance/consent_ledger.py, which keeps one version chain per
  (workspace, subject, purpose) in the entity registry and erases a subject on withdrawal.

  Between the two steps of an attempt to write a version, other writers may act: \<open>rivals\<close> gives
  what they do in each attempt. The registry of the retention service is the ledger's registry.
\<close>

section \<open>Purposes, states, effects\<close>

datatype purpose = RETAIN | TRAIN | INFER | ANALYTICS | SHARE | IMPROVE

datatype consent_state = GRANTED | DENIED | WITHDRAWN | UNKNOWN

datatype effect = ALLOW | EPHEMERAL | DENY

definition CONSENT_KIND :: string where "CONSENT_KIND = ''consent''"

fun purpose_value :: "purpose \<Rightarrow> string" where
  "purpose_value RETAIN = ''retain''" | "purpose_value TRAIN = ''train''" | "purpose_value INFER = ''infer''"
| "purpose_value ANALYTICS = ''analytics''" | "purpose_value SHARE = ''share''" | "purpose_value IMPROVE = ''improve''"

fun state_value :: "consent_state \<Rightarrow> string" where
  "state_value GRANTED = ''granted''" | "state_value DENIED = ''denied''"
| "state_value WITHDRAWN = ''withdrawn''" | "state_value UNKNOWN = ''unknown''"

fun effect_value :: "effect \<Rightarrow> string" where
  "effect_value ALLOW = ''allow''" | "effect_value EPHEMERAL = ''ephemeral''" | "effect_value DENY = ''deny''"

text \<open>\<open>Purpose(value)\<close>: None is the \<open>ValueError\<close>.\<close>

definition purpose_of :: "string \<Rightarrow> purpose option" where
  "purpose_of v = find (\<lambda>p. purpose_value p = v) [RETAIN, TRAIN, INFER, ANALYTICS, SHARE, IMPROVE]"

definition state_of :: "string \<Rightarrow> consent_state option" where
  "state_of v = find (\<lambda>s. state_value s = v) [GRANTED, DENIED, WITHDRAWN, UNKNOWN]"

definition effect_of :: "string \<Rightarrow> effect option" where
  "effect_of v = find (\<lambda>e. effect_value e = v) [ALLOW, EPHEMERAL, DENY]"

record decision =
  de_subject_id :: string
  de_purpose :: purpose
  de_effect :: effect
  de_reason :: string

definition decision_allowed :: "decision \<Rightarrow> bool" where
  "decision_allowed d \<longleftrightarrow> de_effect d = ALLOW"

definition consent_stable_id :: "(string \<Rightarrow> string) \<Rightarrow> string \<Rightarrow> purpose \<Rightarrow> string option \<Rightarrow> string" where
  "consent_stable_id uuid5 subject p ws =
     (let key = (case ws of
          None \<Rightarrow> subject @ CHR ''|'' # purpose_value p
        | Some w \<Rightarrow> w @ CHR ''|'' # subject @ CHR ''|'' # purpose_value p)
      in stable_id_for uuid5 key CONSENT_KIND None)"

section \<open>The policy\<close>

record consent_defaults =
  cd_per_purpose :: "(purpose, effect) dict"
  cd_fallback :: effect

definition effect_for :: "consent_defaults \<Rightarrow> purpose \<Rightarrow> effect" where
  "effect_for d p = (case map_of (cd_per_purpose d) p of Some e \<Rightarrow> e | None \<Rightarrow> cd_fallback d)"

definition DEFAULT_CONSENT_DEFAULTS :: consent_defaults where
  "DEFAULT_CONSENT_DEFAULTS =
     \<lparr>cd_per_purpose = [(RETAIN, DENY), (TRAIN, DENY), (INFER, EPHEMERAL), (ANALYTICS, DENY), (SHARE, DENY), (IMPROVE, DENY)],
      cd_fallback = DENY\<rparr>"

definition effect_for_state :: "consent_state \<Rightarrow> purpose \<Rightarrow> consent_defaults \<Rightarrow> effect" where
  "effect_for_state s p d = (case s of GRANTED \<Rightarrow> ALLOW | DENIED \<Rightarrow> DENY | WITHDRAWN \<Rightarrow> DENY | UNKNOWN \<Rightarrow> effect_for d p)"

record consent_policy =
  cp_governed :: bool
  cp_defaults :: consent_defaults

definition decide :: "consent_policy \<Rightarrow> string \<Rightarrow> purpose \<Rightarrow> consent_state \<Rightarrow> string option \<Rightarrow> decision" where
  "decide pol subject p s surface =
     (if \<not> cp_governed pol then \<lparr>de_subject_id = subject, de_purpose = p, de_effect = ALLOW, de_reason = ''ungoverned''\<rparr>
      else (let e = effect_for_state s p (cp_defaults pol);
                place = (case surface of Some (c # cs) \<Rightarrow> '' @'' @ c # cs | _ \<Rightarrow> [])
            in \<lparr>de_subject_id = subject, de_purpose = p, de_effect = e,
                de_reason = state_value s @ ''->'' @ effect_value e @ place\<rparr>))"

text \<open>The defaults file, parsed; entries with an unknown purpose or effect are skipped.\<close>

definition load_default :: "string \<times> json \<Rightarrow> consent_defaults \<Rightarrow> consent_defaults" where
  "load_default = (\<lambda>(key, v) d.
     case effect_of (py_lower (py_str v)) of
       None \<Rightarrow> d
     | Some e \<Rightarrow>
         if key = ''*'' \<or> key = ''default'' then d\<lparr>cd_fallback := e\<rparr>
         else (case purpose_of (py_lower key) of
                 None \<Rightarrow> d
               | Some p \<Rightarrow> d\<lparr>cd_per_purpose := AList.update p e (cd_per_purpose d)\<rparr>))"

definition load_defaults :: "json option \<Rightarrow> string + consent_defaults" where
  "load_defaults raw =
     (case raw of
        None \<Rightarrow> Inr DEFAULT_CONSENT_DEFAULTS
      | Some (JObj entries) \<Rightarrow> Inr (fold load_default entries DEFAULT_CONSENT_DEFAULTS)
      | Some _ \<Rightarrow> Inl ''HIMMY_CONSENT_FILE must be a JSON object'')"

definition is_on :: "string \<Rightarrow> bool" where
  "is_on v \<longleftrightarrow> py_lower (py_strip py_is_space v) \<in> {''1'', ''on'', ''true'', ''yes''}"

text \<open>\<open>flag\<close> is the value of \<open>HIMMY_CONSENT\<close>, \<open>raw\<close> the parsed file when one is named.\<close>

definition build_consent_policy :: "string \<Rightarrow> json option \<Rightarrow> string + consent_policy" where
  "build_consent_policy flag raw =
     (if \<not> is_on flag then Inr \<lparr>cp_governed = False, cp_defaults = DEFAULT_CONSENT_DEFAULTS\<rparr>
      else map_sum id (\<lambda>d. \<lparr>cp_governed = True, cp_defaults = d\<rparr>) (load_defaults raw))"

section \<open>The ledger\<close>

record consent_record =
  cr_subject_id :: string
  cr_purpose :: purpose
  cr_state :: consent_state
  cr_workspace_id :: "string option"
  cr_actor :: string
  cr_source :: string
  cr_basis :: "string option"
  cr_expires_at :: "string option"
  cr_recorded_at :: string

definition dump_consent :: "consent_record \<Rightarrow> json_dict" where
  "dump_consent c =
     [(''subject_id'', JStr (cr_subject_id c)), (''purpose'', JStr (purpose_value (cr_purpose c))),
      (''state'', JStr (state_value (cr_state c))), (''workspace_id'', text_json (cr_workspace_id c)),
      (''actor'', JStr (cr_actor c)), (''source'', JStr (cr_source c)), (''basis'', text_json (cr_basis c)),
      (''expires_at'', text_json (cr_expires_at c)), (''recorded_at'', JStr (cr_recorded_at c))]"

definition json_text :: "json \<Rightarrow> string option option" where
  "json_text v = (case v of JStr s \<Rightarrow> Some (Some s) | JNull \<Rightarrow> Some None | _ \<Rightarrow> None)"

definition field_text :: "string \<Rightarrow> json_dict \<Rightarrow> string option" where
  "field_text k d = (case map_of d k of Some (JStr s) \<Rightarrow> Some s | _ \<Rightarrow> None)"

text \<open>\<open>model_validate\<close> of a stored payload; None is a validation error.\<close>

definition validate_consent :: "json_dict \<Rightarrow> consent_record option" where
  "validate_consent d =
     (case (field_text ''subject_id'' d, map_option purpose_of (field_text ''purpose'' d),
            map_option state_of (field_text ''state'' d), json_text (json_get ''workspace_id'' JNull d)) of
        (Some subject, Some (Some p), Some (Some s), Some ws) \<Rightarrow>
          (case (field_text ''actor'' d, field_text ''source'' d, json_text (json_get ''basis'' JNull d),
                 json_text (json_get ''expires_at'' JNull d), field_text ''recorded_at'' d) of
             (Some actor, Some source, Some basis, Some expires, Some recorded) \<Rightarrow>
               Some \<lparr>cr_subject_id = subject, cr_purpose = p, cr_state = s, cr_workspace_id = ws, cr_actor = actor,
                     cr_source = source, cr_basis = basis, cr_expires_at = expires, cr_recorded_at = recorded\<rparr>
           | _ \<Rightarrow> None)
      | _ \<Rightarrow> None)"

datatype ledger_error = LostRaces | BadPayload | ErasureFailed

definition MAX_RETRY :: nat where "MAX_RETRY = 8"

text \<open>What a write takes: who, where from, on what basis, until when, and the clock.\<close>

record consent_note =
  cn_actor :: string
  cn_source :: string
  cn_basis :: "string option"
  cn_expires_at :: "string option"
  cn_now :: string
  cn_instant :: instant

fun write_version :: "(string \<Rightarrow> string) \<Rightarrow> string \<Rightarrow> json_dict \<Rightarrow> json_dict \<Rightarrow> instant \<Rightarrow> registry_op list list
    \<Rightarrow> entity_registry \<Rightarrow> (ledger_error + entity_record) \<times> entity_registry" where
  "write_version uuid5 sid payload meta now [] reg = (Inl LostRaces, reg)"
| "write_version uuid5 sid payload meta now (rivals # rest) reg =
     (let expected = (case get_latest sid reg of Some r \<Rightarrow> er_version r | None \<Rightarrow> 0);
          reg1 = fold (run_registry_op uuid5) rivals reg
      in case new_version uuid5 sid CONSENT_KIND payload (Some meta) (Some expected) now reg1 of
           (Inr r, reg2) \<Rightarrow> (Inr r, reg2)
         | (Inl _, reg2) \<Rightarrow> write_version uuid5 sid payload meta now rest reg2)"

text \<open>\<open>rivals\<close> holds what the other writers do in each of the \<open>MAX_RETRY\<close> attempts.\<close>

definition consent_set :: "(string \<Rightarrow> string) \<Rightarrow> string \<Rightarrow> purpose \<Rightarrow> consent_state \<Rightarrow> string option \<Rightarrow> consent_note
    \<Rightarrow> (nat \<Rightarrow> registry_op list) \<Rightarrow> entity_registry \<Rightarrow> (ledger_error + entity_record) \<times> entity_registry" where
  "consent_set uuid5 subject p s ws note rivals reg =
     (let payload = dump_consent \<lparr>cr_subject_id = subject, cr_purpose = p, cr_state = s, cr_workspace_id = ws,
            cr_actor = cn_actor note, cr_source = cn_source note, cr_basis = cn_basis note,
            cr_expires_at = cn_expires_at note, cr_recorded_at = cn_now note\<rparr>;
          meta = [(''subject_id'', JStr subject), (''purpose'', JStr (purpose_value p)),
                  (''state'', JStr (state_value s)), (''workspace_id'', text_json ws)]
      in write_version uuid5 (consent_stable_id uuid5 subject p ws) payload meta (cn_instant note)
           (map rivals [0..<MAX_RETRY]) reg)"

definition consent_grant :: "(string \<Rightarrow> string) \<Rightarrow> string \<Rightarrow> purpose \<Rightarrow> string option \<Rightarrow> consent_note
    \<Rightarrow> (nat \<Rightarrow> registry_op list) \<Rightarrow> entity_registry \<Rightarrow> (ledger_error + entity_record) \<times> entity_registry" where
  "consent_grant uuid5 subject p = consent_set uuid5 subject p GRANTED"

definition consent_deny :: "(string \<Rightarrow> string) \<Rightarrow> string \<Rightarrow> purpose \<Rightarrow> string option \<Rightarrow> consent_note
    \<Rightarrow> (nat \<Rightarrow> registry_op list) \<Rightarrow> entity_registry \<Rightarrow> (ledger_error + entity_record) \<times> entity_registry" where
  "consent_deny uuid5 subject p = consent_set uuid5 subject p DENIED"

definition consent_state_of :: "(string \<Rightarrow> string) \<Rightarrow> string \<Rightarrow> purpose \<Rightarrow> string option \<Rightarrow> entity_registry \<Rightarrow> ledger_error + consent_state" where
  "consent_state_of uuid5 subject p ws reg =
     (case get_latest (consent_stable_id uuid5 subject p ws) reg of
        None \<Rightarrow> Inr UNKNOWN
      | Some r \<Rightarrow> (case map_option state_of (field_text ''state'' (er_payload r)) of Some (Some s) \<Rightarrow> Inr s | _ \<Rightarrow> Inl BadPayload))"

definition consent_latest :: "(string \<Rightarrow> string) \<Rightarrow> string \<Rightarrow> purpose \<Rightarrow> string option \<Rightarrow> entity_registry
    \<Rightarrow> ledger_error + consent_record option" where
  "consent_latest uuid5 subject p ws reg =
     (case get_latest (consent_stable_id uuid5 subject p ws) reg of
        None \<Rightarrow> Inr None
      | Some r \<Rightarrow> (case validate_consent (er_payload r) of Some c \<Rightarrow> Inr (Some c) | None \<Rightarrow> Inl BadPayload))"

definition consent_history :: "(string \<Rightarrow> string) \<Rightarrow> string \<Rightarrow> purpose \<Rightarrow> string option \<Rightarrow> entity_registry
    \<Rightarrow> consent_record option list" where
  "consent_history uuid5 subject p ws reg =
     map (validate_consent \<circ> er_payload) (get_history (consent_stable_id uuid5 subject p ws) reg)"

definition consent_decision :: "(string \<Rightarrow> string) \<Rightarrow> consent_policy \<Rightarrow> string \<Rightarrow> purpose \<Rightarrow> string option \<Rightarrow> string option
    \<Rightarrow> entity_registry \<Rightarrow> ledger_error + decision" where
  "consent_decision uuid5 pol subject p ws surface reg =
     map_sum id (\<lambda>s. decide pol subject p s surface) (consent_state_of uuid5 subject p ws reg)"

text \<open>The purposes a subject has a record for, in the order of their first records.\<close>

fun collect_purposes :: "entity_record list \<Rightarrow> purpose list \<Rightarrow> ledger_error + purpose list" where
  "collect_purposes [] seen = Inr seen"
| "collect_purposes (r # rs) seen =
     (let m = json_get ''purpose'' JNull (er_metadata r);
          v = py_str (if json_truthy m then m else json_get ''purpose'' JNull (er_payload r))
      in if v = [] then collect_purposes rs seen
         else case purpose_of v of
                None \<Rightarrow> Inl BadPayload
              | Some p \<Rightarrow> collect_purposes rs (if p \<in> set seen then seen else seen @ [p]))"

definition purposes_for :: "string \<Rightarrow> string option \<Rightarrow> entity_registry \<Rightarrow> ledger_error + purpose list" where
  "purposes_for subject ws reg =
     collect_purposes (query \<lparr>eq_kind = Some CONSENT_KIND,
        eq_metadata_filters = (''subject_id'', JStr subject) # (case ws of None \<Rightarrow> [] | Some w \<Rightarrow> [(''workspace_id'', JStr w)]),
        eq_stable_id = None\<rparr> reg) []"

fun withdraw_each :: "(string \<Rightarrow> string) \<Rightarrow> string \<Rightarrow> purpose list \<Rightarrow> string option \<Rightarrow> consent_note
    \<Rightarrow> (purpose \<Rightarrow> nat \<Rightarrow> registry_op list) \<Rightarrow> entity_registry \<Rightarrow> (ledger_error + entity_record list) \<times> entity_registry" where
  "withdraw_each uuid5 subject [] ws note rivals reg = (Inr [], reg)"
| "withdraw_each uuid5 subject (p # ps) ws note rivals reg =
     (case consent_set uuid5 subject p WITHDRAWN ws note (rivals p) reg of
        (Inl e, reg1) \<Rightarrow> (Inl e, reg1)
      | (Inr r, reg1) \<Rightarrow>
          (case withdraw_each uuid5 subject ps ws note rivals reg1 of
             (Inl e, reg2) \<Rightarrow> (Inl e, reg2) | (Inr rs, reg2) \<Rightarrow> (Inr (r # rs), reg2)))"

text \<open>\<open>wired\<close> tells whether the ledger has a retention service.\<close>

definition withdraw :: "(string \<Rightarrow> string) \<Rightarrow> bool \<Rightarrow> erasure_stamp \<Rightarrow> string \<Rightarrow> purpose option \<Rightarrow> string option \<Rightarrow> string
    \<Rightarrow> consent_note \<Rightarrow> (purpose \<Rightarrow> nat \<Rightarrow> registry_op list) \<Rightarrow> 'w retention \<Rightarrow> (ledger_error + entity_record list) \<times> 'w retention" where
  "withdraw uuid5 wired stamp subject po ws reason note rivals rt =
     (case (case po of
              Some p \<Rightarrow> map_sum id (\<lambda>c. if c = None then [] else [p]) (consent_latest uuid5 subject p ws (rt_registry rt))
            | None \<Rightarrow> purposes_for subject ws (rt_registry rt)) of
        Inl e \<Rightarrow> (Inl e, rt)
      | Inr ps \<Rightarrow>
          (case withdraw_each uuid5 subject ps ws
                 (note\<lparr>cn_basis := if reason = [] then None else Some reason, cn_expires_at := None\<rparr>) rivals (rt_registry rt) of
             (Inl e, reg1) \<Rightarrow> (Inl e, rt\<lparr>rt_registry := reg1\<rparr>)
           | (Inr rs, reg1) \<Rightarrow>
               (let rt1 = rt\<lparr>rt_registry := reg1\<rparr>
                in if wired \<and> rs \<noteq> [] \<and> (ws = None \<or> retention_workspace_of subject rt1 = ws) then
                     (case erase_subject uuid5 stamp subject (if reason = [] then ''consent_withdrawn'' else reason) ws rt1 of
                        (Inl e, rt2) \<Rightarrow> (Inl ErasureFailed, rt2)
                      | (Inr cert, rt2) \<Rightarrow> (Inr rs, rt2))
                   else (Inr rs, rt1))))"

section \<open>Chains are kept apart\<close>

lemma py_remove_keeps: "c \<in> set s \<Longrightarrow> c \<notin> set p \<Longrightarrow> c \<in> set (py_remove p s)"
proof (induction p s rule: py_remove.induct)
  case (2 p d cs)
  show ?case
  proof (cases "p \<noteq> [] \<and> take (length p) (d # cs) = p")
    case True
    have "set (d # cs) = set (take (length p) (d # cs)) \<union> set (drop (length p) (d # cs))"
      by (metis append_take_drop_id set_append)
    moreover have "drop (length p) (d # cs) = drop (length p - 1) cs" using True by (cases p) auto
    ultimately have "c \<in> set (drop (length p - 1) cs)" using 2 True by auto
    with 2 True show ?thesis by simp
  next
    case False
    with 2 show ?thesis by (auto simp del: not_gr_zero)
  qed
qed simp

lemma dropWhile_keeps: "c \<in> set s \<Longrightarrow> \<not> P c \<Longrightarrow> c \<in> set (dropWhile P s)"
  by (induction s) auto

lemma py_strip_keeps: "c \<in> set s \<Longrightarrow> \<not> P c \<Longrightarrow> c \<in> set (py_strip P s)"
  by (simp add: py_strip_def dropWhile_keeps)

lemma bar_is_no_hex: "CHR ''|'' \<in> set s \<Longrightarrow> \<not> hex_digits s"
  by (induction s rule: hex_digits.induct) (auto simp: is_hex_digit_def)

lemma bar_is_no_int16: "CHR ''|'' \<in> set s \<Longrightarrow> \<not> py_int16_accepts s"
proof -
  assume "CHR ''|'' \<in> set s"
  then have s: "CHR ''|'' \<in> set (py_strip py_is_space s)"
    by (rule py_strip_keeps) (simp add: py_is_space_def)
  define t where "t = (case py_strip py_is_space s of c # cs \<Rightarrow> if c = CHR ''+'' \<or> c = CHR ''-'' then cs else py_strip py_is_space s
    | [] \<Rightarrow> py_strip py_is_space s)"
  have t: "CHR ''|'' \<in> set t" using s by (cases "py_strip py_is_space s") (auto simp: t_def)
  have eq: "py_int16_accepts s = (case t of
           c # x # cs \<Rightarrow>
             if c = CHR ''0'' \<and> (x = CHR ''x'' \<or> x = CHR ''X'') then
               (case cs of u # ds \<Rightarrow> if u = CHR ''_'' then hex_digits ds else hex_digits cs | [] \<Rightarrow> False)
             else hex_digits t
         | _ \<Rightarrow> hex_digits t)"
    by (simp only: py_int16_accepts_def Let_def t_def)
  consider (short) "\<nexists>c x cs. t = c # x # cs" | (pre) c x cs where "t = c # x # cs" "c = CHR ''0''" "x = CHR ''x'' \<or> x = CHR ''X''"
    | (plain) c x cs where "t = c # x # cs" "\<not> (c = CHR ''0'' \<and> (x = CHR ''x'' \<or> x = CHR ''X''))" by blast
  then show ?thesis
  proof cases
    case short
    then have "py_int16_accepts s = hex_digits t" by (simp add: eq split: list.split) 
    then show ?thesis using bar_is_no_hex [OF t] by simp
  next
    case pre
    then have "CHR ''|'' \<in> set cs" using t by auto
    then show ?thesis using pre bar_is_no_hex [of cs] by (cases cs) (auto simp: eq dest: bar_is_no_hex)
  next
    case plain
    then have "py_int16_accepts s = hex_digits t" by (simp only: eq list.case if_False)
    then show ?thesis using bar_is_no_hex [OF t] by simp
  qed
qed

lemma bar_is_no_uuid: "CHR ''|'' \<in> set s \<Longrightarrow> \<not> is_uuid s"
  by (simp add: is_uuid_def Let_def bar_is_no_int16 py_remove_keeps py_strip_keeps)

definition consent_key :: "string \<Rightarrow> purpose \<Rightarrow> string option \<Rightarrow> string" where
  "consent_key subject p ws = (case ws of None \<Rightarrow> subject @ CHR ''|'' # purpose_value p
     | Some w \<Rightarrow> w @ CHR ''|'' # subject @ CHR ''|'' # purpose_value p)"

lemma consent_stable_id_eq:
  "consent_stable_id uuid5 subject p ws = uuid5 (''consent:'' @ consent_key subject p ws)"
proof -
  have "\<not> is_uuid (consent_key subject p ws)" by (rule bar_is_no_uuid) (simp add: consent_key_def split: option.splits)
  moreover have "consent_key subject p ws \<noteq> []" by (simp add: consent_key_def split: option.splits)
  moreover have "consent_stable_id uuid5 subject p ws = stable_id_for uuid5 (consent_key subject p ws) CONSENT_KIND None"
    by (simp add: consent_stable_id_def consent_key_def split: option.splits)
  ultimately show ?thesis
    by (simp add: stable_id_for_def stable_id_derivation_def CONSENT_KIND_def)
qed

lemma split_at_bar:
  "CHR ''|'' \<notin> set a \<Longrightarrow> CHR ''|'' \<notin> set b \<Longrightarrow> a @ CHR ''|'' # x = b @ CHR ''|'' # y \<longleftrightarrow> a = b \<and> x = y"
  by (induction a arbitrary: b) (case_tac b; auto)+

lemma no_bar_in_purpose [simp]: "CHR ''|'' \<notin> set (purpose_value p)"
  by (cases p) auto

lemma purpose_value_inj [simp]: "purpose_value p = purpose_value q \<longleftrightarrow> p = q"
  by (cases p; cases q) auto

lemma split_at_last_bar:
  "x @ CHR ''|'' # purpose_value p = y @ CHR ''|'' # purpose_value q \<longleftrightarrow> x = y \<and> p = q"
proof -
  have "x @ CHR ''|'' # a = y @ CHR ''|'' # b \<longleftrightarrow> rev a @ CHR ''|'' # rev x = rev b @ CHR ''|'' # rev y" for a b
    by (metis rev_append rev_is_rev_conv rev.simps(2) append.assoc append_Cons append_Nil)
  then show ?thesis by (auto simp: split_at_bar)
qed

lemma consent_ids_differ:
  assumes "inj uuid5" and "CHR ''|'' \<notin> set w" and "CHR ''|'' \<notin> set w'"
  shows "consent_stable_id uuid5 s p (Some w) = consent_stable_id uuid5 s' p' (Some w') \<longleftrightarrow> s = s' \<and> p = p' \<and> w = w'"
proof -
  have "consent_key s p (Some w) = consent_key s' p' (Some w') \<longleftrightarrow> s = s' \<and> p = p' \<and> w = w'"
    using split_at_last_bar [of "w @ CHR ''|'' # s" p "w' @ CHR ''|'' # s'" p'] split_at_bar [OF assms(2,3), of s s']
    by (auto simp: consent_key_def)
  with assms(1) show ?thesis by (auto simp: consent_stable_id_eq dest: injD)
qed

lemma consent_purposes_differ:
  assumes "inj uuid5"
  shows "consent_stable_id uuid5 s p ws = consent_stable_id uuid5 s p' ws \<longleftrightarrow> p = p'"
proof -
  have "consent_key s p ws = consent_key s p' ws \<longleftrightarrow> p = p'"
    using split_at_last_bar [of s p s p'] by (auto simp: consent_key_def split: option.splits)
  with assms(1) show ?thesis by (auto simp: consent_stable_id_eq dest: injD)
qed

section \<open>Writing a version against rivals\<close>

definition own_ids :: "(string \<Rightarrow> string) \<Rightarrow> registry_op \<Rightarrow> bool" where
  "own_ids uuid5 op = (case op of Register r \<Rightarrow> er_record_id r = uuid5 (derivation r) | _ \<Rightarrow> True)"

definition spares :: "string \<Rightarrow> registry_op \<Rightarrow> bool" where
  "spares sid op = (case op of Register r \<Rightarrow> er_stable_id r \<noteq> sid | NewVersion s _ _ _ _ _ \<Rightarrow> s \<noteq> sid | Link _ _ _ _ _ _ \<Rightarrow> True)"

lemma derived_ids_register:
  assumes "derived_ids uuid5 reg" "er_record_id r = uuid5 (derivation r)"
  shows "derived_ids uuid5 (snd (register r reg))"
  using assms by (cases rule: register_cases [of r reg]) (auto simp: derived_ids_def)

lemma created_id: "er_record_id (entity_record_create uuid5 sid v kind p m now) = uuid5 (derivation (entity_record_create uuid5 sid v kind p m now))"
  by (simp add: derivation_def record_id_for_def)

lemma derivation_created [simp]: "derivation (entity_record_create uuid5 sid v kind p m now) = record_id_derivation kind sid v"
  by (simp add: derivation_def)

lemma derived_ids_op: "derived_ids uuid5 reg \<Longrightarrow> own_ids uuid5 op \<Longrightarrow> derived_ids uuid5 (run_registry_op uuid5 op reg)"
proof (cases rule: run_registry_op_cases [of uuid5 op reg])
  case (registers r)
  assume a: "derived_ids uuid5 reg" "own_ids uuid5 op"
  with registers(2) have "er_record_id r = uuid5 (derivation r)" by (auto simp: own_ids_def record_id_for_def)
  then show ?thesis unfolding registers(1) by (rule derived_ids_register [OF a(1)])
qed (simp add: derived_ids_def)

lemma derived_ids_history: "derived_ids uuid5 reg \<Longrightarrow> list_all (own_ids uuid5) ops \<Longrightarrow> derived_ids uuid5 (fold (run_registry_op uuid5) ops reg)"
  by (induction ops arbitrary: reg) (simp_all add: derived_ids_op)

lemma versions_spared: "spares sid op \<Longrightarrow> versions_of sid (run_registry_op uuid5 op reg) = versions_of sid reg"
proof (cases rule: run_registry_op_cases [of uuid5 op reg])
  case (registers r)
  assume "spares sid op"
  with registers(2) have "er_stable_id r \<noteq> sid" by (auto simp: spares_def)
  then show ?thesis unfolding registers(1) by (cases rule: register_cases [of r reg]) simp_all
qed (simp add: versions_of_def)

lemma history_spared:
  "list_all (spares sid) ops \<Longrightarrow> versions_of sid (fold (run_registry_op uuid5) ops reg) = versions_of sid reg"
  by (induction ops arbitrary: reg) (simp_all add: versions_spared)

lemma current_version_eq: "versions_of sid reg = versions_of sid reg' \<Longrightarrow> current_version sid reg = current_version sid reg'"
  by (simp add: current_version_def get_latest_last)

text \<open>One attempt: the expected version is current and the version is appended, or nothing changes.\<close>

lemma attempt:
  assumes "inj uuid5" and wf: "registry_wf reg" and ids: "derived_ids uuid5 reg"
    and new: "new_version uuid5 sid kind payload meta (Some e) now reg = (res, reg')"
  shows "if e = current_version sid reg
     then (\<exists>r. res = Inr r \<and> er_payload r = payload \<and> get_latest sid reg' = Some r \<and> get_history sid reg' = get_history sid reg @ [r]
        \<and> (\<forall>sid'. sid' \<noteq> sid \<longrightarrow> versions_of sid' reg' = versions_of sid' reg) \<and> registry_wf reg' \<and> derived_ids uuid5 reg')
     else res = Inl ConcurrencyConflict \<and> reg' = reg"
proof (cases "e = current_version sid reg")
  case True
  define r where "r = entity_record_create uuid5 sid (current_version sid reg + 1) kind (Some payload) meta now"
  have "inj_on uuid5 A" for A using assms(1) by (rule inj_on_subset) simp
  note o = optimistic_versioning [OF wf ids r_def this _ new]
  have "reg' = snd (register r reg)" using new True by (simp add: new_version_def r_def prod_eq_iff)
  then have "registry_wf reg'" "derived_ids uuid5 reg'"
    using register_wf [OF wf, of r] derived_ids_register [OF ids, of r] by (simp_all add: r_def record_id_for_def)
  with o True show ?thesis by (simp add: get_history_def) (simp add: r_def)
next
  case False
  then show ?thesis using new by (simp add: new_version_def)
qed

lemma expected_is_current: "(case get_latest sid reg of Some r \<Rightarrow> er_version r | None \<Rightarrow> 0) = current_version sid reg"
  by (simp add: current_version_def split: option.split)

lemma write_version_result:
  assumes "inj uuid5" and "registry_wf reg" and "derived_ids uuid5 reg" and "list_all (list_all (own_ids uuid5)) rivals"
    and "write_version uuid5 sid payload meta now rivals reg = (res, reg')"
  shows "registry_wf reg' \<and> derived_ids uuid5 reg'
    \<and> ((\<exists>ops \<in> set rivals. list_all (spares sid) ops) \<longrightarrow> \<not> isl res)
    \<and> (\<forall>r. res = Inr r \<longrightarrow> er_payload r = payload \<and> get_latest sid reg' = Some r \<and> (\<exists>h. get_history sid reg' = h @ [r]))
    \<and> (\<forall>sid'. sid' \<noteq> sid \<longrightarrow> list_all (list_all (spares sid')) rivals \<longrightarrow> versions_of sid' reg' = versions_of sid' reg)"
  using assms(2-)
proof (induction rivals arbitrary: reg)
  case Nil
  then show ?case by auto
next
  case (Cons ops rest)
  define reg1 where "reg1 = fold (run_registry_op uuid5) ops reg"
  have inv: "registry_wf reg1" "derived_ids uuid5 reg1"
    using Cons.prems by (simp_all add: reg1_def registry_history_wf derived_ids_history)
  have spared: "list_all (spares s) ops \<Longrightarrow> versions_of s reg1 = versions_of s reg" for s
    by (simp add: reg1_def history_spared)
  obtain a reg2 where a: "new_version uuid5 sid CONSENT_KIND payload (Some meta) (Some (current_version sid reg)) now reg1 = (a, reg2)"
    by fastforce
  note new = attempt [OF assms(1) inv a]
  show ?case
  proof (cases "current_version sid reg = current_version sid reg1")
    case True
    with new obtain r where r: "a = Inr r" "er_payload r = payload" "get_latest sid reg2 = Some r" "get_history sid reg2 = get_history sid reg1 @ [r]"
      "\<And>sid'. sid' \<noteq> sid \<Longrightarrow> versions_of sid' reg2 = versions_of sid' reg1" "registry_wf reg2" "derived_ids uuid5 reg2" by auto
    have "res = Inr r" "reg' = reg2"
      using Cons.prems(4) a r(1) by (simp_all add: expected_is_current Let_def flip: reg1_def)
    with r spared show ?thesis by simp
  next
    case False
    with new have c: "a = Inl ConcurrencyConflict" "reg2 = reg1" by auto
    then have w: "write_version uuid5 sid payload meta now rest reg1 = (res, reg')"
      using Cons.prems(4) a by (simp add: expected_is_current Let_def flip: reg1_def)
    have "\<not> list_all (spares sid) ops" using False spared current_version_eq by metis
    with Cons.IH [OF inv _ w] Cons.prems(3) spared show ?thesis by auto
  qed
qed

section \<open>A recorded consent is the one consulted\<close>

lemma purpose_of_value [simp]: "purpose_of (purpose_value p) = Some p"
  by (cases p) (simp_all add: purpose_of_def)

lemma state_of_value [simp]: "state_of (state_value s) = Some s"
  by (cases s) (simp_all add: state_of_def)

lemma text_json_read [simp]: "json_text (text_json t) = Some t"
  by (cases t) (simp_all add: json_text_def text_json_def)

lemma dump_consent_fields:
  "field_text ''subject_id'' (dump_consent c) = Some (cr_subject_id c)"
  "field_text ''purpose'' (dump_consent c) = Some (purpose_value (cr_purpose c))"
  "field_text ''state'' (dump_consent c) = Some (state_value (cr_state c))"
  "field_text ''actor'' (dump_consent c) = Some (cr_actor c)"
  "field_text ''source'' (dump_consent c) = Some (cr_source c)"
  "field_text ''recorded_at'' (dump_consent c) = Some (cr_recorded_at c)"
  "json_get ''workspace_id'' JNull (dump_consent c) = text_json (cr_workspace_id c)"
  "json_get ''basis'' JNull (dump_consent c) = text_json (cr_basis c)"
  "json_get ''expires_at'' JNull (dump_consent c) = text_json (cr_expires_at c)"
  by (simp_all add: field_text_def dump_consent_def json_get_def)

lemma validate_dump_consent [simp]: "validate_consent (dump_consent c) = Some c"
  by (simp add: validate_consent_def dump_consent_fields)

definition noted :: "string \<Rightarrow> purpose \<Rightarrow> consent_state \<Rightarrow> string option \<Rightarrow> consent_note \<Rightarrow> consent_record" where
  "noted subject p s ws note = \<lparr>cr_subject_id = subject, cr_purpose = p, cr_state = s, cr_workspace_id = ws,
     cr_actor = cn_actor note, cr_source = cn_source note, cr_basis = cn_basis note,
     cr_expires_at = cn_expires_at note, cr_recorded_at = cn_now note\<rparr>"

lemma noted_simps [simp]: "cr_state (noted subject p s ws note) = s" by (simp add: noted_def)

lemma read_latest:
  assumes "get_latest (consent_stable_id uuid5 subject p ws) reg = Some r" "er_payload r = dump_consent c"
  shows "consent_latest uuid5 subject p ws reg = Inr (Some c)" "consent_state_of uuid5 subject p ws reg = Inr (cr_state c)"
  using assms by (simp_all add: consent_latest_def consent_state_of_def dump_consent_fields)

lemma state_of_versions:
  "versions_of (consent_stable_id uuid5 subject p ws) reg = versions_of (consent_stable_id uuid5 subject p ws) reg'
   \<Longrightarrow> consent_state_of uuid5 subject p ws reg = consent_state_of uuid5 subject p ws reg'"
  by (simp add: consent_state_of_def get_latest_def)

definition all_own_ids :: "(string \<Rightarrow> string) \<Rightarrow> (nat \<Rightarrow> registry_op list) \<Rightarrow> bool" where
  "all_own_ids uuid5 rivals \<longleftrightarrow> (\<forall>k < MAX_RETRY. list_all (own_ids uuid5) (rivals k))"

definition all_spare :: "string \<Rightarrow> (nat \<Rightarrow> registry_op list) \<Rightarrow> bool" where
  "all_spare sid rivals \<longleftrightarrow> (\<forall>k < MAX_RETRY. list_all (spares sid) (rivals k))"

lemma consent_set_result:
  assumes "inj uuid5" "registry_wf reg" "derived_ids uuid5 reg" "all_own_ids uuid5 rivals"
    and "consent_set uuid5 subject p s ws note rivals reg = (res, reg')"
  shows "registry_wf reg'" "derived_ids uuid5 reg'"
    and "\<exists>k < MAX_RETRY. list_all (spares (consent_stable_id uuid5 subject p ws)) (rivals k) \<Longrightarrow> \<not> isl res"
    and "res = Inr r \<Longrightarrow> get_latest (consent_stable_id uuid5 subject p ws) reg' = Some r"
    and "res = Inr r \<Longrightarrow> er_payload r = dump_consent (noted subject p s ws note)"
    and "res = Inr r \<Longrightarrow> \<exists>h. get_history (consent_stable_id uuid5 subject p ws) reg' = h @ [r]"
    and "sid' \<noteq> consent_stable_id uuid5 subject p ws \<Longrightarrow> all_spare sid' rivals \<Longrightarrow> versions_of sid' reg' = versions_of sid' reg"
proof -
  note w = assms(5) [unfolded consent_set_def Let_def]
  have o: "list_all (list_all (own_ids uuid5)) (map rivals [0..<MAX_RETRY])" "list_all (list_all (spares x)) (map rivals [0..<MAX_RETRY]) \<longleftrightarrow> all_spare x rivals" for x
    using assms(4) by (auto simp: all_own_ids_def all_spare_def list_all_iff)
  have b: "(\<exists>ops \<in> set (map rivals [0..<MAX_RETRY]). list_all (spares x) ops) \<longleftrightarrow> (\<exists>k < MAX_RETRY. list_all (spares x) (rivals k))" for x
    by (auto simp: Bex_def)
  note res = write_version_result [OF assms(1-3) o(1) w, unfolded o(2) b]
  show "registry_wf reg'" using res by blast
  show "derived_ids uuid5 reg'" using res by blast
  show "\<not> isl res" if "\<exists>k < MAX_RETRY. list_all (spares (consent_stable_id uuid5 subject p ws)) (rivals k)" using res that by blast
  show "get_latest (consent_stable_id uuid5 subject p ws) reg' = Some r" if "res = Inr r" using res that by blast
  show "er_payload r = dump_consent (noted subject p s ws note)" if "res = Inr r" using res that by (simp add: noted_def)
  show "\<exists>h. get_history (consent_stable_id uuid5 subject p ws) reg' = h @ [r]" if "res = Inr r" using res that by blast
  show "versions_of sid' reg' = versions_of sid' reg" if "sid' \<noteq> consent_stable_id uuid5 subject p ws" "all_spare sid' rivals"
    using res that by blast
qed

definition effect_when :: "consent_policy \<Rightarrow> purpose \<Rightarrow> consent_state \<Rightarrow> effect" where
  "effect_when pol p s = (if \<not> cp_governed pol \<or> s = GRANTED then ALLOW
     else if s = UNKNOWN then effect_for (cp_defaults pol) p else DENY)"

lemma decide_effect: "de_effect (decide pol subject p s surface) = effect_when pol p s"
  by (cases s) (simp_all add: decide_def effect_for_state_def effect_when_def Let_def)


section \<open>A withdrawal stays in its tenant\<close>

lemma withdraw_each_result:
  assumes "inj uuid5" and "\<And>p. all_own_ids uuid5 (rivals p)"
    and "registry_wf reg" and "derived_ids uuid5 reg"
    and "withdraw_each uuid5 subject ps ws note rivals reg = (Inr rs, reg')"
  shows "length rs = length ps
    \<and> (\<forall>p \<in> set ps. (\<forall>q. all_spare (consent_stable_id uuid5 subject p ws) (rivals q)) \<longrightarrow>
         consent_state_of uuid5 subject p ws reg' = Inr WITHDRAWN)
    \<and> (\<forall>sid. (\<forall>q. all_spare sid (rivals q)) \<longrightarrow> (\<forall>p \<in> set ps. sid \<noteq> consent_stable_id uuid5 subject p ws) \<longrightarrow>
         versions_of sid reg' = versions_of sid reg)"
  using assms(3-)
proof (induction ps arbitrary: reg rs)
  case (Cons p ps)
  obtain a reg1 where c: "consent_set uuid5 subject p WITHDRAWN ws note (rivals p) reg = (a, reg1)" by fastforce
  with Cons.prems obtain r where r: "a = Inr r" by (auto split: sum.splits)
  obtain b reg2 where w: "withdraw_each uuid5 subject ps ws note rivals reg1 = (b, reg2)" by fastforce
  with Cons.prems c r obtain rs' where rs: "b = Inr rs'" "rs = r # rs'" "reg' = reg2" by (auto split: sum.splits)
  note s = consent_set_result [OF assms(1) Cons.prems(1,2) assms(2) c]
  note ih = Cons.IH [OF s(1,2) w [unfolded rs(1) rs(3) [symmetric]]]
  have first: "consent_state_of uuid5 subject p ws reg1 = Inr WITHDRAWN"
    using read_latest(2) [OF s(4) [OF r] s(5) [OF r]] by simp
  have "consent_state_of uuid5 subject p ws reg' = Inr WITHDRAWN"
    if q: "\<forall>q. all_spare (consent_stable_id uuid5 subject p ws) (rivals q)"
  proof (cases "p \<in> set ps")
    case True
    then show ?thesis using ih q by blast
  next
    case False
    then have "\<forall>q \<in> set ps. consent_stable_id uuid5 subject p ws \<noteq> consent_stable_id uuid5 subject q ws"
      using consent_purposes_differ [OF assms(1)] by metis
    with ih q have "versions_of (consent_stable_id uuid5 subject p ws) reg' = versions_of (consent_stable_id uuid5 subject p ws) reg1"
      by blast
    then show ?thesis using first state_of_versions by metis
  qed
  moreover have "versions_of sid reg' = versions_of sid reg"
    if "\<forall>q. all_spare sid (rivals q)" "\<forall>q \<in> set (p # ps). sid \<noteq> consent_stable_id uuid5 subject q ws" for sid
    using that ih s(7) [of sid] by auto
  ultimately show ?case using ih rs(2) by auto
qed simp

lemma erase_subject_spares:
  assumes "erase_subject uuid5 st subject why ws rt = (res, rt1)" "sid \<noteq> es_tombstone_id st" "sid \<noteq> es_certificate_id st"
  shows "versions_of sid (rt_registry rt1) = versions_of sid (rt_registry rt)"
proof -
  have reg: "er_stable_id r \<noteq> sid \<Longrightarrow> register r g = (x, g') \<Longrightarrow> versions_of sid g' = versions_of sid g" for r g x g'
    by (cases rule: register_cases [of r g]) auto
  show ?thesis
    using assms
    by (auto simp: erase_subject_def Let_def split: prod.splits sum.splits dest!: reg [rotated])
qed

lemma erase_subject_key:
  assumes "erase_subject uuid5 st subject why ws rt = (res, rt1)" "rt_vault rt = Some v"
  shows "rt_vault rt1 = Some (snd (destroy (es_now st) subject ws v))"
  using assms by (auto simp: erase_subject_def shred_key_def Let_def split: prod.splits sum.splits)

text \<open>The purposes a withdrawal applies to.\<close>

definition withdrawn_purposes :: "(string \<Rightarrow> string) \<Rightarrow> string \<Rightarrow> purpose option \<Rightarrow> string option \<Rightarrow> entity_registry
    \<Rightarrow> ledger_error + purpose list" where
  "withdrawn_purposes uuid5 subject po ws reg =
     (case po of
        Some p \<Rightarrow> map_sum id (\<lambda>c. if c = None then [] else [p]) (consent_latest uuid5 subject p ws reg)
      | None \<Rightarrow> purposes_for subject ws reg)"

text \<open>
  A completed withdrawal leaves every purpose it applies to withdrawn, in this tenant's chains
  only: the consents that other tenants hold are what they were. A key that is not bound to the
  tenant is left alone together with every store's rows; a live key that is bound to it, or
  any live key when the caller names no tenant, is destroyed once a purpose was withdrawn.
\<close>

theorem withdrawal_stays_in_its_tenant:
  assumes "inj uuid5" and "\<And>p. all_own_ids uuid5 (rivals p)"
    and "registry_wf (rt_registry rt)" and "derived_ids uuid5 (rt_registry rt)"
    and "\<And>s p w. consent_stable_id uuid5 s p w \<notin> {es_tombstone_id stamp, es_certificate_id stamp}"
    and "withdrawn_purposes uuid5 subject po ws (rt_registry rt) = Inr ps"
    and "withdraw uuid5 wired stamp subject po ws reason note rivals rt = (Inr rs, rt1)"
  shows "(\<forall>p \<in> set ps. (\<forall>q. all_spare (consent_stable_id uuid5 subject p ws) (rivals q)) \<longrightarrow>
         consent_state_of uuid5 subject p ws (rt_registry rt1) = Inr WITHDRAWN)
    \<and> (\<forall>subject' p' w w'. ws = Some w \<longrightarrow> w' \<noteq> w \<longrightarrow> CHR ''|'' \<notin> set w \<union> set w' \<longrightarrow>
         (\<forall>q. all_spare (consent_stable_id uuid5 subject' p' (Some w')) (rivals q)) \<longrightarrow>
         consent_state_of uuid5 subject' p' (Some w') (rt_registry rt1) = consent_state_of uuid5 subject' p' (Some w') (rt_registry rt))
    \<and> (ws \<noteq> None \<longrightarrow> retention_workspace_of subject rt \<noteq> ws \<longrightarrow> rt_vault rt1 = rt_vault rt \<and> rt_world rt1 = rt_world rt)
    \<and> (\<forall>v row. wired \<longrightarrow> ps \<noteq> [] \<longrightarrow> rt_vault rt = Some v \<longrightarrow> key_row subject v = Some row \<longrightarrow> row_live row \<longrightarrow>
         ws = None \<or> retention_workspace_of subject rt = ws \<longrightarrow> (\<exists>v1. rt_vault rt1 = Some v1 \<and> \<not> has_key subject v1))"
proof -
  let ?note = "note\<lparr>cn_basis := if reason = [] then None else Some reason, cn_expires_at := None\<rparr>"
  let ?why = "if reason = [] then ''consent_withdrawn'' else reason"
  obtain x reg1 where x: "withdraw_each uuid5 subject ps ws ?note rivals (rt_registry rt) = (x, reg1)" by fastforce
  define q where "q = rt\<lparr>rt_registry := reg1\<rparr>"
  have q: "rt_vault q = rt_vault rt" "rt_world q = rt_world rt" "rt_registry q = reg1" "retention_workspace_of subject q = retention_workspace_of subject rt"
    by (simp_all add: q_def retention_workspace_of_def)
  have e: "withdraw uuid5 wired stamp subject po ws reason note rivals rt =
    (case x of Inl e \<Rightarrow> (Inl e, q) | Inr rs \<Rightarrow>
      (if wired \<and> rs \<noteq> [] \<and> (ws = None \<or> retention_workspace_of subject q = ws) then
         (case erase_subject uuid5 stamp subject ?why ws q of (Inl e, rt2) \<Rightarrow> (Inl ErasureFailed, rt2) | (Inr cert, rt2) \<Rightarrow> (Inr rs, rt2))
       else (Inr rs, q)))"
    by (simp only: withdraw_def assms(6) [unfolded withdrawn_purposes_def] sum.case x prod.case Let_def q_def)
  with assms(7) have rs: "x = Inr rs" by (auto split: sum.splits if_splits prod.splits)
  note w = withdraw_each_result [OF assms(1-4) x [unfolded rs]]
  define erases where "erases \<longleftrightarrow> wired \<and> rs \<noteq> [] \<and> (ws = None \<or> retention_workspace_of subject rt = ws)"
  have last: "if erases then \<exists>cert. erase_subject uuid5 stamp subject ?why ws q = (Inr cert, rt1) else rt1 = q"
    using assms(7) unfolding e rs by (auto simp: erases_def q split: sum.splits if_splits prod.splits)
  have chains: "versions_of (consent_stable_id uuid5 s p w) (rt_registry rt1) = versions_of (consent_stable_id uuid5 s p w) reg1" for s p w
    using last erase_subject_spares [of uuid5 stamp subject ?why ws q _ rt1 "consent_stable_id uuid5 s p w"] assms(5) [of s p w] q(3)
    by (cases erases) auto
  have "\<forall>p \<in> set ps. (\<forall>q. all_spare (consent_stable_id uuid5 subject p ws) (rivals q)) \<longrightarrow>
         consent_state_of uuid5 subject p ws (rt_registry rt1) = Inr WITHDRAWN"
    using w state_of_versions [OF chains] by metis
  moreover have "consent_state_of uuid5 subject' p' (Some w') (rt_registry rt1) = consent_state_of uuid5 subject' p' (Some w') (rt_registry rt)"
    if "ws = Some u" "w' \<noteq> u" "CHR ''|'' \<notin> set u \<union> set w'" "\<forall>q. all_spare (consent_stable_id uuid5 subject' p' (Some w')) (rivals q)"
    for subject' p' u w'
  proof -
    have "\<forall>p \<in> set ps. consent_stable_id uuid5 subject' p' (Some w') \<noteq> consent_stable_id uuid5 subject p ws"
      using that consent_ids_differ [OF assms(1), of w' u] by auto
    with w that(4) show ?thesis by (intro state_of_versions) (simp add: chains)
  qed
  moreover have "rt_vault rt1 = rt_vault rt \<and> rt_world rt1 = rt_world rt" if "ws \<noteq> None" "retention_workspace_of subject rt \<noteq> ws"
    using last that q by (simp add: erases_def)
  moreover have "\<exists>v1. rt_vault rt1 = Some v1 \<and> \<not> has_key subject v1"
    if "wired" "ps \<noteq> []" "rt_vault rt = Some v" "key_row subject v = Some row" "row_live row"
      "ws = None \<or> retention_workspace_of subject rt = ws" for v row
  proof -
    have "rs \<noteq> []" using w that(2) by auto
    then have erases using that by (simp add: erases_def)
    then obtain cert where c: "erase_subject uuid5 stamp subject ?why ws q = (Inr cert, rt1)" using last by auto
    have own: "\<not> (ws \<noteq> None \<and> sk_workspace row \<noteq> ws)"
      using that by (auto simp: retention_workspace_of_def workspace_of_def)
    from erase_subject_key [OF c, of v] that(3) q(1)
    have "rt_vault rt1 = Some (snd (destroy (es_now stamp) subject ws v))" by simp
    with own that(4,5) show ?thesis by (auto simp: destroy_def has_key_def row_live_def shred_row_def)
  qed
  ultimately show ?thesis by blast
qed

section \<open>Examples\<close>

definition demo_note :: consent_note where
  "demo_note = \<lparr>cn_actor = ''ops'', cn_source = ''api'', cn_basis = None, cn_expires_at = None, cn_now = ''t9'', cn_instant = 9\<rparr>"

definition demo_race :: "nat \<Rightarrow> registry_op list" where
  "demo_race k = (if k = 0 then [NewVersion (consent_stable_id id ''ann'' TRAIN (Some ''acme'')) CONSENT_KIND
     (dump_consent (noted ''ann'' TRAIN DENIED (Some ''acme'') demo_note)) None None 8] else [])"

definition quiet :: "nat \<Rightarrow> registry_op list" where "quiet k = []"

lemma demo_race_ok: "all_own_ids id demo_race" "list_all (spares sid) (demo_race 2)" "all_own_ids id quiet" "all_spare sid quiet"
  by (auto simp: all_own_ids_def all_spare_def demo_race_def own_ids_def quiet_def)

lemma empty_registry_derived: "derived_ids uuid5 empty_registry"
  by (simp add: derived_ids_def empty_registry_def)


definition demo_ledger :: entity_registry where
  "demo_ledger = snd (consent_set id ''ann'' RETAIN GRANTED (Some ''rival'') demo_note quiet
     (snd (consent_set id ''ann'' TRAIN GRANTED (Some ''acme'') demo_note quiet empty_registry)))"

lemma demo_ledger_ok: "registry_wf demo_ledger" "derived_ids id demo_ledger"
proof -
  have set: "registry_wf (snd (consent_set id subject p s ws n quiet reg)) \<and> derived_ids id (snd (consent_set id subject p s ws n quiet reg))"
    if "registry_wf reg" "derived_ids id reg" for subject p s ws n reg
    using consent_set_result(1,2) [OF inj_on_id that demo_race_ok(3) surjective_pairing] by blast
  note a = set [OF empty_registry_wf empty_registry_derived]
  note b = set [OF conjunct1 [OF a] conjunct2 [OF a]]
  show "registry_wf demo_ledger" "derived_ids id demo_ledger" using b by (simp_all add: demo_ledger_def)
qed

definition demo_rights :: "nat retention" where
  "demo_rights = demo_retention\<lparr>rt_registry := demo_ledger\<rparr>"

definition demo_withdraw :: "(ledger_error + entity_record list) \<times> nat retention" where
  "demo_withdraw = withdraw id True demo_stamp ''ann'' None (Some ''rival'') ''left'' demo_note (\<lambda>_. quiet) demo_rights"

lemma demo_withdraw_runs: "\<not> isl (fst demo_withdraw)" "retention_workspace_of ''ann'' demo_rights = Some ''acme''"
  "withdrawn_purposes id ''ann'' None (Some ''rival'') demo_ledger = Inr [RETAIN]"
  by code_simp+

text \<open>A withdrawal in one tenant: its consent ends, the other tenant's consent and key stay.\<close>

theorem withdrawal_stays_in_its_tenant_witness:
  "consent_state_of id ''ann'' RETAIN (Some ''rival'') (rt_registry (snd demo_withdraw)) = Inr WITHDRAWN
   \<and> consent_state_of id ''ann'' TRAIN (Some ''acme'') (rt_registry (snd demo_withdraw)) = consent_state_of id ''ann'' TRAIN (Some ''acme'') demo_ledger
   \<and> rt_vault (snd demo_withdraw) = Some demo_vault"
proof -
  obtain rs where rs: "fst demo_withdraw = Inr rs" using demo_withdraw_runs(1) by (cases "fst demo_withdraw") auto
  have reg: "rt_registry demo_rights = demo_ledger" "rt_vault demo_rights = Some demo_vault" by (simp_all add: demo_rights_def demo_retention_def)
  have "withdraw id True demo_stamp ''ann'' None (Some ''rival'') ''left'' demo_note (\<lambda>_. quiet) demo_rights = (Inr rs, snd demo_withdraw)"
    by (simp add: demo_withdraw_def [symmetric] rs prod_eq_iff)
  moreover have "consent_stable_id id s p w \<notin> {es_tombstone_id demo_stamp, es_certificate_id demo_stamp}" for s p w
    by (simp add: consent_stable_id_eq demo_stamp_def)
  moreover note ok = demo_ledger_ok [folded reg(1)]
  ultimately have c: "(\<forall>p \<in> set [RETAIN]. (\<forall>q::purpose. all_spare (consent_stable_id id ''ann'' p (Some ''rival'')) quiet) \<longrightarrow>
         consent_state_of id ''ann'' p (Some ''rival'') (rt_registry (snd demo_withdraw)) = Inr WITHDRAWN)
    \<and> (\<forall>subject' p' w w'. Some ''rival'' = Some w \<longrightarrow> w' \<noteq> w \<longrightarrow> CHR ''|'' \<notin> set w \<union> set w' \<longrightarrow>
         (\<forall>q::purpose. all_spare (consent_stable_id id subject' p' (Some w')) quiet) \<longrightarrow>
         consent_state_of id subject' p' (Some w') (rt_registry (snd demo_withdraw)) = consent_state_of id subject' p' (Some w') (rt_registry demo_rights))
    \<and> (Some ''rival'' \<noteq> None \<longrightarrow> retention_workspace_of ''ann'' demo_rights \<noteq> Some ''rival'' \<longrightarrow>
         rt_vault (snd demo_withdraw) = rt_vault demo_rights \<and> rt_world (snd demo_withdraw) = rt_world demo_rights)"
    using withdrawal_stays_in_its_tenant [where rivals = "\<lambda>_. quiet" and rt = demo_rights and stamp = demo_stamp
        and subject = "''ann''" and po = None and ws = "Some ''rival''" and ps = "[RETAIN]",
        OF inj_on_id demo_race_ok(3) ok, of True "''left''" demo_note rs "snd demo_withdraw"]
    by (simp add: reg(1) demo_withdraw_runs(3))
  have "consent_state_of id ''ann'' TRAIN (Some ''acme'') (rt_registry (snd demo_withdraw))
      = consent_state_of id ''ann'' TRAIN (Some ''acme'') (rt_registry demo_rights)"
    using c demo_race_ok(4) by simp
  with c show ?thesis by (simp add: demo_race_ok(4) demo_withdraw_runs(2) reg)
qed

text \<open>The expiry date of a grant is recorded and never consulted: no decision reads the clock.\<close>

lemma expired_grant_still_allows:
  "(case consent_set id ''ann'' TRAIN GRANTED None (demo_note\<lparr>cn_expires_at := Some ''2001-01-01'', cn_now := ''2026-01-01''\<rparr>) quiet empty_registry of
      (_, reg) \<Rightarrow> map_sum id decision_allowed (consent_decision id \<lparr>cp_governed = True, cp_defaults = DEFAULT_CONSENT_DEFAULTS\<rparr> ''ann'' TRAIN None None reg))
   = Inr True"
  by code_simp

text \<open>A separator inside an id shifts the boundary between tenant and subject: two tenants share a chain.\<close>

lemma separator_merges_tenants:
  "consent_stable_id uuid5 ''b|c'' p (Some ''a'') = consent_stable_id uuid5 ''c'' p (Some ''a|b'')"
  "consent_stable_id uuid5 ''a|c'' p None = consent_stable_id uuid5 ''c'' p (Some ''a'')"
  by (simp_all add: consent_stable_id_eq consent_key_def)

text \<open>
  A withdrawal of every purpose without a tenant finds the purposes recorded in any tenant, writes
  WITHDRAWN into the chain without a tenant only, and erases the subject: the grants in the
  tenants stay in force.
\<close>

lemma global_withdrawal_leaves_tenant_grants:
  "(case withdraw id True demo_stamp ''ann'' None None ''left'' demo_note (\<lambda>_. quiet) demo_rights of
      (Inr rs, rt) \<Rightarrow> length rs = 2 \<and> consent_state_of id ''ann'' TRAIN (Some ''acme'') (rt_registry rt) = Inr GRANTED
         \<and> map_option (has_key ''ann'') (rt_vault rt) = Some False
    | _ \<Rightarrow> False)"
  by code_simp

end
