(* ===== verification/Envelope.thy ===== *)
theory Envelope
  imports PyText "HOL-Library.Word"
begin

unbundle bit_operations_syntax

text \<open>
  Field encryption (himmy/services/storage/encryption.py): the key-encryption-key providers, the
  token format and the envelope encryptor, over bytes. AES-GCM is a parameter, as are the random
  keys and nonces; URL-safe base64 and UTF-8 (for code points up to 255) are spelled out.
\<close>

type_synonym bytes = "8 word list"

section \<open>UTF-8\<close>

definition char_byte :: "char \<Rightarrow> 8 word" where "char_byte c = word_of_nat (of_char c)"

definition byte_char :: "8 word \<Rightarrow> char" where "byte_char b = char_of (unat b)"

definition utf8_char :: "char \<Rightarrow> bytes" where
  "utf8_char c = (let n = char_byte c in if n < 128 then [n] else [192 OR drop_bit 6 n, 128 OR (take_bit 6 n)])"

definition utf8_encode :: "string \<Rightarrow> bytes" where
  "utf8_encode s = concat (map utf8_char s)"

text \<open>None is a \<open>UnicodeDecodeError\<close>, or a text outside the modelled code points.\<close>

fun utf8_decode :: "bytes \<Rightarrow> string option" where
  "utf8_decode [] = Some []"
| "utf8_decode (b # bs) =
     (if b < 128 then map_option ((#) (byte_char b)) (utf8_decode bs)
      else case bs of
        [] \<Rightarrow> None
      | c # cs \<Rightarrow> if (b = 194 \<or> b = 195) \<and> c AND 192 = 128 then
            map_option ((#) (byte_char (push_bit 6 b OR (take_bit 6 c)))) (utf8_decode cs)
          else None)"

section \<open>URL-safe base64\<close>

definition b64_alphabet :: string where
  "b64_alphabet = ''ABCDEFGHIJKLMNOPQRSTUVWXYZabcdefghijklmnopqrstuvwxyz0123456789-_''"

definition b64_char :: "8 word \<Rightarrow> char" where
  "b64_char w = b64_alphabet ! (unat w mod 64)"

fun b64_encode :: "bytes \<Rightarrow> string" where
  "b64_encode [] = []"
| "b64_encode [a] = [b64_char (drop_bit 2 a), b64_char (push_bit 4 (take_bit 2 a)), CHR ''='', CHR ''='']"
| "b64_encode [a, b] =
     [b64_char (drop_bit 2 a), b64_char (push_bit 4 (take_bit 2 a) OR drop_bit 4 b), b64_char (push_bit 2 (take_bit 4 b)), CHR ''='']"
| "b64_encode (a # b # c # rest) =
     b64_char (drop_bit 2 a) # b64_char (push_bit 4 (take_bit 2 a) OR drop_bit 4 b)
       # b64_char (push_bit 2 (take_bit 4 b) OR drop_bit 6 c) # b64_char (take_bit 6 c) # b64_encode rest"

text \<open>The index of a character; the standard alphabet's last two letters are accepted as well.\<close>

definition b64_index :: "char \<Rightarrow> 8 word option" where
  "b64_index c = (let c' = (if c = CHR ''+'' then CHR ''-'' else if c = CHR ''/'' then CHR ''_'' else c)
     in if c' \<in> set b64_alphabet then Some (of_nat (length (takeWhile (\<lambda>x. x \<noteq> c') b64_alphabet))) else None)"

text \<open>
  The lenient decoder of CPython: characters outside the alphabet are skipped, a complete padding
  ends the input, anything else left over is an error.
\<close>

fun b64_scan :: "string \<Rightarrow> nat \<Rightarrow> 8 word \<Rightarrow> nat \<Rightarrow> bytes option" where
  "b64_scan [] quad left pads = (if quad = 0 then Some [] else None)"
| "b64_scan (c # cs) quad left pads =
     (if c = CHR ''='' then
        (if quad \<ge> 2 \<and> quad + pads + 1 \<ge> 4 then Some []
         else b64_scan cs quad left (if quad \<ge> 2 then pads + 1 else pads))
      else case b64_index c of
        None \<Rightarrow> b64_scan cs quad left pads
      | Some v \<Rightarrow>
          if quad = 0 then b64_scan cs 1 v 0
          else if quad = 1 then map_option ((#) (push_bit 2 left OR drop_bit 4 v)) (b64_scan cs 2 (take_bit 4 v) 0)
          else if quad = 2 then map_option ((#) (push_bit 4 left OR drop_bit 2 v)) (b64_scan cs 3 (take_bit 2 v) 0)
          else map_option ((#) (push_bit 6 left OR v)) (b64_scan cs 0 0 0))"

definition b64_decode :: "string \<Rightarrow> bytes option" where
  "b64_decode s = (if list_all (\<lambda>c. (of_char c :: nat) < 128) s then b64_scan s 0 0 0 else None)"

lemma alphabet_facts: "length b64_alphabet = 64" "distinct b64_alphabet" "CHR ''='' \<notin> set b64_alphabet"
  "CHR ''+'' \<notin> set b64_alphabet" "CHR ''/'' \<notin> set b64_alphabet" "CHR '':'' \<notin> set b64_alphabet"
  "list_all (\<lambda>c. (of_char c :: nat) < 128) b64_alphabet"
  by code_simp+

lemma takeWhile_nth_distinct:
  "distinct xs \<Longrightarrow> n < length xs \<Longrightarrow> length (takeWhile (\<lambda>x. x \<noteq> xs ! n) xs) = n"
proof (induction xs arbitrary: n)
  case (Cons x xs)
  then show ?case by (cases n) auto
qed simp

lemma b64_char_props: "b64_char w \<in> set b64_alphabet" "b64_char w \<noteq> CHR ''=''" "b64_char w \<noteq> CHR ''+''" "b64_char w \<noteq> CHR ''/''"
  "b64_char w \<noteq> CHR '':''" "(of_char (b64_char w) :: nat) < 128"
proof -
  show a: "b64_char w \<in> set b64_alphabet" by (simp add: b64_char_def alphabet_facts)
  then show "b64_char w \<noteq> CHR ''=''" "b64_char w \<noteq> CHR ''+''" "b64_char w \<noteq> CHR ''/''" "b64_char w \<noteq> CHR '':''"
    using alphabet_facts(3-6) by metis+
  show "(of_char (b64_char w) :: nat) < 128" using a alphabet_facts(7) by (simp add: list_all_iff)
qed

lemma b64_index_char: "w < 64 \<Longrightarrow> b64_index (b64_char w) = Some w"
proof -
  assume "w < 64"
  then have u: "unat w < 64" by (simp add: word_less_nat_alt)
  then have c: "b64_char w = b64_alphabet ! unat w" by (simp add: b64_char_def)
  have "length (takeWhile (\<lambda>x. x \<noteq> b64_char w) b64_alphabet) = unat w"
    unfolding c by (rule takeWhile_nth_distinct) (use u in \<open>simp_all add: alphabet_facts\<close>)
  then show ?thesis using b64_char_props [of w] by (simp add: b64_index_def)
qed

lemma six_bits: "drop_bit 2 (a :: 8 word) < 64" "push_bit 4 (take_bit 2 a) < 64" "push_bit 4 (take_bit 2 a) OR drop_bit 4 b < 64"
  "push_bit 2 (take_bit 4 a) < 64" "push_bit 2 (take_bit 4 a) OR drop_bit 6 b < 64" "take_bit 6 a < 64"
proof -
  have less: "w < 64" if "take_bit 6 w = w" for w :: "8 word"
  proof -
    have "unat w = take_bit 6 (unat w)" using that by (metis unsigned_take_bit_eq)
    then have "unat w < 2 ^ 6" by (metis take_bit_nat_less_exp)
    then show ?thesis by (simp add: word_less_nat_alt)
  qed
  show "drop_bit 2 a < 64" "push_bit 4 (take_bit 2 a) < 64" "push_bit 4 (take_bit 2 a) OR drop_bit 4 b < 64"
    "push_bit 2 (take_bit 4 a) < 64" "push_bit 2 (take_bit 4 a) OR drop_bit 6 b < 64" "take_bit 6 a < 64"
    by (rule less, rule bit_word_eqI, auto simp: bit_simps dest: bit_imp_le_length)+
qed

lemma byte_eqI:
  fixes v w :: "8 word"
  assumes "bit v 0 = bit w 0" "bit v 1 = bit w 1" "bit v 2 = bit w 2" "bit v 3 = bit w 3" "bit v 4 = bit w 4"
    "bit v 5 = bit w 5" "bit v 6 = bit w 6" "bit v 7 = bit w 7"
  shows "v = w"
proof (rule bit_word_eqI)
  fix n :: nat
  assume "n < LENGTH(8)"
  then have "n = 0 \<or> n = 1 \<or> n = 2 \<or> n = 3 \<or> n = 4 \<or> n = 5 \<or> n = 6 \<or> n = 7" by auto
  then show "bit v n = bit w n" using assms by auto
qed

lemma no_high_bits: "8 \<le> n \<Longrightarrow> \<not> bit (w :: 8 word) n"
  using bit_imp_le_length [of w n] by auto

lemma regroup:
  "push_bit 2 (drop_bit 2 a) OR drop_bit 4 (push_bit 4 (take_bit 2 a) OR drop_bit 4 b) = (a :: 8 word)"
  "push_bit 2 (drop_bit 2 a) OR drop_bit 4 (push_bit 4 (take_bit 2 a)) = (a :: 8 word)"
  "push_bit 4 (take_bit 4 (push_bit 4 (take_bit 2 a) OR drop_bit 4 b)) OR drop_bit 2 (push_bit 2 (take_bit 4 b) OR drop_bit 6 c) = (b :: 8 word)"
  "push_bit 4 (take_bit 4 (push_bit 4 (take_bit 2 a) OR drop_bit 4 b)) OR drop_bit 2 (push_bit 2 (take_bit 4 b)) = (b :: 8 word)"
  "push_bit 6 (take_bit 2 (push_bit 2 (take_bit 4 b) OR drop_bit 6 c)) OR take_bit 6 c = (c :: 8 word)"
  by (rule byte_eqI; simp add: bit_or_iff bit_push_bit_iff bit_drop_bit_eq bit_take_bit_iff bit_imp_le_length)+

lemma scan_char: "w < 64 \<Longrightarrow> b64_scan (b64_char w # cs) quad left pads =
    (if quad = 0 then b64_scan cs 1 w 0
     else if quad = 1 then map_option ((#) (push_bit 2 left OR drop_bit 4 w)) (b64_scan cs 2 (take_bit 4 w) 0)
     else if quad = 2 then map_option ((#) (push_bit 4 left OR drop_bit 2 w)) (b64_scan cs 3 (take_bit 2 w) 0)
     else map_option ((#) (push_bit 6 left OR w)) (b64_scan cs 0 0 0))"
  by (simp add: b64_index_char b64_char_props)

lemma scan_end: "b64_scan [CHR ''='', CHR ''=''] 2 left 0 = Some []" "b64_scan [CHR ''=''] 3 left 0 = Some []"
  by simp_all

lemma scan_encoded: "b64_scan (b64_encode bs) 0 0 pads = Some bs"
  by (induction bs arbitrary: pads rule: b64_encode.induct)
    (simp_all add: scan_char scan_end six_bits regroup del: b64_scan.simps(2) push_bit_or take_bit_or drop_bit_or)

lemma b64_roundtrip: "b64_decode (b64_encode bs) = Some bs"
proof -
  have "list_all (\<lambda>c. (of_char c :: nat) < 128) (b64_encode bs)"
    by (induction bs rule: b64_encode.induct) (simp_all add: b64_char_props)
  then show ?thesis by (simp add: b64_decode_def scan_encoded)
qed

lemma b64_no_colon: "CHR '':'' \<notin> set (b64_encode bs)"
  by (induction bs rule: b64_encode.induct) (auto simp: b64_char_props dest: b64_char_props(5) [THEN not_sym, THEN notE])

lemma char_bytes [simp]: "byte_char (char_byte c) = c"
  by (simp add: byte_char_def char_byte_def unsigned_of_nat take_bit_nat_eq_self)

lemma high_bit: "w < 128 \<longleftrightarrow> \<not> bit w 7" for w :: "8 word"
proof -
  have "w < 128 \<longleftrightarrow> take_bit 7 w = w" 
  proof
    assume "w < 128"
    then have "unat w < 2 ^ 7" by (simp add: word_less_nat_alt)
    then show "take_bit 7 w = w" by (metis take_bit_nat_eq_self unsigned_take_bit_eq word_unat_eq_iff)
  next
    assume "take_bit 7 w = w"
    then have "unat w = take_bit 7 (unat w)" by (metis unsigned_take_bit_eq)
    then have "unat w < 2 ^ 7" by (metis take_bit_nat_less_exp)
    then show "w < 128" by (simp add: word_less_nat_alt)
  qed
  also have "\<dots> \<longleftrightarrow> \<not> bit w 7"
  proof
    assume "take_bit 7 w = w"
    then show "\<not> bit w 7" by (metis bit_take_bit_iff less_irrefl)
  next
    assume "\<not> bit w 7"
    then show "take_bit 7 w = w" by (intro byte_eqI) (simp_all add: bit_take_bit_iff)
  qed
  finally show ?thesis .
qed

lemma two_byte_char:
  assumes "bit w 7"
  shows "bit (192 OR drop_bit 6 w :: 8 word) 7" "192 OR drop_bit 6 w = (194 :: 8 word) \<or> 192 OR drop_bit 6 w = (195 :: 8 word)"
    "(128 OR take_bit 6 w) AND 192 = (128 :: 8 word)" "push_bit 6 (192 OR drop_bit 6 w) OR take_bit 6 (128 OR take_bit 6 w) = (w :: 8 word)"
proof -
  note bits = bit_or_iff bit_and_iff bit_push_bit_iff bit_drop_bit_eq bit_take_bit_iff
  show "bit (192 OR drop_bit 6 w :: 8 word) 7" by (simp add: bits)
  show "192 OR drop_bit 6 w = (194 :: 8 word) \<or> 192 OR drop_bit 6 w = (195 :: 8 word)"
  proof (cases "bit w 6")
    case True
    then have "192 OR drop_bit 6 w = (195 :: 8 word)" using assms by (intro byte_eqI) (simp_all add: bits no_high_bits)
    then show ?thesis ..
  next
    case False
    then have "192 OR drop_bit 6 w = (194 :: 8 word)" using assms by (intro byte_eqI) (simp_all add: bits no_high_bits)
    then show ?thesis ..
  qed
  show "(128 OR take_bit 6 w) AND 192 = (128 :: 8 word)" by (rule byte_eqI; simp add: bits)
  show "push_bit 6 (192 OR drop_bit 6 w) OR take_bit 6 (128 OR take_bit 6 w) = w"
    by (rule byte_eqI; simp add: bits assms)
qed

lemma utf8_decode_one: "utf8_decode (utf8_char c @ bs) = map_option ((#) c) (utf8_decode bs)"
proof (cases "char_byte c < 128")
  case False
  then have "bit (char_byte c) 7" by (simp add: high_bit)
  note t = two_byte_char [OF this]
  have "\<not> 192 OR drop_bit 6 (char_byte c) < 128" using t(1) by (simp only: high_bit not_not)
  then show ?thesis using False t(2) by (simp add: utf8_char_def Let_def t(3,4) del: push_bit_or take_bit_or)
qed (simp add: utf8_char_def)

lemma utf8_roundtrip: "utf8_decode (utf8_encode s) = Some s"
  by (induction s) (simp_all add: utf8_encode_def utf8_decode_one)

section \<open>Key-encryption keys\<close>

datatype crypt_error = BadValue string | BadIndex | BadTag | Shredded string

text \<open>AES-GCM: sealing and opening under a key and a nonce with associated data; None is a rejected tag or nonce.\<close>

record aead =
  ae_seal :: "bytes \<Rightarrow> bytes \<Rightarrow> bytes \<Rightarrow> bytes \<Rightarrow> bytes"
  ae_open :: "bytes \<Rightarrow> bytes \<Rightarrow> bytes \<Rightarrow> bytes \<Rightarrow> bytes option"

definition ENC_PREFIX :: string where "ENC_PREFIX = ''himmy:enc:v1:''"
definition LOCAL_VERSION :: string where "LOCAL_VERSION = ''LOCAL''"

text \<open>A provider wraps with a random nonce it draws; a cloud provider may fail.\<close>

record kek_provider =
  kp_version :: string
  kp_wrap :: "bytes \<Rightarrow> bytes \<Rightarrow> crypt_error + bytes \<times> string"
  kp_unwrap :: "bytes \<Rightarrow> string \<Rightarrow> crypt_error + bytes"

definition local_unwrap :: "aead \<Rightarrow> bytes \<Rightarrow> bytes \<Rightarrow> crypt_error + bytes" where
  "local_unwrap ae kek wrapped =
     (case ae_open ae kek (take 12 wrapped) (drop 12 wrapped) [] of None \<Rightarrow> Inl BadTag | Some d \<Rightarrow> Inr d)"

definition local_wrap :: "aead \<Rightarrow> bytes \<Rightarrow> bytes \<Rightarrow> bytes \<Rightarrow> bytes" where
  "local_wrap ae kek nonce dek = nonce @ ae_seal ae kek nonce dek []"

definition local_kek_provider :: "aead \<Rightarrow> bytes \<Rightarrow> crypt_error + kek_provider" where
  "local_kek_provider ae kek =
     (if length kek \<notin> {16, 24, 32} then Inl (BadValue ''KEK must be 16, 24, or 32 bytes (AES-128/192/256)'')
      else Inr \<lparr>kp_version = LOCAL_VERSION, kp_wrap = (\<lambda>nonce dek. Inr (local_wrap ae kek nonce dek, LOCAL_VERSION)),
                kp_unwrap = (\<lambda>wrapped version. local_unwrap ae kek wrapped)\<rparr>)"

definition tagged_local_kek_provider :: "aead \<Rightarrow> bytes \<Rightarrow> string \<Rightarrow> crypt_error + kek_provider" where
  "tagged_local_kek_provider ae kek version =
     (case local_kek_provider ae kek of
        Inl e \<Rightarrow> Inl e
      | Inr p \<Rightarrow> if CHR '':'' \<in> set version then Inl (BadValue ''key_version must not contain ':' (token delimiter)'')
                 else Inr (p\<lparr>kp_version := version, kp_wrap := (\<lambda>nonce dek. Inr (local_wrap ae kek nonce dek, version))\<rparr>))"

text \<open>One key per workspace: \<open>hkdf\<close> derives 32 bytes from the master and the salt, \<open>digest\<close> is SHA-256 in hexadecimal.\<close>

record workspace_keks =
  wk_master :: bytes
  wk_disabled :: "string set"

definition new_workspace_keks :: "bytes \<Rightarrow> crypt_error + workspace_keks" where
  "new_workspace_keks master =
     (if length master < 16 then Inl (BadValue ''workspace master key must be at least 16 bytes'')
      else Inr \<lparr>wk_master = master, wk_disabled = {}\<rparr>)"

definition workspace_fingerprint :: "(bytes \<Rightarrow> string) \<Rightarrow> string \<Rightarrow> string" where
  "workspace_fingerprint digest ws = take 16 (digest (utf8_encode ws))"

definition workspace_provider :: "aead \<Rightarrow> (bytes \<Rightarrow> bytes \<Rightarrow> bytes) \<Rightarrow> (bytes \<Rightarrow> string) \<Rightarrow> string \<Rightarrow> workspace_keks
    \<Rightarrow> crypt_error + kek_provider" where
  "workspace_provider ae hkdf digest ws wk =
     (if ws \<in> wk_disabled wk then Inl (Shredded ws)
      else tagged_local_kek_provider ae (hkdf (wk_master wk) (utf8_encode ws)) (''local-ws.'' @ workspace_fingerprint digest ws))"

definition disable_workspace :: "string \<Rightarrow> workspace_keks \<Rightarrow> workspace_keks" where
  "disable_workspace ws wk = wk\<lparr>wk_disabled := insert ws (wk_disabled wk)\<rparr>"

definition is_disabled :: "string \<Rightarrow> workspace_keks \<Rightarrow> bool" where
  "is_disabled ws wk \<longleftrightarrow> ws \<in> wk_disabled wk"

section \<open>Tokens\<close>

definition starts_with :: "string \<Rightarrow> string \<Rightarrow> bool" where
  "starts_with p s \<longleftrightarrow> take (length p) s = p"

definition is_encrypted :: "string \<Rightarrow> bool" where
  "is_encrypted v = starts_with ENC_PREFIX v"

definition is_legacy_token :: "string \<Rightarrow> crypt_error + bool" where
  "is_legacy_token token =
     (if \<not> starts_with ENC_PREFIX token then Inl (BadValue ''not a himmy ciphertext token'')
      else Inr (CHR '':'' \<notin> set (drop (length ENC_PREFIX) token)))"

definition decode_blob :: "string \<Rightarrow> crypt_error + bytes" where
  "decode_blob s = (case b64_decode s of None \<Rightarrow> Inl (BadValue ''base64'') | Some b \<Rightarrow> Inr b)"

definition parse_token :: "string \<Rightarrow> crypt_error + string \<times> bytes" where
  "parse_token token =
     (if \<not> starts_with ENC_PREFIX token then Inl (BadValue ''not a himmy ciphertext token'')
      else (let rest = drop (length ENC_PREFIX) token in
        if CHR '':'' \<in> set rest then
          map_sum id (Pair (takeWhile (\<lambda>c. c \<noteq> CHR '':'') rest)) (decode_blob (tl (dropWhile (\<lambda>c. c \<noteq> CHR '':'') rest)))
        else map_sum id (Pair LOCAL_VERSION) (decode_blob rest)))"

fun split_blob :: "bool \<Rightarrow> bytes \<Rightarrow> crypt_error + bytes \<times> bytes \<times> bytes" where
  "split_blob legacy [] = Inl BadIndex"
| "split_blob legacy (n # blob) =
     (let edek_len = unat n;
          wrapped = (if legacy then take 12 blob @ take edek_len (drop 12 blob) else take edek_len blob);
          rest = (if legacy then drop edek_len (drop 12 blob) else drop edek_len blob)
      in Inr (wrapped, take 12 rest, drop 12 rest))"

definition assemble_token :: "string \<Rightarrow> bytes \<Rightarrow> bytes \<Rightarrow> bytes \<Rightarrow> crypt_error + string" where
  "assemble_token version wrapped nonce ciphertext =
     (if CHR '':'' \<in> set version then Inl (BadValue ''key_version must not contain ':' (token delimiter)'')
      else if length wrapped > 255 then Inl (BadValue ''wrapped DEK too large to frame'')
      else Inr (ENC_PREFIX @ version @ CHR '':'' # b64_encode (word_of_nat (length wrapped) # wrapped @ nonce @ ciphertext)))"

text \<open>The random data key and nonces of one encryption.\<close>

record randoms =
  rn_dek :: bytes
  rn_data_nonce :: bytes
  rn_wrap_nonce :: bytes

definition encrypt :: "aead \<Rightarrow> kek_provider \<Rightarrow> randoms \<Rightarrow> string \<Rightarrow> bytes \<Rightarrow> crypt_error + string" where
  "encrypt ae kp rn plaintext aad =
     (let ciphertext = ae_seal ae (rn_dek rn) (rn_data_nonce rn) (utf8_encode plaintext) aad
      in case kp_wrap kp (rn_wrap_nonce rn) (rn_dek rn) of
           Inl e \<Rightarrow> Inl e
         | Inr (wrapped, version) \<Rightarrow> assemble_token version wrapped (rn_data_nonce rn) ciphertext)"

text \<open>The parts a token gives to decryption and rotation: the data key, the nonce and the ciphertext.\<close>

definition open_token :: "kek_provider \<Rightarrow> string \<Rightarrow> crypt_error + bytes \<times> bytes \<times> bytes" where
  "open_token kp token =
     (case is_legacy_token token of
        Inl e \<Rightarrow> Inl e
      | Inr legacy \<Rightarrow>
          (case parse_token token of
             Inl e \<Rightarrow> Inl e
           | Inr (version, blob) \<Rightarrow>
               (case split_blob legacy blob of
                  Inl e \<Rightarrow> Inl e
                | Inr (wrapped, nonce, ciphertext) \<Rightarrow>
                    map_sum id (\<lambda>dek. (dek, nonce, ciphertext)) (kp_unwrap kp wrapped version))))"

definition decrypt :: "aead \<Rightarrow> kek_provider \<Rightarrow> string \<Rightarrow> bytes \<Rightarrow> crypt_error + string" where
  "decrypt ae kp token aad =
     (case open_token kp token of
        Inl e \<Rightarrow> Inl e
      | Inr (dek, nonce, ciphertext) \<Rightarrow>
          (case ae_open ae dek nonce ciphertext aad of
             None \<Rightarrow> Inl BadTag
           | Some b \<Rightarrow> (case utf8_decode b of None \<Rightarrow> Inl (BadValue ''utf-8'') | Some t \<Rightarrow> Inr t)))"

definition rotate_kek :: "kek_provider \<Rightarrow> string \<Rightarrow> kek_provider \<Rightarrow> bytes \<Rightarrow> crypt_error + string" where
  "rotate_kek kp token new_kp wrap_nonce =
     (case open_token kp token of
        Inl e \<Rightarrow> Inl e
      | Inr (dek, nonce, ciphertext) \<Rightarrow>
          (case kp_wrap new_kp wrap_nonce dek of
             Inl e \<Rightarrow> Inl e
           | Inr (wrapped, version) \<Rightarrow> assemble_token version wrapped nonce ciphertext))"

section \<open>What is sealed can be opened\<close>

definition aead_ok :: "aead \<Rightarrow> bool" where
  "aead_ok ae \<longleftrightarrow> (\<forall>k n p a. ae_open ae k n (ae_seal ae k n p a) a = Some p)"

definition provider_ok :: "kek_provider \<Rightarrow> bool" where
  "provider_ok kp \<longleftrightarrow> (\<forall>n d w v. length n = 12 \<longrightarrow> kp_wrap kp n d = Inr (w, v) \<longrightarrow> kp_unwrap kp w v = Inr d)"

lemma local_provider_ok: "aead_ok ae \<Longrightarrow> local_kek_provider ae kek = Inr kp \<Longrightarrow> provider_ok kp"
  by (auto simp: provider_ok_def local_kek_provider_def local_wrap_def local_unwrap_def aead_ok_def split: if_splits)

lemma tagged_provider_ok: "aead_ok ae \<Longrightarrow> tagged_local_kek_provider ae kek version = Inr kp \<Longrightarrow> provider_ok kp"
  by (auto simp: provider_ok_def tagged_local_kek_provider_def local_kek_provider_def local_wrap_def local_unwrap_def
      aead_ok_def split: if_splits sum.splits)

lemma prefix_split [simp]: "starts_with p (p @ s)" by (simp add: starts_with_def)

lemma framed: "length w \<le> 255 \<Longrightarrow> split_blob False (word_of_nat (length w) # w @ rest) = Inr (w, take 12 rest, drop 12 rest)"
  by (simp add: unsigned_of_nat take_bit_nat_eq_self)

lemma assembled:
  assumes "assemble_token version w n c = Inr token"
  shows "is_encrypted token \<and> open_token kp token = map_sum id (\<lambda>dek. (dek, take 12 (n @ c), drop 12 (n @ c))) (kp_unwrap kp w version)"
proof -
  let ?rest = "version @ CHR '':'' # b64_encode (word_of_nat (length w) # w @ n @ c)"
  from assms have t: "token = ENC_PREFIX @ ?rest" "CHR '':'' \<notin> set version" "length w \<le> 255"
    by (auto simp: assemble_token_def split: if_splits)
  have "takeWhile (\<lambda>x. x \<noteq> CHR '':'') ?rest = version" "tl (dropWhile (\<lambda>x. x \<noteq> CHR '':'') ?rest) = b64_encode (word_of_nat (length w) # w @ n @ c)"
    using t(2) by (auto simp: takeWhile_append dropWhile_append)
  then have "parse_token token = Inr (version, word_of_nat (length w) # w @ n @ c)"
    by (simp add: parse_token_def t(1) decode_blob_def b64_roundtrip)
  then show ?thesis using framed [OF t(3), of "n @ c"]
    by (simp add: is_encrypted_def t(1) open_token_def is_legacy_token_def del: split_blob.simps)
qed

text \<open>
  What the envelope seals it opens: with AES-GCM and a provider that undo their own work, a token is
  recognised as ciphertext and decrypts to the plaintext under the same associated data, and
  under other associated data exactly when AES-GCM accepts it there; sealing fails only when the
  provider fails, its version contains the delimiter or the wrapped key does not fit one byte
  of length.
\<close>

theorem envelope_roundtrip:
  assumes "aead_ok ae" and "provider_ok kp" and "length (rn_data_nonce rn) = 12" and "length (rn_wrap_nonce rn) = 12"
  shows "(case encrypt ae kp rn plaintext aad of
       Inr token \<Rightarrow> is_encrypted token \<and> decrypt ae kp token aad = Inr plaintext
         \<and> (\<forall>aad'. isl (decrypt ae kp token aad') \<longleftrightarrow>
              map_option utf8_decode (ae_open ae (rn_dek rn) (rn_data_nonce rn)
                (ae_seal ae (rn_dek rn) (rn_data_nonce rn) (utf8_encode plaintext) aad) aad') \<in> {None, Some None})
     | Inl e \<Rightarrow> (case kp_wrap kp (rn_wrap_nonce rn) (rn_dek rn) of
         Inl e' \<Rightarrow> e = e' | Inr (w, v) \<Rightarrow> CHR '':'' \<in> set v \<or> length w > 255))"
proof (cases "kp_wrap kp (rn_wrap_nonce rn) (rn_dek rn)")
  case (Inl e)
  then show ?thesis by (simp add: encrypt_def Let_def)
next
  case (Inr wv)
  then obtain w v where w: "kp_wrap kp (rn_wrap_nonce rn) (rn_dek rn) = Inr (w, v)" by (cases wv) simp
  let ?c = "ae_seal ae (rn_dek rn) (rn_data_nonce rn) (utf8_encode plaintext) aad"
  have e: "encrypt ae kp rn plaintext aad = assemble_token v w (rn_data_nonce rn) ?c" by (simp add: encrypt_def Let_def w)
  show ?thesis
  proof (cases "assemble_token v w (rn_data_nonce rn) ?c")
    case (Inl e')
    then show ?thesis by (auto simp: e w assemble_token_def split: if_splits)
  next
    case (Inr token)
    have "kp_unwrap kp w v = Inr (rn_dek rn)" using assms(2,4) w by (auto simp: provider_ok_def)
    with assembled [OF Inr, of kp] assms(3) have o: "is_encrypted token" "open_token kp token = Inr (rn_dek rn, rn_data_nonce rn, ?c)"
      by simp_all
    have d: "decrypt ae kp token a = (case ae_open ae (rn_dek rn) (rn_data_nonce rn) ?c a of None \<Rightarrow> Inl BadTag
        | Some b \<Rightarrow> (case utf8_decode b of None \<Rightarrow> Inl (BadValue ''utf-8'') | Some t \<Rightarrow> Inr t))" for a
      by (simp add: decrypt_def o(2))
    have "decrypt ae kp token aad = Inr plaintext" using assms(1) by (simp add: d aead_ok_def utf8_roundtrip)
    then show ?thesis by (auto simp: e Inr o(1) d split: option.splits)
  qed
qed

lemma split_parts: "split_blob legacy blob = Inr (w, n, c) \<Longrightarrow> take 12 (n @ c) = n \<and> drop 12 (n @ c) = c"
proof -
  assume "split_blob legacy blob = Inr (w, n, c)"
  then have "\<exists>rest. n = take 12 rest \<and> c = drop 12 rest" by (cases blob) (auto simp only: split_blob.simps Let_def sum.simps prod.simps)
  then obtain rest where "n = take 12 rest" "c = drop 12 rest" by blast
  then have "n @ c = rest" by (simp only: append_take_drop_id)
  with \<open>n = take 12 rest\<close> \<open>c = drop 12 rest\<close> show ?thesis by (simp only: simp_thms)
qed

lemma map_sum_Inr: "map_sum id f x = Inr y \<longleftrightarrow> (\<exists>z. x = Inr z \<and> y = f z)"
  by (cases x) auto

lemma opened_parts:
  assumes "open_token kp token = Inr (dek, n, c)"
  shows "take 12 (n @ c) = n \<and> drop 12 (n @ c) = c"
proof -
  from assms obtain legacy blob w where "split_blob legacy blob = Inr (w, n, c)"
    by (auto simp: open_token_def map_sum_Inr split: sum.splits)
  then show ?thesis by (rule split_parts)
qed

text \<open>
  C29: Rotating the master key touches nothing but the wrapped data key: a token that opened under the
  old provider, versioned or from before versions, opens after rotation under the new
  provider, with the same data key, nonce and ciphertext, so it decrypts to the same text
  under the same associated data.
\<close>

theorem rotation_preserves_plaintext:
  assumes "provider_ok new_kp" and "length wrap_nonce = 12" and "rotate_kek kp token new_kp wrap_nonce = Inr token'"
  shows "is_encrypted token' \<and> open_token new_kp token' = open_token kp token
    \<and> (\<forall>ae aad. decrypt ae new_kp token' aad = decrypt ae kp token aad)"
proof -
  obtain dek n c where o: "open_token kp token = Inr (dek, n, c)"
    using assms(3) by (cases "open_token kp token") (auto simp: rotate_kek_def)
  with assms(3) obtain w v where w: "kp_wrap new_kp wrap_nonce dek = Inr (w, v)" "assemble_token v w n c = Inr token'"
    by (auto simp: rotate_kek_def split: sum.splits)
  have "kp_unwrap new_kp w v = Inr dek" using assms(1,2) w(1) by (auto simp: provider_ok_def)
  with assembled [OF w(2), of new_kp] opened_parts [OF o] o show ?thesis by (simp add: decrypt_def)
qed

text \<open>A token of the old format, with the nonce of the wrapping kept apart and no version.\<close>

lemma legacy_token_decrypts:
  assumes "aead_ok ae" and "local_kek_provider ae kek = Inr kp" and "length wn = 12" and "length dn = 12"
    and "length (ae_seal ae kek wn dek []) \<le> 255"
  shows "decrypt ae kp (ENC_PREFIX @ b64_encode (word_of_nat (length (ae_seal ae kek wn dek [])) # wn @ ae_seal ae kek wn dek []
      @ dn @ ae_seal ae dek dn (utf8_encode text) aad)) aad = Inr text"
proof -
  let ?w = "ae_seal ae kek wn dek []"
  let ?rest = "b64_encode (word_of_nat (length ?w) # wn @ ?w @ dn @ ae_seal ae dek dn (utf8_encode text) aad)"
  have legacy: "is_legacy_token (ENC_PREFIX @ ?rest) = Inr True" by (simp add: is_legacy_token_def b64_no_colon)
  have parts: "split_blob True (word_of_nat (length ?w) # wn @ ?w @ dn @ ae_seal ae dek dn (utf8_encode text) aad)
      = Inr (wn @ ?w, dn, ae_seal ae dek dn (utf8_encode text) aad)"
    using assms(3-5) by (simp add: Let_def unsigned_of_nat take_bit_nat_eq_self)
  have "kp_unwrap kp (wn @ ?w) LOCAL_VERSION = Inr dek"
    using assms(1-3) by (auto simp: local_kek_provider_def local_unwrap_def aead_ok_def split: if_splits)
  then have "open_token kp (ENC_PREFIX @ ?rest) = Inr (dek, dn, ae_seal ae dek dn (utf8_encode text) aad)"
    by (simp add: open_token_def legacy parse_token_def b64_no_colon decode_blob_def b64_roundtrip parts del: split_blob.simps)
  then show ?thesis using assms(1) by (simp add: decrypt_def aead_ok_def utf8_roundtrip)
qed

text \<open>A disabled workspace gets no provider any more; the others keep theirs.\<close>

lemma disabled_workspace_has_no_provider:
  "workspace_provider ae hkdf digest ws (disable_workspace ws wk) = Inl (Shredded ws)"
  "ws' \<noteq> ws \<Longrightarrow> workspace_provider ae hkdf digest ws' (disable_workspace ws wk) = workspace_provider ae hkdf digest ws' wk"
  by (simp_all add: workspace_provider_def disable_workspace_def)

section \<open>Examples\<close>

text \<open>A stand-in for AES-GCM that appends a tag of the associated data and the key.\<close>

definition demo_aead :: aead where
  "demo_aead = \<lparr>ae_seal = (\<lambda>k n p a. p @ [of_nat (length a), sum_list k]),
     ae_open = (\<lambda>k n c a. if drop (length c - 2) c = [of_nat (length a), sum_list k] then Some (take (length c - 2) c) else None)\<rparr>"

definition demo_provider :: "8 word \<Rightarrow> kek_provider" where
  "demo_provider b = (case local_kek_provider demo_aead (replicate 16 b) of Inr kp \<Rightarrow> kp)"

definition demo_randoms :: randoms where
  "demo_randoms = \<lparr>rn_dek = replicate 32 7, rn_data_nonce = replicate 12 1, rn_wrap_nonce = replicate 12 2\<rparr>"

lemma demo_provider_local: "local_kek_provider demo_aead (replicate 16 b) = Inr (demo_provider b)"
  by (simp add: demo_provider_def local_kek_provider_def)

lemma demo_aead_ok: "aead_ok demo_aead"
  by (simp add: aead_ok_def demo_aead_def)

theorem envelope_roundtrip_witness:
  "(case encrypt demo_aead (demo_provider 3) demo_randoms [CHR ''h'', CHR 0xE9] [1, 2] of
      Inr token \<Rightarrow> is_encrypted token \<and> decrypt demo_aead (demo_provider 3) token [1, 2] = Inr [CHR ''h'', CHR 0xE9]
        \<and> isl (decrypt demo_aead (demo_provider 3) token [1])
    | Inl _ \<Rightarrow> False)"
proof -
  have w: "kp_wrap (demo_provider 3) (rn_wrap_nonce demo_randoms) (rn_dek demo_randoms)
      = Inr (local_wrap demo_aead (replicate 16 3) (rn_wrap_nonce demo_randoms) (rn_dek demo_randoms), LOCAL_VERSION)"
    by (simp add: demo_provider_def local_kek_provider_def)
  have l: "length (local_wrap demo_aead (replicate 16 3) (rn_wrap_nonce demo_randoms) (rn_dek demo_randoms)) = 46" "CHR '':'' \<notin> set LOCAL_VERSION"
    by (simp_all add: local_wrap_def demo_aead_def demo_randoms_def LOCAL_VERSION_def)
  have "ae_open demo_aead k n (ae_seal demo_aead k n p [1, 2]) [1] = None" for k n p
    by (simp add: demo_aead_def)
  moreover have n: "length (rn_data_nonce demo_randoms) = 12" "length (rn_wrap_nonce demo_randoms) = 12"
    by (simp_all add: demo_randoms_def)
  moreover note t = envelope_roundtrip [OF demo_aead_ok local_provider_ok [OF demo_aead_ok demo_provider_local [of 3]] n,
      where plaintext = "[CHR ''h'', CHR 0xE9]" and aad = "[1, 2]"]
  ultimately show ?thesis
    using w l by (cases "encrypt demo_aead (demo_provider 3) demo_randoms [CHR ''h'', CHR 0xE9] [1, 2]") (auto simp del: replicate.simps)
qed

definition demo_token :: string where
  "demo_token = (case assemble_token LOCAL_VERSION (local_wrap demo_aead (replicate 16 3) (replicate 12 2) [7]) (replicate 12 1) [104, 0, 7] of Inr t \<Rightarrow> t)"

lemma demo_rotation: "rotate_kek (demo_provider 3) demo_token (demo_provider 9) (replicate 12 4) =
  assemble_token LOCAL_VERSION (local_wrap demo_aead (replicate 16 9) (replicate 12 4) [7]) (replicate 12 1) [104, 0, 7]"
proof -
  have "assemble_token LOCAL_VERSION (local_wrap demo_aead (replicate 16 3) (replicate 12 2) [7]) (replicate 12 1) [104, 0, 7] = Inr demo_token"
    by (simp add: demo_token_def assemble_token_def LOCAL_VERSION_def local_wrap_def demo_aead_def)
  from assembled [OF this, of "demo_provider 3"]
  have "open_token (demo_provider 3) demo_token = Inr ([7], replicate 12 1, [104, 0, 7])"
    by (simp add: demo_provider_def local_kek_provider_def local_unwrap_def local_wrap_def demo_aead_def eval_nat_numeral)
  then show ?thesis by (simp add: rotate_kek_def demo_provider_def local_kek_provider_def)
qed

theorem rotation_preserves_plaintext_witness:
  "(case rotate_kek (demo_provider 3) demo_token (demo_provider 9) (replicate 12 4) of
      Inr token \<Rightarrow> decrypt demo_aead (demo_provider 9) token [] = decrypt demo_aead (demo_provider 3) demo_token []
    | Inl _ \<Rightarrow> False)"
proof -
  have "\<exists>t. rotate_kek (demo_provider 3) demo_token (demo_provider 9) (replicate 12 4) = Inr t"
    by (simp add: demo_rotation assemble_token_def LOCAL_VERSION_def local_wrap_def demo_aead_def)
  then obtain t where t: "rotate_kek (demo_provider 3) demo_token (demo_provider 9) (replicate 12 4) = Inr t" ..
  from rotation_preserves_plaintext [OF local_provider_ok [OF demo_aead_ok demo_provider_local] _ t]
  show ?thesis by (simp add: t)
qed

end
