(* ===== verification/AtRest.thy ===== *)
theory AtRest
  imports Envelope Canonical
begin

text \<open>
  What the stores encrypt: the record cipher of himmy/services/storage/encryption.py, the payload
  cipher of himmy/services/storage/at_rest.py and the recoverable launch input of
  himmy/services/storage/run_input.py. The models of the launch input are parameters with their
  \<open>model_dump\<close> and \<open>model_validate\<close>; \<open>json.loads\<close> is a parameter.
\<close>

text \<open>An encryptor with its randomness: sealing and opening a text under associated data.\<close>

record field_cipher =
  fc_seal :: "string \<Rightarrow> bytes \<Rightarrow> crypt_error + string"
  fc_open :: "string \<Rightarrow> bytes \<Rightarrow> crypt_error + string"

definition envelope_cipher :: "aead \<Rightarrow> kek_provider \<Rightarrow> (string \<Rightarrow> bytes \<Rightarrow> randoms) \<Rightarrow> field_cipher" where
  "envelope_cipher ae kp rnd = \<lparr>fc_seal = (\<lambda>v aad. encrypt ae kp (rnd v aad) v aad), fc_open = decrypt ae kp\<rparr>"

section \<open>Fields of a record\<close>

fun encrypt_fields :: "field_cipher \<Rightarrow> string list \<Rightarrow> bytes \<Rightarrow> json_dict \<Rightarrow> crypt_error + json_dict" where
  "encrypt_fields fc [] aad data = Inr data"
| "encrypt_fields fc (f # fs) aad data =
     (case map_of data f of
        Some (JStr v) \<Rightarrow>
          if is_encrypted v then encrypt_fields fc fs aad data
          else (case fc_seal fc v aad of
                  Inl e \<Rightarrow> Inl e
                | Inr t \<Rightarrow> encrypt_fields fc fs aad (AList.update f (JStr t) data))
      | _ \<Rightarrow> encrypt_fields fc fs aad data)"

fun decrypt_fields :: "field_cipher \<Rightarrow> string list \<Rightarrow> bytes \<Rightarrow> json_dict \<Rightarrow> crypt_error + json_dict" where
  "decrypt_fields fc [] aad data = Inr data"
| "decrypt_fields fc (f # fs) aad data =
     (case map_of data f of
        Some (JStr v) \<Rightarrow>
          if is_encrypted v then
            (case fc_open fc v aad of
               Inl e \<Rightarrow> Inl e
             | Inr t \<Rightarrow> decrypt_fields fc fs aad (AList.update f (JStr t) data))
          else decrypt_fields fc fs aad data
      | _ \<Rightarrow> decrypt_fields fc fs aad data)"

section \<open>Chat threads\<close>

definition encrypt_message :: "field_cipher \<Rightarrow> bytes \<Rightarrow> json_dict \<Rightarrow> crypt_error + json_dict" where
  "encrypt_message fc aad m =
     (case map_of m ''content'' of
        Some (JStr v) \<Rightarrow> if is_encrypted v then Inr m else map_sum id (\<lambda>t. AList.update ''content'' (JStr t) m) (fc_seal fc v aad)
      | _ \<Rightarrow> Inr m)"

definition decrypt_message :: "field_cipher \<Rightarrow> bytes \<Rightarrow> json_dict \<Rightarrow> crypt_error + json_dict" where
  "decrypt_message fc aad m =
     (case map_of m ''content'' of
        Some (JStr v) \<Rightarrow> if is_encrypted v then map_sum id (\<lambda>t. AList.update ''content'' (JStr t) m) (fc_open fc v aad) else Inr m
      | _ \<Rightarrow> Inr m)"

fun each_message :: "(json_dict \<Rightarrow> crypt_error + json_dict) \<Rightarrow> json list \<Rightarrow> crypt_error + json list" where
  "each_message f [] = Inr []"
| "each_message f (m # ms) =
     (case (case m of JObj d \<Rightarrow> map_sum id JObj (f d) | _ \<Rightarrow> Inr m) of
        Inl e \<Rightarrow> Inl e
      | Inr m' \<Rightarrow> (case each_message f ms of Inl e \<Rightarrow> Inl e | Inr ms' \<Rightarrow> Inr (m' # ms')))"

definition each_in_thread :: "(json_dict \<Rightarrow> crypt_error + json_dict) \<Rightarrow> json_dict \<Rightarrow> crypt_error + json_dict" where
  "each_in_thread f payload =
     (case map_of payload ''messages'' of
        Some (JList ms) \<Rightarrow> map_sum id (\<lambda>ms'. AList.update ''messages'' (JList ms') payload) (each_message f ms)
      | _ \<Rightarrow> Inr payload)"

definition encrypt_thread_payload :: "field_cipher \<Rightarrow> string \<Rightarrow> json_dict \<Rightarrow> crypt_error + json_dict" where
  "encrypt_thread_payload fc tid payload = each_in_thread (encrypt_message fc (utf8_encode tid)) payload"

definition decrypt_thread_payload :: "field_cipher \<Rightarrow> string \<Rightarrow> json_dict \<Rightarrow> crypt_error + json_dict" where
  "decrypt_thread_payload fc tid payload = each_in_thread (decrypt_message fc (utf8_encode tid)) payload"

section \<open>Run events\<close>

text \<open>\<open>json.dumps(v, sort_keys=True)\<close> with the default separators.\<close>

fun join_list :: "string list \<Rightarrow> string" where
  "join_list [] = []"
| "join_list (x # xs) = x @ concat (map (\<lambda>s. '', '' @ s) xs)"

fun json_text :: "json \<Rightarrow> string" where
  "json_text JNull = ''null''"
| "json_text (JBool b) = (if b then ''true'' else ''false'')"
| "json_text (JInt n) = int_str n"
| "json_text (JStr s) = json_str s"
| "json_text (JList vs) = CHR ''['' # join_list (map json_text vs) @ '']''"
| "json_text (JObj d) =
     CHR ''{'' # join_list (map (\<lambda>(k, s). json_str k @ '': '' @ s) (sort_key fst (map (\<lambda>(k, v). (k, json_text v)) d))) @ ''}''"

definition ENC_PAYLOAD_FIELD :: string where "ENC_PAYLOAD_FIELD = ''__himmy_enc_payload__''"

definition encrypt_event_payload :: "field_cipher \<Rightarrow> string \<Rightarrow> json_dict \<Rightarrow> crypt_error + json_dict" where
  "encrypt_event_payload fc eid payload =
     (if payload = [] \<or> map_of payload ENC_PAYLOAD_FIELD \<noteq> None then Inr payload
      else map_sum id (\<lambda>t. [(ENC_PAYLOAD_FIELD, JStr t)]) (fc_seal fc (json_text (JObj payload)) (utf8_encode eid)))"

definition decrypt_event_payload :: "field_cipher \<Rightarrow> (string \<Rightarrow> json option) \<Rightarrow> string \<Rightarrow> json_dict \<Rightarrow> crypt_error + json_dict" where
  "decrypt_event_payload fc loads eid payload =
     (case map_of payload ENC_PAYLOAD_FIELD of
        Some (JStr t) \<Rightarrow>
          (case fc_open fc t (utf8_encode eid) of
             Inl e \<Rightarrow> Inl e
           | Inr text \<Rightarrow> (case loads text of
                 None \<Rightarrow> Inl (BadValue ''json'')
               | Some (JObj d) \<Rightarrow> Inr d
               | Some _ \<Rightarrow> Inr payload))
      | _ \<Rightarrow> Inr payload)"

section \<open>The launch input of a run\<close>

definition RUN_INPUT_ENC_PREFIX :: string where "RUN_INPUT_ENC_PREFIX = ''enc1:''"
definition RUN_INPUT_BLOB_VERSION :: int where "RUN_INPUT_BLOB_VERSION = 1"

definition encrypt_run_input :: "field_cipher \<Rightarrow> string \<Rightarrow> string \<Rightarrow> crypt_error + string" where
  "encrypt_run_input fc rid blob =
     (if starts_with RUN_INPUT_ENC_PREFIX blob then Inr blob
      else map_sum id ((@) RUN_INPUT_ENC_PREFIX) (fc_seal fc blob (utf8_encode rid)))"

definition decrypt_run_input :: "field_cipher \<Rightarrow> string \<Rightarrow> string \<Rightarrow> crypt_error + string" where
  "decrypt_run_input fc rid blob =
     (if \<not> starts_with RUN_INPUT_ENC_PREFIX blob then Inr blob
      else fc_open fc (drop (length RUN_INPUT_ENC_PREFIX) blob) (utf8_encode rid))"

record ('p, 't, 'l, 's) run_input =
  ri_persona :: 'p
  ri_task :: 't
  ri_llm_config :: "'l option"
  ri_agent_spec :: "'s option"
  ri_hitl :: bool
  ri_plan :: bool

text \<open>\<open>model_dump\<close> and \<open>model_validate\<close> of the four models; None is a validation error.\<close>

record ('p, 't, 'l, 's) input_models =
  dump_persona :: "'p \<Rightarrow> json"
  load_persona :: "json \<Rightarrow> 'p option"
  dump_task :: "'t \<Rightarrow> json"
  load_task :: "json \<Rightarrow> 't option"
  dump_llm :: "'l \<Rightarrow> json"
  load_llm :: "json \<Rightarrow> 'l option"
  dump_spec :: "'s \<Rightarrow> json"
  load_spec_model :: "json \<Rightarrow> 's option"

datatype run_input_error = RunInputError string | CipherError crypt_error

definition dump_opt :: "('a \<Rightarrow> json) \<Rightarrow> 'a option \<Rightarrow> json" where
  "dump_opt f x = (case x of None \<Rightarrow> JNull | Some y \<Rightarrow> f y)"

definition run_input_doc :: "('p, 't, 'l, 's) input_models \<Rightarrow> ('p, 't, 'l, 's) run_input \<Rightarrow> json_dict" where
  "run_input_doc im ri =
     [(''v'', JInt RUN_INPUT_BLOB_VERSION), (''persona'', dump_persona im (ri_persona ri)), (''task'', dump_task im (ri_task ri)),
      (''llm_config'', dump_opt (dump_llm im) (ri_llm_config ri)), (''agent_spec'', dump_opt (dump_spec im) (ri_agent_spec ri)),
      (''hitl'', JBool (ri_hitl ri)), (''plan'', JBool (ri_plan ri))]"

definition encode_run_input :: "('p, 't, 'l, 's) input_models \<Rightarrow> field_cipher option \<Rightarrow> string \<Rightarrow> ('p, 't, 'l, 's) run_input
    \<Rightarrow> crypt_error + string" where
  "encode_run_input im fco rid ri =
     (let blob = json_text (JObj (run_input_doc im ri))
      in case fco of None \<Rightarrow> Inr blob | Some fc \<Rightarrow> encrypt_run_input fc rid blob)"

definition load_opt :: "(json \<Rightarrow> 'a option) \<Rightarrow> json \<Rightarrow> 'a option option" where
  "load_opt f v = (if v = JNull then Some None else map_option Some (f v))"

definition version_supported :: "json \<Rightarrow> bool" where
  "version_supported v = (case v of JInt n \<Rightarrow> n \<le> RUN_INPUT_BLOB_VERSION | JBool b \<Rightarrow> True | _ \<Rightarrow> False)"

definition decode_run_doc :: "('p, 't, 'l, 's) input_models \<Rightarrow> json_dict \<Rightarrow> run_input_error + ('p, 't, 'l, 's) run_input" where
  "decode_run_doc im doc =
     (let get = (\<lambda>k. json_get k JNull doc) in
      if \<not> version_supported (get ''v'') then Inl (RunInputError ''unsupported version'')
      else if map_of doc ''persona'' = None \<or> map_of doc ''task'' = None then Inl (RunInputError ''failed to rehydrate'')
      else case (load_persona im (get ''persona''), load_task im (get ''task''),
                 load_opt (load_llm im) (get ''llm_config''), load_opt (load_spec_model im) (get ''agent_spec'')) of
             (Some p, Some t, Some l, Some s) \<Rightarrow>
               Inr \<lparr>ri_persona = p, ri_task = t, ri_llm_config = l, ri_agent_spec = s,
                    ri_hitl = json_truthy (get ''hitl''), ri_plan = json_truthy (get ''plan'')\<rparr>
           | _ \<Rightarrow> Inl (RunInputError ''failed to rehydrate''))"

definition decode_run_input :: "('p, 't, 'l, 's) input_models \<Rightarrow> (string \<Rightarrow> json option) \<Rightarrow> field_cipher option \<Rightarrow> string \<Rightarrow> string
    \<Rightarrow> run_input_error + ('p, 't, 'l, 's) run_input" where
  "decode_run_input im loads fco rid blob =
     (case (case fco of None \<Rightarrow> Inr blob | Some fc \<Rightarrow> decrypt_run_input fc rid blob) of
        Inl e \<Rightarrow> Inl (CipherError e)
      | Inr raw \<Rightarrow>
          (case loads raw of
             None \<Rightarrow> Inl (RunInputError ''not valid JSON'')
           | Some (JObj doc) \<Rightarrow> decode_run_doc im doc
           | Some _ \<Rightarrow> Inl (RunInputError ''not an object'')))"

section \<open>Round trips\<close>

definition cipher_ok :: "field_cipher \<Rightarrow> bool" where
  "cipher_ok fc \<longleftrightarrow> (\<forall>v aad t. fc_seal fc v aad = Inr t \<longrightarrow> is_encrypted t \<and> fc_open fc t aad = Inr v)"

lemma cipher_okD: "cipher_ok fc \<Longrightarrow> fc_seal fc v aad = Inr t \<Longrightarrow> is_encrypted t \<and> fc_open fc t aad = Inr v"
  by (simp add: cipher_ok_def)

lemma envelope_cipher_ok:
  assumes "aead_ok ae" and "provider_ok kp" and "\<And>v a. length (rn_data_nonce (rnd v a)) = 12 \<and> length (rn_wrap_nonce (rnd v a)) = 12"
  shows "cipher_ok (envelope_cipher ae kp rnd)"
proof -
  have "is_encrypted t \<and> decrypt ae kp t aad = Inr v" if t: "encrypt ae kp (rnd v aad) v aad = Inr t" for v aad t
  proof -
    obtain w ver where w: "kp_wrap kp (rn_wrap_nonce (rnd v aad)) (rn_dek (rnd v aad)) = Inr (w, ver)"
      "assemble_token ver w (rn_data_nonce (rnd v aad)) (ae_seal ae (rn_dek (rnd v aad)) (rn_data_nonce (rnd v aad)) (utf8_encode v) aad) = Inr t"
      using t by (auto simp: encrypt_def Let_def split: sum.splits)
    then have "kp_unwrap kp w ver = Inr (rn_dek (rnd v aad))" using assms(2,3) by (auto simp: provider_ok_def)
    with assembled [OF w(2), of kp] assms(1,3) show ?thesis by (simp add: decrypt_def aead_ok_def utf8_roundtrip)
  qed
  then show ?thesis by (simp add: cipher_ok_def envelope_cipher_def)
qed

lemma update_back: "map_of m k = Some v \<Longrightarrow> AList.update k v (AList.update k t m) = m"
  by (induction m) (auto split: if_splits)

lemma update_same: "map_of m k = Some v \<Longrightarrow> AList.update k v m = m"
  by (induction m) (auto split: if_splits)

text \<open>The text contents of a thread's messages.\<close>

definition contents :: "json_dict \<Rightarrow> string set" where
  "contents payload = {v. \<exists>ms d. map_of payload ''messages'' = Some (JList ms) \<and> JObj d \<in> set ms \<and> map_of d ''content'' = Some (JStr v)}"

lemma message_roundtrip:
  assumes "cipher_ok fc" and "encrypt_message fc aad m = Inr m'" and "\<And>v. map_of m ''content'' = Some (JStr v) \<Longrightarrow> \<not> is_encrypted v"
  shows "decrypt_message fc aad m' = Inr m" and "map_of m' ''content'' = Some (JStr v) \<Longrightarrow> is_encrypted v"
    and "encrypt_message fc aad m' = Inr m'"
proof -
  consider (sealed) v t where "map_of m ''content'' = Some (JStr v)" "fc_seal fc v aad = Inr t" "m' = AList.update ''content'' (JStr t) m"
    | (other) "m' = m" "\<nexists>v. map_of m ''content'' = Some (JStr v)"
    using assms(2,3) by (auto simp: encrypt_message_def map_sum_Inr split: option.splits json.splits)
  then have "decrypt_message fc aad m' = Inr m \<and> (\<forall>v. map_of m' ''content'' = Some (JStr v) \<longrightarrow> is_encrypted v) \<and> encrypt_message fc aad m' = Inr m'"
  proof cases
    case sealed
    with cipher_okD [OF assms(1) sealed(2)] show ?thesis
      by (simp add: decrypt_message_def encrypt_message_def update_conv' update_back update_same)
  next
    case other
    then show ?thesis by (auto simp: decrypt_message_def encrypt_message_def split: option.splits json.splits)
  qed
  then show "decrypt_message fc aad m' = Inr m" "map_of m' ''content'' = Some (JStr v) \<Longrightarrow> is_encrypted v" "encrypt_message fc aad m' = Inr m'"
    by auto
qed

lemma messages_roundtrip:
  assumes "cipher_ok fc" and "each_message (encrypt_message fc aad) ms = Inr ms'"
    and "\<And>d v. JObj d \<in> set ms \<Longrightarrow> map_of d ''content'' = Some (JStr v) \<Longrightarrow> \<not> is_encrypted v"
  shows "each_message (decrypt_message fc aad) ms' = Inr ms
    \<and> (\<forall>d v. JObj d \<in> set ms' \<longrightarrow> map_of d ''content'' = Some (JStr v) \<longrightarrow> is_encrypted v)
    \<and> each_message (encrypt_message fc aad) ms' = Inr ms'"
  using assms(2,3)
proof (induction ms arbitrary: ms')
  case (Cons m ms)
  obtain m' r where m: "(case m of JObj d \<Rightarrow> map_sum id JObj (encrypt_message fc aad d) | _ \<Rightarrow> Inr m) = Inr m'"
    "each_message (encrypt_message fc aad) ms = Inr r" "ms' = m' # r"
    using Cons.prems(1) by (auto split: sum.splits)
  have clear: "\<not> is_encrypted v" if "JObj d \<in> set ms" "map_of d ''content'' = Some (JStr v)" for d v
    by (rule Cons.prems(2) [of d]) (use that in simp_all)
  note ih = Cons.IH [OF m(2) clear]
  show ?case
  proof (cases "\<exists>d. m = JObj d")
    case True
    then obtain d where d: "m = JObj d" ..
    with m(1) obtain d' where d': "encrypt_message fc aad d = Inr d'" "m' = JObj d'" by (auto simp: map_sum_Inr)
    have "\<And>v. map_of d ''content'' = Some (JStr v) \<Longrightarrow> \<not> is_encrypted v" using Cons.prems(2) [of d] d by auto
    note r = message_roundtrip [OF assms(1) d'(1) this]
    with ih d d' m(3) show ?thesis by auto
  next
    case False
    with m(1) have "m' = m" by (cases m) auto
    with ih False m(3) show ?thesis by (cases m) simp_all
  qed
qed simp

text \<open>
  C28: Conversations are sealed at rest and come back whole: unless a message already looks like
  ciphertext, a stored thread has every text content encrypted, decrypts to exactly the thread that
  was saved, and saving it again changes nothing.
\<close>

theorem stored_threads_round_trip:
  assumes "cipher_ok fc" and "encrypt_thread_payload fc tid payload = Inr stored"
    and "\<And>v. v \<in> contents payload \<Longrightarrow> \<not> is_encrypted v"
  shows "decrypt_thread_payload fc tid stored = Inr payload \<and> (\<forall>v \<in> contents stored. is_encrypted v)
    \<and> encrypt_thread_payload fc tid stored = Inr stored"
proof (cases "\<exists>ms. map_of payload ''messages'' = Some (JList ms)")
  case True
  then obtain ms where ms: "map_of payload ''messages'' = Some (JList ms)" ..
  with assms(2) obtain ms' where e: "each_message (encrypt_message fc (utf8_encode tid)) ms = Inr ms'"
    "stored = AList.update ''messages'' (JList ms') payload"
    by (auto simp: encrypt_thread_payload_def each_in_thread_def map_sum_Inr)
  have clear: "\<not> is_encrypted v" if "JObj d \<in> set ms" "map_of d ''content'' = Some (JStr v)" for d v
    by (rule assms(3)) (use that ms in \<open>auto simp: contents_def\<close>)
  note r = messages_roundtrip [OF assms(1) e(1) clear]
  have m: "map_of stored ''messages'' = Some (JList ms')" by (simp add: e(2) update_conv')
  have "decrypt_thread_payload fc tid stored = Inr payload"
    using r ms m by (simp add: decrypt_thread_payload_def each_in_thread_def) (simp add: e(2) update_back update_same)
  moreover have "encrypt_thread_payload fc tid stored = Inr stored"
    using r m by (simp add: encrypt_thread_payload_def each_in_thread_def update_same)
  moreover have "\<forall>v \<in> contents stored. is_encrypted v" using r m by (auto simp: contents_def)
  ultimately show ?thesis by blast
next
  case False
  then have f: "each_in_thread f payload = Inr payload" for f
    by (auto simp: each_in_thread_def split: option.splits json.splits)
  with assms(2) have "stored = payload" by (simp add: encrypt_thread_payload_def)
  with f False show ?thesis by (simp add: encrypt_thread_payload_def decrypt_thread_payload_def contents_def)
qed

section \<open>A launch input survives the store\<close>

text \<open>The value \<open>json.loads\<close> gives back for the text of \<open>json.dumps(sort_keys=True)\<close>.\<close>

fun sorted_json :: "json \<Rightarrow> json" where
  "sorted_json (JList vs) = JList (map sorted_json vs)"
| "sorted_json (JObj d) = JObj (sort_key fst (map (\<lambda>(k, v). (k, sorted_json v)) d))"
| "sorted_json v = v"

lemma map_of_sort_key: "distinct (map fst d) \<Longrightarrow> map_of (sort_key fst d) = map_of (d :: json_dict)"
proof (subst map_of_inject_set)
  assume d: "distinct (map fst d)"
  have "mset (map fst (sort_key fst d)) = mset (map fst d)" by simp
  then show "distinct (map fst (sort_key fst d))" using d mset_eq_imp_distinct_iff by blast
qed simp_all

text \<open>The models read back what they wrote, whatever the order of the keys, and no model dumps to null.\<close>

definition opt_loads :: "('a \<Rightarrow> json) \<Rightarrow> (json \<Rightarrow> 'a option) \<Rightarrow> 'a option \<Rightarrow> bool" where
  "opt_loads dump ld x \<longleftrightarrow> (case x of None \<Rightarrow> True | Some y \<Rightarrow> ld (sorted_json (dump y)) = Some y \<and> sorted_json (dump y) \<noteq> JNull)"

definition models_load :: "('p, 't, 'l, 's) input_models \<Rightarrow> ('p, 't, 'l, 's) run_input \<Rightarrow> bool" where
  "models_load im ri \<longleftrightarrow> load_persona im (sorted_json (dump_persona im (ri_persona ri))) = Some (ri_persona ri)
     \<and> load_task im (sorted_json (dump_task im (ri_task ri))) = Some (ri_task ri)
     \<and> opt_loads (dump_llm im) (load_llm im) (ri_llm_config ri) \<and> opt_loads (dump_spec im) (load_spec_model im) (ri_agent_spec ri)"

lemma load_dumped: "opt_loads f g x \<Longrightarrow> load_opt g (sorted_json (dump_opt f x)) = Some x"
  by (cases x) (simp_all add: opt_loads_def dump_opt_def load_opt_def)

lemma decoded_doc:
  assumes "models_load im ri" and "sorted_json (JObj (run_input_doc im ri)) = JObj doc"
  shows "decode_run_doc im doc = Inr ri"
proof -
  let ?d = "map (\<lambda>(k, v). (k, sorted_json v)) (run_input_doc im ri)"
  have "distinct (map fst ?d)" by (simp add: run_input_doc_def)
  from map_of_sort_key [OF this] assms(2) have m: "map_of doc = map_of ?d" by auto
  have get: "json_get k JNull doc = (case map_of ?d k of None \<Rightarrow> JNull | Some v \<Rightarrow> v)" for k
    by (simp add: json_get_def m)
  show ?thesis
    using assms(1) load_dumped
    by (simp add: decode_run_doc_def get m) (simp add: run_input_doc_def models_load_def load_dumped version_supported_def RUN_INPUT_BLOB_VERSION_def)
qed

text \<open>
  C27: The launch input of a queued run survives the store: whatever blob was written, sealed under the
  run's id or in the clear before a key was configured, a fresh process decodes it to exactly the
  persona, task, configuration and flags the run was launched with. Saving it again never encrypts
  twice. A sealed blob read without the cipher is refused rather than executed.
\<close>

theorem launch_input_survives:
  assumes "models_load im ri" and "cipher_ok fc"
    and "loads (json_text (JObj (run_input_doc im ri))) = Some (sorted_json (JObj (run_input_doc im ri)))"
    and "\<And>s. loads (RUN_INPUT_ENC_PREFIX @ s) = None"
    and "encode_run_input im (Some fc) rid ri = Inr blob" and "encode_run_input im None rid ri = Inr clear"
  shows "decode_run_input im loads (Some fc) rid blob = Inr ri
    \<and> decode_run_input im loads (Some fc) rid clear = Inr ri \<and> decode_run_input im loads None rid clear = Inr ri
    \<and> encrypt_run_input fc rid blob = Inr blob
    \<and> decode_run_input im loads None rid blob = Inl (RunInputError ''not valid JSON'')"
proof -
  let ?t = "json_text (JObj (run_input_doc im ri))"
  have clear: "clear = ?t" using assms(6) by (simp add: encode_run_input_def)
  have t: "\<not> starts_with RUN_INPUT_ENC_PREFIX ?t" by (simp add: starts_with_def RUN_INPUT_ENC_PREFIX_def)
  obtain tok where tok: "fc_seal fc ?t (utf8_encode rid) = Inr tok" "blob = RUN_INPUT_ENC_PREFIX @ tok"
    using assms(5) t by (auto simp: encode_run_input_def encrypt_run_input_def map_sum_Inr simp del: json_text.simps)
  obtain doc where doc: "sorted_json (JObj (run_input_doc im ri)) = JObj doc" by simp
  from cipher_okD [OF assms(2) tok(1)] have d: "decrypt_run_input fc rid blob = Inr ?t"
    by (simp add: decrypt_run_input_def tok(2) del: json_text.simps)
  have e: "decrypt_run_input fc rid clear = Inr ?t" using t by (simp add: decrypt_run_input_def clear del: json_text.simps)
  have l: "loads ?t = Some (JObj doc)" using assms(3) doc by (simp only:)
  show ?thesis
    using decoded_doc [OF assms(1) doc] d e l assms(4) clear
    by (simp add: decode_run_input_def encrypt_run_input_def tok(2) del: json_text.simps)
qed

text \<open>
  A message whose own text starts with the marker of a ciphertext is stored in the clear, and the
  thread can then not be read back.
\<close>

lemma marked_message_is_not_sealed:
  "encrypt_thread_payload (envelope_cipher ae kp rnd) tid [(''messages'', JList [JObj [(''content'', JStr (ENC_PREFIX @ ''!''))]])]
     = Inr [(''messages'', JList [JObj [(''content'', JStr (ENC_PREFIX @ ''!''))]])]
   \<and> decrypt_thread_payload (envelope_cipher ae kp rnd) tid [(''messages'', JList [JObj [(''content'', JStr (ENC_PREFIX @ ''!''))]])]
     = Inl BadIndex"
  by (simp add: encrypt_thread_payload_def decrypt_thread_payload_def each_in_thread_def encrypt_message_def decrypt_message_def
      is_encrypted_def envelope_cipher_def decrypt_def open_token_def is_legacy_token_def parse_token_def decode_blob_def
      b64_decode_def b64_index_def b64_alphabet_def)

section \<open>Examples\<close>

text \<open>A stand-in for the encryptor, bound to its associated data.\<close>

definition demo_cipher :: field_cipher where
  "demo_cipher = \<lparr>fc_seal = (\<lambda>v aad. Inr (ENC_PREFIX @ map byte_char aad @ CHR ''.'' # v)),
     fc_open = (\<lambda>t aad. if starts_with (ENC_PREFIX @ map byte_char aad @ ''.'') t
        then Inr (drop (length ENC_PREFIX + length aad + 1) t) else Inl BadTag)\<rparr>"

lemma demo_cipher_ok: "cipher_ok demo_cipher"
  by (simp add: cipher_ok_def demo_cipher_def is_encrypted_def starts_with_def)

definition demo_thread :: json_dict where
  "demo_thread = [(''id'', JStr ''t1''), (''messages'', JList [JObj [(''role'', JStr ''user''), (''content'', JStr ''hi'')], JNull,
     JObj [(''content'', JNull)]])]"

theorem stored_threads_round_trip_witness:
  "(case encrypt_thread_payload demo_cipher ''t1'' demo_thread of
      Inr stored \<Rightarrow> stored \<noteq> demo_thread \<and> decrypt_thread_payload demo_cipher ''t1'' stored = Inr demo_thread
    | Inl _ \<Rightarrow> False)"
proof -
  let ?s = "[(''id'', JStr ''t1''), (''messages'', JList [JObj [(''role'', JStr ''user''), (''content'', JStr (ENC_PREFIX @ ''t1.hi''))], JNull,
     JObj [(''content'', JNull)]])]"
  have u: "utf8_encode ''t1'' = [char_byte CHR ''t'', char_byte CHR ''1'']"
    by (simp add: utf8_encode_def utf8_char_def char_byte_def)
  have e: "encrypt_thread_payload demo_cipher ''t1'' demo_thread = Inr ?s"
    by (simp add: encrypt_thread_payload_def each_in_thread_def demo_thread_def encrypt_message_def is_encrypted_def
        starts_with_def ENC_PREFIX_def demo_cipher_def u)
  have "contents demo_thread = {''hi''}" by (auto simp: contents_def demo_thread_def)
  then have "decrypt_thread_payload demo_cipher ''t1'' ?s = Inr demo_thread"
    using stored_threads_round_trip [OF demo_cipher_ok e] by (simp add: is_encrypted_def starts_with_def ENC_PREFIX_def)
  moreover have "?s \<noteq> demo_thread" by (simp add: demo_thread_def ENC_PREFIX_def)
  ultimately show ?thesis by (simp add: e)
qed

definition demo_models :: "(string, int, bool, string) input_models" where
  "demo_models = \<lparr>dump_persona = JStr, load_persona = (\<lambda>j. case j of JStr s \<Rightarrow> Some s | _ \<Rightarrow> None),
     dump_task = JInt, load_task = (\<lambda>j. case j of JInt n \<Rightarrow> Some n | _ \<Rightarrow> None),
     dump_llm = JBool, load_llm = (\<lambda>j. case j of JBool b \<Rightarrow> Some b | _ \<Rightarrow> None),
     dump_spec = JStr, load_spec_model = (\<lambda>j. case j of JStr s \<Rightarrow> Some s | _ \<Rightarrow> None)\<rparr>"

definition demo_input :: "(string, int, bool, string) run_input" where
  "demo_input = \<lparr>ri_persona = ''p'', ri_task = 5, ri_llm_config = Some False, ri_agent_spec = None, ri_hitl = True, ri_plan = False\<rparr>"

definition demo_loads :: "string \<Rightarrow> json option" where
  "demo_loads s = (if s = json_text (JObj (run_input_doc demo_models demo_input))
     then Some (sorted_json (JObj (run_input_doc demo_models demo_input))) else None)"

theorem launch_input_survives_witness:
  "\<exists>blob. encode_run_input demo_models (Some demo_cipher) ''r1'' demo_input = Inr blob
     \<and> decode_run_input demo_models demo_loads (Some demo_cipher) ''r1'' blob = Inr demo_input"
proof -
  let ?t = "json_text (JObj (run_input_doc demo_models demo_input))"
  have "\<not> starts_with RUN_INPUT_ENC_PREFIX ?t" by (simp add: starts_with_def RUN_INPUT_ENC_PREFIX_def)
  then obtain blob where b: "encode_run_input demo_models (Some demo_cipher) ''r1'' demo_input = Inr blob"
    by (simp add: encode_run_input_def encrypt_run_input_def demo_cipher_def del: json_text.simps)
  have m: "models_load demo_models demo_input"
    by (simp add: models_load_def demo_models_def demo_input_def opt_loads_def)
  have c: "encode_run_input demo_models None ''r1'' demo_input = Inr ?t" by (simp add: encode_run_input_def del: json_text.simps)
  have l: "demo_loads ?t = Some (sorted_json (JObj (run_input_doc demo_models demo_input)))" by (simp only: demo_loads_def simp_thms if_True)
  have n: "demo_loads (RUN_INPUT_ENC_PREFIX @ s) = None" for s by (simp add: demo_loads_def RUN_INPUT_ENC_PREFIX_def)
  from launch_input_survives [OF m demo_cipher_ok l n b c] b show ?thesis by blast
qed

end
