(* ===== verification/RunLaunch.thy ===== *)
theory RunLaunch
  imports RunAdmission RunRetry WorkspaceQuota AtRest
begin

text \<open>
  How a run comes into being: himmy/application/run_enqueue.py, \<open>create_orchestration_run\<close> of
  run_drive.py and the admission of services.py. The state holds the run store, the quota of the
  process and the background tasks in flight. The models of a launch, the sanitizer of a spec and the
  clock are arguments; a store returns copies of its records, as the durable ones do, and its
  errors are left out.
\<close>

section \<open>State\<close>

text \<open>A background task by what it was started with.\<close>

datatype ('p, 't, 'l, 's) job =
    ExecuteRun (job_run: string) (job_workspace: string) "('p, 't, 'l, 's) run_input" "agent_def_record option" "string option"
  | ExecuteOrchestration (job_run: string) (job_workspace: string) string "agent_def_record list" string string bool "string option"
  | ResumeRun (job_run: string) (job_workspace: string) string bool string agent_def_record
  | ResumeOrchestration (job_run: string) (job_workspace: string) bool string string "string list"

record ('p, 't, 'l, 's) app =
  ap_runs :: run_store
  ap_quota :: workspace_quota
  ap_tasks :: "('p, 't, 'l, 's) job list"

datatype launch_error =
    HitlNotSupported
  | HitlRequiresAgent
  | SpecRejected string
  | QuotaExceeded quota_exceeded

record ('p, 't, 'l, 's) launch_env =
  le_models :: "('p, 't, 'l, 's) input_models"
  le_dispatch :: bool
  le_has_checkpoints :: bool
  le_default_attempts :: int
  le_sanitize :: "bool \<Rightarrow> 's \<Rightarrow> string + 's"
  le_builds_registry :: "'s \<Rightarrow> bool"
  le_spec_name :: "'s \<Rightarrow> string"
  le_spec_persona :: "'s \<Rightarrow> 'p"
  le_spec_llm :: "'s \<Rightarrow> 'l"
  le_spec_task :: "'s \<Rightarrow> string \<Rightarrow> 't"
  le_persona_name :: "'p \<Rightarrow> string"
  le_task_id :: "'t \<Rightarrow> string"
  le_task_model_key :: "'t \<Rightarrow> string option"
  le_llm_model_key :: "'l \<Rightarrow> string"

text \<open>A request: the new run's id and the instant of its creation are drawn when the record is built.\<close>

record ('p, 't, 'l, 's) launch_request =
  rq_run_id :: string
  rq_workspace :: string
  rq_subject :: string
  rq_key :: "string option"
  rq_actor :: json_dict
  rq_agent :: "agent_def_record option"
  rq_operator :: bool
  rq_input :: "('p, 't, 'l, 's) run_input"

section \<open>Admission of a request\<close>

definition DEFAULT_MODEL_KEY :: string where "DEFAULT_MODEL_KEY = ''default''"

definition resolve_model_key :: "('p, 't, 'l, 's) launch_env \<Rightarrow> 'l option \<Rightarrow> 't \<Rightarrow> string option" where
  "resolve_model_key env llm task =
     (case llm of
        Some l \<Rightarrow> if le_llm_model_key env l \<noteq> DEFAULT_MODEL_KEY then Some (le_llm_model_key env l)
                  else if le_task_model_key env task \<noteq> None then le_task_model_key env task
                  else Some (le_llm_model_key env l)
      | None \<Rightarrow> le_task_model_key env task)"

definition hitl_refusal :: "('p, 't, 'l, 's) launch_env \<Rightarrow> agent_def_record option \<Rightarrow> ('p, 't, 'l, 's) run_input \<Rightarrow> launch_error option" where
  "hitl_refusal env agent inp =
     (if \<not> (ri_hitl inp \<or> ri_plan inp) then None
      else if \<not> le_has_checkpoints env then Some HitlNotSupported
      else case ri_agent_spec inp of
             None \<Rightarrow> Some HitlRequiresAgent
           | Some s \<Rightarrow> if agent = None then Some HitlRequiresAgent
                       else if ri_plan inp \<and> \<not> le_builds_registry env s then Some HitlRequiresAgent
                       else None)"

definition sanitized_input :: "('p, 't, 'l, 's) launch_env \<Rightarrow> bool \<Rightarrow> ('p, 't, 'l, 's) run_input \<Rightarrow> launch_error + ('p, 't, 'l, 's) run_input" where
  "sanitized_input env operator inp =
     (case ri_agent_spec inp of
        None \<Rightarrow> Inr inp
      | Some s \<Rightarrow> (case le_sanitize env operator s of
                     Inl e \<Rightarrow> Inl (SpecRejected e)
                   | Inr s' \<Rightarrow> Inr (inp\<lparr>ri_agent_spec := Some s'\<rparr>)))"

definition launch_metadata :: "('p, 't, 'l, 's) launch_env \<Rightarrow> json_dict \<Rightarrow> json_dict \<Rightarrow> agent_def_record option \<Rightarrow> bool
    \<Rightarrow> ('p, 't, 'l, 's) run_input \<Rightarrow> json_dict" where
  "launch_metadata env base actor agent operator inp =
     base
     @ (if actor = [] then [] else [(''actor'', JObj actor)])
     @ (case ri_agent_spec inp of None \<Rightarrow> [] | Some s \<Rightarrow> [(''agent_name'', JStr (le_spec_name env s))])
     @ (case agent of None \<Rightarrow> [] | Some a \<Rightarrow> [(''agent_id'', JStr (agent_id a))])
     @ (if ri_hitl inp \<or> ri_plan inp then [(''hitl'', JBool True), (''operator_provisioned'', JBool operator)] else [])
     @ (if ri_plan inp then [(''plan_mode'', JBool True)] else [])"

definition stamp_queue_fields :: "('p, 't, 'l, 's) launch_env \<Rightarrow> string option \<Rightarrow> ('p, 't, 'l, 's) run_input \<Rightarrow> run_record \<Rightarrow> run_record" where
  "stamp_queue_fields env key inp run =
     (if \<not> le_dispatch env then run
      else run\<lparr>lane_key := Some (lane_for_model_key key), max_attempts := le_default_attempts env,
               input_blob := (case encode_run_input (le_models env) None (run_id run) inp of Inr blob \<Rightarrow> Some blob | Inl _ \<Rightarrow> None)\<rparr>)"

definition launch_record :: "('p, 't, 'l, 's) launch_env \<Rightarrow> instant \<Rightarrow> ('p, 't, 'l, 's) launch_request \<Rightarrow> json_dict \<Rightarrow> string option
    \<Rightarrow> ('p, 't, 'l, 's) run_input \<Rightarrow> run_record" where
  "launch_record env now rq base thread inp =
     (let key = resolve_model_key env (ri_llm_config inp) (ri_task inp)
      in stamp_queue_fields env key inp
           ((new_run (rq_run_id rq) (rq_workspace rq) (rq_subject rq) now)
              \<lparr>task_id := Some (le_task_id env (ri_task inp)), persona_name := Some (le_persona_name env (ri_persona inp)),
               model_key := key, idempotency_key := rq_key rq, thread_id := thread,
               metadata := launch_metadata env base (rq_actor rq) (rq_agent rq) (rq_operator rq) inp\<rparr>))"

text \<open>\<open>_admit_workspace_run_durable\<close>: the stored run is counted with the others.\<close>

definition QUOTA_REJECTED :: string where
  "QUOTA_REJECTED = ''rejected: workspace run-concurrency quota exceeded''"

definition reject_stored :: "instant \<Rightarrow> run_record \<Rightarrow> run_store \<Rightarrow> run_store" where
  "reject_stored now stored st = snd (save_run now (stored\<lparr>status := FAILED, error := Some QUOTA_REJECTED\<rparr>) st)"

definition admit_workspace_run_durable :: "instant \<Rightarrow> string \<Rightarrow> run_record \<Rightarrow> ('p, 't, 'l, 's) app
    \<Rightarrow> launch_error option \<times> ('p, 't, 'l, 's) app" where
  "admit_workspace_run_durable now ws stored app =
     (let cap = wq_max_outstanding (ap_quota app);
          active = int (count_active_runs_for_workspace ws (ap_runs app))
      in if cap \<le> 0 \<or> ws = LOCAL_WORKSPACE \<or> active \<le> cap then (None, app)
         else (Some (QuotaExceeded (WorkspaceRunQuotaExceeded ws cap (active - 1))),
               app\<lparr>ap_runs := reject_stored now stored (ap_runs app)\<rparr>))"

text \<open>Inline: the slot is taken or the record is failed; then the task starts.\<close>

definition launch_inline :: "instant \<Rightarrow> string \<Rightarrow> run_record \<Rightarrow> ('p, 't, 'l, 's) job \<Rightarrow> ('p, 't, 'l, 's) app
    \<Rightarrow> (launch_error + run_record) \<times> ('p, 't, 'l, 's) app" where
  "launch_inline now ws stored job app =
     (case admit ws (ap_quota app) of
        Inl e \<Rightarrow> (Inl (QuotaExceeded e), app\<lparr>ap_runs := reject_stored now stored (ap_runs app)\<rparr>)
      | Inr q \<Rightarrow> (Inr stored, app\<lparr>ap_quota := q, ap_tasks := job # ap_tasks app\<rparr>))"

definition launch_or_enqueue :: "('p, 't, 'l, 's) launch_env \<Rightarrow> instant \<Rightarrow> string \<Rightarrow> bool \<Rightarrow> run_record \<Rightarrow> ('p, 't, 'l, 's) run_input
    \<Rightarrow> agent_def_record option \<Rightarrow> string option \<Rightarrow> ('p, 't, 'l, 's) app \<Rightarrow> (launch_error + run_record) \<times> ('p, 't, 'l, 's) app" where
  "launch_or_enqueue env now ws admitted stored inp agent thread app =
     (if le_dispatch env then
        if admitted then (Inr stored, app)
        else (case admit_workspace_run_durable now ws stored app of
                (Some e, app') \<Rightarrow> (Inl e, app')
              | (None, app') \<Rightarrow> (Inr stored, app'))
      else launch_inline now ws stored (ExecuteRun (run_id stored) ws inp agent thread) app)"

text \<open>The insert and the launch both entry points end with.\<close>

definition insert_and_launch :: "('p, 't, 'l, 's) launch_env \<Rightarrow> instant \<Rightarrow> run_record \<Rightarrow> ('p, 't, 'l, 's) run_input
    \<Rightarrow> agent_def_record option \<Rightarrow> string option \<Rightarrow> ('p, 't, 'l, 's) app \<Rightarrow> (launch_error + run_record) \<times> ('p, 't, 'l, 's) app" where
  "insert_and_launch env now run inp agent thread app =
     (let ws = workspace_id run; cap = wq_max_outstanding (ap_quota app) in
      if le_dispatch env \<and> 0 < cap \<and> ws \<noteq> LOCAL_WORKSPACE then
        (case save_run_if_under_quota now cap run (ap_runs app) of
           ((stored, False), st) \<Rightarrow> (Inl (QuotaExceeded (WorkspaceRunQuotaExceeded ws cap cap)), app\<lparr>ap_runs := st\<rparr>)
         | ((stored, True), st) \<Rightarrow>
             if run_id stored \<noteq> run_id run then (Inr stored, app\<lparr>ap_runs := st\<rparr>)
             else launch_or_enqueue env now ws True stored inp agent thread (app\<lparr>ap_runs := st\<rparr>))
      else
        (case save_run_if_absent_by_idempotency now run (ap_runs app) of
           ((stored, False), st) \<Rightarrow> (Inr stored, app\<lparr>ap_runs := st\<rparr>)
         | ((stored, True), st) \<Rightarrow> launch_or_enqueue env now ws False stored inp agent thread (app\<lparr>ap_runs := st\<rparr>)))"

section \<open>The entry points\<close>

definition create_run :: "('p, 't, 'l, 's) launch_env \<Rightarrow> instant \<Rightarrow> ('p, 't, 'l, 's) launch_request \<Rightarrow> ('p, 't, 'l, 's) app
    \<Rightarrow> (launch_error + run_record) \<times> ('p, 't, 'l, 's) app" where
  "create_run env now rq app =
     (case hitl_refusal env (rq_agent rq) (rq_input rq) of
        Some e \<Rightarrow> (Inl e, app)
      | None \<Rightarrow>
          (case sanitized_input env (rq_operator rq) (rq_input rq) of
             Inl e \<Rightarrow> (Inl e, app)
           | Inr inp \<Rightarrow> insert_and_launch env now (launch_record env now rq [] None inp) inp (rq_agent rq) None app))"

text \<open>
  A new turn of a stored conversation; the request's persona and task are those of the spec, and its
  model configuration is the spec's unless one is given.
\<close>

definition continue_thread :: "('p, 't, 'l, 's) launch_env \<Rightarrow> instant \<Rightarrow> string \<Rightarrow> string \<Rightarrow> 's \<Rightarrow> agent_def_record \<Rightarrow> 'l option
    \<Rightarrow> bool \<Rightarrow> bool \<Rightarrow> ('p, 't, 'l, 's) launch_request \<Rightarrow> ('p, 't, 'l, 's) app \<Rightarrow> (launch_error + run_record) \<times> ('p, 't, 'l, 's) app" where
  "continue_thread env now conversation prompt spec agent llm hitl plan rq app =
     (if (hitl \<or> plan) \<and> \<not> le_has_checkpoints env then (Inl HitlNotSupported, app)
      else if plan \<and> \<not> le_builds_registry env spec then (Inl HitlRequiresAgent, app)
      else case le_sanitize env (rq_operator rq) spec of
             Inl e \<Rightarrow> (Inl (SpecRejected e), app)
           | Inr s \<Rightarrow>
               (let inp = \<lparr>ri_persona = le_spec_persona env s, ri_task = le_spec_task env s prompt,
                           ri_llm_config = Some (case llm of None \<Rightarrow> le_spec_llm env s | Some l \<Rightarrow> l),
                           ri_agent_spec = Some s, ri_hitl = hitl, ri_plan = plan\<rparr>;
                    rq' = rq\<lparr>rq_agent := Some agent\<rparr>
                in insert_and_launch env now
                     (launch_record env now rq' [(''conversation_id'', JStr conversation)] (Some conversation) inp)
                     inp (Some agent) (Some conversation) app))"

record orchestration_request =
  oq_run_id :: string
  oq_workspace :: string
  oq_subject :: string
  oq_kind :: string
  oq_members :: "agent_def_record list"
  oq_prompt :: string
  oq_resource_kind :: string
  oq_resource_id :: string
  oq_key :: "string option"
  oq_actor :: json_dict
  oq_operator :: bool
  oq_graph_resume_id :: "string option"

definition orchestration_metadata :: "bool \<Rightarrow> orchestration_request \<Rightarrow> json_dict" where
  "orchestration_metadata dispatch oq =
     (let base = fold (\<lambda>(k, v). AList.update k v)
        [(''orchestration'', JStr (oq_resource_kind oq)), (''orchestration_kind'', JStr (oq_kind oq)),
         (oq_resource_kind oq @ ''_id'', JStr (oq_resource_id oq)),
         (''member_agent_ids'', JList (map (JStr \<circ> agent_id) (oq_members oq))),
         (''operator_provisioned'', JBool (oq_operator oq))] [];
          acted = (if oq_actor oq = [] then base else AList.update ''actor'' (JObj (oq_actor oq)) base);
          resumed = (case oq_graph_resume_id oq of
              Some g \<Rightarrow> if g = [] then acted else AList.update ''graph_resume_id'' (JStr g) acted | None \<Rightarrow> acted)
      in if dispatch then AList.update ''orchestration_prompt'' (JStr (oq_prompt oq)) resumed else resumed)"

definition orchestration_record :: "('p, 't, 'l, 's) launch_env \<Rightarrow> instant \<Rightarrow> orchestration_request \<Rightarrow> run_record" where
  "orchestration_record env now oq =
     (let run = (new_run (oq_run_id oq) (oq_workspace oq) (oq_subject oq) now)
            \<lparr>persona_name := Some (case oq_members oq of [] \<Rightarrow> oq_resource_kind oq | m # _ \<Rightarrow> def_name m),
             model_key := Some DEFAULT_MODEL_KEY, idempotency_key := oq_key oq,
             metadata := orchestration_metadata (le_dispatch env) oq\<rparr>
      in if le_dispatch env then run\<lparr>lane_key := Some LANE_DEFAULT, max_attempts := le_default_attempts env\<rparr> else run)"

definition create_orchestration_run :: "('p, 't, 'l, 's) launch_env \<Rightarrow> instant \<Rightarrow> orchestration_request \<Rightarrow> ('p, 't, 'l, 's) app
    \<Rightarrow> (launch_error + run_record) \<times> ('p, 't, 'l, 's) app" where
  "create_orchestration_run env now oq app =
     (let run = orchestration_record env now oq; ws = oq_workspace oq; cap = wq_max_outstanding (ap_quota app) in
      if le_dispatch env \<and> 0 < cap \<and> ws \<noteq> LOCAL_WORKSPACE then
        (case save_run_if_under_quota now cap run (ap_runs app) of
           ((stored, False), st) \<Rightarrow> (Inl (QuotaExceeded (WorkspaceRunQuotaExceeded ws cap cap)), app\<lparr>ap_runs := st\<rparr>)
         | ((stored, True), st) \<Rightarrow> (Inr stored, app\<lparr>ap_runs := st\<rparr>))
      else
        (case save_run_if_absent_by_idempotency now run (ap_runs app) of
           ((stored, False), st) \<Rightarrow> (Inr stored, app\<lparr>ap_runs := st\<rparr>)
         | ((stored, True), st) \<Rightarrow>
             if le_dispatch env then (Inr stored, app\<lparr>ap_runs := st\<rparr>)
             else launch_inline now ws stored
                    (ExecuteOrchestration (run_id stored) ws (oq_kind oq) (oq_members oq) (oq_prompt oq)
                       (oq_resource_kind oq) (oq_operator oq) (oq_graph_resume_id oq)) (app\<lparr>ap_runs := st\<rparr>)))"

text \<open>\<open>workspace_run_slot\<close>: a fan-out that is no run takes a slot around its body.\<close>

definition workspace_run_slot :: "string \<Rightarrow> (('p, 't, 'l, 's) app \<Rightarrow> 'x \<times> ('p, 't, 'l, 's) app) \<Rightarrow> ('p, 't, 'l, 's) app
    \<Rightarrow> (launch_error + 'x) \<times> ('p, 't, 'l, 's) app" where
  "workspace_run_slot ws body app =
     (case admit ws (ap_quota app) of
        Inl e \<Rightarrow> (Inl (QuotaExceeded e), app)
      | Inr q \<Rightarrow> (let (x, app') = body (app\<lparr>ap_quota := snd (semaphore ws q)\<rparr>)
                  in (Inr x, app'\<lparr>ap_quota := release ws (ap_quota app')\<rparr>)))"

section \<open>What a launch does\<close>

fun takes_slot :: "('p, 't, 'l, 's) job \<Rightarrow> bool" where
  "takes_slot (ExecuteRun _ _ _ _ _) = True"
| "takes_slot (ExecuteOrchestration _ _ _ _ _ _ _ _) = True"
| "takes_slot _ = False"

lemma existing_is_other:
  assumes "run_store_wf st" and "get_run (run_id run) st = None" and "existing_for_key run st = Some prior"
  shows "run_id prior \<noteq> run_id run"
proof -
  obtain rid where "map_of (rs_runs st) rid = Some prior"
    using assms(3) by (auto simp: existing_for_key_def split: option.splits)
  with assms(1,2) run_store_wfD(4) [OF assms(1)] show ?thesis by (auto simp: get_run_def)
qed

lemma launch_record_simps [simp]:
  "run_id (launch_record env now rq base thread inp) = rq_run_id rq"
  "workspace_id (launch_record env now rq base thread inp) = rq_workspace rq"
  "idempotency_key (launch_record env now rq base thread inp) = rq_key rq"
  "status (launch_record env now rq base thread inp) = QUEUED"
  by (simp_all add: launch_record_def stamp_queue_fields_def new_run_def Let_def)

lemma orchestration_record_simps [simp]:
  "run_id (orchestration_record env now oq) = oq_run_id oq"
  "workspace_id (orchestration_record env now oq) = oq_workspace oq"
  "idempotency_key (orchestration_record env now oq) = oq_key oq"
  "status (orchestration_record env now oq) = QUEUED"
  by (simp_all add: orchestration_record_def new_run_def Let_def)

text \<open>
  The four ends of an entry point: the prior run, a refusal (before anything is written, or with the
  record failed), a run left in the queue, a task with its slot.
\<close>

definition launch_ends :: "instant \<Rightarrow> run_record \<Rightarrow> ('p, 't, 'l, 's) app \<Rightarrow> (launch_error + run_record) \<times> ('p, 't, 'l, 's) app \<Rightarrow> bool" where
  "launch_ends now run app out \<longleftrightarrow>
     (let stored = run\<lparr>updated_at := now\<rparr>; st = snd (save_run now run (ap_runs app)) in
      case existing_for_key run (ap_runs app) of
        Some prior \<Rightarrow> out = (Inr prior, app)
      | None \<Rightarrow>
          (\<exists>e. out = (Inl e, app) \<or> out = (Inl e, app\<lparr>ap_runs := reject_stored now stored st\<rparr>))
          \<or> out = (Inr stored, app\<lparr>ap_runs := st\<rparr>)
          \<or> (\<exists>job q. takes_slot job \<and> job_workspace job = workspace_id run \<and> job_run job = run_id run
               \<and> admit (workspace_id run) (ap_quota app) = Inr q
               \<and> out = (Inr stored, app\<lparr>ap_runs := st, ap_quota := q, ap_tasks := job # ap_tasks app\<rparr>)))"

lemma launch_inline_ends:
  assumes "existing_for_key run (ap_runs app) = None" and "takes_slot job" and "job_workspace job = workspace_id run" and "job_run job = run_id run"
  shows "launch_ends now run app (launch_inline now (workspace_id run) (run\<lparr>updated_at := now\<rparr>) job
    (app\<lparr>ap_runs := snd (save_run now run (ap_runs app))\<rparr>))"
  using assms by (auto simp: launch_ends_def launch_inline_def Let_def split: sum.split)

lemma launch_or_enqueue_ends:
  assumes "existing_for_key run (ap_runs app) = None"
  shows "launch_ends now run app (launch_or_enqueue env now (workspace_id run) b (run\<lparr>updated_at := now\<rparr>) inp agent thread
    (app\<lparr>ap_runs := snd (save_run now run (ap_runs app))\<rparr>))"
proof (cases "le_dispatch env")
  case True
  with assms show ?thesis
    by (auto simp: launch_or_enqueue_def launch_ends_def admit_workspace_run_durable_def Let_def)
next
  case False
  then show ?thesis by (simp add: launch_or_enqueue_def launch_inline_ends assms)
qed

lemma insert_and_launch_ends:
  assumes "run_store_wf (ap_runs app)" and "get_run (run_id run) (ap_runs app) = None"
  shows "launch_ends now run app (insert_and_launch env now run inp agent thread app)"
proof (cases "existing_for_key run (ap_runs app)")
  case None
  note q = launch_or_enqueue_ends [OF None, of now env _ inp agent thread]
  have refused: "launch_ends now run app (Inl e, app)" for e by (auto simp: launch_ends_def None Let_def)
  show ?thesis
    using q by (simp add: insert_and_launch_def save_run_if_under_quota_eq save_run_if_absent_eq None refused Let_def)
next
  case (Some prior)
  from existing_is_other [OF assms Some] Some show ?thesis
    by (simp add: insert_and_launch_def save_run_if_under_quota_eq save_run_if_absent_eq launch_ends_def Let_def)
qed

lemma create_orchestration_ends:
  "launch_ends now (orchestration_record env now oq) app (create_orchestration_run env now oq app)"
proof -
  let ?run = "orchestration_record env now oq"
  show ?thesis
  proof (cases "existing_for_key ?run (ap_runs app)")
    case None
    have refused: "launch_ends now ?run app (Inl e, app)" for e by (auto simp: launch_ends_def None Let_def)
    have queued: "launch_ends now ?run app (Inr (?run\<lparr>updated_at := now\<rparr>), app\<lparr>ap_runs := snd (save_run now ?run (ap_runs app))\<rparr>)"
      by (simp add: launch_ends_def None Let_def)
    have inline: "launch_ends now ?run app (launch_inline now (oq_workspace oq) (?run\<lparr>updated_at := now\<rparr>)
        (ExecuteOrchestration (oq_run_id oq) (oq_workspace oq) k m p u v g) (app\<lparr>ap_runs := snd (save_run now ?run (ap_runs app))\<rparr>))" for k m p u v g
      using launch_inline_ends [OF None, of "ExecuteOrchestration (oq_run_id oq) (oq_workspace oq) k m p u v g" now] by simp
    show ?thesis
      using queued inline
      by (simp add: create_orchestration_run_def save_run_if_under_quota_eq save_run_if_absent_eq None refused Let_def)
  next
    case (Some prior)
    then show ?thesis
      by (simp add: create_orchestration_run_def save_run_if_under_quota_eq save_run_if_absent_eq launch_ends_def Let_def)
  qed
qed

lemma create_run_cases:
  assumes "run_store_wf (ap_runs app)" and "get_run (rq_run_id rq) (ap_runs app) = None"
  obtains e where "create_run env now rq app = (Inl e, app)"
  | inp where "hitl_refusal env (rq_agent rq) (rq_input rq) = None" and "sanitized_input env (rq_operator rq) (rq_input rq) = Inr inp"
      and "launch_ends now (launch_record env now rq [] None inp) app (create_run env now rq app)"
proof (cases "hitl_refusal env (rq_agent rq) (rq_input rq)")
  case None
  show ?thesis
  proof (cases "sanitized_input env (rq_operator rq) (rq_input rq)")
    case (Inl e)
    with None that(1) show ?thesis by (simp add: create_run_def)
  next
    case (Inr inp)
    have "launch_ends now (launch_record env now rq [] None inp) app
        (insert_and_launch env now (launch_record env now rq [] None inp) inp (rq_agent rq) None app)"
      using assms by (intro insert_and_launch_ends) simp_all
    with None Inr that(2) show ?thesis by (simp add: create_run_def)
  qed
next
  case (Some e)
  with that(1) show ?thesis by (simp add: create_run_def)
qed

text \<open>Well-formedness is kept.\<close>

lemma launch_keeps_wf:
  assumes "launch_ends now run app (res, app')" and "run_store_wf (ap_runs app)" and "get_run (run_id run) (ap_runs app) = None"
  shows "run_store_wf (ap_runs app')"
proof (cases "existing_for_key run (ap_runs app)")
  case None
  let ?st = "snd (save_run now run (ap_runs app))"
  have wf: "run_store_wf ?st" using assms(2,3) None by (rule save_new_wf)
  moreover have "run_store_wf (reject_stored now (run\<lparr>updated_at := now\<rparr>) ?st)"
    unfolding reject_stored_def by (rule save_run_wf [OF wf]) (simp add: save_admissible_def get_run_def)
  ultimately show ?thesis using assms(1,2) None by (auto simp: launch_ends_def Let_def)
next
  case (Some prior)
  with assms(1,2) show ?thesis by (simp add: launch_ends_def Let_def)
qed

lemma create_run_wf:
  assumes "run_store_wf (ap_runs app)" and "get_run (rq_run_id rq) (ap_runs app) = None"
  shows "run_store_wf (ap_runs (snd (create_run env now rq app)))"
  using assms
proof (cases rule: create_run_cases [of app rq env now])
  case (2 inp)
  have "launch_ends now (launch_record env now rq [] None inp) app (fst (create_run env now rq app), snd (create_run env now rq app))"
    using 2(3) by simp
  from launch_keeps_wf [OF this] assms show ?thesis by simp
next
  case (1 e)
  with assms show ?thesis by simp
qed

section \<open>Refusals\<close>

lemma reject_stored_runs:
  "rs_runs (reject_stored now (run\<lparr>updated_at := now\<rparr>) (snd (save_run now run st)))
    = AList.update (run_id run) (run\<lparr>status := FAILED, error := Some QUOTA_REJECTED, updated_at := now\<rparr>) (rs_runs st)"
  by (simp add: reject_stored_def)

lemma rejected_count:
  assumes "get_run (run_id run) st = None"
  shows "count_active_runs_for_workspace ws (reject_stored now (run\<lparr>updated_at := now\<rparr>) (snd (save_run now run st)))
    = count_active_runs_for_workspace ws st"
  using assms update_fresh [of "rs_runs st" "run_id run"]
  by (simp add: count_active_runs_for_workspace_def reject_stored_runs get_run_def is_active_def ACTIVE_RUN_STATUSES_def)

text \<open>
  C14: A refused launch leaves nothing behind: no task, no slot, no run that counts as active in any
  workspace, and every other run untouched; at most the refused record itself is kept, as FAILED with
  the reason.
\<close>

theorem refused_launch_leaves_nothing_behind:
  assumes "run_store_wf (ap_runs app)" and "get_run (rq_run_id rq) (ap_runs app) = None"
    and "create_run env now rq app = (Inl e, app')"
  shows "ap_tasks app' = ap_tasks app \<and> ap_quota app' = ap_quota app
    \<and> (\<forall>ws. count_active_runs_for_workspace ws (ap_runs app') = count_active_runs_for_workspace ws (ap_runs app))
    \<and> (\<forall>rid. rid \<noteq> rq_run_id rq \<longrightarrow> get_run rid (ap_runs app') = get_run rid (ap_runs app))
    \<and> (case get_run (rq_run_id rq) (ap_runs app') of None \<Rightarrow> True | Some r \<Rightarrow> status r = FAILED \<and> error r = Some QUOTA_REJECTED)"
  using assms(1,2)
proof (cases rule: create_run_cases [of app rq env now])
  case (1 e)
  with assms show ?thesis by simp
next
  case (2 inp)
  let ?run = "launch_record env now rq [] None inp"
  have "app' = app \<or> app' = app\<lparr>ap_runs := reject_stored now (?run\<lparr>updated_at := now\<rparr>) (snd (save_run now ?run (ap_runs app)))\<rparr>"
    using 2(3) by (auto simp: assms(3) launch_ends_def Let_def split: option.splits)
  then show ?thesis
  proof
    assume "app' = app"
    with assms(2) show ?thesis by simp
  next
    assume a: "app' = app\<lparr>ap_runs := reject_stored now (?run\<lparr>updated_at := now\<rparr>) (snd (save_run now ?run (ap_runs app)))\<rparr>"
    have "count_active_runs_for_workspace ws (ap_runs app') = count_active_runs_for_workspace ws (ap_runs app)" for ws
      using rejected_count [of ?run "ap_runs app"] assms(2) by (simp add: a)
    then show ?thesis by (simp add: a get_run_def reject_stored_runs)
  qed
qed

lemma submitted_is_found:
  assumes "run_store_wf (ap_runs app)" and "get_run (rq_run_id rq) (ap_runs app) = None"
    and "rq_key rq = Some k" and "create_run env now rq app = (Inr r, app1)"
  shows "load_run_by_idempotency (rq_workspace rq) k (ap_runs app1) = Some r"
  using assms(1,2)
proof (cases rule: create_run_cases [of app rq env now])
  case (2 inp)
  let ?run = "launch_record env now rq [] None inp"
  have *: "existing_for_key ?run (ap_runs app) = load_run_by_idempotency (rq_workspace rq) k (ap_runs app)"
    using load_run_existing [of ?run k "ap_runs app"] assms(3) by simp
  show ?thesis
  proof (cases "existing_for_key ?run (ap_runs app)")
    case None
    with 2(3) have "ap_runs app1 = snd (save_run now ?run (ap_runs app))" "r = ?run\<lparr>updated_at := now\<rparr>"
      by (auto simp: assms(4) launch_ends_def Let_def)
    with load_run_saved [OF assms(1) _ None, of "rq_workspace rq" k now] assms(2,3) show ?thesis by simp
  next
    case (Some prior)
    with 2(3) have "r = prior" "app1 = app" by (simp_all add: assms(4) launch_ends_def Let_def)
    with * Some show ?thesis by simp
  qed
qed (simp add: assms(4))


section \<open>Slots belong to tasks\<close>

definition held_slots :: "('p, 't, 'l, 's) app \<Rightarrow> string multiset" where
  "held_slots app = image_mset job_workspace (filter_mset takes_slot (mset (ap_tasks app)))"

text \<open>The counters of the process count its unfinished launches, one slot each.\<close>

definition slots_balanced :: "('p, 't, 'l, 's) app \<Rightarrow> bool" where
  "slots_balanced app \<longleftrightarrow> 0 < wq_max_outstanding (ap_quota app) \<and> represents (ap_quota app) (held_slots app)"

lemma slots_balanced_cong:
  "ap_tasks app' = ap_tasks app \<Longrightarrow> ap_quota app' = ap_quota app \<Longrightarrow> slots_balanced app' = slots_balanced app"
  by (simp add: slots_balanced_def held_slots_def)

lemma launch_keeps_slots:
  assumes "launch_ends now run app (res, app')" and "slots_balanced app"
  shows "slots_balanced app'"
proof (cases "ap_tasks app' = ap_tasks app \<and> ap_quota app' = ap_quota app")
  case True
  with assms(2) show ?thesis by (simp add: slots_balanced_def held_slots_def)
next
  case False
  with assms(1) obtain job q where j: "takes_slot job" "job_workspace job = workspace_id run" "admit (workspace_id run) (ap_quota app) = Inr q"
    "ap_quota app' = q" "ap_tasks app' = job # ap_tasks app"
    by (auto simp: launch_ends_def Let_def split: option.splits)
  have r: "represents (ap_quota app) (held_slots app)" and pos: "0 < wq_max_outstanding (ap_quota app)"
    using assms(2) by (simp_all add: slots_balanced_def)
  have e: "quota_event (Admit (workspace_id run)) (ap_quota app) = (True, q)" using j(3) by simp
  with represents_step(1) [OF r pos, of "Admit (workspace_id run)"]
  have "bag_event (wq_max_outstanding (ap_quota app)) (Admit (workspace_id run)) (held_slots app)
      = (True, add_mset (workspace_id run) (held_slots app))"
    by (simp split: if_splits)
  with e represents_step(2,3) [OF r pos, of "Admit (workspace_id run)"] pos j show ?thesis
    by (simp add: slots_balanced_def held_slots_def del: quota_event.simps bag_event.simps)
qed

text \<open>The end of a task: the slot goes back and the task leaves the set.\<close>

lemma release_keeps_slots:
  assumes "slots_balanced app" and "job \<in> set (ap_tasks app)" and "takes_slot job"
    and "ap_tasks app' = remove1 job (ap_tasks app)" and "ap_quota app' = release (job_workspace job) (snd (semaphore ws (ap_quota app)))"
  shows "slots_balanced app'"
proof -
  let ?q = "snd (semaphore ws (ap_quota app))"
  have q: "wq_outstanding ?q = wq_outstanding (ap_quota app)" "wq_max_outstanding ?q = wq_max_outstanding (ap_quota app)"
    by (simp_all add: semaphore_def split: option.split)
  have r: "represents ?q (held_slots app)" and pos: "0 < wq_max_outstanding ?q"
    using assms(1) represents_cong [OF q(1)] q(2) by (simp_all add: slots_balanced_def)
  have "mset (ap_tasks app) = add_mset job (mset (ap_tasks app'))" using assms(2,4) by simp
  then have "held_slots app = add_mset (job_workspace job) (held_slots app')" using assms(3) by (simp add: held_slots_def)
  then have "held_slots app' = held_slots app - {#job_workspace job#}" by simp
  with represents_step(2,3) [OF r pos, of "Release (job_workspace job)"] pos assms(5) show ?thesis
    by (simp add: slots_balanced_def)
qed

section \<open>Examples\<close>

definition demo_launch_env :: "bool \<Rightarrow> (string, int, bool, string) launch_env" where
  "demo_launch_env dispatch = \<lparr>le_models = demo_models, le_dispatch = dispatch, le_has_checkpoints = True, le_default_attempts = 3,
     le_sanitize = (\<lambda>op s. if s = ''evil'' then Inl ''tools_module'' else Inr s), le_builds_registry = (\<lambda>s. True),
     le_spec_name = id, le_spec_persona = id, le_spec_llm = (\<lambda>s. True), le_spec_task = (\<lambda>s prompt. 7),
     le_persona_name = id, le_task_id = (\<lambda>t. ''task''), le_task_model_key = (\<lambda>t. Some ''ollama:m''), le_llm_model_key = (\<lambda>b. ''default'')\<rparr>"

definition demo_request :: "string \<Rightarrow> (string, int, bool, string) launch_request" where
  "demo_request rid = \<lparr>rq_run_id = rid, rq_workspace = ''acme'', rq_subject = ''u'', rq_key = Some ''k'', rq_actor = [(''subject'', JStr ''u'')],
     rq_agent = None, rq_operator = False, rq_input = demo_input\<lparr>ri_hitl := False\<rparr>\<rparr>"

definition demo_app :: "int \<Rightarrow> (string, int, bool, string) app" where
  "demo_app cap = \<lparr>ap_runs = empty_run_store, ap_quota = workspace_quota_init 2 cap, ap_tasks = []\<rparr>"

lemma demo_app_wf: "run_store_wf (ap_runs (demo_app cap))" "get_run rid (ap_runs (demo_app cap)) = None"
  by (simp_all add: demo_app_def empty_run_store_wf) (simp add: get_run_def empty_run_store_def)

lemmas demo_launch_defs = create_run_def hitl_refusal_def sanitized_input_def insert_and_launch_def launch_or_enqueue_def launch_inline_def
  demo_launch_env_def demo_request_def demo_input_def demo_app_def workspace_quota_init_def admit_def outstanding_def
  save_run_if_absent_eq existing_for_key_def empty_run_store_def

theorem refused_launch_leaves_nothing_behind_witness:
  "(let full = (demo_app 1)\<lparr>ap_quota := (workspace_quota_init 2 1)\<lparr>wq_outstanding := [(''acme'', 1)]\<rparr>\<rparr>;
        out = create_run (demo_launch_env False) 5 (demo_request ''r1'') full
    in isl (fst out) \<and> ap_tasks (snd out) = [] \<and> get_run ''r1'' (ap_runs (snd out)) \<noteq> None
       \<and> count_active_runs_for_workspace ''acme'' (ap_runs (snd out)) = count_active_runs_for_workspace ''acme'' (ap_runs full))"
proof -
  let ?full = "(demo_app 1)\<lparr>ap_quota := (workspace_quota_init 2 1)\<lparr>wq_outstanding := [(''acme'', 1)]\<rparr>\<rparr>"
  let ?out = "create_run (demo_launch_env False) 5 (demo_request ''r1'') ?full"
  have l: "isl (fst ?out)" and n: "get_run ''r1'' (ap_runs (snd ?out)) \<noteq> None"
    by (simp_all add: demo_launch_defs reject_stored_runs get_run_def launch_record_def stamp_queue_fields_def new_run_def Let_def reject_stored_def)
  have w: "run_store_wf (ap_runs ?full)" "get_run (rq_run_id (demo_request ''r1'')) (ap_runs ?full) = None" using demo_app_wf by simp_all
  have "?out = (Inl (projl (fst ?out)), snd ?out)" using l by (metis sum.collapse(1) surjective_pairing)
  from refused_launch_leaves_nothing_behind [OF w this] l n show ?thesis by (simp add: Let_def demo_app_def)
qed


end
