(* ===== verification/RunDrive.thy ===== *)
theory RunDrive
  imports RunLaunch ToolSchema ToolGate Checkpoints
begin

text \<open>
  Driving a run to its end: himmy/application/run_drive.py, with the plan steps of runtime/plan_mode.py
  and the tool gate of run_side_effects.py. What the runtime answers is an argument, and so is
  what others do to the application while it runs (\<open>between\<close>): the drive saves the run as RUNNING, lets
  them act and then saves the record it holds. Lineage links, the extraction of recommendations and the
  conversation sink do not touch the run and are left out.
\<close>

section \<open>What the runtime answers\<close>

text \<open>\<open>RunResult\<close>: the fields the drive reads.\<close>

record run_result =
  rr_thread_id :: string
  rr_trace_id :: "string option"
  rr_succeeded :: bool
  rr_error :: "string option"
  rr_error_code :: "string option"
  rr_output_text :: "string option"
  rr_output_structured :: json

record loop_result =
  lr_thread_id :: string
  lr_stopped_reason :: string
  lr_checkpoint_id :: "string option"
  lr_final :: run_result

record orchestration_outcome =
  oo_thread_id :: "string option"
  oo_output_text :: "string option"
  oo_stopped_reason :: "string option"
  oo_route :: json
  oo_graph_checkpoint_id :: "string option"
  oo_awaiting_approval :: bool
  oo_member_checkpoint_id :: "string option"
  oo_orchestration_checkpoint_id :: "string option"
  oo_awaiting_member :: "string option"
  oo_failed :: bool
  oo_error :: "string option"

text \<open>
  How an awaited runtime call ends. A cancellation is delivered either during the call or while the
  task still waits for its turn.
\<close>

datatype 'a call_end =
    Returned 'a
  | TimedOut
  | Cancelled
  | CancelledWaiting
  | HimmyFailure string
  | OtherFailure string

text \<open>What the drive uses of the world: the checkpoints, the text of the timeout, \<open>json.loads\<close>, the schema check.\<close>

record drive_env =
  de_load_checkpoint :: "string \<Rightarrow> agent_checkpoint option"
  de_has_checkpoints :: bool
  de_timeout_text :: string
  de_loads :: "string \<Rightarrow> json option"
  de_schema_error :: "json \<Rightarrow> json_dict \<Rightarrow> string option"

definition text_or :: "string option \<Rightarrow> string \<Rightarrow> string" where
  "text_or x d = (case x of Some s \<Rightarrow> if s = [] then d else s | None \<Rightarrow> d)"

definition or_none :: "string option \<Rightarrow> string option" where
  "or_none x = (case x of Some [] \<Rightarrow> None | _ \<Rightarrow> x)"

definition jopt :: "string option \<Rightarrow> json" where
  "jopt x = (case x of None \<Rightarrow> JNull | Some s \<Rightarrow> JStr s)"

section \<open>The plan of a plan-first run\<close>

definition PLAN_TOOL :: string where "PLAN_TOOL = ''update_plan''"
definition PLAN_MAX_STEPS :: nat where "PLAN_MAX_STEPS = 12"
definition PLAN_TITLE_MAX :: nat where "PLAN_TITLE_MAX = 200"
definition PLAN_STATUSES :: "string list" where "PLAN_STATUSES = [''pending'', ''active'', ''done'', ''skipped'']"

definition plan_step :: "json \<Rightarrow> json_dict option" where
  "plan_step item =
     (case item of
        JObj d \<Rightarrow>
          (let title = take PLAN_TITLE_MAX (py_strip py_is_space (py_str (json_get ''title'' (JStr []) d)));
               stat = py_lower (py_strip py_is_space (py_str (json_get ''status'' (JStr ''pending'') d)))
           in if title = [] then None
              else Some [(''title'', JStr title), (''status'', JStr (if stat \<in> set PLAN_STATUSES then stat else ''pending''))])
      | _ \<Rightarrow> None)"

definition normalize_plan_steps :: "json \<Rightarrow> json_dict list" where
  "normalize_plan_steps raw =
     (case raw of JList items \<Rightarrow> List.map_filter plan_step (take PLAN_MAX_STEPS items) | _ \<Rightarrow> [])"

definition extract_plan_from_checkpoint :: "drive_env \<Rightarrow> string option \<Rightarrow> json_dict list" where
  "extract_plan_from_checkpoint de cid =
     (case or_none cid of
        None \<Rightarrow> []
      | Some c \<Rightarrow>
          if \<not> de_has_checkpoints de then []
          else case de_load_checkpoint de c of
                 None \<Rightarrow> []
               | Some cp \<Rightarrow>
                   (case filter (\<lambda>p. pc_name p = PLAN_TOOL) (cp_pending cp) of
                      [] \<Rightarrow> []
                    | p # _ \<Rightarrow> normalize_plan_steps (json_get ''steps'' JNull (pc_args p))))"

section \<open>Recording an outcome on the record\<close>

definition failed_with :: "string \<Rightarrow> run_record \<Rightarrow> run_record" where
  "failed_with msg run = run\<lparr>status := FAILED, error := Some msg\<rparr>"

definition parse_structured :: "(string \<Rightarrow> json option) \<Rightarrow> string option \<Rightarrow> json" where
  "parse_structured loads content =
     (case or_none content of
        None \<Rightarrow> JNull
      | Some t \<Rightarrow> (case loads t of Some (JObj d) \<Rightarrow> JObj d | Some (JList vs) \<Rightarrow> JList vs | _ \<Rightarrow> JNull))"

definition requested_schema :: "json_dict option \<Rightarrow> json_dict \<Rightarrow> json_dict option" where
  "requested_schema llm_schema ctx =
     (case llm_schema of
        Some s \<Rightarrow> Some s
      | None \<Rightarrow> (case json_get ''output_schema'' JNull ctx of JObj s \<Rightarrow> Some s | _ \<Rightarrow> None))"

definition finalize_succeeded_run :: "drive_env \<Rightarrow> json_dict option \<Rightarrow> run_result \<Rightarrow> run_record \<Rightarrow> run_record" where
  "finalize_succeeded_run de schema res run =
     (let structured = (if rr_output_structured res = JNull then parse_structured (de_loads de) (rr_output_text res)
                        else rr_output_structured res);
          verdict = (if structured = JNull then None else Option.bind schema (de_schema_error de structured))
      in run\<lparr>output_text := or_none (rr_output_text res), output_structured := structured,
             metadata := (case verdict of
                 None \<Rightarrow> metadata run
               | Some e \<Rightarrow> AList.update ''extraction_error'' (JStr (''schema validation failed: '' @ e)) (metadata run)),
             status := SUCCEEDED\<rparr>)"

definition failed_result :: "run_result \<Rightarrow> run_record \<Rightarrow> run_record" where
  "failed_result res run =
     run\<lparr>status := FAILED, error := Some (text_or (rr_error res) (text_or (rr_error_code res) ''inference failed'')),
         output_text := or_none (rr_output_text res),
         metadata := (case or_none (rr_error_code res) of
             None \<Rightarrow> metadata run | Some c \<Rightarrow> AList.update ''error_code'' (JStr c) (metadata run))\<rparr>"

definition apply_turn_outcome :: "drive_env \<Rightarrow> json_dict option \<Rightarrow> run_result \<Rightarrow> run_record \<Rightarrow> run_record" where
  "apply_turn_outcome de schema res run =
     (let linked = run\<lparr>thread_id := Some (rr_thread_id res), trace_id := rr_trace_id res\<rparr>
      in if rr_succeeded res then finalize_succeeded_run de schema res linked else failed_result res linked)"

definition apply_loop_outcome :: "drive_env \<Rightarrow> json_dict option \<Rightarrow> string \<Rightarrow> bool \<Rightarrow> loop_result \<Rightarrow> run_record \<Rightarrow> run_record" where
  "apply_loop_outcome de schema task plan lr run =
     (let linked = run\<lparr>thread_id := Some (lr_thread_id lr), trace_id := Some (lr_thread_id lr @ '':'' @ task)\<rparr>
      in if lr_stopped_reason lr = ''awaiting_approval'' then
           (let meta = AList.update ''checkpoint_id'' (jopt (lr_checkpoint_id lr)) (metadata run);
                steps = (if plan then extract_plan_from_checkpoint de (lr_checkpoint_id lr) else [])
            in linked\<lparr>status := AWAITING_APPROVAL,
                 metadata := (if steps = [] then meta else AList.update ''plan'' (JList (map JObj steps)) meta)\<rparr>)
         else if rr_succeeded (lr_final lr) then finalize_succeeded_run de schema (lr_final lr) linked
         else failed_result (lr_final lr) linked)"

definition apply_orchestration_outcome :: "orchestration_outcome \<Rightarrow> run_record \<Rightarrow> run_record" where
  "apply_orchestration_outcome oo run =
     (let base = AList.update ''route'' (oo_route oo) (AList.update ''stopped_reason'' (jopt (oo_stopped_reason oo)) (metadata run));
          meta = (case or_none (oo_graph_checkpoint_id oo) of
              None \<Rightarrow> base | Some g \<Rightarrow> AList.update ''graph_checkpoint_id'' (JStr g) base);
          told = run\<lparr>thread_id := oo_thread_id oo, output_text := or_none (oo_output_text oo)\<rparr>
      in if oo_awaiting_approval oo then
           told\<lparr>status := AWAITING_APPROVAL,
             metadata := AList.update ''hitl_kind'' (JStr ''orchestration'')
               (AList.update ''awaiting_member'' (jopt (oo_awaiting_member oo))
                 (AList.update ''orchestration_checkpoint_id'' (jopt (oo_orchestration_checkpoint_id oo))
                   (AList.update ''checkpoint_id'' (jopt (oo_member_checkpoint_id oo)) meta)))\<rparr>
         else if oo_failed oo then
           told\<lparr>status := FAILED, error := Some (text_or (oo_error oo) ''orchestration failed''), metadata := meta\<rparr>
         else told\<lparr>status := SUCCEEDED, metadata := meta\<rparr>)"

text \<open>A call that did not return, by the error the handlers write.\<close>

definition settle :: "drive_env \<Rightarrow> ('a \<Rightarrow> run_record \<Rightarrow> run_record) \<Rightarrow> 'a call_end \<Rightarrow> run_record \<Rightarrow> run_record" where
  "settle de f c run =
     (case c of
        Returned x \<Rightarrow> f x run
      | TimedOut \<Rightarrow> failed_with (''run exceeded '' @ de_timeout_text de @ ''s execution timeout'') run
      | Cancelled \<Rightarrow> failed_with ''run cancelled'' run
      | CancelledWaiting \<Rightarrow> run
      | HimmyFailure e \<Rightarrow> failed_with e run
      | OtherFailure e \<Rightarrow> failed_with e run)"

section \<open>The drive\<close>

text \<open>
  The runtime's answer to one drive: the build may fail or be cancelled before the plain turn or the
  agentic loop. No handler catches a cancellation of the build.
\<close>

datatype drive_end =
    BuildFailed string
  | BuildCancelled
  | Turn "run_result call_end"
  | Loop "loop_result call_end"

text \<open>What the drive reads of its launch input: the requested schema and the id of the task.\<close>

record drive_task =
  dt_schema :: "json_dict option"
  dt_task :: string
  dt_plan :: bool

definition drive_result :: "drive_env \<Rightarrow> drive_task \<Rightarrow> drive_end \<Rightarrow> run_record \<Rightarrow> run_record" where
  "drive_result de dt e run =
     (case e of
        BuildFailed m \<Rightarrow> failed_with (''agent runtime build failed: '' @ m) run
      | BuildCancelled \<Rightarrow> run
      | Turn c \<Rightarrow> settle de (apply_turn_outcome de (dt_schema dt)) c run
      | Loop c \<Rightarrow> settle de (apply_loop_outcome de (dt_schema dt) (dt_task dt) (dt_plan dt)) c run)"

text \<open>
  \<open>_execute_on_runtime\<close>. \<open>between\<close> is what others do while the runtime works; the instants are
  those of the two saves.
\<close>

definition execute_on_runtime :: "drive_env \<Rightarrow> (run_store \<Rightarrow> run_store) \<Rightarrow> instant \<Rightarrow> instant \<Rightarrow> drive_task \<Rightarrow> drive_end
    \<Rightarrow> run_record \<Rightarrow> run_store \<Rightarrow> run_store" where
  "execute_on_runtime de between t0 t1 dt e run st =
     (let (run', st') = save_run t0 (run\<lparr>status := RUNNING\<rparr>) st
      in if e = BuildCancelled then between st' else snd (save_run t1 (drive_result de dt e run') (between st')))"

text \<open>Removing the finished task from the set.\<close>

definition task_done :: "('p, 't, 'l, 's) job \<Rightarrow> ('p, 't, 'l, 's) app \<Rightarrow> ('p, 't, 'l, 's) app" where
  "task_done job app = app\<lparr>ap_tasks := remove1 job (ap_tasks app)\<rparr>"

text \<open>
  \<open>_execute_run\<close>: the semaphore, the drive, and the slot released whatever happened. A task
  cancelled while it waits for the semaphore never reads the run.
\<close>

definition waiting :: "drive_end \<Rightarrow> bool" where
  "waiting e \<longleftrightarrow> e = Turn CancelledWaiting \<or> e = Loop CancelledWaiting"

definition execute_run :: "drive_env \<Rightarrow> (run_store \<Rightarrow> run_store) \<Rightarrow> instant \<Rightarrow> instant \<Rightarrow> drive_task \<Rightarrow> drive_end
    \<Rightarrow> string \<Rightarrow> string \<Rightarrow> ('p, 't, 'l, 's) app \<Rightarrow> ('p, 't, 'l, 's) app" where
  "execute_run de between t0 t1 dt e rid ws app =
     (let app1 = app\<lparr>ap_quota := snd (semaphore ws (ap_quota app))\<rparr>;
          app2 = (if waiting e then app1
                  else case get_run rid (ap_runs app1) of
                         None \<Rightarrow> app1
                       | Some run \<Rightarrow> app1\<lparr>ap_runs := execute_on_runtime de between t0 t1 dt e run (ap_runs app1)\<rparr>)
      in app2\<lparr>ap_quota := release ws (ap_quota app2)\<rparr>)"

definition execute_orchestration_run :: "drive_env \<Rightarrow> (run_store \<Rightarrow> run_store) \<Rightarrow> instant \<Rightarrow> instant \<Rightarrow> orchestration_outcome call_end
    \<Rightarrow> string \<Rightarrow> string \<Rightarrow> ('p, 't, 'l, 's) app \<Rightarrow> ('p, 't, 'l, 's) app" where
  "execute_orchestration_run de between t0 t1 c rid ws app =
     (let app1 = app\<lparr>ap_quota := snd (semaphore ws (ap_quota app))\<rparr>;
          app2 = (if c = CancelledWaiting then app1
                  else case get_run rid (ap_runs app1) of
                         None \<Rightarrow> app1
                       | Some run \<Rightarrow>
                           (let (run', st') = save_run t0 (run\<lparr>status := RUNNING\<rparr>) (ap_runs app1)
                            in app1\<lparr>ap_runs := snd (save_run t1 (settle de apply_orchestration_outcome c run') (between st'))\<rparr>))
      in app2\<lparr>ap_quota := release ws (ap_quota app2)\<rparr>)"

section \<open>Runs claimed by the dispatcher\<close>

definition fail_claimed :: "instant \<Rightarrow> string \<Rightarrow> run_record \<Rightarrow> run_store \<Rightarrow> run_store" where
  "fail_claimed now msg run st =
     snd (save_run now (run\<lparr>status := FAILED, error := Some msg, last_error := Some msg\<rparr>) st)"

fun resolve_members :: "(string \<Rightarrow> string \<Rightarrow> agent_def_record option) \<Rightarrow> string \<Rightarrow> string list \<Rightarrow> string + agent_def_record list" where
  "resolve_members resolver ws [] = Inr []"
| "resolve_members resolver ws (a # as) =
     (case resolver a ws of
        None \<Rightarrow> Inl a
      | Some d \<Rightarrow> (case resolve_members resolver ws as of Inl b \<Rightarrow> Inl b | Inr ds \<Rightarrow> Inr (d # ds)))"

text \<open>The ids of the members are texts, as the creation stamped them.\<close>

definition member_ids :: "json_dict \<Rightarrow> string list" where
  "member_ids meta = (case json_get ''member_agent_ids'' JNull meta of
     JList vs \<Rightarrow> List.map_filter (\<lambda>v. case v of JStr s \<Rightarrow> Some s | _ \<Rightarrow> None) vs | _ \<Rightarrow> [])"

text \<open>The flag tells that the drive was cancelled, which ends the dispatch.\<close>

definition dispatch_orchestration_run :: "drive_env \<Rightarrow> (string \<Rightarrow> string \<Rightarrow> agent_def_record option) option
    \<Rightarrow> (run_store \<Rightarrow> run_store) \<Rightarrow> instant \<Rightarrow> instant \<Rightarrow> orchestration_outcome call_end \<Rightarrow> run_record
    \<Rightarrow> ('p, 't, 'l, 's) app \<Rightarrow> bool \<times> ('p, 't, 'l, 's) app" where
  "dispatch_orchestration_run de resolver between t0 t1 c run app =
     (let ids = member_ids (metadata run);
          failed = (\<lambda>msg. (False, app\<lparr>ap_runs := fail_claimed t0 msg run (ap_runs app)\<rparr>))
      in case resolver of
           None \<Rightarrow> failed ''orchestration run cannot be recovered: no resolvable members''
         | Some rs \<Rightarrow>
             if ids = [] then failed ''orchestration run cannot be recovered: no resolvable members''
             else case resolve_members rs (workspace_id run) ids of
                    Inl a \<Rightarrow> failed (''orchestration recovery failed: member agent '' @ a @ '' removed'')
                  | Inr members \<Rightarrow> (c \<in> {Cancelled, CancelledWaiting},
                                     execute_orchestration_run de between t0 t1 c (run_id run) (workspace_id run) app))"

text \<open>The outcome of the runtime, given what it is asked to execute.\<close>

record ('p, 't, 'l, 's) claimed_world =
  cw_drive :: "('p, 't, 'l, 's) run_input \<Rightarrow> drive_task \<times> drive_end"
  cw_orchestration :: "orchestration_outcome call_end"
  cw_resolver :: "(string \<Rightarrow> string \<Rightarrow> agent_def_record option) option"

definition retry :: "instant \<Rightarrow> string \<Rightarrow> ('p, 't, 'l, 's) app \<Rightarrow> retry_error + ('p, 't, 'l, 's) app" where
  "retry now rid app = map_sum id (\<lambda>st. app\<lparr>ap_runs := st\<rparr>) (apply_retry_policy now rid (ap_runs app))"

definition cancelled_drive :: "drive_end \<Rightarrow> bool" where
  "cancelled_drive e \<longleftrightarrow> e \<in> {BuildCancelled, Turn Cancelled, Turn CancelledWaiting, Loop Cancelled, Loop CancelledWaiting}"

text \<open>Steps 3 and 4: the execution under the semaphore and the retry policy.\<close>

definition drive_claimed :: "drive_env \<Rightarrow> ('p, 't, 'l, 's) claimed_world \<Rightarrow> (run_store \<Rightarrow> run_store) \<Rightarrow> instant \<Rightarrow> instant \<Rightarrow> instant
    \<Rightarrow> ('p, 't, 'l, 's) run_input \<Rightarrow> run_record \<Rightarrow> ('p, 't, 'l, 's) app \<Rightarrow> retry_error + ('p, 't, 'l, 's) app" where
  "drive_claimed de cw between t0 t1 t2 inp run app =
     (let (dt, e) = cw_drive cw inp;
          app1 = app\<lparr>ap_quota := snd (semaphore (workspace_id run) (ap_quota app))\<rparr>
      in if waiting e then Inr app1
         else (let app2 = app1\<lparr>ap_runs := execute_on_runtime de between t0 t1 dt e run (ap_runs app1)\<rparr>
               in if cancelled_drive e then Inr app2 else retry t2 (run_id run) app2))"

definition NO_INPUT :: string where
  "NO_INPUT = ''run has no recoverable input (input_blob missing); cannot be re-executed by the dispatcher''"

definition dispatch_claimed_run :: "drive_env \<Rightarrow> ('p, 't, 'l, 's) input_models \<Rightarrow> ('p, 't, 'l, 's) claimed_world
    \<Rightarrow> (run_store \<Rightarrow> run_store) \<Rightarrow> instant \<Rightarrow> instant \<Rightarrow> instant \<Rightarrow> run_record \<Rightarrow> ('p, 't, 'l, 's) app
    \<Rightarrow> retry_error + ('p, 't, 'l, 's) app" where
  "dispatch_claimed_run de im cw between t0 t1 t2 run app =
     (if json_truthy (json_get ''orchestration'' JNull (metadata run)) then
        (let (raised, app') = dispatch_orchestration_run de (cw_resolver cw) between t0 t1 (cw_orchestration cw) run app
         in if raised then Inr app' else retry t2 (run_id run) app')
      else case or_none (input_blob run) of
        None \<Rightarrow> Inr (app\<lparr>ap_runs := fail_claimed t0 NO_INPUT run (ap_runs app)\<rparr>)
      | Some blob \<Rightarrow>
          (case decode_run_input im (de_loads de) None (run_id run) blob of
             Inl e \<Rightarrow> Inr (app\<lparr>ap_runs := fail_claimed t0 (''run input could not be rehydrated: '' @
                 (case e of RunInputError m \<Rightarrow> m | CipherError _ \<Rightarrow> [])) run (ap_runs app)\<rparr>)
           | Inr inp \<Rightarrow> drive_claimed de cw between t0 t1 t2 inp run app))"

section \<open>Every drive concludes\<close>

text \<open>The state a drive ends in.\<close>

definition result_status :: "run_result \<Rightarrow> run_status" where
  "result_status res = (if rr_succeeded res then SUCCEEDED else FAILED)"

fun drive_status :: "drive_end \<Rightarrow> run_status" where
  "drive_status (Turn (Returned res)) = result_status res"
| "drive_status (Loop (Returned lr)) =
     (if lr_stopped_reason lr = ''awaiting_approval'' then AWAITING_APPROVAL else result_status (lr_final lr))"
| "drive_status _ = FAILED"

text \<open>What no outcome changes: the identity, the launch input and the queue fields.\<close>

definition same_launch :: "run_record \<Rightarrow> run_record \<Rightarrow> bool" where
  "same_launch r r' \<longleftrightarrow> run_id r' = run_id r \<and> workspace_id r' = workspace_id r \<and> subject_id r' = subject_id r
     \<and> idempotency_key r' = idempotency_key r \<and> input_blob r' = input_blob r \<and> attempt r' = attempt r
     \<and> max_attempts r' = max_attempts r \<and> lane_key r' = lane_key r \<and> created_at r' = created_at r
     \<and> json_get ''actor'' JNull (metadata r') = json_get ''actor'' JNull (metadata r)
     \<and> json_get ''orchestration'' JNull (metadata r') = json_get ''orchestration'' JNull (metadata r)"

lemma same_launchD: "same_launch r r' \<Longrightarrow> run_id r' = run_id r" "same_launch r r' \<Longrightarrow> input_blob r' = input_blob r"
  by (simp_all add: same_launch_def)

lemma json_get_update: "json_get k d (AList.update k' v m) = (if k = k' then v else json_get k d m)"
  by (simp add: json_get_def update_conv')

lemmas outcome_defs = failed_with_def finalize_succeeded_run_def failed_result_def apply_turn_outcome_def apply_loop_outcome_def Let_def
  same_launch_def result_status_def json_get_update

lemma finalized: "same_launch run (finalize_succeeded_run de schema res run)"
  "status (finalize_succeeded_run de schema res run) = SUCCEEDED"
  by (simp_all add: outcome_defs split: option.split)

lemma failed_result_outcome: "same_launch run (failed_result res run)" "status (failed_result res run) = FAILED" "\<exists>y. error (failed_result res run) = Some y"
  by (simp_all add: outcome_defs split: option.split)

lemma same_launch_trans: "same_launch a b \<Longrightarrow> same_launch b c \<Longrightarrow> same_launch a c"
  by (simp add: same_launch_def)

lemma linked_same: "same_launch run (run\<lparr>thread_id := t, trace_id := u\<rparr>)" "same_launch run (run\<lparr>thread_id := t, output_text := u\<rparr>)"
  by (simp_all add: same_launch_def)

lemma turn_outcome:
  "same_launch run (apply_turn_outcome de schema res run)" "status (apply_turn_outcome de schema res run) = result_status res"
  "status (apply_turn_outcome de schema res run) = FAILED \<Longrightarrow> error (apply_turn_outcome de schema res run) \<noteq> None"
  using same_launch_trans [OF linked_same(1) finalized(1)] same_launch_trans [OF linked_same(1) failed_result_outcome(1)]
  by (auto simp: apply_turn_outcome_def Let_def finalized failed_result_outcome result_status_def)

lemma loop_outcome:
  "same_launch run (apply_loop_outcome de schema task plan lr run)"
  "status (apply_loop_outcome de schema task plan lr run) = drive_status (Loop (Returned lr))"
  "status (apply_loop_outcome de schema task plan lr run) = FAILED \<Longrightarrow> error (apply_loop_outcome de schema task plan lr run) \<noteq> None"
proof -
  note f = same_launch_trans [OF linked_same(1) finalized(1)] same_launch_trans [OF linked_same(1) failed_result_outcome(1)]
  show "same_launch run (apply_loop_outcome de schema task plan lr run)"
    by (cases "lr_stopped_reason lr = ''awaiting_approval''"; cases "rr_succeeded (lr_final lr)")
      (simp_all add: apply_loop_outcome_def Let_def f, simp_all add: same_launch_def json_get_update)
  show "status (apply_loop_outcome de schema task plan lr run) = drive_status (Loop (Returned lr))"
    by (simp add: apply_loop_outcome_def Let_def finalized failed_result_outcome result_status_def)
  show "status (apply_loop_outcome de schema task plan lr run) = FAILED \<Longrightarrow> error (apply_loop_outcome de schema task plan lr run) \<noteq> None"
    by (auto simp: apply_loop_outcome_def Let_def finalized failed_result_outcome split: if_splits)
qed

lemma failed_with_outcome: "same_launch run (failed_with m run)" "status (failed_with m run) = FAILED" "error (failed_with m run) \<noteq> None"
  by (simp_all add: outcome_defs)

lemma drive_result_outcome:
  assumes "\<not> waiting e" and "e \<noteq> BuildCancelled"
  shows "same_launch run (drive_result de dt e run) \<and> status (drive_result de dt e run) = drive_status e
    \<and> (status (drive_result de dt e run) = FAILED \<longrightarrow> error (drive_result de dt e run) \<noteq> None)"
proof (cases e)
  case (Turn c)
  with assms show ?thesis
    by (cases c) (auto simp: drive_result_def settle_def waiting_def turn_outcome failed_with_outcome)
next
  case (Loop c)
  with assms show ?thesis
    by (cases c) (auto simp: drive_result_def settle_def waiting_def loop_outcome failed_with_outcome simp del: drive_status.simps(2))
qed (use assms in \<open>auto simp: drive_result_def failed_with_outcome\<close>)

lemma execute_on_runtime_run:
  assumes "\<not> waiting e" and "e \<noteq> BuildCancelled" and "r = drive_result de dt e (run\<lparr>status := RUNNING, updated_at := t0\<rparr>)"
  shows "get_run (run_id run) (execute_on_runtime de between t0 t1 dt e run st) = Some (r\<lparr>updated_at := t1\<rparr>)"
    and "i \<noteq> run_id run \<Longrightarrow> get_run i (execute_on_runtime de between t0 t1 dt e run st) = get_run i (between (snd (save_run t0 (run\<lparr>status := RUNNING\<rparr>) st)))"
proof -
  have "run_id r = run_id run" using drive_result_outcome [OF assms(1,2)] by (simp add: assms(3) same_launch_def)
  moreover have "execute_on_runtime de between t0 t1 dt e run st = snd (save_run t1 r (between (snd (save_run t0 (run\<lparr>status := RUNNING\<rparr>) st))))"
    using assms(2) by (simp add: execute_on_runtime_def save_run_def Let_def assms(3))
  ultimately show "get_run (run_id run) (execute_on_runtime de between t0 t1 dt e run st) = Some (r\<lparr>updated_at := t1\<rparr>)"
    and "i \<noteq> run_id run \<Longrightarrow> get_run i (execute_on_runtime de between t0 t1 dt e run st) = get_run i (between (snd (save_run t0 (run\<lparr>status := RUNNING\<rparr>) st)))"
    by (simp_all add: get_run_def)
qed


text \<open>
  A shutdown that cancels a task waiting for its semaphore, or building its runtime, records nothing:
  the run stays QUEUED, respectively RUNNING.
\<close>

lemma cancelled_early_is_not_recorded:
  "waiting e \<Longrightarrow> ap_runs (execute_run de between t0 t1 dt e rid ws app) = ap_runs app"
  "get_run rid (ap_runs app) = Some run \<Longrightarrow> run_id run = rid \<Longrightarrow>
     get_run rid (ap_runs (execute_run de (\<lambda>st. st) t0 t1 dt BuildCancelled rid ws app)) = Some (run\<lparr>status := RUNNING, updated_at := t0\<rparr>)"
  by (auto simp: execute_run_def Let_def execute_on_runtime_def save_run_def put_run_def get_run_def waiting_def split: option.split)

section \<open>A dispatched run is never stranded\<close>

text \<open>The recorded code of an inference failure is a text.\<close>

definition text_code :: "run_record \<Rightarrow> bool" where
  "text_code run \<longleftrightarrow> (\<forall>v. map_of (metadata run) ''error_code'' = Some v \<longrightarrow> (\<exists>c. v = JStr c))"

lemma finalized_code: "text_code run \<Longrightarrow> text_code (finalize_succeeded_run de schema res run)"
  by (auto simp: finalize_succeeded_run_def Let_def text_code_def update_conv' split: option.splits)

lemma failed_result_code: "text_code run \<Longrightarrow> text_code (failed_result res run)"
  by (auto simp: failed_result_def text_code_def update_conv' split: option.splits)

lemma failed_with_code: "text_code run \<Longrightarrow> text_code (failed_with m run)"
  by (simp add: failed_with_def text_code_def)

lemma drive_result_code:
  assumes "text_code run"
  shows "text_code (drive_result de dt e run)"
proof -
  have l: "text_code (run\<lparr>thread_id := t, trace_id := u\<rparr>)" for t u using assms by (simp add: text_code_def)
  have "text_code (apply_turn_outcome de schema res run)" for schema res
    using l by (simp add: apply_turn_outcome_def Let_def finalized_code failed_result_code)
  moreover have "text_code (apply_loop_outcome de schema task plan lr run)" for schema task plan lr
  proof (cases "lr_stopped_reason lr = ''awaiting_approval''")
    case True
    with assms show ?thesis by (simp add: apply_loop_outcome_def Let_def text_code_def update_conv')
  next
    case False
    with l show ?thesis by (simp add: apply_loop_outcome_def Let_def finalized_code failed_result_code)
  qed
  ultimately show ?thesis
    using assms by (auto simp: drive_result_def settle_def failed_with_code split: drive_end.split call_end.split)
qed

lemma text_code_classified:
  assumes "text_code run"
  shows "\<exists>b. recorded_failure run = Inr b"
  using assms by (cases "map_of (metadata run) ''error_code''") (auto simp: text_code_def recorded_failure_def is_transient_run_error_def)


section \<open>A fresh process executes what was submitted\<close>

text \<open>
  C10: What a dispatcher executes is what was submitted: a run created in dispatch mode and claimed later by
  any process over the store is driven with exactly the sanitized launch input of the request, as long
  as its models and \<open>json.loads\<close> read back what they wrote.
\<close>

theorem claimed_run_executes_the_submission:
  assumes "run_store_wf (ap_runs app)" and "get_run (rq_run_id rq) (ap_runs app) = None" and "le_dispatch env"
    and "sanitized_input env (rq_operator rq) (rq_input rq) = Inr inp" and "create_run env now rq app = (Inr r, app1)"
    and "run_id r = rq_run_id rq"
    and "models_load (le_models env) inp"
    and "de_loads de (json_text (JObj (run_input_doc (le_models env) inp))) = Some (sorted_json (JObj (run_input_doc (le_models env) inp)))"
    and "claim_next_queued_run owner lease lanes t fairness wsconc (ap_runs app1) = (Some c, st2)" and "run_id c = rq_run_id rq"
  shows "dispatch_claimed_run de (le_models env) cw between t0 t1 t2 c (app1\<lparr>ap_runs := st2\<rparr>)
    = drive_claimed de cw between t0 t1 t2 inp c (app1\<lparr>ap_runs := st2\<rparr>)"
proof -
  let ?run = "launch_record env now rq [] None inp"
  have "launch_ends now ?run app (create_run env now rq app)" and none: "hitl_refusal env (rq_agent rq) (rq_input rq) = None"
    using create_run_cases [OF assms(1,2), of env now] assms(4,5) by (metis Inr_not_Inl Pair_inject sum.inject(2))+
  note ends = this
  have "existing_for_key ?run (ap_runs app) = None"
  proof (rule ccontr)
    assume "existing_for_key ?run (ap_runs app) \<noteq> None"
    then obtain prior where p: "existing_for_key ?run (ap_runs app) = Some prior" by blast
    with ends(1) have "r = prior" by (simp add: assms(5) launch_ends_def Let_def)
    with existing_is_other [OF assms(1) _ p] assms(2,6) show False by simp
  qed
  with ends(1) have st: "ap_runs app1 = snd (save_run now ?run (ap_runs app))" by (auto simp: assms(5) launch_ends_def Let_def)
  have "run_store_wf (ap_runs app1)" using create_run_wf [OF assms(1,2), of env now] assms(5) by simp
  then obtain r0 where r0: "map_of (rs_runs (ap_runs app1)) (run_id r0) = Some r0" "c = claim_stamp t owner lease r0"
    using assms(9) by (cases rule: claim_cases [of _ owner lease lanes t fairness wsconc]) auto
  then have c: "c = claim_stamp t owner lease (?run\<lparr>updated_at := now\<rparr>)"
    using assms(10) by (simp add: st claim_stamp_def)
  let ?blob = "json_text (JObj (run_input_doc (le_models env) inp))"
  have blob: "input_blob c = Some ?blob" "?blob \<noteq> []"
    using assms(3) by (simp_all add: c claim_stamp_def launch_record_def stamp_queue_fields_def encode_run_input_def Let_def new_run_def)
  have "\<not> json_truthy (json_get ''orchestration'' JNull (metadata c))"
    using assms(3) by (simp add: c claim_stamp_def launch_record_def stamp_queue_fields_def launch_metadata_def json_get_def Let_def split: option.split)
  moreover obtain doc where doc: "sorted_json (JObj (run_input_doc (le_models env) inp)) = JObj doc" by simp
  moreover have "decode_run_input (le_models env) (de_loads de) None (run_id c) ?blob = Inr inp"
    using decoded_doc [OF assms(7) doc] assms(8) doc by (simp add: decode_run_input_def del: json_text.simps)
  ultimately show ?thesis using blob
    by (cases ?blob) (simp_all add: dispatch_claimed_run_def or_none_def del: json_text.simps)
qed

text \<open>
  The structured code of an earlier attempt stays in the metadata and decides over a later failure that
  has none: here a timeout is taken for the invalid request of the attempt before.
\<close>

lemma stale_error_code_decides:
  "recorded_failure ((new_run ''r'' ''w'' ''u'' 0)\<lparr>metadata := [(''error_code'', JStr ''INVALID_REQUEST'')]\<rparr>) = Inr False \<and>
   recorded_failure (drive_result de dt (Turn TimedOut) ((new_run ''r'' ''w'' ''u'' 0)\<lparr>metadata := [(''error_code'', JStr ''INVALID_REQUEST'')]\<rparr>)) = Inr False \<and>
   recorded_failure (drive_result (de\<lparr>de_timeout_text := ''60''\<rparr>) dt (Turn TimedOut) (new_run ''r'' ''w'' ''u'' 0)) = Inr True"
  by (simp add: recorded_failure_def is_transient_run_error_def drive_result_def settle_def failed_with_def new_run_def
      RETRYABLE_ERROR_CODES_def TRANSIENT_ERROR_MARKERS_def) (code_simp)

text \<open>
  A dispatched orchestration gives back a slot of the process that it never took: whoever holds one in
  the same workspace, a fan-out for instance, is counted out.
\<close>

lemma dispatched_orchestration_frees_a_foreign_slot:
  assumes "0 < wq_max_outstanding (ap_quota app)" and "0 < outstanding (workspace_id run) (ap_quota app)"
    and "member_ids (metadata run) \<noteq> []" and "resolve_members rs (workspace_id run) (member_ids (metadata run)) = Inr ms"
  shows "outstanding (workspace_id run) (ap_quota (snd (dispatch_orchestration_run de (Some rs) between t0 t1 c run app)))
    = outstanding (workspace_id run) (ap_quota app) - 1"
proof -
  have q: "ap_quota (snd (dispatch_orchestration_run de (Some rs) between t0 t1 c run app))
      = release (workspace_id run) (snd (semaphore (workspace_id run) (ap_quota app)))"
    using assms(3,4) by (simp add: dispatch_orchestration_run_def execute_orchestration_run_def Let_def save_run_def split: option.split)
  show ?thesis
    using assms(1,2) by (auto simp: q release_def outstanding_def semaphore_def Let_def delete_conv' split: option.splits)
qed

section \<open>Examples\<close>

definition demo_drive_env :: drive_env where
  "demo_drive_env = \<lparr>de_load_checkpoint = (\<lambda>c. None), de_has_checkpoints = True, de_timeout_text = ''60'',
     de_loads = demo_loads, de_schema_error = (\<lambda>v s. None)\<rparr>"

definition demo_drive_task :: drive_task where
  "demo_drive_task = \<lparr>dt_schema = None, dt_task = ''task'', dt_plan = False\<rparr>"

definition demo_running :: "(string, int, bool, string) app" where
  "demo_running = (demo_app 2)\<lparr>ap_runs := \<lparr>rs_runs = [(''r1'', new_run ''r1'' ''acme'' ''u'' 0)], rs_by_idempotency = []\<rparr>\<rparr>"


definition demo_world :: "drive_end \<Rightarrow> (string, int, bool, string) claimed_world" where
  "demo_world e = \<lparr>cw_drive = (\<lambda>inp. (demo_drive_task, e)), cw_orchestration = TimedOut, cw_resolver = None\<rparr>"


definition demo_submitted :: "(string, int, bool, string) run_input" where
  "demo_submitted = demo_input\<lparr>ri_hitl := False\<rparr>"

definition demo_reader :: drive_env where
  "demo_reader = demo_drive_env\<lparr>de_loads := (\<lambda>s. if s = json_text (JObj (run_input_doc demo_models demo_submitted))
     then Some (sorted_json (JObj (run_input_doc demo_models demo_submitted))) else None)\<rparr>"

theorem claimed_run_executes_the_submission_witness:
  "(case create_run (demo_launch_env True) 5 (demo_request ''r1'') (demo_app 0) of
      (Inr r, app1) \<Rightarrow>
        (case claim_next_queued_run ''w'' 30 None 10 False 0 (ap_runs app1) of
           (Some c, st2) \<Rightarrow> dispatch_claimed_run demo_reader demo_models (demo_world (Turn TimedOut)) id 12 13 14 c (app1\<lparr>ap_runs := st2\<rparr>)
               = drive_claimed demo_reader (demo_world (Turn TimedOut)) id 12 13 14 demo_submitted c (app1\<lparr>ap_runs := st2\<rparr>)
         | _ \<Rightarrow> False)
    | _ \<Rightarrow> False)"
proof -
  let ?env = "demo_launch_env True"
  let ?run = "launch_record ?env 5 (demo_request ''r1'') [] None demo_submitted"
  let ?st = "snd (save_run 5 ?run empty_run_store)"
  have s: "sanitized_input ?env (rq_operator (demo_request ''r1'')) (rq_input (demo_request ''r1'')) = Inr demo_submitted"
    by (simp add: sanitized_input_def demo_request_def demo_submitted_def demo_input_def)
  have c: "create_run ?env 5 (demo_request ''r1'') (demo_app 0) = (Inr (?run\<lparr>updated_at := 5\<rparr>), (demo_app 0)\<lparr>ap_runs := ?st\<rparr>)"
    using s by (simp add: create_run_def hitl_refusal_def insert_and_launch_def save_run_if_absent_eq existing_for_key_def launch_or_enqueue_def
        admit_workspace_run_durable_def demo_app_def workspace_quota_init_def empty_run_store_def Let_def demo_request_def demo_input_def)
      (simp add: demo_launch_env_def)
  have q: "status (?run\<lparr>updated_at := 5\<rparr>) = QUEUED" "next_attempt_at (?run\<lparr>updated_at := 5\<rparr>) = None"
    by (simp_all add: launch_record_def stamp_queue_fields_def new_run_def Let_def)
  have rs: "rs_runs ?st = [(''r1'', ?run\<lparr>updated_at := 5\<rparr>)]" by (simp add: empty_run_store_def demo_request_def)
  have cands: "claim_candidates 10 None False 0 ?st = [(''r1'', ?run\<lparr>updated_at := 5\<rparr>)]"
    unfolding claim_candidates_def Let_def rs using q by (simp add: is_ready_def lane_matches_def)
  have "\<exists>st2. claim_next_queued_run ''w'' 30 None 10 False 0 ?st = (Some (claim_stamp 10 ''w'' 30 (?run\<lparr>updated_at := 5\<rparr>)), st2)"
    by (simp add: claim_next_queued_run_def cands Let_def del: save_run_simps)
  then obtain st2 where cl: "claim_next_queued_run ''w'' 30 None 10 False 0 (ap_runs ((demo_app 0)\<lparr>ap_runs := ?st\<rparr>))
      = (Some (claim_stamp 10 ''w'' 30 (?run\<lparr>updated_at := 5\<rparr>)), st2)" by auto
  have m: "models_load (le_models ?env) demo_submitted"
    by (simp add: demo_launch_env_def models_load_def demo_models_def demo_submitted_def demo_input_def opt_loads_def)
  have ld: "de_loads demo_reader (json_text (JObj (run_input_doc (le_models ?env) demo_submitted)))
      = Some (sorted_json (JObj (run_input_doc (le_models ?env) demo_submitted)))"
    by (simp add: demo_reader_def demo_launch_env_def del: json_text.simps sorted_json.simps)
  have "le_dispatch ?env" "le_models ?env = demo_models" by (simp_all add: demo_launch_env_def)
  with claimed_run_executes_the_submission [OF demo_app_wf(1) demo_app_wf(2) _ s c _ m ld cl, of "demo_world (Turn TimedOut)" id 12 13 14]
  show ?thesis using c cl by (simp add: claim_stamp_def)
qed

end
