(* ===== verification/RunResume.thy ===== *)
theory RunResume
  imports RunDrive RunQueue
begin

text \<open>
  Decisions on paused runs and recovery after a crash: \<open>resume_run\<close> and its background tasks of
  himmy/application/run_drive.py, himmy/application/run_recovery.py. \<open>between\<close> is what others do between
  the read of the run and the claim, or while the resumed runtime works. A restart forgets the
  background tasks and keeps the store.
\<close>

section \<open>Taking the decision\<close>

datatype resume_error = RunNotApprovable string string | NoCheckpointStore

definition status_value :: "run_status \<Rightarrow> string" where
  "status_value s = (case s of QUEUED \<Rightarrow> ''QUEUED'' | RUNNING \<Rightarrow> ''RUNNING'' | AWAITING_APPROVAL \<Rightarrow> ''AWAITING_APPROVAL''
     | RESOLVING \<Rightarrow> ''RESOLVING'' | SUCCEEDED \<Rightarrow> ''SUCCEEDED'' | FAILED \<Rightarrow> ''FAILED'' | PARKED \<Rightarrow> ''PARKED'')"

record resume_env =
  rv_has_checkpoints :: bool
  rv_resolver :: "(string \<Rightarrow> string \<Rightarrow> agent_def_record option) option"

definition get_run_scoped :: "string \<Rightarrow> string option \<Rightarrow> run_store \<Rightarrow> run_record option" where
  "get_run_scoped rid ws st =
     (case get_run rid st of
        None \<Rightarrow> None
      | Some run \<Rightarrow> if ws \<noteq> None \<and> ws \<noteq> Some (workspace_id run) then None else Some run)"

definition meta_text :: "string \<Rightarrow> run_record \<Rightarrow> string" where
  "meta_text k run = (case json_get k JNull (metadata run) of JStr s \<Rightarrow> s | _ \<Rightarrow> [])"

definition is_orchestration :: "run_record \<Rightarrow> bool" where
  "is_orchestration run \<longleftrightarrow> map_of (metadata run) ''hitl_kind'' = Some (JStr ''orchestration'')"

text \<open>The check before the claim: the agent to resume with, None for an orchestration.\<close>

definition resumable_agent :: "resume_env \<Rightarrow> run_record \<Rightarrow> resume_error + agent_def_record option" where
  "resumable_agent rv run =
     (if is_orchestration run then Inr None
      else if meta_text ''checkpoint_id'' run = [] then Inl (RunNotApprovable (run_id run) ''no checkpoint'')
      else case rv_resolver rv of
             None \<Rightarrow> Inl (RunNotApprovable (run_id run) ''no resolvable agent'')
           | Some resolver \<Rightarrow>
               if meta_text ''agent_id'' run = [] then Inl (RunNotApprovable (run_id run) ''no resolvable agent'')
               else (case resolver (meta_text ''agent_id'' run) (workspace_id run) of
                       None \<Rightarrow> Inl (RunNotApprovable (run_id run) ''agent removed'')
                     | Some d \<Rightarrow> Inr (Some d)))"

definition decision_text :: "bool \<Rightarrow> string" where
  "decision_text approved = (if approved then ''approved'' else ''rejected'')"

definition record_decision :: "bool \<Rightarrow> string \<Rightarrow> run_record \<Rightarrow> run_record" where
  "record_decision approved actor run =
     run\<lparr>status := RESOLVING,
         metadata := AList.update ''resume_actor'' (JStr actor)
           (AList.update ''resume_decision'' (JStr (decision_text approved)) (metadata run))\<rparr>"

text \<open>The run goes on as RUNNING and its task starts.\<close>

definition start_resume :: "instant \<Rightarrow> ('p, 't, 'l, 's) job \<Rightarrow> run_record \<Rightarrow> ('p, 't, 'l, 's) app
    \<Rightarrow> (resume_error + run_record) \<times> ('p, 't, 'l, 's) app" where
  "start_resume now job run app =
     (let (run', st) = save_run now (run\<lparr>status := RUNNING\<rparr>) (ap_runs app)
      in (Inr run', app\<lparr>ap_runs := st, ap_tasks := job # ap_tasks app\<rparr>))"

definition resume_orchestration :: "resume_env \<Rightarrow> instant \<Rightarrow> bool \<Rightarrow> string \<Rightarrow> run_record \<Rightarrow> ('p, 't, 'l, 's) app
    \<Rightarrow> (resume_error + run_record) \<times> ('p, 't, 'l, 's) app" where
  "resume_orchestration rv now approved actor run app =
     (if meta_text ''orchestration_checkpoint_id'' run = [] then
        (Inl (RunNotApprovable (run_id run) ''no orchestration checkpoint''), app)
      else if member_ids (metadata run) = [] \<or> rv_resolver rv = None then
        (Inl (RunNotApprovable (run_id run) ''no resolvable members''), app)
      else start_resume now (ResumeOrchestration (run_id run) (workspace_id run) approved actor
             (meta_text ''orchestration_checkpoint_id'' run) (member_ids (metadata run))) run app)"

definition resume_claimed :: "resume_env \<Rightarrow> instant \<Rightarrow> bool \<Rightarrow> string \<Rightarrow> agent_def_record option \<Rightarrow> run_record \<Rightarrow> ('p, 't, 'l, 's) app
    \<Rightarrow> (resume_error + run_record) \<times> ('p, 't, 'l, 's) app" where
  "resume_claimed rv now approved actor agent run app =
     (let (run1, st1) = save_run now (record_decision approved actor run) (ap_runs app);
          app1 = app\<lparr>ap_runs := st1\<rparr>
      in case agent of
           None \<Rightarrow> resume_orchestration rv now approved actor run1 app1
         | Some d \<Rightarrow> start_resume now (ResumeRun (run_id run) (workspace_id run) (meta_text ''checkpoint_id'' run) approved actor d) run1 app1)"

definition resume_run :: "resume_env \<Rightarrow> instant \<Rightarrow> (('p, 't, 'l, 's) app \<Rightarrow> ('p, 't, 'l, 's) app) \<Rightarrow> string \<Rightarrow> bool \<Rightarrow> string option
    \<Rightarrow> string \<Rightarrow> ('p, 't, 'l, 's) app \<Rightarrow> (resume_error + run_record) \<times> ('p, 't, 'l, 's) app" where
  "resume_run rv now between rid approved ws actor app =
     (case get_run_scoped rid ws (ap_runs app) of
        None \<Rightarrow> (Inl (RunNotApprovable rid ''unknown''), app)
      | Some run \<Rightarrow>
          if status run \<noteq> AWAITING_APPROVAL then (Inl (RunNotApprovable rid (status_value (status run))), app)
          else if \<not> rv_has_checkpoints rv then (Inl NoCheckpointStore, app)
          else case resumable_agent rv run of
                 Inl e \<Rightarrow> (Inl e, app)
               | Inr agent \<Rightarrow>
                   (let app1 = between app in
                    case claim_run_for_resume now rid (workspace_id run) (ap_runs app1) of
                      (False, st) \<Rightarrow> (Inl (RunNotApprovable rid (status_value RESOLVING)), app1\<lparr>ap_runs := st\<rparr>)
                    | (True, st) \<Rightarrow> resume_claimed rv now approved actor agent run (app1\<lparr>ap_runs := st\<rparr>)))"

text \<open>What a reviewer sees before deciding: the pending calls with their secrets masked.\<close>

definition pending_approvals :: "drive_env \<Rightarrow> string \<Rightarrow> string \<Rightarrow> string option \<Rightarrow> run_store \<Rightarrow> (string \<times> json_dict) list option" where
  "pending_approvals de placeholder rid ws st =
     (case get_run_scoped rid ws st of
        None \<Rightarrow> None
      | Some run \<Rightarrow>
          if \<not> de_has_checkpoints de \<or> meta_text ''checkpoint_id'' run = [] then Some []
          else case de_load_checkpoint de (meta_text ''checkpoint_id'' run) of
                 None \<Rightarrow> Some []
               | Some cp \<Rightarrow> Some (map (\<lambda>p. (pc_name p, redact_tool_args placeholder (pc_args p))) (cp_pending cp)))"

section \<open>The background tasks\<close>

datatype resume_end =
    ResumeBuildFailed string
  | ResumeBuildCancelled
  | Resumed "loop_result call_end"

text \<open>The record a resume writes at its end; None leaves the run as it is.\<close>

definition resume_timeout :: "drive_env \<Rightarrow> string" where
  "resume_timeout de = ''resume exceeded '' @ de_timeout_text de @ ''s timeout''"

definition resume_result :: "drive_env \<Rightarrow> string \<Rightarrow> resume_end \<Rightarrow> run_record \<Rightarrow> run_record option" where
  "resume_result de fresh_task e run =
     (case e of
        ResumeBuildFailed m \<Rightarrow> Some (failed_with (''resume runtime build failed: '' @ m) run)
      | ResumeBuildCancelled \<Rightarrow> None
      | Resumed c \<Rightarrow>
          (case c of
             Returned lr \<Rightarrow> Some (apply_loop_outcome de None (text_or (task_id run) fresh_task) False lr run)
           | TimedOut \<Rightarrow> Some (failed_with (resume_timeout de) run)
           | Cancelled \<Rightarrow> Some (failed_with ''resume cancelled'' run)
           | CancelledWaiting \<Rightarrow> None
           | HimmyFailure m \<Rightarrow> None
           | OtherFailure m \<Rightarrow> Some (failed_with m run)))"

definition resume_in_background :: "drive_env \<Rightarrow> (run_store \<Rightarrow> run_store) \<Rightarrow> instant \<Rightarrow> string \<Rightarrow> resume_end \<Rightarrow> string \<Rightarrow> string
    \<Rightarrow> ('p, 't, 'l, 's) app \<Rightarrow> ('p, 't, 'l, 's) app" where
  "resume_in_background de between now fresh_task e rid ws app =
     (let app1 = app\<lparr>ap_quota := snd (semaphore ws (ap_quota app))\<rparr> in
      if e = Resumed CancelledWaiting then app1
      else case get_run rid (ap_runs app1) of
             None \<Rightarrow> app1
           | Some run \<Rightarrow>
               (let st = between (ap_runs app1) in
                case resume_result de fresh_task e run of
                  None \<Rightarrow> app1\<lparr>ap_runs := st\<rparr>
                | Some run' \<Rightarrow> app1\<lparr>ap_runs := snd (save_run now run' st)\<rparr>))"

text \<open>A lost member claim is a HimmyError with this text.\<close>

definition is_resume_claim_loss :: "string \<Rightarrow> bool" where
  "is_resume_claim_loss m \<longleftrightarrow> py_in ''already resolved'' m"

definition orchestration_resume_result :: "drive_env \<Rightarrow> orchestration_outcome call_end \<Rightarrow> run_record \<Rightarrow> run_record option" where
  "orchestration_resume_result de c run =
     (case c of
        Returned oo \<Rightarrow> Some (apply_orchestration_outcome oo run)
      | TimedOut \<Rightarrow> Some (failed_with (resume_timeout de) run)
      | Cancelled \<Rightarrow> Some (failed_with ''resume cancelled'' run)
      | CancelledWaiting \<Rightarrow> None
      | HimmyFailure m \<Rightarrow> if is_resume_claim_loss m then None else Some (failed_with m run)
      | OtherFailure m \<Rightarrow> Some (failed_with m run))"

definition resume_orchestration_in_background :: "drive_env \<Rightarrow> resume_env \<Rightarrow> (run_store \<Rightarrow> run_store) \<Rightarrow> instant
    \<Rightarrow> orchestration_outcome call_end \<Rightarrow> string \<Rightarrow> string \<Rightarrow> string list \<Rightarrow> ('p, 't, 'l, 's) app \<Rightarrow> ('p, 't, 'l, 's) app" where
  "resume_orchestration_in_background de rv between now c rid ws ids app =
     (let app1 = app\<lparr>ap_quota := snd (semaphore ws (ap_quota app))\<rparr> in
      if c = CancelledWaiting then app1
      else case get_run rid (ap_runs app1) of
             None \<Rightarrow> app1
           | Some run \<Rightarrow>
               (case resolve_members (case rv_resolver rv of None \<Rightarrow> \<lambda>_ _. None | Some r \<Rightarrow> r) ws ids of
                  Inl a \<Rightarrow> app1\<lparr>ap_runs := snd (save_run now (failed_with (''resume failed: member agent '' @ a @ '' removed'') run) (ap_runs app1))\<rparr>
                | Inr members \<Rightarrow>
                    (let st = between (ap_runs app1) in
                     case orchestration_resume_result de c run of
                       None \<Rightarrow> app1\<lparr>ap_runs := st\<rparr>
                     | Some run' \<Rightarrow> app1\<lparr>ap_runs := snd (save_run now run' st)\<rparr>)))"

section \<open>Recovery at startup\<close>

definition ABANDONED :: string where
  "ABANDONED = ''run abandoned (process restart); swept to terminal state''"

definition abandoned :: "instant \<Rightarrow> duration \<Rightarrow> run_record \<Rightarrow> bool" where
  "abandoned now ttl run \<longleftrightarrow> status run \<in> {QUEUED, RUNNING} \<and> \<not> (0 < ttl \<and> now - updated_at run < ttl)"

definition sweep_stuck_runs :: "bool \<Rightarrow> instant \<Rightarrow> duration \<Rightarrow> run_store \<Rightarrow> string list \<times> run_store" where
  "sweep_stuck_runs dispatch now ttl st =
     (if dispatch then requeue_expired_leases now None st
      else (let victims = filter (abandoned now ttl) (list_runs None None None st)
            in (map run_id victims, fold (\<lambda>r s. snd (save_run now (failed_with ABANDONED r) s)) victims st)))"

definition recorded_decision :: "run_record \<Rightarrow> bool option" where
  "recorded_decision run =
     (case map_of (metadata run) ''resume_decision'' of
        Some (JStr d) \<Rightarrow> if d = ''approved'' then Some True else if d = ''rejected'' then Some False else None
      | _ \<Rightarrow> None)"

text \<open>Only a refusal of the decision is caught; a missing checkpoint store ends the recovery.\<close>

fun reconcile_runs :: "resume_env \<Rightarrow> instant \<Rightarrow> run_record list \<Rightarrow> ('p, 't, 'l, 's) app
    \<Rightarrow> (resume_error + string list) \<times> ('p, 't, 'l, 's) app" where
  "reconcile_runs rv now [] app = (Inr [], app)"
| "reconcile_runs rv now (run # runs) app =
     (case recorded_decision run of
        None \<Rightarrow> reconcile_runs rv now runs app
      | Some approved \<Rightarrow>
          (let st = snd (save_run now (run\<lparr>status := AWAITING_APPROVAL\<rparr>) (ap_runs app));
               actor = (if meta_text ''resume_actor'' run = [] then ''recovery'' else meta_text ''resume_actor'' run)
           in case resume_run rv now id (run_id run) approved (Some (workspace_id run)) actor (app\<lparr>ap_runs := st\<rparr>) of
                (Inl NoCheckpointStore, app') \<Rightarrow> (Inl NoCheckpointStore, app')
              | (Inl _, app') \<Rightarrow> reconcile_runs rv now runs app'
              | (Inr _, app') \<Rightarrow> map_prod (map_sum id ((#) (run_id run))) id (reconcile_runs rv now runs app')))"

definition reconcile_resolving_runs :: "resume_env \<Rightarrow> instant \<Rightarrow> ('p, 't, 'l, 's) app
    \<Rightarrow> (resume_error + string list) \<times> ('p, 't, 'l, 's) app" where
  "reconcile_resolving_runs rv now app = reconcile_runs rv now (list_runs None None (Some RESOLVING) (ap_runs app)) app"

text \<open>A new process over the same store.\<close>

definition restarted :: "('p, 't, 'l, 's) app \<Rightarrow> ('p, 't, 'l, 's) app" where
  "restarted app = app\<lparr>ap_quota := workspace_quota_init (wq_concurrency (ap_quota app)) (wq_max_outstanding (ap_quota app)), ap_tasks := []\<rparr>"

section \<open>One decision is taken\<close>

lemma decision_recorded [simp]:
  "recorded_decision (record_decision a actor run) = Some a" "status (record_decision a actor run) = RESOLVING"
  "run_id (record_decision a actor run) = run_id run" "workspace_id (record_decision a actor run) = workspace_id run"
  "recorded_decision (r\<lparr>status := s\<rparr>) = recorded_decision r" "recorded_decision (r\<lparr>updated_at := t\<rparr>) = recorded_decision r"
  by (simp_all add: recorded_decision_def record_decision_def decision_text_def update_conv')

lemma start_resume_simps:
  "fst (start_resume now job run app) = Inr (run\<lparr>status := RUNNING, updated_at := now\<rparr>)"
  "ap_tasks (snd (start_resume now job run app)) = job # ap_tasks app" "ap_quota (snd (start_resume now job run app)) = ap_quota app"
  "get_run i (ap_runs (snd (start_resume now job run app))) = (if i = run_id run then Some (run\<lparr>status := RUNNING, updated_at := now\<rparr>) else get_run i (ap_runs app))"
  by (simp_all add: start_resume_def save_run_def Let_def put_run_def get_run_def)

text \<open>The end of a claimed decision: the resume starts, or an orchestration cannot.\<close>

lemma resume_claimed_ends:
  assumes "resume_claimed rv now a actor agent run app = (res, app')"
  shows "ap_quota app' = ap_quota app \<and> (\<forall>i. i \<noteq> run_id run \<longrightarrow> get_run i (ap_runs app') = get_run i (ap_runs app))
    \<and> (case res of
         Inr r \<Rightarrow> get_run (run_id run) (ap_runs app') = Some r \<and> status r = RUNNING \<and> recorded_decision r = Some a
           \<and> (\<exists>job. ap_tasks app' = job # ap_tasks app \<and> job_run job = run_id run \<and> \<not> takes_slot job
               \<and> (\<forall>d. agent = Some d \<longrightarrow> job = ResumeRun (run_id run) (workspace_id run) (meta_text ''checkpoint_id'' run) a actor d))
       | Inl e \<Rightarrow> agent = None \<and> ap_tasks app' = ap_tasks app
           \<and> (\<exists>r. get_run (run_id run) (ap_runs app') = Some r \<and> status r = RESOLVING \<and> recorded_decision r = Some a))"
proof -
  let ?r1 = "(record_decision a actor run)\<lparr>updated_at := now\<rparr>"
  let ?app1 = "app\<lparr>ap_runs := snd (save_run now (record_decision a actor run) (ap_runs app))\<rparr>"
  have eq: "resume_claimed rv now a actor agent run app = (case agent of
      None \<Rightarrow> resume_orchestration rv now a actor ?r1 ?app1
    | Some d \<Rightarrow> start_resume now (ResumeRun (run_id run) (workspace_id run) (meta_text ''checkpoint_id'' run) a actor d) ?r1 ?app1)"
    by (simp add: resume_claimed_def save_run_def Let_def split: option.split)
  have runs1: "get_run i (ap_runs ?app1) = (if i = run_id run then Some ?r1 else get_run i (ap_runs app))" for i
    by (simp add: get_run_def)
  have started: ?thesis if "resume_claimed rv now a actor agent run app = start_resume now job ?r1 ?app1" "job_run job = run_id run" "\<not> takes_slot job"
      "\<forall>d. agent = Some d \<longrightarrow> job = ResumeRun (run_id run) (workspace_id run) (meta_text ''checkpoint_id'' run) a actor d" for job
  proof -
    have "start_resume now job ?r1 ?app1 = (res, app')" using that(1) assms by simp
    then have "app' = snd (start_resume now job ?r1 ?app1)" "res = fst (start_resume now job ?r1 ?app1)" by simp_all
    with that(2-4) runs1 show ?thesis by (simp add: start_resume_simps)
  qed
  show ?thesis
  proof (cases agent)
    case (Some d)
    then show ?thesis by (intro started [of "ResumeRun (run_id run) (workspace_id run) (meta_text ''checkpoint_id'' run) a actor d"]) (simp_all add: eq [unfolded Some] Some)
  next
    case None
    let ?job = "ResumeOrchestration (run_id run) (workspace_id run) a actor (meta_text ''orchestration_checkpoint_id'' ?r1) (member_ids (metadata ?r1))"
    have "resume_orchestration rv now a actor ?r1 ?app1 = start_resume now ?job ?r1 ?app1 \<or> (\<exists>e. resume_orchestration rv now a actor ?r1 ?app1 = (Inl e, ?app1))"
      by (simp add: resume_orchestration_def)
    then consider (go) "resume_orchestration rv now a actor ?r1 ?app1 = start_resume now ?job ?r1 ?app1"
      | (stuck) e where "resume_orchestration rv now a actor ?r1 ?app1 = (Inl e, ?app1)" by blast
    then show ?thesis
    proof cases
      case go
      with None show ?thesis by (intro started [of ?job]) (simp_all add: eq [unfolded None] None)
    next
      case stuck
      with None assms have "app' = ?app1" "res = Inl e" by (simp_all add: eq [unfolded None])
      with None runs1 show ?thesis by simp
    qed
  qed
qed

lemma claim_ends:
  assumes "claim_run_for_resume now rid ws st = (won, st')"
  shows "if won then (\<exists>c. get_run rid st = Some c \<and> status c = AWAITING_APPROVAL) \<and> (\<forall>i. i \<noteq> rid \<longrightarrow> get_run i st' = get_run i st) else st' = st"
  using assms by (auto simp: claim_run_for_resume_def get_run_def split: option.splits if_splits)

text \<open>What a call of \<open>resume_run\<close> did: nothing, or everything after a won claim.\<close>

definition resume_won :: "bool \<Rightarrow> string \<Rightarrow> ('p, 't, 'l, 's) app \<Rightarrow> ('p, 't, 'l, 's) app \<Rightarrow> run_record \<Rightarrow> bool" where
  "resume_won a rid before after r \<longleftrightarrow>
     (\<exists>c. get_run rid (ap_runs before) = Some c \<and> status c = AWAITING_APPROVAL)
     \<and> get_run rid (ap_runs after) = Some r \<and> status r = RUNNING \<and> recorded_decision r = Some a
     \<and> (\<forall>i. i \<noteq> rid \<longrightarrow> get_run i (ap_runs after) = get_run i (ap_runs before)) \<and> ap_quota after = ap_quota before
     \<and> (\<exists>job. ap_tasks after = job # ap_tasks before \<and> job_run job = rid \<and> \<not> takes_slot job)"

lemma resume_run_ends:
  assumes "keyed (ap_runs app)" and "resume_run rv now between rid a ws actor app = (res, app')"
  shows "case res of
      Inr r \<Rightarrow> resume_won a rid (between app) app' r
    | Inl e \<Rightarrow> app' = app \<or> app' = between app
        \<or> ((\<exists>c. get_run rid (ap_runs (between app)) = Some c \<and> status c = AWAITING_APPROVAL) \<and> ap_tasks app' = ap_tasks (between app)
           \<and> ap_quota app' = ap_quota (between app) \<and> (\<forall>i. i \<noteq> rid \<longrightarrow> get_run i (ap_runs app') = get_run i (ap_runs (between app)))
           \<and> (\<exists>r. get_run rid (ap_runs app') = Some r \<and> status r = RESOLVING \<and> recorded_decision r = Some a))"
proof (cases "\<exists>run agent. get_run_scoped rid ws (ap_runs app) = Some run \<and> status run = AWAITING_APPROVAL \<and> rv_has_checkpoints rv
    \<and> resumable_agent rv run = Inr agent")
  case False
  then have "isl res \<and> app' = app"
    using assms(2) by (auto simp: resume_run_def split: option.splits if_splits sum.splits)
  then show ?thesis by (cases res) simp_all
next
  case True
  then obtain run agent where r: "get_run_scoped rid ws (ap_runs app) = Some run" "status run = AWAITING_APPROVAL" "rv_has_checkpoints rv"
    "resumable_agent rv run = Inr agent" by blast
  have rid: "run_id run = rid"
    using r(1) assms(1) by (auto simp: get_run_scoped_def keyed_def get_run_def split: option.splits if_splits)
  obtain won st where c: "claim_run_for_resume now rid (workspace_id run) (ap_runs (between app)) = (won, st)" by (cases "claim_run_for_resume now rid (workspace_id run) (ap_runs (between app))")
  note claimed = claim_ends [OF c]
  show ?thesis
  proof (cases won)
    case False
    with claimed c r assms(2) show ?thesis by (auto simp: resume_run_def Let_def)
  next
    case True
    with c r assms(2) have "resume_claimed rv now a actor agent run ((between app)\<lparr>ap_runs := st\<rparr>) = (res, app')"
      by (simp add: resume_run_def Let_def)
    from resume_claimed_ends [OF this] True claimed rid show ?thesis
      by (cases res) (auto simp: resume_won_def)
  qed
qed

text \<open>
  C7: One decision is taken. Of two approvals of one paused run, whatever they decide and whoever sends
  them, the one whose claim comes first records its decision and starts exactly one resume. The other,
  whether it had read the run before the claim of the first or reads it after, is refused: it starts
  nothing, and the record of the first decision and every other run stay as they were.
\<close>

theorem one_decision_is_taken:
  assumes "keyed (ap_runs app)" and "resume_run rv t1 id rid a1 ws1 actor1 app = (Inr r, app1)"
    and "resume_run rv t2 (\<lambda>_. app1) rid a2 ws2 actor2 app = (raced, app2)"
    and "keyed (ap_runs app1)" and "resume_run rv t3 id rid a3 ws3 actor3 app1 = (late, app3)"
  shows "resume_won a1 rid app app1 r \<and> isl raced \<and> app2 \<in> {app, app1} \<and> isl late \<and> app3 = app1"
proof (intro conjI)
  show won: "resume_won a1 rid app app1 r" using resume_run_ends [OF assms(1,2)] by simp
  then have running: "get_run rid (ap_runs app1) = Some r" "status r = RUNNING" by (simp_all add: resume_won_def)
  show "isl raced" "app2 \<in> {app, app1}"
    using resume_run_ends [OF assms(1,3)] running by (auto simp: resume_won_def split: sum.splits)
  show "isl late" "app3 = app1"
    using resume_run_ends [OF assms(4,5)] running by (auto simp: resume_won_def split: sum.splits)
qed

section \<open>What a restart recovers\<close>

text \<open>The fold of the sweep, on records that are those of the store.\<close>

lemma fold_fail:
  assumes "distinct (map run_id rs)" and "\<And>r. run_id (f r) = run_id r"
  shows "get_run rid (fold (\<lambda>r s. snd (save_run now (f r) s)) rs st) =
    (case map_of (map (\<lambda>r. (run_id r, r)) rs) rid of None \<Rightarrow> get_run rid st | Some r \<Rightarrow> Some ((f r)\<lparr>updated_at := now\<rparr>))"
  using assms(1)
proof (induction rs arbitrary: st)
  case (Cons r rs)
  have "map_of (map (\<lambda>r. (run_id r, r)) rs) (run_id r) = None" using Cons.prems by (auto simp: map_of_eq_None_iff)
  with Cons assms(2) show ?case by (auto simp: get_run_def split: option.split)
qed simp

lemma keyed_runs:
  assumes "keyed st"
  shows "distinct (map run_id (dict_values (rs_runs st)))" "r \<in> set (dict_values (rs_runs st)) \<longleftrightarrow> get_run (run_id r) st = Some r"
proof -
  have ids: "map run_id (dict_values (rs_runs st)) = map fst (rs_runs st)"
    using keyedD(4) [OF assms] by (auto intro: map_cong)
  show "distinct (map run_id (dict_values (rs_runs st)))" unfolding ids using keyedD(1) [OF assms] by simp
  have "r \<in> set (dict_values (rs_runs st)) \<longleftrightarrow> (\<exists>k. (k, r) \<in> set (rs_runs st))" by force
  also have "\<dots> \<longleftrightarrow> get_run (run_id r) st = Some r"
    using keyedD(3,4) [OF assms] unfolding get_run_def by (metis map_of_SomeD)
  finally show "r \<in> set (dict_values (rs_runs st)) \<longleftrightarrow> get_run (run_id r) st = Some r" .
qed

lemma filtered_ids:
  assumes "keyed st"
  shows "set (map run_id (filter P (dict_values (rs_runs st)))) = {rid. \<exists>r. get_run rid st = Some r \<and> P r}"
proof (rule set_eqI)
  fix rid
  have "rid \<in> set (map run_id (filter P (dict_values (rs_runs st)))) \<longleftrightarrow> (\<exists>r. r \<in> set (dict_values (rs_runs st)) \<and> P r \<and> run_id r = rid)" by auto
  also have "\<dots> \<longleftrightarrow> (\<exists>r. get_run (run_id r) st = Some r \<and> P r \<and> run_id r = rid)" by (simp only: keyed_runs(2) [OF assms])
  also have "\<dots> \<longleftrightarrow> (\<exists>r. get_run rid st = Some r \<and> P r)" using keyedD(2) [OF assms] unfolding get_run_def by blast
  finally show "rid \<in> set (map run_id (filter P (dict_values (rs_runs st)))) \<longleftrightarrow> rid \<in> {rid. \<exists>r. get_run rid st = Some r \<and> P r}" by simp
qed

lemma sweep_result:
  assumes "keyed st" and "sweep_stuck_runs dispatch now ttl st = (ids, st')"
  shows "(\<forall>rid. get_run rid st' = (case get_run rid st of None \<Rightarrow> None
      | Some r \<Rightarrow> Some (if dispatch then (if lease_expired now None r then requeue_stamp now r else r)
                        else if abandoned now ttl r then (failed_with ABANDONED r)\<lparr>updated_at := now\<rparr> else r)))
    \<and> set ids = {rid. \<exists>r. get_run rid st = Some r \<and> (if dispatch then lease_expired now None r else abandoned now ttl r)}"
proof (cases dispatch)
  case True
  then have s: "ids = map run_id (filter (lease_expired now None) (dict_values (rs_runs st)))"
    "st' = st\<lparr>rs_runs := map (\<lambda>(rid, r). (rid, if lease_expired now None r then requeue_stamp now r else r)) (rs_runs st)\<rparr>"
    using assms(2) by (auto simp: sweep_stuck_runs_def requeue_expired_leases_def)
  have "set ids = {rid. \<exists>r. get_run rid st = Some r \<and> lease_expired now None r}"
    unfolding s(1) by (rule filtered_ids [OF assms(1)])
  moreover have "get_run rid st' = (case get_run rid st of None \<Rightarrow> None | Some r \<Rightarrow> Some (if lease_expired now None r then requeue_stamp now r else r))" for rid
    by (simp add: s(2) get_run_def dict_get_map_values split: option.split)
  ultimately show ?thesis by (simp only: True if_True) blast
next
  case False
  let ?vs = "filter (abandoned now ttl) (dict_values (rs_runs st))"
  have all: "list_runs None None None st = dict_values (rs_runs st)" by (simp add: list_runs_def run_filter_def)
  have s: "ids = map run_id ?vs" "st' = fold (\<lambda>r s. snd (save_run now (failed_with ABANDONED r) s)) ?vs st"
    using assms(2) False by (simp_all add: sweep_stuck_runs_def all Let_def)
  have "distinct (map run_id ?vs)" using keyed_runs(1) [OF assms(1)] by (rule distinct_map_filter)
  from fold_fail [OF this, where f = "failed_with ABANDONED"]
  have f: "get_run rid st' = (case map_of (map (\<lambda>r. (run_id r, r)) ?vs) rid of None \<Rightarrow> get_run rid st
      | Some r \<Rightarrow> Some ((failed_with ABANDONED r)\<lparr>updated_at := now\<rparr>))" for rid
    by (simp add: s(2) failed_with_def)
  have m: "map_of (map (\<lambda>r. (run_id r, r)) ?vs) rid = (case get_run rid st of None \<Rightarrow> None | Some r \<Rightarrow> if abandoned now ttl r then Some r else None)" for rid
  proof (cases "\<exists>r. get_run rid st = Some r \<and> abandoned now ttl r")
    case True
    then obtain r where r: "get_run rid st = Some r" "abandoned now ttl r" by blast
    then have "run_id r = rid" using keyedD(2) [OF assms(1)] by (simp add: get_run_def)
    with r keyed_runs(2) [OF assms(1), of r] have "(rid, r) \<in> set (map (\<lambda>r. (run_id r, r)) ?vs)" by auto
    moreover have "distinct (map fst (map (\<lambda>r. (run_id r, r)) ?vs))" using \<open>distinct (map run_id ?vs)\<close> by (simp add: comp_def)
    ultimately show ?thesis using r by (simp add: map_of_is_SomeI)
  next
    case False
    then have "rid \<notin> run_id ` set ?vs" using keyed_runs(2) [OF assms(1)] by auto
    then have "map_of (map (\<lambda>r. (run_id r, r)) ?vs) rid = None" unfolding map_of_eq_None_iff set_map image_image fst_conv .
    with False show ?thesis by (auto split: option.split)
  qed
  have "set ids = {rid. \<exists>r. get_run rid st = Some r \<and> abandoned now ttl r}"
    unfolding s(1) by (rule filtered_ids [OF assms(1)])
  with f m False show ?thesis by (auto split: option.split)
qed


section \<open>Interrupted decisions are taken again\<close>

definition jobs_of :: "string \<Rightarrow> ('p, 't, 'l, 's) app \<Rightarrow> ('p, 't, 'l, 's) job list" where
  "jobs_of rid app = filter (\<lambda>j. job_run j = rid) (ap_tasks app)"

lemma keyed_claim_resume: "keyed st \<Longrightarrow> keyed (snd (claim_run_for_resume now rid ws st))"
  using keyed_apply_op [of st now "Resume rid ws"] by simp

lemma keyed_resume_run:
  assumes "keyed (ap_runs app)"
  shows "keyed (ap_runs (snd (resume_run rv now id rid a ws actor app)))"
proof -
  have started: "keyed (ap_runs (snd (start_resume now job r x)))" if "keyed (ap_runs x)" for job r and x :: "('a, 'b, 'c, 'd) app"
    using keyed_save [OF that] by (simp add: start_resume_def Let_def split_def)
  have claimed: "keyed (ap_runs (snd (resume_claimed rv now a actor agent run x)))" if "keyed (ap_runs x)" for agent run and x :: "('a, 'b, 'c, 'd) app"
  proof -
    have "keyed (ap_runs (x\<lparr>ap_runs := snd (save_run now (record_decision a actor run) (ap_runs x))\<rparr>))" using keyed_save [OF that] by simp
    then show ?thesis
      by (auto simp: resume_claimed_def save_run_def Let_def resume_orchestration_def intro!: started split: option.split)
  qed
  show ?thesis
  proof (cases "\<exists>run agent. get_run_scoped rid ws (ap_runs app) = Some run \<and> status run = AWAITING_APPROVAL \<and> rv_has_checkpoints rv
      \<and> resumable_agent rv run = Inr agent")
    case False
    then have "snd (resume_run rv now id rid a ws actor app) = app" by (auto simp: resume_run_def split: option.splits if_splits sum.splits)
    with assms show ?thesis by simp
  next
    case True
    then obtain run agent where r: "get_run_scoped rid ws (ap_runs app) = Some run" "status run = AWAITING_APPROVAL" "rv_has_checkpoints rv"
      "resumable_agent rv run = Inr agent" by blast
    obtain won st where c: "claim_run_for_resume now rid (workspace_id run) (ap_runs app) = (won, st)"
      by (cases "claim_run_for_resume now rid (workspace_id run) (ap_runs app)")
    then have "keyed st" using keyed_claim_resume [OF assms, of now rid "workspace_id run"] by simp
    with claimed [of "app\<lparr>ap_runs := st\<rparr>" agent run] c r show ?thesis by (cases won) (simp_all add: resume_run_def)
  qed
qed

lemma resumable_refusal: "resumable_agent rv run = Inl e \<Longrightarrow> e \<noteq> NoCheckpointStore"
  by (auto simp: resumable_agent_def split: if_splits option.splits)

lemma claimed_refusal: "fst (resume_claimed rv now a actor agent run app) \<noteq> Inl NoCheckpointStore"
  by (simp add: resume_claimed_def resume_orchestration_def start_resume_def save_run_def Let_def split: option.split)

lemma checkpoints_wired:
  assumes "rv_has_checkpoints rv"
  shows "fst (resume_run rv now between rid a ws actor app) \<noteq> Inl NoCheckpointStore"
  using assms
  by (auto simp: resume_run_def Let_def claimed_refusal dest: resumable_refusal split: option.split sum.split prod.split bool.split)

text \<open>The decision on a single-agent run that can be resumed goes through.\<close>

lemma resume_run_agent:
  assumes "keyed (ap_runs app)" and "get_run rid (ap_runs app) = Some run" and "status run = AWAITING_APPROVAL" and "rv_has_checkpoints rv"
    and "resumable_agent rv run = Inr (Some d)" and "ws \<in> {None, Some (workspace_id run)}"
  shows "\<exists>r app'. resume_run rv now id rid a ws actor app = (Inr r, app') \<and> resume_won a rid app app' r
    \<and> ap_tasks app' = ResumeRun rid (workspace_id run) (meta_text ''checkpoint_id'' run) a actor d # ap_tasks app"
proof -
  have rid: "run_id run = rid" using assms(1,2) by (auto simp: keyed_def get_run_def)
  have sc: "get_run_scoped rid ws (ap_runs app) = Some run" using assms(2,6) by (auto simp: get_run_scoped_def)
  obtain st where c: "claim_run_for_resume now rid (workspace_id run) (ap_runs app) = (True, st)"
    using assms(2,3) by (auto simp: claim_run_for_resume_def get_run_def)
  obtain res app' where x: "resume_claimed rv now a actor (Some d) run (app\<lparr>ap_runs := st\<rparr>) = (res, app')"
    by (cases "resume_claimed rv now a actor (Some d) run (app\<lparr>ap_runs := st\<rparr>)")
  then have e: "resume_run rv now id rid a ws actor app = (res, app')"
    using sc c assms(3-5) by (simp add: resume_run_def)
  from resume_claimed_ends [OF x] obtain r where "res = Inr r"
    "ap_tasks app' = ResumeRun rid (workspace_id run) (meta_text ''checkpoint_id'' run) a actor d # ap_tasks app"
    using rid by (auto split: sum.splits)
  with e resume_run_ends [OF assms(1) e] show ?thesis by auto
qed

lemma reopened_text [simp]: "meta_text k (run\<lparr>status := s, updated_at := t\<rparr>) = meta_text k run"
  by (simp add: meta_text_def)

lemma reopened [simp]: "resumable_agent rv (run\<lparr>status := s, updated_at := t\<rparr>) = resumable_agent rv run"
  by (simp add: resumable_agent_def is_orchestration_def cong: if_cong option.case_cong)

definition replayed :: "resume_env \<Rightarrow> run_record \<Rightarrow> ('p, 't, 'l, 's) app \<Rightarrow> ('p, 't, 'l, 's) app \<Rightarrow> bool" where
  "replayed rv run app app' \<longleftrightarrow>
     (case recorded_decision run of
        None \<Rightarrow> get_run (run_id run) (ap_runs app') = Some run \<and> jobs_of (run_id run) app' = jobs_of (run_id run) app
      | Some a \<Rightarrow> \<forall>d. resumable_agent rv run = Inr (Some d) \<longrightarrow>
          (\<exists>r actor. get_run (run_id run) (ap_runs app') = Some r \<and> status r = RUNNING \<and> recorded_decision r = Some a
             \<and> jobs_of (run_id run) app' =
                 ResumeRun (run_id run) (workspace_id run) (meta_text ''checkpoint_id'' run) a actor d # jobs_of (run_id run) app))"

lemma reconcile_one:
  assumes "keyed (ap_runs app)" and "get_run (run_id run) (ap_runs app) = Some run" and "rv_has_checkpoints rv" and "recorded_decision run = Some a"
    and "resume_run rv now id (run_id run) a (Some (workspace_id run)) actor
      (app\<lparr>ap_runs := snd (save_run now (run\<lparr>status := AWAITING_APPROVAL\<rparr>) (ap_runs app))\<rparr>) = (res, app1)"
  shows "keyed (ap_runs app1) \<and> res \<noteq> Inl NoCheckpointStore \<and> replayed rv run app app1
    \<and> (\<forall>i. i \<noteq> run_id run \<longrightarrow> get_run i (ap_runs app1) = get_run i (ap_runs app) \<and> jobs_of i app1 = jobs_of i app)"
proof -
  let ?app = "app\<lparr>ap_runs := snd (save_run now (run\<lparr>status := AWAITING_APPROVAL\<rparr>) (ap_runs app))\<rparr>"
  have k: "keyed (ap_runs ?app)" using assms(1) by (simp add: keyed_save)
  have g: "get_run (run_id run) (ap_runs ?app) = Some (run\<lparr>status := AWAITING_APPROVAL, updated_at := now\<rparr>)" by (simp add: get_run_def)
  have o: "get_run i (ap_runs ?app) = get_run i (ap_runs app)" if "i \<noteq> run_id run" for i using that by (simp add: get_run_def)
  have "keyed (ap_runs app1)" using keyed_resume_run [OF k, of rv now "run_id run" a "Some (workspace_id run)" actor] assms(5) by simp
  moreover have "res \<noteq> Inl NoCheckpointStore" using checkpoints_wired [OF assms(3), of now id "run_id run" a "Some (workspace_id run)" actor ?app] assms(5) by simp
  moreover have "replayed rv run app app1"
  proof -
    have "\<exists>r. get_run (run_id run) (ap_runs app1) = Some r \<and> status r = RUNNING \<and> recorded_decision r = Some a
        \<and> ap_tasks app1 = ResumeRun (run_id run) (workspace_id run) (meta_text ''checkpoint_id'' run) a actor d # ap_tasks app"
      if d: "resumable_agent rv run = Inr (Some d)" for d
      using resume_run_agent [OF k g _ assms(3), of d "Some (workspace_id run)" now a actor] d assms(5) by (auto simp: resume_won_def)
    then show ?thesis by (fastforce simp: replayed_def assms(4) jobs_of_def)
  qed
  moreover have "get_run i (ap_runs app1) = get_run i (ap_runs app) \<and> jobs_of i app1 = jobs_of i app" if "i \<noteq> run_id run" for i
    using resume_run_ends [OF k assms(5)] o [OF that] that by (auto simp: jobs_of_def resume_won_def split: sum.splits)
  ultimately show ?thesis by blast
qed

lemma reconcile_all:
  assumes "keyed (ap_runs app)" and "distinct (map run_id runs)" and "\<forall>run \<in> set runs. get_run (run_id run) (ap_runs app) = Some run" and "rv_has_checkpoints rv"
  shows "(\<forall>i. i \<notin> run_id ` set runs \<longrightarrow> get_run i (ap_runs (snd (reconcile_runs rv now runs app))) = get_run i (ap_runs app)
        \<and> jobs_of i (snd (reconcile_runs rv now runs app)) = jobs_of i app)
    \<and> (\<forall>run \<in> set runs. replayed rv run app (snd (reconcile_runs rv now runs app)))
    \<and> \<not> isl (fst (reconcile_runs rv now runs app))"
  using assms
proof (induction runs arbitrary: app)
  case (Cons run runs)
  have g: "get_run (run_id run) (ap_runs app) = Some run" and d: "distinct (map run_id runs)" "run_id run \<notin> run_id ` set runs"
    using Cons.prems by auto
  show ?case
  proof (cases "recorded_decision run")
    case None
    have "replayed rv run app (snd (reconcile_runs rv now runs app))" using Cons.IH [OF Cons.prems(1) d(1) _ Cons.prems(4)] Cons.prems(3) d(2) g
      by (simp add: replayed_def None)
    with Cons.IH [OF Cons.prems(1) d(1) _ Cons.prems(4)] Cons.prems(3) None show ?thesis by simp
  next
    case (Some a)
    let ?actor = "if meta_text ''resume_actor'' run = [] then ''recovery'' else meta_text ''resume_actor'' run"
    obtain res app1 where r: "resume_run rv now id (run_id run) a (Some (workspace_id run)) ?actor
        (app\<lparr>ap_runs := snd (save_run now (run\<lparr>status := AWAITING_APPROVAL\<rparr>) (ap_runs app))\<rparr>) = (res, app1)" by fastforce
    note one = reconcile_one [OF Cons.prems(1) g Cons.prems(4) Some r]
    have st: "snd (reconcile_runs rv now (run # runs) app) = snd (reconcile_runs rv now runs app1)"
      "isl (fst (reconcile_runs rv now (run # runs) app)) = isl (fst (reconcile_runs rv now runs app1))"
      using Some r one by (auto simp: Let_def map_sum_def split: sum.split resume_error.split)
    have same: "get_run (run_id x) (ap_runs app1) = Some x \<and> jobs_of (run_id x) app1 = jobs_of (run_id x) app" if "x \<in> set runs" for x
      using one d(2) that Cons.prems(3) by (metis image_eqI list.set_intros(2))
    have ih: "(\<forall>i. i \<notin> run_id ` set runs \<longrightarrow> get_run i (ap_runs (snd (reconcile_runs rv now runs app1))) = get_run i (ap_runs app1)
        \<and> jobs_of i (snd (reconcile_runs rv now runs app1)) = jobs_of i app1)
      \<and> (\<forall>x \<in> set runs. replayed rv x app1 (snd (reconcile_runs rv now runs app1))) \<and> \<not> isl (fst (reconcile_runs rv now runs app1))"
      using Cons.IH [OF _ d(1) _ Cons.prems(4)] one same by blast
    have "replayed rv x app (snd (reconcile_runs rv now runs app1))" if "x \<in> set runs" for x
    proof -
      have "replayed rv x app1 (snd (reconcile_runs rv now runs app1))" using ih that by blast
      with same [OF that] show ?thesis by (cases "recorded_decision x") (simp_all add: replayed_def)
    qed
    moreover have "replayed rv run app (snd (reconcile_runs rv now runs app1))" using one ih d(2) by (simp add: replayed_def Some)
    moreover have "get_run i (ap_runs (snd (reconcile_runs rv now runs app1))) = get_run i (ap_runs app)
        \<and> jobs_of i (snd (reconcile_runs rv now runs app1)) = jobs_of i app" if "i \<notin> run_id ` set (run # runs)" for i
      using ih one that by simp
    moreover have "\<not> isl (fst (reconcile_runs rv now runs app1))" using ih by blast
    ultimately show ?thesis unfolding st by simp
  qed
qed simp

lemma reconcile_result:
  assumes "keyed (ap_runs app)" and "rv_has_checkpoints rv" and "get_run rid (ap_runs app) = Some run"
    and "reconcile_resolving_runs rv now (restarted app) = (res, app')"
  shows "\<not> isl res \<and>
    (if status run = RESOLVING \<and> recorded_decision run \<noteq> None
     then \<forall>d. resumable_agent rv run = Inr (Some d) \<longrightarrow>
       (\<exists>r actor. get_run rid (ap_runs app') = Some r \<and> status r = RUNNING \<and> recorded_decision r = recorded_decision run
          \<and> jobs_of rid app' = [ResumeRun rid (workspace_id run) (meta_text ''checkpoint_id'' run) (the (recorded_decision run)) actor d])
     else get_run rid (ap_runs app') = Some run \<and> jobs_of rid app' = [])"
proof -
  let ?app = "restarted app"
  let ?runs = "list_runs None None (Some RESOLVING) (ap_runs ?app)"
  have k: "keyed (ap_runs ?app)" and g: "get_run rid (ap_runs ?app) = Some run" and none: "jobs_of i ?app = []" for i
    using assms(1,3) by (simp_all add: restarted_def jobs_of_def)
  have rid: "run_id run = rid" using assms(1,3) by (auto simp: keyed_def get_run_def)
  have eq: "?runs = filter (\<lambda>r. RESOLVING = status r) (dict_values (rs_runs (ap_runs ?app)))"
    by (simp add: list_runs_def run_filter_def fun_eq_iff [of "run_filter None None (Some RESOLVING)"] cong: filter_cong)
  have d: "distinct (map run_id ?runs)" unfolding eq by (rule distinct_map_filter [OF keyed_runs(1) [OF k]])
  have m: "x \<in> set ?runs \<longleftrightarrow> get_run (run_id x) (ap_runs ?app) = Some x \<and> RESOLVING = status x" for x
    unfolding eq by (simp only: set_filter mem_Collect_eq keyed_runs(2) [OF k])
  note all = reconcile_all [OF k d _ assms(2), where now = now]
  have app': "app' = snd (reconcile_runs rv now ?runs ?app)" "res = fst (reconcile_runs rv now ?runs ?app)"
    using assms(4) by (simp_all add: reconcile_resolving_runs_def)
  show ?thesis
  proof (cases "status run = RESOLVING")
    case True
    then have "run \<in> set ?runs" using m g rid by simp
    then have "replayed rv run ?app app'" "\<not> isl res" using all m by (simp_all add: app')
    with True rid none show ?thesis by (cases "recorded_decision run") (auto simp: replayed_def)
  next
    case False
    then have "rid \<notin> run_id ` set ?runs" using m g by (metis (no_types, lifting) imageE option.inject)
    with all m g none False show ?thesis by (simp add: app')
  qed
qed


section \<open>Every slot belongs to a launch\<close>

text \<open>
  The steps of one process: the entry points, the end of each kind of task, a decision, and anything
  the other processes do to the store.
\<close>

inductive process_step :: "('p, 't, 'l, 's) app \<Rightarrow> ('p, 't, 'l, 's) app \<Rightarrow> bool" where
  create: "run_store_wf (ap_runs app) \<Longrightarrow> get_run (rq_run_id rq) (ap_runs app) = None \<Longrightarrow> process_step app (snd (create_run env now rq app))"
| turn: "run_store_wf (ap_runs app) \<Longrightarrow> get_run (rq_run_id rq) (ap_runs app) = None \<Longrightarrow>
    process_step app (snd (continue_thread env now conversation prompt spec agent llm hitl plan rq app))"
| orchestrate: "process_step app (snd (create_orchestration_run env now oq app))"
| run_ends: "ExecuteRun rid ws inp agent thread \<in> set (ap_tasks app) \<Longrightarrow>
    process_step app (task_done (ExecuteRun rid ws inp agent thread) (execute_run de between t0 t1 dt e rid ws app))"
| orchestration_ends: "ExecuteOrchestration rid ws k ms p u v g \<in> set (ap_tasks app) \<Longrightarrow>
    process_step app (task_done (ExecuteOrchestration rid ws k ms p u v g) (execute_orchestration_run de between t0 t1 c rid ws app))"
| decide: "keyed (ap_runs app) \<Longrightarrow> process_step app (snd (resume_run rv now id rid a ws actor app))"
| resume_ends: "process_step app (task_done (ResumeRun rid ws ck a actor d) (resume_in_background de between now ft e rid ws app))"
| resumed_orchestration_ends:
    "process_step app (task_done (ResumeOrchestration rid ws a actor g ids) (resume_orchestration_in_background de rv between now c rid ws ids app))"
| elsewhere: "process_step app (app\<lparr>ap_runs := st\<rparr>)"

lemma semaphore_keeps: "wq_outstanding (snd (semaphore ws q)) = wq_outstanding q" "wq_max_outstanding (snd (semaphore ws q)) = wq_max_outstanding q"
  by (simp_all add: semaphore_def split: option.split)

lemma balanced_same:
  assumes "held_slots app' = held_slots app" and "wq_outstanding (ap_quota app') = wq_outstanding (ap_quota app)"
    and "wq_max_outstanding (ap_quota app') = wq_max_outstanding (ap_quota app)"
  shows "slots_balanced app' = slots_balanced app"
  using assms represents_cong [OF assms(2)] by (simp add: slots_balanced_def)

lemma filter_remove1_other: "\<not> P x \<Longrightarrow> filter P (remove1 x xs) = filter P xs"
  by (induction xs) auto

lemma held_without: "\<not> takes_slot job \<Longrightarrow> held_slots (task_done job app) = held_slots app"
  by (simp add: held_slots_def task_done_def filter_remove1_other flip: mset_filter)

lemma count_held: "count (held_slots app) ws = length (filter (\<lambda>j. takes_slot j \<and> job_workspace j = ws) (ap_tasks app))"
proof -
  have "count (image_mset job_workspace (filter_mset takes_slot (mset xs))) ws = length (filter (\<lambda>j. takes_slot j \<and> job_workspace j = ws) xs)" for xs :: "('a, 'b, 'c, 'd) job list"
    by (induction xs) auto
  then show ?thesis by (simp add: held_slots_def)
qed

definition within_cap :: "int \<Rightarrow> ('p, 't, 'l, 's) app \<Rightarrow> bool" where
  "within_cap cap app \<longleftrightarrow> slots_balanced app \<and> wq_max_outstanding (ap_quota app) = cap \<and> (\<forall>ws. int (count (held_slots app) ws) \<le> cap)"

lemma launch_within_cap:
  assumes "launch_ends now run app (res, app')" and "within_cap cap app"
  shows "within_cap cap app'"
proof -
  have b: "slots_balanced app'" using launch_keeps_slots [OF assms(1)] assms(2) by (simp add: within_cap_def)
  have r: "represents (ap_quota app) (held_slots app)" and m: "wq_max_outstanding (ap_quota app) = cap" and pos: "0 < cap"
    using assms(2) by (auto simp: within_cap_def slots_balanced_def)
  consider (same) "ap_tasks app' = ap_tasks app" "ap_quota app' = ap_quota app"
    | (started) job q where "takes_slot job" "job_workspace job = workspace_id run" "admit (workspace_id run) (ap_quota app) = Inr q"
      "ap_quota app' = q" "ap_tasks app' = job # ap_tasks app"
    using assms(1) by (auto simp: launch_ends_def Let_def split: option.splits)
  then show ?thesis
  proof cases
    case same
    with assms(2) b show ?thesis by (simp add: within_cap_def held_slots_def)
  next
    case started
    have "outstanding (workspace_id run) (ap_quota app) < cap" "wq_max_outstanding q = cap"
      using started(3) m pos by (auto simp: admit_def Let_def split: if_splits)
    then have "int (count (held_slots app) (workspace_id run)) < cap" using represents_outstanding [OF r] by simp
    moreover have "held_slots app' = add_mset (workspace_id run) (held_slots app)" using started by (simp add: held_slots_def)
    ultimately show ?thesis using b started \<open>wq_max_outstanding q = cap\<close> assms(2) by (auto simp: within_cap_def)
  qed
qed

lemma end_within_cap:
  assumes "within_cap cap app" and "job \<in> set (ap_tasks app)" and "takes_slot job"
    and "ap_tasks app' = remove1 job (ap_tasks app)" and "ap_quota app' = release (job_workspace job) (snd (semaphore ws (ap_quota app)))"
  shows "within_cap cap app'"
proof -
  have b: "slots_balanced app'" using release_keeps_slots [OF _ assms(2-5)] assms(1) by (simp add: within_cap_def)
  have "mset (ap_tasks app) = add_mset job (mset (ap_tasks app'))" using assms(2,4) by simp
  then have "held_slots app = add_mset (job_workspace job) (held_slots app')" using assms(3) by (simp add: held_slots_def)
  then have "count (held_slots app') w \<le> count (held_slots app) w" for w by simp
  moreover have "wq_max_outstanding (ap_quota app') = cap"
    using assms(1,5) by (simp add: within_cap_def release_def semaphore_keeps Let_def)
  ultimately show ?thesis using b assms(1) by (simp add: within_cap_def) (meson of_nat_mono order_trans)
qed

lemma same_within_cap:
  assumes "within_cap cap app" and "held_slots app' = held_slots app" and "wq_outstanding (ap_quota app') = wq_outstanding (ap_quota app)"
    and "wq_max_outstanding (ap_quota app') = wq_max_outstanding (ap_quota app)"
  shows "within_cap cap app'"
  using assms(1,2,4) balanced_same [OF assms(2-4)] by (simp add: within_cap_def)

lemma step_within_cap:
  assumes "process_step app app'" and "within_cap cap app"
  shows "within_cap cap app'"
  using assms
proof cases
  case (create rq env now)
  from create(2,3) show ?thesis
  proof (cases rule: create_run_cases [of app rq env now])
    case (2 inp)
    then show ?thesis using launch_within_cap [of now _ app "fst (create_run env now rq app)" app'] create(1) assms(2) by simp
  next
    case (1 e)
    with create(1) assms(2) show ?thesis by simp
  qed
next
  case (turn rq env now conversation prompt spec agent llm hitl plan)
  have "within_cap cap (snd (insert_and_launch env now (launch_record env now rq' base thread inp) inp ag thread app))"
    if "rq_run_id rq' = rq_run_id rq" for rq' base thread inp ag
    using launch_within_cap [OF _ assms(2), of now "launch_record env now rq' base thread inp" "fst (insert_and_launch env now (launch_record env now rq' base thread inp) inp ag thread app)"]
      insert_and_launch_ends [of app "launch_record env now rq' base thread inp" now env inp ag thread] turn(2,3) that by simp
  then show ?thesis using turn(1) assms(2) by (simp add: continue_thread_def Let_def split: sum.split)
next
  case (orchestrate env now oq)
  then show ?thesis
    using launch_within_cap [OF _ assms(2), of now "orchestration_record env now oq" "fst (create_orchestration_run env now oq app)"]
      create_orchestration_ends [of now env oq app] by simp
next
  case (run_ends rid ws inp agent thread de between t0 t1 dt e)
  then show ?thesis
    by (intro end_within_cap [OF assms(2) run_ends(2), where ws = ws]) (simp_all add: task_done_def execute_run_def Let_def split: option.split)
next
  case (orchestration_ends rid ws k ms p u v g de between t0 t1 c)
  then show ?thesis
    by (intro end_within_cap [OF assms(2) orchestration_ends(2), where ws = ws])
      (simp_all add: task_done_def execute_orchestration_run_def Let_def save_run_def split: option.split)
next
  case (decide rv now rid a ws actor)
  obtain res where r: "resume_run rv now id rid a ws actor app = (res, app')" using decide(1) by (cases "resume_run rv now id rid a ws actor app") simp
  have "held_slots app' = held_slots app \<and> ap_quota app' = ap_quota app"
    using resume_run_ends [OF decide(2) r] by (auto simp: held_slots_def resume_won_def split: sum.splits)
  then show ?thesis by (intro same_within_cap [OF assms(2)]) simp_all
next
  case (resume_ends rid ws ck a actor d de between now ft e)
  have "ap_tasks (resume_in_background de between now ft e rid ws app) = ap_tasks app"
    "ap_quota (resume_in_background de between now ft e rid ws app) = snd (semaphore ws (ap_quota app))"
    by (simp_all add: resume_in_background_def Let_def split: option.split)
  then show ?thesis
    by (intro same_within_cap [OF assms(2)]) (simp_all add: resume_ends held_without held_slots_def, simp_all add: task_done_def semaphore_keeps filter_remove1_other flip: mset_filter)
next
  case (resumed_orchestration_ends rid ws a actor g ids de rv between now c)
  have "ap_tasks (resume_orchestration_in_background de rv between now c rid ws ids app) = ap_tasks app"
    "ap_quota (resume_orchestration_in_background de rv between now c rid ws ids app) = snd (semaphore ws (ap_quota app))"
    by (simp_all add: resume_orchestration_in_background_def Let_def split: option.split sum.split)
  then show ?thesis
    by (intro same_within_cap [OF assms(2)]) (simp_all add: resumed_orchestration_ends held_without held_slots_def, simp_all add: task_done_def semaphore_keeps filter_remove1_other flip: mset_filter)
next
  case (elsewhere st)
  then show ?thesis by (intro same_within_cap [OF assms(2)]) (simp_all add: held_slots_def)
qed

text \<open>
  C11: Every slot belongs to a launch: in a process that starts empty with a positive cap, after any
  sequence of launches, continued conversations, orchestrations, decisions and task ends, and of changes the
  other processes make to the store, the counter of a workspace is the number of its launched tasks
  that have not ended, and never exceeds the cap.
\<close>

theorem every_slot_belongs_to_a_launch:
  assumes "process_step\<^sup>*\<^sup>* app app'" and "ap_tasks app = []" and "ap_quota app = workspace_quota_init c cap" and "0 < cap"
  shows "outstanding ws (ap_quota app') = int (length (filter (\<lambda>j. takes_slot j \<and> job_workspace j = ws) (ap_tasks app')))
    \<and> outstanding ws (ap_quota app') \<le> cap"
proof -
  have "within_cap cap app"
    using assms(2-4) represents_init [of c cap] by (simp add: within_cap_def slots_balanced_def held_slots_def) (simp add: workspace_quota_init_def)
  with assms(1) have "within_cap cap app'" by (induction rule: rtranclp_induct) (auto intro: step_within_cap)
  then have "represents (ap_quota app') (held_slots app')" "int (count (held_slots app') ws) \<le> cap" by (simp_all add: within_cap_def slots_balanced_def)
  with represents_outstanding [OF this(1), of ws] show ?thesis by (simp add: count_held)
qed

section \<open>Examples\<close>

definition demo_reviewer :: resume_env where
  "demo_reviewer = \<lparr>rv_has_checkpoints = True, rv_resolver = Some (\<lambda>a ws. if a = ''ag'' then Some
     \<lparr>agent_id = ''ag'', def_workspace_id = ''acme'', def_name = ''a'', def_description = [], def_spec = [], def_idempotency_key = None,
       def_metadata = [], def_created_at = 0, def_updated_at = 0\<rparr> else None)\<rparr>"

text \<open>A run that a worker had claimed with a lease until 40 and that paused at 30.\<close>

definition demo_waiting_run :: run_record where
  "demo_waiting_run = (new_run ''r1'' ''acme'' ''u'' 0)\<lparr>status := AWAITING_APPROVAL, owner_id := Some ''w'', lease_expires_at := Some 40,
     metadata := [(''agent_id'', JStr ''ag''), (''checkpoint_id'', JStr ''c1'')]\<rparr>"

definition demo_inbox :: "run_record \<Rightarrow> (string, int, bool, string) app" where
  "demo_inbox run = (demo_app 2)\<lparr>ap_runs := \<lparr>rs_runs = [(''r1'', run)], rs_by_idempotency = []\<rparr>\<rparr>"

lemma demo_inbox_facts: "keyed (ap_runs (demo_inbox demo_waiting_run))"
  "get_run ''r1'' (ap_runs (demo_inbox demo_waiting_run)) = Some demo_waiting_run" "status demo_waiting_run = AWAITING_APPROVAL"
  "workspace_id demo_waiting_run = ''acme''" "\<exists>d. resumable_agent demo_reviewer demo_waiting_run = Inr (Some d)" "rv_has_checkpoints demo_reviewer"
  by (simp_all add: demo_inbox_def demo_waiting_run_def keyed_def get_run_def new_run_def resumable_agent_def is_orchestration_def meta_text_def
      json_get_def demo_reviewer_def)

lemma demo_approved: "\<exists>r app'. resume_run demo_reviewer now id ''r1'' True None ''amy'' (demo_inbox demo_waiting_run) = (Inr r, app')"
  using resume_run_agent [OF demo_inbox_facts(1-3,6), of _ None now True "''amy''"] demo_inbox_facts(5) by fastforce

theorem one_decision_is_taken_witness:
  "(case resume_run demo_reviewer 50 id ''r1'' True None ''amy'' (demo_inbox demo_waiting_run) of
      (Inr r, app1) \<Rightarrow> length (ap_tasks app1) = 1 \<and> recorded_decision r = Some True
        \<and> isl (fst (resume_run demo_reviewer 51 (\<lambda>_. app1) ''r1'' False None ''bob'' (demo_inbox demo_waiting_run)))
        \<and> isl (fst (resume_run demo_reviewer 52 id ''r1'' False None ''bob'' app1))
    | _ \<Rightarrow> False)"
proof -
  obtain r app1 where r: "resume_run demo_reviewer 50 id ''r1'' True None ''amy'' (demo_inbox demo_waiting_run) = (Inr r, app1)"
    using demo_approved by blast
  have k: "keyed (ap_runs app1)"
    using keyed_resume_run [OF demo_inbox_facts(1), of demo_reviewer 50 "''r1''" True None "''amy''"] r by simp
  obtain x2 app2 where x: "resume_run demo_reviewer 51 (\<lambda>_. app1) ''r1'' False None ''bob'' (demo_inbox demo_waiting_run) = (x2, app2)" by fastforce
  obtain x3 app3 where y: "resume_run demo_reviewer 52 id ''r1'' False None ''bob'' app1 = (x3, app3)" by fastforce
  have "ap_tasks (demo_inbox demo_waiting_run) = []" by (simp add: demo_inbox_def demo_app_def)
  with one_decision_is_taken [OF demo_inbox_facts(1) r x k y] show ?thesis by (auto simp: r x y resume_won_def)
qed


definition demo_stranded_run :: run_record where
  "demo_stranded_run = record_decision False ''amy'' demo_waiting_run"


theorem every_slot_belongs_to_a_launch_witness:
  "(let app' = snd (create_run (demo_launch_env False) 5 (demo_request ''r1'') (demo_app 2))
    in outstanding ''acme'' (ap_quota app') = 1 \<and> outstanding ''acme'' (ap_quota app') \<le> 2)"
proof -
  let ?app' = "snd (create_run (demo_launch_env False) 5 (demo_request ''r1'') (demo_app 2))"
  have "process_step\<^sup>*\<^sup>* (demo_app 2) ?app'" by (intro r_into_rtranclp process_step.create demo_app_wf)
  from every_slot_belongs_to_a_launch [OF this, of 2 2 "''acme''"]
  have "outstanding ''acme'' (ap_quota ?app') \<le> 2" by (simp add: demo_app_def)
  moreover have "outstanding ''acme'' (ap_quota ?app') = 1" by (simp add: demo_launch_defs Let_def)
  ultimately show ?thesis by simp
qed

text \<open>
  A resume turns the run from RESOLVING to RUNNING before its task starts. A crash in between loses
  the decision: without a dispatcher the sweep fails the run and recovery finds nothing; with one, the lease of
  the claim before the pause, which nobody renews, makes the reaper queue the run again from its start,
  also while the resume is still at work.
\<close>

lemma interrupted_resume_is_lost:
  assumes "keyed (ap_runs app)" and "rv_has_checkpoints rv" and "resume_run rv now id rid a ws actor app = (Inr r, app')"
  shows "get_run rid (snd (sweep_stuck_runs False later 0 (ap_runs app'))) = Some ((failed_with ABANDONED r)\<lparr>updated_at := later\<rparr>)
    \<and> jobs_of rid (snd (reconcile_resolving_runs rv later (restarted app'))) = []"
proof -
  have w: "resume_won a rid app app' r" using resume_run_ends [OF assms(1,3)] by simp
  have k: "keyed (ap_runs app')" using keyed_resume_run [OF assms(1), of rv now rid a ws actor] assms(3) by simp
  have g: "get_run rid (ap_runs app') = Some r" "status r = RUNNING" using w by (simp_all add: resume_won_def)
  obtain ids st where s: "sweep_stuck_runs False later 0 (ap_runs app') = (ids, st)" by fastforce
  obtain res app2 where c: "reconcile_resolving_runs rv later (restarted app') = (res, app2)" by fastforce
  from sweep_result [OF k s] reconcile_result [OF k assms(2) g(1) c] g show ?thesis by (simp add: s c abandoned_def)
qed

lemma resumed_run_is_queued_again:
  "map_option status (get_run ''r1'' (snd (sweep_stuck_runs True 60 0 (ap_runs (snd (resume_run demo_reviewer 50 id ''r1'' True None ''amy'' (demo_inbox demo_waiting_run))))))) = Some QUEUED"
  by (simp add: resume_run_def get_run_scoped_def demo_inbox_def demo_waiting_run_def new_run_def get_run_def resumable_agent_def is_orchestration_def
      meta_text_def json_get_def demo_reviewer_def claim_run_for_resume_def resume_claimed_def start_resume_def save_run_def put_run_def
      index_idempotency_def record_decision_def sweep_stuck_runs_def requeue_expired_leases_def lease_expired_def lane_matches_def requeue_stamp_def Let_def)

text \<open>
  An orchestration whose members cannot be resolved is refused after its claim was won: it stays in
  RESOLVING, and recovery leaves it there.
\<close>

lemma refused_orchestration_is_stranded:
  assumes "keyed (ap_runs app)" and "get_run rid (ap_runs app) = Some run" and "status run = AWAITING_APPROVAL" and "is_orchestration run"
    and "rv = \<lparr>rv_has_checkpoints = True, rv_resolver = None\<rparr>"
  shows "\<exists>e app' r. resume_run rv now id rid a None actor app = (Inl e, app') \<and> get_run rid (ap_runs app') = Some r \<and> status r = RESOLVING
    \<and> ap_tasks app' = ap_tasks app"
proof -
  have rid: "run_id run = rid" using assms(1,2) by (auto simp: keyed_def get_run_def)
  obtain st where c: "claim_run_for_resume now rid (workspace_id run) (ap_runs app) = (True, st)"
    using assms(2,3) by (auto simp: claim_run_for_resume_def get_run_def)
  obtain res app' where x: "resume_claimed rv now a actor None run (app\<lparr>ap_runs := st\<rparr>) = (res, app')"
    by (cases "resume_claimed rv now a actor None run (app\<lparr>ap_runs := st\<rparr>)")
  have "isl res"
  proof -
    have "isl (fst (resume_claimed rv now a actor None run (app\<lparr>ap_runs := st\<rparr>)))"
      by (simp add: resume_claimed_def resume_orchestration_def save_run_def Let_def assms(5))
    with x show ?thesis by simp
  qed
  moreover have "resume_run rv now id rid a None actor app = (res, app')"
    using assms(2-5) c x by (simp add: resume_run_def get_run_scoped_def resumable_agent_def)
  ultimately show ?thesis using resume_claimed_ends [OF x] rid by (auto simp: isl_def)
qed

text \<open>Any error of the framework during a resume is taken for a lost claim: the run stays RUNNING.\<close>

lemma framework_error_leaves_the_run_running:
  "ap_runs (resume_in_background de (\<lambda>st. st) now ft (Resumed (HimmyFailure m)) rid ws app) = ap_runs app"
  by (simp add: resume_in_background_def resume_result_def Let_def split: option.split)

end
