(* ===== verification/Spec2Isabelle.thy ===== *)
theory Spec2Isabelle
  imports RunAdmission StateGraph EventLog TriggerDedup Lineage AuditChain DbChain Dispatcher WorkspaceQuota RateLimit
    AuxStores HitlResume Authn Consent RunResume
begin

text \<open>
  Verification development for the himmy agent framework (Python, src/himmy).

  The program. himmy runs language-model agents for several tenants. A request is authenticated and
  turned into a principal (api/auth), whose tenant, subject and role gates guard every store. A run
  is admitted into a queue (services/storage), claimed by a dispatcher (application/dispatcher.py)
  under a lease and executed by an agent loop whose tool calls pass one pipeline
  (services/tools/service.py): capability gate, approval, validation, policy, retries. A call that
  needs approval suspends the run in a checkpoint (runtime/checkpoint.py) that a later decision
  resumes (runtime/resume.py); orchestrations run as a graph of supersteps
  (orchestrators/state_graph.py). Everything that happened is written to an append-only registry
  of versioned records (entities), which is certified by hash chains and signed bundles. Subjects
  can withdraw consent and be erased (services/governance).

  Common ground. Prelude: dictionaries as association lists (the order of insertion is the order of
  iteration in Python) with their algebra, and the collections of simplification rules. Json: JSON
  values with Python's equality. PyText: the operations of Python's str. A Python exception is
  the left side of a sum or None; a method is a function from the state before to the result and the
  state after; instants are integers; clocks, random ids, digests (SHA-1, SHA-256, HMAC, Ed25519), files,
  the environment and third-party packages are arguments of the definitions, with what the code
  relies on as a hypothesis of the theorems (for instance that uuid5 does not collide on the strings
  at hand) and an instance of it in the witness.

  Storage and the run queue.
  StorageModels: the record types of services/storage/models.py and core/events.py.
  RunStore: every method of InMemoryRunStore (services/storage/inmemory.py). RunAdmission: what they keep
  (the locale idempotent_store states the contract of creation under an idempotency key; it is interpreted
  by the run store and, in AuxStores, by the agent-definition store) and that the tenant cap is exact.
  RunQueue: the queue as a sequence of worker steps: a live lease has one owner, a run is not handed
  out twice, an expired lease is recovered. RunRetry: application/run_retry.py and the lanes. Dispatcher:
  application/dispatcher.py, permits and probe cache. WorkspaceQuota, RateLimit: application/workspace_quota.py,
  api/ratelimit.py, with the bag of outstanding permits and the bound on admitted requests. EventLog: the
  event log with its indexes against the plain stream. TriggerDedup: at most one firing per delivery, over
  the locale trigger_dedup. AuxStores: the other in-memory stores.

  The audit spine.
  Records, Registry, Lineage: entities/records.py, registry.py, lineage.py: write-once records, gapless version
  chains, the bounded trace against reachability. Canonical, Integrity, AuditChain, DbChain:
  entities/integrity.py and db_chain.py: canonical text, bundles, ordered and database-resident chains, and what
  each of them detects.

  Identity and authority.
  Principals, Rbac: api/auth/principal.py, context.py, rbac.py. Authn: apikey.py, base.py,
  service_principal.py: keys, live revocation, the choice of authenticator, service principals. ToolGate:
  services/tools/capability.py and ambient.py (gates are a preorder by what they permit).

  Tools and runs.
  ToolModels, ToolSecurity, ToolSchema, ToolService: services/tools. The pipeline is a composition of
  stages in the order of the code; the locale tool_ledger is what it needs from an idempotency ledger.
  Checkpoints: runtime/checkpoint.py; the locale checkpoint_store is interpreted by the in-memory and by the
  SQLite store, and a sublocale gives the ledger of HitlResume. HitlResume: runtime/resume.py and the parts
  of single_agent.py it calls. StateGraph: orchestrators/state_graph.py.

  Runs.
  RunLaunch, RunDrive, RunResume: application/run_enqueue.py, run_drive.py, run_recovery.py and the parts of
  services.py and run_reads.py they need. The state app is what one process shares: the run store, the workspace
  quota and the set of background tasks; what the runtime answers (a turn, a loop, an exception, a cancellation)
  is an argument, as is what other processes do to the store between two steps (between). RunLaunch: submission
  under an idempotency key, the durable cap, the inline start. RunDrive: the drive of a run and its settlement,
  retry and parking, the dispatch of a claimed run. RunResume: the decision on a waiting run, the sweep and the
  recovery after a restart; the relation process_step interleaves them all for the invariant on permits.

  Governance.
  KeyVault: services/governance/retention.py: subject keys, tenant shred, erasure with its certificate. Consent:
  consent.py and consent_ledger.py: policy, ledger and withdrawal. Envelope: services/storage/encryption.py on
  bytes (8 word): UTF-8, base64, token frames, key rotation. AtRest: at_rest.py, run_input.py: what the
  stores seal and that it reads back.

  Lemmas. Each theory first gives the definitions of its component in the order of the code, then the
  well-formedness of its state and that every operation keeps it, then the behaviour of the operations,
  then the properties (numbered C1 to C40 in the order of their importance, each with a
  witness at concrete inputs when it has hypotheses) and last the examples that
  show where the code departs from its comments.

  Loops and bounds. Recursion is structural wherever the code iterates over data. The loop of the
  state graph terminates by a measure from the visit caps, which is also its property; the steps of
  the checkpoint upgrade are bounded by the version; the attempts of a consent write are the eight
  entries of a list; the trace of lineage carries its depth. Python's integers are int; nothing in the
  modelled code wraps around, the bytes of Envelope apart, which are 8 word. Floating-point numbers are left out, or rationals where an argument needs
  them (RateLimit). Strings range over Latin-1 code points.

  Concurrency. Operations of one store run under its lock and are single steps; interleavings are
  sequences of such steps. Where the code reads, lets others act and writes (TriggerDedup, HitlResume,
  Consent, DbChain), what the others do in between is an argument.

  Not modelled. The SQL of the durable backends and their drivers, model providers, embeddings and ranking, the
  agent loop around the modelled resume (its turns are what a model answers), guardrails (regular expressions and
  models), routine schedules (time zones and background tasks), HTTP wiring, command line, configuration,
  connectors, toolkits and sandboxes. The components list of the manifest names each with its files and its reason.
\<close>

end
